(* ===== verification/Prelude.thy ===== *)
theory Prelude
  imports Main "HOL-Library.Word" "HOL-Library.Signed_Division" "HOL-Library.List_Lexorder"
    "HOL-Library.Product_Lexorder" "HOL-Library.Char_ord" "HOL-Library.Multiset"
begin

text \<open>
  What every component of the development shares: Go's machine integers (a 64-bit word read as
  two's complement), the bytes of \<^verbatim>\<open>encoding/binary\<close>'s big-endian layout, the decimal text of
  \<^verbatim>\<open>fmt\<close>'s \<^verbatim>\<open>%d\<close>, key-sorted association lists (the K-ordered map of the database), and the
  named collections the component proofs use.
\<close>

named_theorems prog_simps "evaluation of store programs"
named_theorems bin_simps "reading bins out of records"
named_theorems txn_intros "a program issues its commands inside one transaction"
named_theorems key_simps "records with different keys"

type_synonym int64 = "64 word"
type_synonym int32 = "32 word"
type_synonym byte = "8 word"
type_synonym bytes = "byte list"

section \<open>Signed 64-bit integers\<close>

text \<open>Go's \<^verbatim>\<open>/\<close> and \<^verbatim>\<open>%\<close> on \<^verbatim>\<open>int64\<close> truncate towards zero; \<^verbatim>\<open>>>\<close> is the arithmetic shift.\<close>

definition quot64 :: "int64 \<Rightarrow> int64 \<Rightarrow> int64" where
  "quot64 a b = word_of_int (sint a sdiv sint b)"

definition rem64 :: "int64 \<Rightarrow> int64 \<Rightarrow> int64" where
  "rem64 a b = word_of_int (sint a smod sint b)"

definition shr64 :: "nat \<Rightarrow> int64 \<Rightarrow> int64" where
  "shr64 n a = signed_drop_bit n a"

definition maxInt64 :: int64 where
  "maxInt64 = 9223372036854775807"

lemma sint_maxInt64 [simp]: "sint maxInt64 = 9223372036854775807"
  by (simp add: maxInt64_def)

lemma sint_range64: "- 9223372036854775808 \<le> sint (a::int64)" "sint (a::int64) \<le> 9223372036854775807"
  using sint_greater_eq [of a] sint_lt [of a] by simp_all

lemma sint_of_int64: "- 9223372036854775808 \<le> x \<Longrightarrow> x \<le> 9223372036854775807 \<Longrightarrow> sint (word_of_int x :: int64) = x"
  by (subst sint_sbintrunc') (simp add: signed_take_bit_int_eq_self)

lemma sint_shr64: "sint (shr64 n a) = sint a div 2 ^ n"
  by (simp add: shr64_def sint_signed_drop_bit_eq drop_bit_eq_div)

lemma sint_eq_uint64: "0 \<le> sint (a::int64) \<Longrightarrow> sint a = uint a"
proof -
  assume "0 \<le> sint a"
  then have "uint a = take_bit 64 (sint a)" by (simp add: uint_sint)
  also have "\<dots> = sint a"
    using \<open>0 \<le> sint a\<close> sint_range64 [of a] by (intro take_bit_int_eq_self) simp_all
  finally show "sint a = uint a" by simp
qed

lemma sdiv_nonneg: "0 \<le> (a::int) \<Longrightarrow> 0 < b \<Longrightarrow> a sdiv b = a div b"
  by (simp add: signed_divide_int_def sgn_if)

lemma smod_nonneg: "0 \<le> (a::int) \<Longrightarrow> 0 < b \<Longrightarrow> a smod b = a mod b"
  by (cases "a = 0") (auto simp: signed_modulo_int_def sdiv_nonneg minus_div_mult_eq_mod)

lemma sint_quot64:
  assumes "0 \<le> sint a" "0 < sint b"
  shows "sint (quot64 a b) = sint a div sint b"
proof -
  have "0 \<le> sint a div sint b" using assms by (simp add: pos_imp_zdiv_nonneg_iff)
  moreover have "sint a div sint b \<le> sint a" using assms zdiv_mono2 [of "sint a" 1 "sint b"] by simp
  ultimately show ?thesis
    using assms sint_range64 [of a] by (simp add: quot64_def sdiv_nonneg sint_of_int64)
qed

lemma sint_rem64:
  assumes "0 \<le> sint a" "0 < sint b"
  shows "sint (rem64 a b) = sint a mod sint b"
proof -
  have "0 \<le> sint a mod sint b" "sint a mod sint b < sint b" using assms by simp_all
  then have "sint (word_of_int (sint a mod sint b) :: int64) = sint a mod sint b"
    using sint_range64 [of b] by (intro sint_of_int64) linarith+
  then show ?thesis
    using assms by (simp add: rem64_def smod_nonneg)
qed

lemma sint_inject64: "sint (a::int64) = sint b \<longleftrightarrow> a = b"
  by (auto intro: signed_word_eqI)

lemma uint_less_sint64: "0 \<le> sint (a::int64) \<Longrightarrow> 0 \<le> sint b \<Longrightarrow> a < b \<longleftrightarrow> sint a < sint b"
  by (simp add: word_less_def sint_eq_uint64)

lemma sint_plus_one64: "sint (a::int64) < 9223372036854775807 \<Longrightarrow> sint (a + 1) = sint a + 1"
proof -
  assume a: "sint (a::int64) < 9223372036854775807"
  have "sint (a + 1) = sint (word_of_int (sint a + 1) :: int64)"
    by simp
  also have "\<dots> = sint a + 1"
    using a sint_range64 [of a] by (intro sint_of_int64) auto
  finally show ?thesis .
qed

lemma sint_minus_one64: "- 9223372036854775808 < sint (a::int64) \<Longrightarrow> sint (a - 1) = sint a - 1"
proof -
  assume a: "- 9223372036854775808 < sint (a::int64)"
  have "sint (a - 1) = sint (word_of_int (sint a - 1) :: int64)"
    by simp
  also have "\<dots> = sint a - 1"
    using a sint_range64 [of a] by (intro sint_of_int64) auto
  finally show ?thesis .
qed

section \<open>Big-endian bytes\<close>

text \<open>\<^verbatim>\<open>binary.BigEndian.PutUint64\<close> and \<^verbatim>\<open>Uint64\<close>: the eight bytes of a word, most significant first.\<close>

fun be_nat :: "nat \<Rightarrow> nat \<Rightarrow> bytes" where
  "be_nat 0 k = []"
| "be_nat (Suc n) k = of_nat (k div 256 ^ n) # be_nat n (k mod 256 ^ n)"

fun of_be :: "bytes \<Rightarrow> nat" where
  "of_be [] = 0"
| "of_be (b # bs) = unat b * 256 ^ length bs + of_be bs"

definition PutUint64 :: "64 word \<Rightarrow> bytes" where
  "PutUint64 w = be_nat 8 (unat w)"

definition Uint64 :: "bytes \<Rightarrow> 64 word" where
  "Uint64 bs = of_nat (of_be bs)"

lemma length_be_nat [simp]: "length (be_nat n k) = n"
  by (induction n arbitrary: k) simp_all

lemma unat_of_nat_byte: "d < 256 \<Longrightarrow> unat (of_nat d :: byte) = d"
  by (simp add: unat_of_nat take_bit_nat_eq_self)

lemma digit_lt: "k < 256 ^ Suc n \<Longrightarrow> k div 256 ^ n < (256::nat)"
  by (simp add: less_mult_imp_div_less mult.commute)

lemma of_be_be_nat: "k < 256 ^ n \<Longrightarrow> of_be (be_nat n k) = k"
proof (induction n arbitrary: k)
  case (Suc n)
  have "of_be (be_nat n (k mod 256 ^ n)) = k mod 256 ^ n"
    by (rule Suc.IH) simp
  with Suc.prems digit_lt [of k n] div_mult_mod_eq [of k "256 ^ n"] show ?case
    by (simp add: unat_of_nat_byte)
qed simp

lemma less_by_div: "(k::nat) < l \<longleftrightarrow> k div d < l div d \<or> k div d = l div d \<and> k mod d < l mod d"
proof -
  have "k div d < l div d \<Longrightarrow> k < l"
    by (meson div_le_mono leD leI)
  moreover have "l div d < k div d \<Longrightarrow> \<not> k < l"
    using div_le_mono [of k l d] by auto
  moreover have "k div d = l div d \<Longrightarrow> k < l \<longleftrightarrow> k mod d < l mod d"
    using div_mult_mod_eq [of k d] div_mult_mod_eq [of l d] by (metis nat_add_left_cancel_less)
  ultimately show ?thesis by (meson linorder_neqE_nat)
qed

lemma be_nat_less:
  assumes "k < 256 ^ n" "l < 256 ^ n"
  shows "be_nat n k < be_nat n l \<longleftrightarrow> k < l"
  using assms
proof (induction n arbitrary: k l)
  case (Suc n)
  let ?dk = "k div 256 ^ n" and ?dl = "l div 256 ^ n"
  have d: "?dk < 256" "?dl < 256" using Suc.prems digit_lt by blast+
  have lt: "(of_nat ?dk :: byte) < of_nat ?dl \<longleftrightarrow> ?dk < ?dl"
    using d by (simp add: word_less_nat_alt unat_of_nat_byte)
  have eq: "(of_nat ?dk :: byte) = of_nat ?dl \<longleftrightarrow> ?dk = ?dl"
    using d by (metis unat_of_nat_byte)
  have IH: "be_nat n (k mod 256 ^ n) < be_nat n (l mod 256 ^ n) \<longleftrightarrow> k mod 256 ^ n < l mod 256 ^ n"
    by (rule Suc.IH) simp_all
  show ?case using less_by_div [of k l "256 ^ n"] by (simp add: lt eq IH)
qed simp

lemma unat_lt_be: "unat (w :: 64 word) < 256 ^ 8"
  using unsigned_less [of w, where ?'a = nat] by simp

lemma length_PutUint64 [simp]: "length (PutUint64 w) = 8"
  by (simp add: PutUint64_def)

lemma Uint64_PutUint64 [simp]: "Uint64 (PutUint64 w) = w"
  by (simp add: PutUint64_def Uint64_def of_be_be_nat [OF unat_lt_be])

lemma PutUint64_less: "PutUint64 v < PutUint64 w \<longleftrightarrow> v < w"
  unfolding PutUint64_def word_less_nat_alt by (rule be_nat_less) (rule unat_lt_be)+

lemma PutUint64_inject [simp]: "PutUint64 v = PutUint64 w \<longleftrightarrow> v = w"
  by (metis Uint64_PutUint64)

lemma append_less_same_length:
  fixes xs ys :: "'a::linorder list"
  shows "length xs = length ys \<Longrightarrow> xs @ us < ys @ vs \<longleftrightarrow> xs < ys \<or> xs = ys \<and> us < vs"
  by (induction xs ys rule: list_induct2) auto

lemma PutUint64_append_less:
  "PutUint64 a @ PutUint64 b < PutUint64 c @ PutUint64 d \<longleftrightarrow> a < c \<or> a = c \<and> b < d"
  by (simp add: append_less_same_length PutUint64_less)

section \<open>Decimal text\<close>

definition digit :: "nat \<Rightarrow> char" where
  "digit d = char_of (48 + d)"

fun dec_nat :: "nat \<Rightarrow> string" where
  "dec_nat n = (if n < 10 then [digit n] else dec_nat (n div 10) @ [digit (n mod 10)])"

declare dec_nat.simps [simp del]

definition dec_int :: "int \<Rightarrow> string" where
  "dec_int i = (if i < 0 then CHR ''-'' # dec_nat (nat (- i)) else dec_nat (nat i))"

definition undec :: "string \<Rightarrow> nat" where
  "undec s = foldl (\<lambda>a c. a * 10 + (of_char c - 48)) 0 s"

lemma of_char_digit [simp]: "d < 10 \<Longrightarrow> of_char (digit d) = (48 + d :: nat)"
  by (simp add: digit_def of_char_of)

lemma undec_dec_nat: "undec (dec_nat n) = n"
proof (induction n rule: dec_nat.induct)
  case (1 n)
  then show ?case
    by (subst dec_nat.simps) (auto simp: undec_def)
qed

lemma dec_nat_inject [simp]: "dec_nat m = dec_nat n \<longleftrightarrow> m = n"
  by (metis undec_dec_nat)

lemma dec_nat_digits: "c \<in> set (dec_nat n) \<Longrightarrow> 48 \<le> (of_char c :: nat) \<and> (of_char c :: nat) < 58"
proof (induction n rule: dec_nat.induct)
  case (1 n)
  then show ?case
    by (subst (asm) (2) dec_nat.simps) (auto split: if_splits)
qed

lemma dec_nat_chars: "CHR '':'' \<notin> set (dec_nat n)" "CHR ''-'' \<notin> set (dec_nat n)"
  using dec_nat_digits [of "CHR '':''" n] dec_nat_digits [of "CHR ''-''" n] by auto

lemma dec_int_inject [simp]: "dec_int i = dec_int j \<longleftrightarrow> i = j"
  using dec_nat_chars(2) [of "nat i"] dec_nat_chars(2) [of "nat j"]
  by (auto simp: dec_int_def split: if_splits) (metis list.set_intros(1))+

lemma dec_int_no_colon [simp]: "CHR '':'' \<notin> set (dec_int i)"
  using dec_nat_chars(1) by (auto simp: dec_int_def)

lemma colon_split_left:
  "CHR '':'' \<notin> set a \<Longrightarrow> CHR '':'' \<notin> set b \<Longrightarrow> a @ CHR '':'' # x = b @ CHR '':'' # y \<longleftrightarrow> a = b \<and> x = y"
  by (auto simp: append_eq_append_conv2 Cons_eq_append_conv append_eq_Cons_conv)

lemma colon_split_right:
  assumes "CHR '':'' \<notin> set x" "CHR '':'' \<notin> set y"
  shows "a @ CHR '':'' # x = b @ CHR '':'' # y \<longleftrightarrow> a = b \<and> x = y"
  using assms by (auto simp: append_eq_append_conv2 Cons_eq_append_conv append_eq_Cons_conv)

section \<open>Key-ordered maps\<close>

type_synonym ('k, 'v) omap = "('k \<times> 'v) list"

definition omap_ok :: "('k::linorder, 'v) omap \<Rightarrow> bool" where
  "omap_ok m \<longleftrightarrow> sorted_wrt (<) (map fst m)"

fun omap_put :: "'k::linorder \<Rightarrow> 'v \<Rightarrow> ('k, 'v) omap \<Rightarrow> ('k, 'v) omap" where
  "omap_put k v [] = [(k, v)]"
| "omap_put k v (p # m) =
     (if fst p < k then p # omap_put k v m
      else if k = fst p then (k, v) # m else (k, v) # p # m)"

definition omap_del :: "'k \<Rightarrow> ('k, 'v) omap \<Rightarrow> ('k, 'v) omap" where
  "omap_del k m = filter (\<lambda>p. fst p \<noteq> k) m"

definition in_range :: "'k::linorder \<Rightarrow> 'k option \<Rightarrow> 'k \<Rightarrow> bool" where
  "in_range lo hi k \<longleftrightarrow> lo \<le> k \<and> (case hi of None \<Rightarrow> True | Some h \<Rightarrow> k < h)"

definition omap_range :: "'k::linorder \<Rightarrow> 'k option \<Rightarrow> ('k, 'v) omap \<Rightarrow> ('k, 'v) omap" where
  "omap_range lo hi m = filter (\<lambda>p. in_range lo hi (fst p)) m"

definition omap_rdel :: "'k::linorder \<Rightarrow> 'k option \<Rightarrow> ('k, 'v) omap \<Rightarrow> ('k, 'v) omap" where
  "omap_rdel lo hi m = filter (\<lambda>p. \<not> in_range lo hi (fst p)) m"

lemma omap_ok_Nil [simp]: "omap_ok []"
  by (simp add: omap_ok_def)

lemma omap_ok_Cons: "omap_ok (p # m) \<longleftrightarrow> (\<forall>q \<in> set m. fst p < fst q) \<and> omap_ok m"
  by (auto simp: omap_ok_def)

lemma fst_set_omap_put: "fst ` set (omap_put k v m) = insert k (fst ` set m)"
  by (induction m) auto

lemma omap_put_ok: "omap_ok m \<Longrightarrow> omap_ok (omap_put k v m)"
proof (induction m)
  case (Cons p m)
  have "\<forall>q \<in> set (omap_put k v m). fst q \<in> insert k (fst ` set m)"
    using fst_set_omap_put [of k v m] by (metis imageI)
  with Cons show ?case
    by (fastforce simp: omap_ok_Cons)
qed (simp add: omap_ok_Cons)

lemma map_of_omap_put: "map_of (omap_put k v m) = (map_of m)(k \<mapsto> v)"
  by (induction m) (auto simp: fun_eq_iff)

lemma omap_filter_ok: "omap_ok m \<Longrightarrow> omap_ok (filter P m)"
  by (induction m) (auto simp: omap_ok_Cons)

lemma omap_del_ok: "omap_ok m \<Longrightarrow> omap_ok (omap_del k m)"
  by (simp add: omap_del_def omap_filter_ok)

lemma omap_range_ok: "omap_ok m \<Longrightarrow> omap_ok (omap_range lo hi m)"
  by (simp add: omap_range_def omap_filter_ok)

lemma omap_rdel_ok: "omap_ok m \<Longrightarrow> omap_ok (omap_rdel lo hi m)"
  by (simp add: omap_rdel_def omap_filter_ok)

lemma map_of_filter_fst: "map_of (filter (\<lambda>p. P (fst p)) m) k = (if P k then map_of m k else None)"
  by (induction m) auto

lemma map_of_omap_del: "map_of (omap_del k m) = (map_of m)(k := None)"
  by (simp add: omap_del_def fun_eq_iff map_of_filter_fst [where P = "\<lambda>x. x \<noteq> k"])

lemma map_of_omap_range: "map_of (omap_range lo hi m) k = (if in_range lo hi k then map_of m k else None)"
  by (simp add: omap_range_def map_of_filter_fst [where P = "in_range lo hi"])

lemma map_of_omap_rdel: "map_of (omap_rdel lo hi m) k = (if in_range lo hi k then None else map_of m k)"
  by (simp add: omap_rdel_def map_of_filter_fst [where P = "\<lambda>x. \<not> in_range lo hi x"])

lemma omap_ok_distinct: "omap_ok m \<Longrightarrow> distinct (map fst m)"
  by (induction m) (auto simp: omap_ok_Cons)

lemma omap_map_of: "omap_ok m \<Longrightarrow> map_of m k = Some v \<longleftrightarrow> (k, v) \<in> set m"
  by (simp add: omap_ok_distinct)

text \<open>A key-ordered map is determined by its entries.\<close>

lemma omap_set_ext: "omap_ok m \<Longrightarrow> omap_ok n \<Longrightarrow> set m = set n \<Longrightarrow> m = n"
proof (induction m arbitrary: n)
  case Nil
  then show ?case by simp
next
  case (Cons p m)
  from Cons.prems(3) obtain q n' where n: "n = q # n'" by (cases n) auto
  have "p = q"
    using Cons.prems by (auto simp: n omap_ok_Cons) (metis insertE insertI1 order_less_asym)
  moreover have "p \<notin> set m" "q \<notin> set n'"
    using Cons.prems by (auto simp: n omap_ok_Cons)
  ultimately have "set m = set n'"
    using Cons.prems(3) by (auto simp: n)
  then have "m = n'"
    using Cons.prems by (intro Cons.IH) (auto simp: n omap_ok_Cons)
  then show ?case by (simp add: n \<open>p = q\<close>)
qed

lemma omap_ext: "omap_ok m \<Longrightarrow> omap_ok n \<Longrightarrow> map_of m = map_of n \<Longrightarrow> m = n"
  by (simp add: omap_set_ext map_of_inject_set omap_ok_distinct)

end
