(* ===== verification/GoValues.thy ===== *)
theory GoValues
  imports Prelude
begin

text \<open>
  The dynamically typed values the Aerospike Go client hands back (\<^verbatim>\<open>any\<close>), the records it returns,
  and the readers of \<^verbatim>\<open>store/aerospike/client.go\<close> and \<^verbatim>\<open>mutable_state.go\<close> that normalise them.
  A Go value is modelled by its dynamic type and payload; \<^verbatim>\<open>GOther\<close> stands for every dynamic type
  the store never writes. A nil byte slice and an empty one are identified, as are a nil list and an
  empty one. The protobuf enum \<^verbatim>\<open>EncodingType\<close> is an integer; its \<^verbatim>\<open>String()\<close> method and the
  Temporal functions \<^verbatim>\<open>NewDataBlob\<close>, \<^verbatim>\<open>ValidateCreateWorkflowStateStatus\<close> and so on are not part of
  the repository and are fields of the parameter record \<open>env\<close>, next to the settings of the
  \<^verbatim>\<open>Config\<close> that the key builder and the client policies use.
\<close>

datatype gval =
    GNil
  | GInt int64
  | GInt64 int64
  | GBool bool
  | GString string
  | GBytes bytes
  | GByteArray bytes
  | GList "gval list"
  | GPairs "(gval \<times> gval) list"
  | GMap "(gval \<times> gval) list"
  | GOther

record as_record =
  Bins :: "string \<Rightarrow> gval"
  Digest :: string

type_synonym enc = int

record blob =
  blob_data :: bytes
  blob_enc :: enc

section \<open>Typed readers\<close>

fun asInt64 :: "gval \<Rightarrow> int64 option" where
  "asInt64 (GInt n) = Some n"
| "asInt64 (GInt64 n) = Some n"
| "asInt64 _ = None"

fun asBytes :: "gval \<Rightarrow> bytes option" where
  "asBytes (GBytes b) = Some b"
| "asBytes (GByteArray b) = Some b"
| "asBytes _ = None"

fun asString :: "gval \<Rightarrow> string option" where
  "asString (GString s) = Some s"
| "asString _ = None"

fun asList :: "gval \<Rightarrow> gval list option" where
  "asList (GList vs) = Some vs"
| "asList _ = None"

text \<open>A comma-ok assertion whose flag is dropped yields the zero value.\<close>

definition orZero :: "'a option \<Rightarrow> 'a \<Rightarrow> 'a" where
  "orZero v z = (case v of None \<Rightarrow> z | Some x \<Rightarrow> x)"

lemma orZero_simps [simp]: "orZero None z = z" "orZero (Some x) z = x"
  by (simp_all add: orZero_def)

definition binInt64 :: "as_record \<Rightarrow> string \<Rightarrow> int64" where
  "binInt64 rec name = orZero (asInt64 (Bins rec name)) 0"

definition binString :: "as_record \<Rightarrow> string \<Rightarrow> string" where
  "binString rec name = orZero (asString (Bins rec name)) ''''"

definition binBool :: "as_record \<Rightarrow> string \<Rightarrow> bool" where
  "binBool rec name = (case Bins rec name of GBool v \<Rightarrow> v | GInt v \<Rightarrow> v \<noteq> 0 | _ \<Rightarrow> False)"

definition binBytes :: "as_record \<Rightarrow> string \<Rightarrow> bytes option" where
  "binBytes rec name = asBytes (Bins rec name)"

definition recordMapPairs :: "as_record \<Rightarrow> string \<Rightarrow> (gval \<times> gval) list" where
  "recordMapPairs rec bin = (case Bins rec bin of GPairs m \<Rightarrow> m | GMap m \<Rightarrow> m | _ \<Rightarrow> [])"

definition lastOpResultInt :: "as_record \<Rightarrow> string \<Rightarrow> int64 option" where
  "lastOpResultInt rec bin =
     (case Bins rec bin of
        GList vs \<Rightarrow> (if vs = [] then None else asInt64 (last vs))
      | v \<Rightarrow> asInt64 v)"

definition mapKeyList :: "as_record \<Rightarrow> string \<Rightarrow> bytes list" where
  "mapKeyList rec bin =
     (case asList (Bins rec bin) of None \<Rightarrow> [] | Some raw \<Rightarrow> List.map_filter asBytes raw)"

section \<open>Temporal's types, and the functions outside the repository\<close>

text \<open>
  \<^verbatim>\<open>persistencespb.WorkflowExecutionState\<close>, \<^verbatim>\<open>persistencespb.HistoryBranch\<close>, \<^verbatim>\<open>tasks.Key\<close> (its
  \<^verbatim>\<open>FireTime\<close> by \<^verbatim>\<open>UnixNano\<close>) and \<^verbatim>\<open>tasks.Category\<close>, with the fields the store reads.
\<close>

record wf_state =
  ws_requestIDs :: "string list"
  ws_runID :: string
  ws_state :: int32
  ws_status :: int32
  ws_startTime :: "int64 option"

record branch_info =
  br_treeID :: string
  br_branchID :: string

record task_key =
  FireTime :: int64
  TaskID :: int64

record category =
  cat_id :: int
  cat_scheduled :: bool

datatype rcode =
    KEY_NOT_FOUND_ERROR | TIMEOUT | MRT_EXPIRED | KEY_BUSY | MRT_BLOCKED | MRT_ALREADY_LOCKED
  | DEVICE_OVERLOAD | SERVER_NOT_AVAILABLE | MRT_TOO_MANY_WRITES | GENERATION_ERROR | FILTERED_OUT
  | KEY_EXISTS_ERROR | MRT_VERSION_MISMATCH | TXN_FAILED | OtherCode int

text \<open>
  A Go error, as far as the store looks at it: an \<^verbatim>\<open>as.Error\<close> with the result codes of its chain, or
  any other error.
\<close>

datatype goerr = AsError "rcode list" | PlainError string

text \<open>What the store's methods return to Temporal; the formatted message texts are dropped.\<close>

datatype diag = DiagUnknown | DiagMissing | DiagFound int64 string | DiagNone

record cwf_error =
  cwf_requestIDs :: "string list"
  cwf_runID :: string
  cwf_state :: int32
  cwf_status :: int32
  cwf_lastWriteVersion :: int64
  cwf_startTime :: "int64 option"

datatype perr =
    Unavailable string
  | NotFound string
  | PersistenceTimeout string
  | TransactionTooLarge string
  | ShardOwnershipLost int32 diag
  | ConditionFailed string
  | WorkflowConditionFailed int64 int64
  | CurrentWorkflowConditionFailed cwf_error
  | Internal string
  | InvalidArgument string
  | NamespaceAlreadyExists string
  | NamespaceNotFound string
  | QueueAlreadyExists int string
  | QueueNotFound int string
  | InvalidReadQueueMessagesNextPageToken
  | NonPositiveReadQueueMessagesPageSize
  | InvalidListQueuesNextPageToken
  | NonPositiveListQueuesPageSize
  | InvalidQueueRangeDeleteMaxMessageID int64
  | UnknownEncodingType string
  | NexusTableVersionConflict
  | NexusEndpointVersionConflict
  | Unimplemented string
  | External string

record env =
  kb_namespace :: string
  kb_prefix :: string
  cfg_SocketTimeout :: int
  cfg_TotalTimeout :: int
  cfg_SendKey :: bool
  EncodingType_String :: "enc \<Rightarrow> string"
  EncodingTypeFromString :: "string \<Rightarrow> enc option"
  NewDataBlob :: "bytes \<Rightarrow> string \<Rightarrow> blob"
  ValidateCreateWorkflowStateStatus :: "int32 \<Rightarrow> int32 \<Rightarrow> perr option"
  ValidateUpdateWorkflowStateStatus :: "int32 \<Rightarrow> int32 \<Rightarrow> perr option"
  WorkflowExecutionStateFromBlob :: "blob \<Rightarrow> goerr + wf_state"
  ParseHistoryBranchInfo :: "bytes \<Rightarrow> perr + branch_info"
  ReplicationTaskInfoToBlob :: "int64 \<times> bytes \<Rightarrow> goerr + blob"
  NewImmediateKey :: "int64 \<Rightarrow> task_key"
  rangeOrder :: "nat \<Rightarrow> nat list"
  UnspecifiedArchetypeID :: int
  WorkflowArchetypeID :: int
  WORKFLOW_EXECUTION_STATE_COMPLETED :: int32
  FirstQueueMessageID :: int64
  ServiceType_All :: int
  IP_String :: "bytes option \<Rightarrow> string"
  ParseIP :: "string \<Rightarrow> bytes option"

text \<open>
  Go leaves the order of a \<^verbatim>\<open>range\<close> over a map open. Where the store builds a map and ranges over it,
  the order is the permutation \<open>rangeOrder\<close> of the environment.
\<close>

definition rangeMap :: "env \<Rightarrow> 'a list \<Rightarrow> 'a list" where
  "rangeMap E xs = map (\<lambda>i. xs ! i) (rangeOrder E (length xs))"

section \<open>Blobs as bins and as map values\<close>

definition blobBins :: "env \<Rightarrow> string \<Rightarrow> string \<Rightarrow> blob option \<Rightarrow> (string \<times> gval) list" where
  "blobBins E dataBin encBin b =
     (case b of
        None \<Rightarrow> [(dataBin, GNil), (encBin, GNil)]
      | Some x \<Rightarrow> [(dataBin, GBytes (blob_data x)), (encBin, GString (EncodingType_String E (blob_enc x)))])"

definition readBlob :: "env \<Rightarrow> as_record \<Rightarrow> string \<Rightarrow> string \<Rightarrow> blob option" where
  "readBlob E rec dataBin encBin =
     (case asBytes (Bins rec dataBin) of
        None \<Rightarrow> None
      | Some data \<Rightarrow> Some (NewDataBlob E data (orZero (asString (Bins rec encBin)) '''')))"

definition blobValue :: "env \<Rightarrow> blob option \<Rightarrow> gval" where
  "blobValue E b =
     (case b of
        None \<Rightarrow> GList []
      | Some x \<Rightarrow> GList [GBytes (blob_data x), GString (EncodingType_String E (blob_enc x))])"

definition blobFromValue :: "env \<Rightarrow> gval \<Rightarrow> blob option" where
  "blobFromValue E v =
     (case v of
        GList (d # e # _) \<Rightarrow>
          (case asBytes d of
             None \<Rightarrow> None
           | Some data \<Rightarrow> Some (NewDataBlob E data (orZero (asString e) '''')))
      | _ \<Rightarrow> None)"

text \<open>
  The interface the store relies on: \<^verbatim>\<open>NewDataBlob\<close> inverts \<^verbatim>\<open>EncodingType.String\<close>, an immediate key
  carries the task id it was made from, and ranging over a map visits every entry once.
\<close>

locale temporal_api =
  fixes E :: env
  assumes NewDataBlob_String: "NewDataBlob E (blob_data b) (EncodingType_String E (blob_enc b)) = b"
    and EncodingTypeFromString_String: "EncodingTypeFromString E (EncodingType_String E e) = Some e"
    and TaskID_NewImmediateKey: "TaskID (NewImmediateKey E i) = i"
    and rangeOrder_perm: "mset (rangeOrder E n) = mset [0..<n]"
begin

lemma blobFromValue_blobValue: "blobFromValue E (blobValue E b) = b"
  by (cases b) (simp_all add: blobFromValue_def blobValue_def NewDataBlob_String)

lemma mset_rangeMap: "mset (rangeMap E xs) = mset xs"
proof -
  have "mset (rangeMap E xs) = image_mset ((!) xs) (mset [0..<length xs])"
    unfolding rangeMap_def mset_map rangeOrder_perm ..
  also have "\<dots> = mset xs"
    by (metis map_nth mset_map)
  finally show ?thesis .
qed

lemma set_rangeMap: "set (rangeMap E xs) = set xs"
  using mset_rangeMap by (metis set_mset_mset)

end

text \<open>An environment that satisfies the interface, for concrete runs.\<close>

definition sample_env :: env where
  "sample_env = \<lparr>
     kb_namespace = ''temporal'', kb_prefix = '''',
     cfg_SocketTimeout = 10000000000, cfg_TotalTimeout = 15000000000, cfg_SendKey = False,
     EncodingType_String = (\<lambda>e. dec_int e),
     EncodingTypeFromString = (\<lambda>s. if s = [] then None else
        Some (if hd s = CHR ''-'' then - int (undec (tl s)) else int (undec s))),
     NewDataBlob = (\<lambda>d s. \<lparr>blob_data = d, blob_enc =
        (if s \<noteq> [] \<and> hd s = CHR ''-'' then - int (undec (tl s)) else int (undec s))\<rparr>),
     ValidateCreateWorkflowStateStatus = (\<lambda>_ _. None),
     ValidateUpdateWorkflowStateStatus = (\<lambda>_ _. None),
     WorkflowExecutionStateFromBlob = (\<lambda>b. Inr \<lparr>ws_requestIDs = [], ws_runID = '''',
        ws_state = of_nat (length (blob_data b)), ws_status = 0, ws_startTime = None\<rparr>),
     ParseHistoryBranchInfo = (\<lambda>b. Inr \<lparr>br_treeID = map (\<lambda>x. char_of (unat x)) b, br_branchID = ''b''\<rparr>),
     ReplicationTaskInfoToBlob = (\<lambda>(i, b). Inr \<lparr>blob_data = b, blob_enc = 1\<rparr>),
     NewImmediateKey = (\<lambda>i. \<lparr>FireTime = 0, TaskID = i\<rparr>),
     rangeOrder = (\<lambda>n. [0..<n]),
     UnspecifiedArchetypeID = 0, WorkflowArchetypeID = 1, WORKFLOW_EXECUTION_STATE_COMPLETED = 3,
     FirstQueueMessageID = 0, ServiceType_All = 0,
     IP_String = (\<lambda>ip. case ip of None \<Rightarrow> ''<nil>'' | Some b \<Rightarrow> map (\<lambda>x. char_of (unat x)) b),
     ParseIP = (\<lambda>s. Some (map (\<lambda>c. of_nat (of_char c)) s)) \<rparr>"

lemma dec_nat_nonempty: "dec_nat n \<noteq> []"
  by (subst dec_nat.simps) simp

lemma hd_dec_nat: "hd (dec_nat n) \<noteq> CHR ''-''"
  using dec_nat_chars(2) [of n] dec_nat_nonempty [of n] hd_in_set by metis

lemma sample_enc_roundtrip:
  "(if dec_int e \<noteq> [] \<and> hd (dec_int e) = CHR ''-'' then - int (undec (tl (dec_int e))) else int (undec (dec_int e))) = e"
  by (simp add: dec_int_def hd_dec_nat undec_dec_nat dec_nat_nonempty)

interpretation sample: temporal_api sample_env
proof
  show "NewDataBlob sample_env (blob_data b) (EncodingType_String sample_env (blob_enc b)) = b" for b
    by (simp add: sample_env_def sample_enc_roundtrip)
  show "EncodingTypeFromString sample_env (EncodingType_String sample_env e) = Some e" for e
    by (simp add: sample_env_def dec_int_def hd_dec_nat undec_dec_nat dec_nat_nonempty)
qed (simp_all add: sample_env_def)

end
