(* ===== verification/AeroErrors.thy ===== *)
theory AeroErrors
  imports GoValues
begin

text \<open>
  \<^verbatim>\<open>store/aerospike/errors.go\<close>: classification of client errors and their translation into Temporal's
  error vocabulary, and \<^verbatim>\<open>classifyCommitError\<close> of \<^verbatim>\<open>execution_store.go\<close>.
\<close>

text \<open>\<^verbatim>\<open>as.Error.Matches\<close>: does the error, or one it wraps, carry one of these result codes?\<close>

fun asMatches :: "goerr \<Rightarrow> rcode list \<Rightarrow> bool" where
  "asMatches (AsError codes) rcs = list_ex (\<lambda>c. c \<in> set rcs) codes"
| "asMatches (PlainError _) rcs = False"

definition isNotFound :: "goerr \<Rightarrow> bool" where
  "isNotFound err = asMatches err [KEY_NOT_FOUND_ERROR]"

definition isGenerationMismatch :: "goerr \<Rightarrow> bool" where
  "isGenerationMismatch err = asMatches err [GENERATION_ERROR]"

definition isFilteredOut :: "goerr \<Rightarrow> bool" where
  "isFilteredOut err = asMatches err [FILTERED_OUT]"

definition isKeyExists :: "goerr \<Rightarrow> bool" where
  "isKeyExists err = asMatches err [KEY_EXISTS_ERROR]"

definition isTxnConflict :: "goerr \<Rightarrow> bool" where
  "isTxnConflict err = asMatches err [MRT_VERSION_MISMATCH, MRT_BLOCKED, MRT_ALREADY_LOCKED, TXN_FAILED]"

fun convertError :: "string \<Rightarrow> goerr \<Rightarrow> perr" where
  "convertError operation (PlainError m) = Unavailable operation"
| "convertError operation (AsError codes) =
     (if asMatches (AsError codes) [KEY_NOT_FOUND_ERROR] then NotFound operation
      else if asMatches (AsError codes) [TIMEOUT, MRT_EXPIRED] then PersistenceTimeout operation
      else if asMatches (AsError codes) [KEY_BUSY, MRT_BLOCKED, MRT_ALREADY_LOCKED, DEVICE_OVERLOAD, SERVER_NOT_AVAILABLE]
        then Unavailable operation
      else if asMatches (AsError codes) [MRT_TOO_MANY_WRITES] then TransactionTooLarge operation
      else Unavailable operation)"

definition classifyCommitError :: "string \<Rightarrow> goerr \<Rightarrow> perr" where
  "classifyCommitError operation err =
     (if isTxnConflict err \<or> isFilteredOut err then ConditionFailed operation
      else convertError operation err)"

text \<open>
  The outcomes the server reports about the record itself, as opposed to a failure to execute the
  command: a rejected command of these four kinds has not been applied.
\<close>

definition definite :: "goerr \<Rightarrow> bool" where
  "definite e \<longleftrightarrow> isNotFound e \<or> isKeyExists e \<or> isFilteredOut e \<or> isGenerationMismatch e"

lemmas err_defs = isNotFound_def isKeyExists_def isFilteredOut_def isGenerationMismatch_def isTxnConflict_def definite_def

lemma asMatches_single [simp]: "asMatches (AsError [c]) rcs \<longleftrightarrow> c \<in> set rcs"
  by simp

lemma code_classes [simp]:
  "isNotFound (AsError [KEY_NOT_FOUND_ERROR])" "\<not> isNotFound (AsError [FILTERED_OUT])"
  "\<not> isNotFound (AsError [KEY_EXISTS_ERROR])" "isFilteredOut (AsError [FILTERED_OUT])"
  "\<not> isFilteredOut (AsError [KEY_NOT_FOUND_ERROR])" "\<not> isFilteredOut (AsError [KEY_EXISTS_ERROR])"
  "isKeyExists (AsError [KEY_EXISTS_ERROR])" "\<not> isKeyExists (AsError [KEY_NOT_FOUND_ERROR])"
  "\<not> isKeyExists (AsError [FILTERED_OUT])"
  "\<not> isNotFound (AsError [OtherCode n])" "\<not> isFilteredOut (AsError [OtherCode n])" "\<not> isKeyExists (AsError [OtherCode n])"
  by (simp_all add: err_defs)

lemma indefinite [simp]: "\<not> definite e \<Longrightarrow> \<not> isNotFound e" "\<not> definite e \<Longrightarrow> \<not> isKeyExists e"
    "\<not> definite e \<Longrightarrow> \<not> isFilteredOut e"
  by (simp_all add: definite_def)

text \<open>What a caller of \<^verbatim>\<open>convertError\<close> can see: one of four kinds, all carrying the operation.\<close>

lemma convertError_range:
  "convertError op e \<in> {Unavailable op, NotFound op, PersistenceTimeout op, TransactionTooLarge op}"
  by (cases e) simp_all

lemma convertError_NotFound: "convertError op e = NotFound op' \<longleftrightarrow> isNotFound e \<and> op' = op"
  by (cases e) (auto simp: isNotFound_def)

end
