(* ===== verification/AeroClient.thy ===== *)
theory AeroClient
  imports AeroErrors
begin

text \<open>
  The commands the store sends to the Aerospike client, the policies of \<^verbatim>\<open>client.go\<close> they carry, and
  store programs: a program issues a command and continues with the response. The server is not part
  of the repository; it is the parameter \<open>srv\<close> of \<open>run\<close>. Deadlines of the caller's context only
  shorten \<^verbatim>\<open>TotalTimeout\<close>, that is, they only decide whether a command fails, and a server may fail any
  command; the programs carry the configured timeouts.
\<close>

section \<open>Keys, map keys and operations\<close>

datatype ukey = UInt int | UStr string | UBytes bytes

datatype askey = AKey (key_ns: string) (key_set: string) (key_user: ukey)

datatype mkey = KInt int64 | KStr string | KBytes bytes

text \<open>
  The order of the keys of a K-ordered map: integers by value, then strings, then byte strings, the
  latter two bytewise.
\<close>

fun mkey_rank :: "mkey \<Rightarrow> nat \<times> int \<times> nat list" where
  "mkey_rank (KInt i) = (0, sint i, [])"
| "mkey_rank (KStr s) = (1, 0, map of_char s)"
| "mkey_rank (KBytes b) = (2, 0, map unat b)"

lemma mkey_rank_inject: "mkey_rank k = mkey_rank l \<longleftrightarrow> k = l"
proof -
  have "inj (of_char :: char \<Rightarrow> nat)" "inj (unat :: byte \<Rightarrow> nat)"
    by (auto intro: injI)
  then show ?thesis
    by (cases k; cases l) (auto simp: sint_inject64 inj_map_eq_map)
qed

instantiation mkey :: linorder
begin

definition less_eq_mkey :: "mkey \<Rightarrow> mkey \<Rightarrow> bool" where
  "less_eq_mkey k l \<longleftrightarrow> mkey_rank k \<le> mkey_rank l"

definition less_mkey :: "mkey \<Rightarrow> mkey \<Rightarrow> bool" where
  "less_mkey k l \<longleftrightarrow> mkey_rank k < mkey_rank l"

instance
  by standard (auto simp: less_eq_mkey_def less_mkey_def order_less_le mkey_rank_inject)

end

lemma map_mono_less:
  fixes f :: "'a::linorder \<Rightarrow> 'b::linorder"
  assumes "\<And>x y. f x < f y \<longleftrightarrow> x < y"
  shows "map f xs < map f ys \<longleftrightarrow> xs < ys"
proof -
  have "f x = f y \<longleftrightarrow> x = y" for x y
    using assms [of x y] assms [of y x] by (metis linorder_neq_iff order_less_irrefl)
  with assms show ?thesis
    by (induction xs arbitrary: ys) (case_tac ys; simp)+
qed

lemma KInt_less [simp]: "KInt i < KInt j \<longleftrightarrow> sint i < sint j"
  by (simp add: less_mkey_def)

lemma KInt_le [simp]: "KInt i \<le> KInt j \<longleftrightarrow> sint i \<le> sint j"
  by (meson KInt_less leD leI)

lemma KBytes_less [simp]: "KBytes b < KBytes c \<longleftrightarrow> b < c"
  by (simp add: less_mkey_def map_mono_less word_less_nat_alt [symmetric])

lemma KBytes_le [simp]: "KBytes b \<le> KBytes c \<longleftrightarrow> b \<le> c"
  by (meson KBytes_less leD leI)

datatype ret_type = RetNone | RetKey | RetKeyValue | RetCount

datatype operation =
    PutOp string gval
  | MapPutOp string mkey gval
  | MapPutItemsOp string "(mkey \<times> gval) list"
  | MapRemoveByKeyOp string mkey ret_type
  | MapRemoveByKeyRangeOp string mkey "mkey option" ret_type
  | MapGetByKeyRangeOp string mkey "mkey option" ret_type
  | MapSizeOp string
  | ListAppendOp string gval

section \<open>Policies\<close>

datatype filter_exp = ExpEqInt string int64 | ExpEqString string string

datatype exists_action = UPDATE | UPDATE_ONLY | REPLACE | REPLACE_ONLY | CREATE_ONLY

datatype read_mode = ReadModeSCSession | ReadModeSCLinearize

datatype commit_level = COMMIT_ALL | COMMIT_MASTER

type_synonym txn = nat

record rpolicy =
  rp_SocketTimeout :: int
  rp_TotalTimeout :: int
  rp_ReadModeSC :: read_mode
  rp_Txn :: "txn option"

record wpolicy =
  wp_SocketTimeout :: int
  wp_TotalTimeout :: int
  wp_CommitLevel :: commit_level
  wp_MaxRetries :: nat
  wp_SendKey :: bool
  wp_RecordExistsAction :: exists_action
  wp_FilterExpression :: "filter_exp option"
  wp_DurableDelete :: bool
  wp_Txn :: "txn option"

definition readPolicy :: "env \<Rightarrow> rpolicy" where
  "readPolicy E = \<lparr>rp_SocketTimeout = cfg_SocketTimeout E, rp_TotalTimeout = cfg_TotalTimeout E,
     rp_ReadModeSC = ReadModeSCSession, rp_Txn = None\<rparr>"

definition readLinearizePolicy :: "env \<Rightarrow> rpolicy" where
  "readLinearizePolicy E = (readPolicy E)\<lparr>rp_ReadModeSC := ReadModeSCLinearize\<rparr>"

definition writePolicy :: "env \<Rightarrow> wpolicy" where
  "writePolicy E = \<lparr>wp_SocketTimeout = cfg_SocketTimeout E, wp_TotalTimeout = cfg_TotalTimeout E,
     wp_CommitLevel = COMMIT_ALL, wp_MaxRetries = 0, wp_SendKey = cfg_SendKey E,
     wp_RecordExistsAction = UPDATE, wp_FilterExpression = None, wp_DurableDelete = False, wp_Txn = None\<rparr>"

definition createPolicy :: "env \<Rightarrow> wpolicy" where
  "createPolicy E = (writePolicy E)\<lparr>wp_RecordExistsAction := CREATE_ONLY\<rparr>"

definition replacePolicy :: "env \<Rightarrow> wpolicy" where
  "replacePolicy E = (writePolicy E)\<lparr>wp_RecordExistsAction := REPLACE\<rparr>"

definition deletePolicy :: "env \<Rightarrow> wpolicy" where
  "deletePolicy E = (writePolicy E)\<lparr>wp_DurableDelete := True\<rparr>"

definition condWrite :: "env \<Rightarrow> filter_exp \<Rightarrow> wpolicy" where
  "condWrite E expr = (writePolicy E)\<lparr>wp_FilterExpression := Some expr, wp_RecordExistsAction := UPDATE_ONLY\<rparr>"

definition condWriteTxn :: "env \<Rightarrow> filter_exp \<Rightarrow> txn \<Rightarrow> wpolicy" where
  "condWriteTxn E expr t = (condWrite E expr)\<lparr>wp_Txn := Some t\<rparr>"

definition txnPolicies :: "env \<Rightarrow> txn \<Rightarrow> rpolicy \<times> wpolicy \<times> wpolicy" where
  "txnPolicies E t =
     ((readPolicy E)\<lparr>rp_Txn := Some t\<rparr>, (writePolicy E)\<lparr>wp_Txn := Some t\<rparr>, (deletePolicy E)\<lparr>wp_Txn := Some t\<rparr>)"

definition rangeIDEquals :: "int64 \<Rightarrow> filter_exp" where
  "rangeIDEquals rangeID = ExpEqInt ''range_id'' rangeID"

lemmas policy_defs = readPolicy_def readLinearizePolicy_def writePolicy_def createPolicy_def replacePolicy_def
  deletePolicy_def condWrite_def condWriteTxn_def txnPolicies_def

section \<open>Commands and programs\<close>

datatype cmd =
    CGet rpolicy askey "string list"
  | CExists rpolicy askey
  | CPut wpolicy askey "(string \<times> gval) list"
  | COperate wpolicy askey "operation list"
  | CDelete wpolicy askey
  | CBatchGet "askey list" "string list"
  | CScan string string
  | CNewTxn
  | CCommit txn
  | CAbort txn

datatype resp =
    RErr goerr
  | ROk
  | RRec as_record
  | RBool bool
  | RRecs "as_record option list"
  | RScan "(goerr + as_record) list"
  | RTxn txn

datatype 'a prog = Ret 'a | Cmd cmd "resp \<Rightarrow> 'a prog"

primrec pbind :: "'a prog \<Rightarrow> ('a \<Rightarrow> 'b prog) \<Rightarrow> 'b prog" where
  "pbind (Ret x) f = f x"
| "pbind (Cmd c k) f = Cmd c (\<lambda>r. pbind (k r) f)"

primrec run :: "(cmd \<Rightarrow> 'db \<Rightarrow> resp \<times> 'db) \<Rightarrow> 'a prog \<Rightarrow> 'db \<Rightarrow> 'a \<times> 'db" where
  "run srv (Ret x) db = (x, db)"
| "run srv (Cmd c k) db = (case srv c db of (r, db') \<Rightarrow> run srv (k r) db')"

type_synonym 'a io = "(perr + 'a) prog"

text \<open>\<^verbatim>\<open>if err := ...; err != nil { return err }\<close>\<close>

definition tryP :: "'a io \<Rightarrow> ('a \<Rightarrow> 'b io) \<Rightarrow> 'b io" where
  "tryP p f = pbind p (\<lambda>r. case r of Inl e \<Rightarrow> Ret (Inl e) | Inr x \<Rightarrow> f x)"

text \<open>A response of the wrong kind would be a fault of the client; it is read as a plain error.\<close>

definition wrongKind :: "resp \<Rightarrow> goerr" where
  "wrongKind r = (case r of RErr e \<Rightarrow> e | _ \<Rightarrow> PlainError ''response'')"

definition getP :: "rpolicy \<Rightarrow> askey \<Rightarrow> string list \<Rightarrow> (goerr + as_record) prog" where
  "getP pol key bins = Cmd (CGet pol key bins) (\<lambda>r. Ret (case r of RRec x \<Rightarrow> Inr x | _ \<Rightarrow> Inl (wrongKind r)))"

definition existsP :: "rpolicy \<Rightarrow> askey \<Rightarrow> (goerr + bool) prog" where
  "existsP pol key = Cmd (CExists pol key) (\<lambda>r. Ret (case r of RBool b \<Rightarrow> Inr b | _ \<Rightarrow> Inl (wrongKind r)))"

definition putBinsP :: "wpolicy \<Rightarrow> askey \<Rightarrow> (string \<times> gval) list \<Rightarrow> (goerr + unit) prog" where
  "putBinsP pol key bins = Cmd (CPut pol key bins) (\<lambda>r. Ret (case r of ROk \<Rightarrow> Inr () | _ \<Rightarrow> Inl (wrongKind r)))"

definition operateP :: "wpolicy \<Rightarrow> askey \<Rightarrow> operation list \<Rightarrow> (goerr + as_record) prog" where
  "operateP pol key ops = Cmd (COperate pol key ops) (\<lambda>r. Ret (case r of RRec x \<Rightarrow> Inr x | _ \<Rightarrow> Inl (wrongKind r)))"

definition deleteP :: "wpolicy \<Rightarrow> askey \<Rightarrow> (goerr + bool) prog" where
  "deleteP pol key = Cmd (CDelete pol key) (\<lambda>r. Ret (case r of RBool b \<Rightarrow> Inr b | _ \<Rightarrow> Inl (wrongKind r)))"

definition batchGetP :: "askey list \<Rightarrow> string list \<Rightarrow> (goerr + as_record option list) prog" where
  "batchGetP keys bins = Cmd (CBatchGet keys bins) (\<lambda>r. Ret (case r of RRecs xs \<Rightarrow> Inr xs | _ \<Rightarrow> Inl (wrongKind r)))"

definition scanAllP :: "string \<Rightarrow> string \<Rightarrow> (goerr + (goerr + as_record) list) prog" where
  "scanAllP ns st = Cmd (CScan ns st) (\<lambda>r. Ret (case r of RScan xs \<Rightarrow> Inr xs | _ \<Rightarrow> Inl (wrongKind r)))"

definition newTxnP :: "txn prog" where
  "newTxnP = Cmd CNewTxn (\<lambda>r. Ret (case r of RTxn t \<Rightarrow> t | _ \<Rightarrow> 0))"

definition commitP :: "txn \<Rightarrow> (goerr + unit) prog" where
  "commitP t = Cmd (CCommit t) (\<lambda>r. Ret (case r of ROk \<Rightarrow> Inr () | _ \<Rightarrow> Inl (wrongKind r)))"

definition abortP :: "txn \<Rightarrow> (goerr + unit) prog" where
  "abortP t = Cmd (CAbort t) (\<lambda>r. Ret (case r of ROk \<Rightarrow> Inr () | _ \<Rightarrow> Inl (wrongKind r)))"

lemmas cmd_prog_defs = getP_def existsP_def putBinsP_def operateP_def deleteP_def batchGetP_def scanAllP_def

lemma run_pbind: "run srv (pbind p f) db = (case run srv p db of (x, db') \<Rightarrow> run srv (f x) db')"
  by (induction p arbitrary: db) (auto split: prod.splits)

lemma pbind_assoc: "pbind (pbind p f) g = pbind p (\<lambda>x. pbind (f x) g)"
  by (induction p) simp_all

lemma pbind_Ret [simp]: "pbind p Ret = p"
  by (induction p) simp_all

lemma tryP_Ret [simp]: "tryP (Ret (Inl e)) f = Ret (Inl e)" "tryP (Ret (Inr x)) f = f x"
  by (simp_all add: tryP_def)

section \<open>Transaction scopes\<close>

text \<open>
  \<^verbatim>\<open>txnScope\<close> of \<^verbatim>\<open>execution_store.go\<close>. Every user begins a scope, defers \<^verbatim>\<open>finish\<close> and ends by
  returning the result of \<^verbatim>\<open>commit\<close>; \<open>withTxn\<close> is that pattern: the body's error aborts, its success
  commits, and a failed commit aborts as well, since \<^verbatim>\<open>committed\<close> is then still false.
\<close>

record txnScope =
  ts_txn :: txn
  ts_read :: rpolicy
  ts_write :: wpolicy
  ts_del :: wpolicy

definition beginTxn :: "env \<Rightarrow> txn \<Rightarrow> txnScope" where
  "beginTxn E t = (case txnPolicies E t of (r, w, d) \<Rightarrow> \<lparr>ts_txn = t, ts_read = r, ts_write = w, ts_del = d\<rparr>)"

definition finishTxn :: "txnScope \<Rightarrow> bool \<Rightarrow> unit prog" where
  "finishTxn t committed = (if committed then Ret () else pbind (abortP (ts_txn t)) (\<lambda>_. Ret ()))"

definition commitTxn :: "txnScope \<Rightarrow> string \<Rightarrow> unit io" where
  "commitTxn t operation =
     pbind (commitP (ts_txn t)) (\<lambda>r. case r of
        Inl err \<Rightarrow> Ret (Inl (classifyCommitError operation err))
      | Inr _ \<Rightarrow> Ret (Inr ()))"

definition withTxn :: "env \<Rightarrow> string \<Rightarrow> (txnScope \<Rightarrow> 'a io) \<Rightarrow> 'a io" where
  "withTxn E operation body =
     pbind newTxnP (\<lambda>txn. let t = beginTxn E txn in
     pbind (body t) (\<lambda>r. case r of
        Inl e \<Rightarrow> pbind (finishTxn t False) (\<lambda>_. Ret (Inl e))
      | Inr x \<Rightarrow> pbind (commitTxn t operation) (\<lambda>cr. case cr of
            Inl e \<Rightarrow> pbind (finishTxn t False) (\<lambda>_. Ret (Inl e))
          | Inr _ \<Rightarrow> pbind (finishTxn t True) (\<lambda>_. Ret (Inr x)))))"

lemma beginTxn_simps [simp]:
  "ts_txn (beginTxn E t) = t" "rp_Txn (ts_read (beginTxn E t)) = Some t"
  "wp_Txn (ts_write (beginTxn E t)) = Some t" "wp_Txn (ts_del (beginTxn E t)) = Some t"
  "wp_RecordExistsAction (ts_write (beginTxn E t)) = UPDATE"
  "wp_FilterExpression (ts_write (beginTxn E t)) = None"
  "wp_FilterExpression (ts_del (beginTxn E t)) = None"
  by (simp_all add: beginTxn_def policy_defs)

end
