(* ===== verification/AeroServer.thy ===== *)
theory AeroServer
  imports AeroClient
begin

text \<open>
  The Aerospike server and client library are not part of the repository. This theory states what the
  store relies on, as the laws of the locales \<open>aerospike\<close> (commands may fail, other clients may act
  between ours) and \<open>quiet_aerospike\<close> (neither happens), and proves once, for every program, what
  those laws give: \<open>withTxn\<close> is atomic. \<open>exec_rec\<close> is the documented effect of one command on one
  record; what the documentation leaves open is a parameter of it. The laws speak about any server
  \<open>srv\<close> with an abstraction to the committed records; \<open>mem_server\<close>, an in-memory server, satisfies
  both sets.
\<close>

section \<open>Records\<close>

datatype binval = BVal gval | BMap "(mkey, gval) omap"

type_synonym bins = "string \<Rightarrow> binval option"
type_synonym store = "askey \<Rightarrow> bins option"

text \<open>
  Left open: whether an operation list that only removes map entries reports a missing record as
  \<^verbatim>\<open>KEY_NOT_FOUND_ERROR\<close> or succeeds without effect, the digest of a key, and the order in which a scan
  enumerates a set.
\<close>

record quirks =
  q_absent_remove_fails :: bool
  q_digest :: "askey \<Rightarrow> string"
  q_scan :: "store \<Rightarrow> string \<Rightarrow> string \<Rightarrow> askey list"

text \<open>Integers come back as \<^verbatim>\<open>int\<close> whatever width was written.\<close>

fun norm :: "gval \<Rightarrow> gval" where
  "norm (GInt64 n) = GInt n"
| "norm (GList vs) = GList (map norm vs)"
| "norm v = v"

fun read_key :: "mkey \<Rightarrow> gval" where
  "read_key (KInt n) = GInt n"
| "read_key (KStr s) = GString s"
| "read_key (KBytes b) = GBytes b"

text \<open>Inside a \<^verbatim>\<open>MapPair\<close> a byte-string key comes back as an array (\<^verbatim>\<open>client.go\<close>, \<^verbatim>\<open>asBytes\<close>).\<close>

fun pair_key :: "mkey \<Rightarrow> gval" where
  "pair_key (KInt n) = GInt n"
| "pair_key (KStr s) = GString s"
| "pair_key (KBytes b) = GByteArray b"

definition map_pairs :: "(mkey, gval) omap \<Rightarrow> (gval \<times> gval) list" where
  "map_pairs m = map (\<lambda>(k, v). (pair_key k, v)) m"

definition put_bin :: "gval \<Rightarrow> binval option" where
  "put_bin v = (if v = GNil then None else Some (BVal (norm v)))"

fun read_bin :: "binval option \<Rightarrow> gval" where
  "read_bin None = GNil"
| "read_bin (Some (BVal v)) = v"
| "read_bin (Some (BMap m)) = GPairs (map_pairs m)"

definition put_bins :: "(string \<times> gval) list \<Rightarrow> bins \<Rightarrow> bins" where
  "put_bins bs r = fold (\<lambda>(b, v) r. r(b := put_bin v)) bs r"

definition read_bins :: "quirks \<Rightarrow> askey \<Rightarrow> string list \<Rightarrow> bins \<Rightarrow> as_record" where
  "read_bins Q k names r =
     \<lparr>Bins = (\<lambda>b. if names = [] \<or> b \<in> set names then read_bin (r b) else GNil), Digest = q_digest Q k\<rparr>"

section \<open>Operations on one record\<close>

abbreviation "BIN_TYPE_ERROR \<equiv> OtherCode 12"
abbreviation "PARAMETER_ERROR \<equiv> OtherCode 4"

fun ret_value :: "ret_type \<Rightarrow> (mkey, gval) omap \<Rightarrow> gval" where
  "ret_value RetNone m = GNil"
| "ret_value RetKey m = GList (map (\<lambda>p. read_key (fst p)) m)"
| "ret_value RetKeyValue m = GPairs (map_pairs m)"
| "ret_value RetCount m = GInt (of_nat (length m))"

definition put_items :: "(mkey \<times> gval) list \<Rightarrow> (mkey, gval) omap \<Rightarrow> (mkey, gval) omap" where
  "put_items kvs m = fold (\<lambda>(k, v) m. omap_put k (norm v) m) kvs m"

text \<open>Writing into a map bin creates it; reading or removing from an absent bin does nothing.\<close>

definition map_write :: "string \<Rightarrow> bins \<Rightarrow> ((mkey, gval) omap \<Rightarrow> (mkey, gval) omap) \<Rightarrow> rcode + gval option \<times> bins" where
  "map_write b r f =
     (case r b of
        None \<Rightarrow> let m = f [] in Inr (Some (GInt (of_nat (length m))), r(b \<mapsto> BMap m))
      | Some (BMap m0) \<Rightarrow> let m = f m0 in Inr (Some (GInt (of_nat (length m))), r(b \<mapsto> BMap m))
      | Some (BVal _) \<Rightarrow> Inl BIN_TYPE_ERROR)"

definition map_access :: "string \<Rightarrow> bins \<Rightarrow> ((mkey, gval) omap \<Rightarrow> gval \<times> (mkey, gval) omap) \<Rightarrow> rcode + gval option \<times> bins" where
  "map_access b r f =
     (case r b of
        None \<Rightarrow> Inr (None, r)
      | Some (BMap m0) \<Rightarrow> (case f m0 of (v, m) \<Rightarrow> Inr (Some v, r(b \<mapsto> BMap m)))
      | Some (BVal _) \<Rightarrow> Inl BIN_TYPE_ERROR)"

fun apply_op :: "operation \<Rightarrow> bins \<Rightarrow> rcode + gval option \<times> bins" where
  "apply_op (PutOp b v) r = Inr (None, r(b := put_bin v))"
| "apply_op (MapPutOp b k v) r = map_write b r (omap_put k (norm v))"
| "apply_op (MapPutItemsOp b kvs) r = map_write b r (put_items kvs)"
| "apply_op (MapRemoveByKeyOp b k rt) r =
     map_access b r (\<lambda>m. (ret_value rt (filter (\<lambda>p. fst p = k) m), omap_del k m))"
| "apply_op (MapRemoveByKeyRangeOp b lo hi rt) r =
     map_access b r (\<lambda>m. (ret_value rt (omap_range lo hi m), omap_rdel lo hi m))"
| "apply_op (MapGetByKeyRangeOp b lo hi rt) r =
     map_access b r (\<lambda>m. (ret_value rt (omap_range lo hi m), m))"
| "apply_op (MapSizeOp b) r = map_access b r (\<lambda>m. (GInt (of_nat (length m)), m))"
| "apply_op (ListAppendOp b v) r =
     (case r b of
        None \<Rightarrow> Inr (Some (GInt 1), r(b \<mapsto> BVal (GList [norm v])))
      | Some (BVal (GList vs)) \<Rightarrow>
          Inr (Some (GInt (of_nat (Suc (length vs)))), r(b \<mapsto> BVal (GList (vs @ [norm v]))))
      | Some _ \<Rightarrow> Inl BIN_TYPE_ERROR)"

fun op_bin :: "operation \<Rightarrow> string" where
  "op_bin (PutOp b v) = b"
| "op_bin (MapPutOp b k v) = b"
| "op_bin (MapPutItemsOp b kvs) = b"
| "op_bin (MapRemoveByKeyOp b k rt) = b"
| "op_bin (MapRemoveByKeyRangeOp b lo hi rt) = b"
| "op_bin (MapGetByKeyRangeOp b lo hi rt) = b"
| "op_bin (MapSizeOp b) = b"
| "op_bin (ListAppendOp b v) = b"

fun op_writes :: "operation \<Rightarrow> bool" where
  "op_writes (MapGetByKeyRangeOp b lo hi rt) = False"
| "op_writes (MapSizeOp b) = False"
| "op_writes _ = True"

fun op_creates :: "operation \<Rightarrow> bool" where
  "op_creates (PutOp b v) = True"
| "op_creates (MapPutOp b k v) = True"
| "op_creates (MapPutItemsOp b kvs) = True"
| "op_creates (ListAppendOp b v) = True"
| "op_creates _ = False"

text \<open>The operations of one \<^verbatim>\<open>Operate\<close> apply in order, all or none; the results are grouped by bin.\<close>

fun apply_ops :: "operation list \<Rightarrow> bins \<Rightarrow> rcode + (string \<times> gval) list \<times> bins" where
  "apply_ops [] r = Inr ([], r)"
| "apply_ops (x # xs) r =
     (case apply_op x r of
        Inl e \<Rightarrow> Inl e
      | Inr (v, r') \<Rightarrow>
          (case apply_ops xs r' of
             Inl e \<Rightarrow> Inl e
           | Inr (vs, r'') \<Rightarrow> Inr ((case v of None \<Rightarrow> vs | Some y \<Rightarrow> (op_bin x, y) # vs), r'')))"

definition op_record :: "quirks \<Rightarrow> askey \<Rightarrow> (string \<times> gval) list \<Rightarrow> as_record" where
  "op_record Q k res =
     \<lparr>Bins = (\<lambda>b. case map snd (filter (\<lambda>p. fst p = b) res) of [] \<Rightarrow> GNil | [v] \<Rightarrow> v | vs \<Rightarrow> GList vs),
      Digest = q_digest Q k\<rparr>"

fun filter_holds :: "filter_exp \<Rightarrow> bins \<Rightarrow> bool" where
  "filter_holds (ExpEqInt b n) r \<longleftrightarrow> r b = Some (BVal (GInt n))"
| "filter_holds (ExpEqString b s) r \<longleftrightarrow> r b = Some (BVal (GString s))"

definition admit :: "wpolicy \<Rightarrow> bins option \<Rightarrow> rcode option" where
  "admit pol v =
     (case v of
        None \<Rightarrow> (if wp_RecordExistsAction pol = UPDATE_ONLY \<or> wp_RecordExistsAction pol = REPLACE_ONLY
                 then Some KEY_NOT_FOUND_ERROR else None)
      | Some r \<Rightarrow>
          if wp_RecordExistsAction pol = CREATE_ONLY then Some KEY_EXISTS_ERROR
          else (case wp_FilterExpression pol of
                  None \<Rightarrow> None
                | Some f \<Rightarrow> if filter_holds f r then None else Some FILTERED_OUT))"

definition replaces :: "wpolicy \<Rightarrow> bool" where
  "replaces pol \<longleftrightarrow> wp_RecordExistsAction pol = REPLACE \<or> wp_RecordExistsAction pol = REPLACE_ONLY"

definition old_bins :: "bins option \<Rightarrow> bins" where
  "old_bins v = (case v of None \<Rightarrow> Map.empty | Some r \<Rightarrow> r)"

fun exec_rec :: "quirks \<Rightarrow> cmd \<Rightarrow> bins option \<Rightarrow> resp \<times> bins option" where
  "exec_rec Q (CGet pol k names) v =
     (case v of None \<Rightarrow> (RErr (AsError [KEY_NOT_FOUND_ERROR]), v) | Some r \<Rightarrow> (RRec (read_bins Q k names r), v))"
| "exec_rec Q (CExists pol k) v = (RBool (v \<noteq> None), v)"
| "exec_rec Q (CPut pol k bs) v =
     (case admit pol v of
        Some c \<Rightarrow> (RErr (AsError [c]), v)
      | None \<Rightarrow> (ROk, Some (put_bins bs (if replaces pol then Map.empty else old_bins v))))"
| "exec_rec Q (COperate pol k ops) v =
     (case admit pol v of
        Some c \<Rightarrow> (RErr (AsError [c]), v)
      | None \<Rightarrow>
          if replaces pol then (RErr (AsError [PARAMETER_ERROR]), v)
          else if v = None \<and> \<not> list_ex op_creates ops then
            (if list_ex op_writes ops \<and> \<not> q_absent_remove_fails Q then (RRec (op_record Q k []), None)
             else (RErr (AsError [KEY_NOT_FOUND_ERROR]), None))
          else (case apply_ops ops (old_bins v) of
                  Inl c \<Rightarrow> (RErr (AsError [c]), v)
                | Inr (res, r) \<Rightarrow> (RRec (op_record Q k res), Some r)))"
| "exec_rec Q (CDelete pol k) v =
     (case v of
        None \<Rightarrow> (RBool False, None)
      | Some r \<Rightarrow>
          (case wp_FilterExpression pol of
             None \<Rightarrow> (RBool True, None)
           | Some f \<Rightarrow> if filter_holds f r then (RBool True, None) else (RErr (AsError [FILTERED_OUT]), v)))"
| "exec_rec Q _ v = (ROk, v)"

section \<open>Commands on the store\<close>

fun cmd_key :: "cmd \<Rightarrow> askey" where
  "cmd_key (CGet pol k names) = k"
| "cmd_key (CExists pol k) = k"
| "cmd_key (CPut pol k bs) = k"
| "cmd_key (COperate pol k ops) = k"
| "cmd_key (CDelete pol k) = k"
| "cmd_key _ = AKey '''' '''' (UInt 0)"

fun cmd_txn :: "cmd \<Rightarrow> txn option" where
  "cmd_txn (CGet pol k names) = rp_Txn pol"
| "cmd_txn (CExists pol k) = rp_Txn pol"
| "cmd_txn (CPut pol k bs) = wp_Txn pol"
| "cmd_txn (COperate pol k ops) = wp_Txn pol"
| "cmd_txn (CDelete pol k) = wp_Txn pol"
| "cmd_txn _ = None"

fun single :: "cmd \<Rightarrow> bool" where
  "single (CGet pol k names) = True"
| "single (CExists pol k) = True"
| "single (CPut pol k bs) = True"
| "single (COperate pol k ops) = True"
| "single (CDelete pol k) = True"
| "single _ = False"

fun is_read :: "cmd \<Rightarrow> bool" where
  "is_read (CGet pol k names) = True"
| "is_read (CExists pol k) = True"
| "is_read (COperate pol k ops) = (\<not> list_ex op_writes ops)"
| "is_read _ = False"

fun exec :: "quirks \<Rightarrow> cmd \<Rightarrow> store \<Rightarrow> resp \<times> store" where
  "exec Q (CBatchGet ks names) s = (RRecs (map (\<lambda>k. map_option (read_bins Q k names) (s k)) ks), s)"
| "exec Q (CScan ns st) s =
     (RScan (map (\<lambda>k. Inr (read_bins Q k [] (old_bins (s k)))) (q_scan Q s ns st)), s)"
| "exec Q CNewTxn s = (RTxn 0, s)"
| "exec Q (CCommit t) s = (ROk, s)"
| "exec Q (CAbort t) s = (ROk, s)"
| "exec Q c s = (case exec_rec Q c (s (cmd_key c)) of (r, v) \<Rightarrow> (r, s(cmd_key c := v)))"

primrec prun :: "quirks \<Rightarrow> 'a prog \<Rightarrow> store \<Rightarrow> 'a \<times> store" where
  "prun Q (Ret x) s = (x, s)"
| "prun Q (Cmd c k) s = (case exec Q c s of (r, s') \<Rightarrow> prun Q (k r) s')"

lemma exec_single: "single c \<Longrightarrow> exec Q c s = (case exec_rec Q c (s (cmd_key c)) of (r, v) \<Rightarrow> (r, s(cmd_key c := v)))"
  by (cases c) simp_all

lemma prun_pbind: "prun Q (pbind p f) s = (case prun Q p s of (x, s') \<Rightarrow> prun Q (f x) s')"
  by (induction p arbitrary: s) (auto split: prod.splits)

lemma map_access_read: "map_access b r (\<lambda>m. (f m, m)) = Inr (v, r') \<Longrightarrow> r' = r"
  by (auto simp: map_access_def fun_upd_idem split: option.splits binval.splits)

lemma apply_op_read: "\<not> op_writes x \<Longrightarrow> apply_op x r = Inr (v, r') \<Longrightarrow> r' = r"
  by (cases x) (auto dest: map_access_read)

lemma apply_ops_read: "\<not> list_ex op_writes ops \<Longrightarrow> apply_ops ops r = Inr (vs, r') \<Longrightarrow> r' = r"
proof (induction ops arbitrary: vs r')
  case (Cons x xs)
  then show ?case
    by (auto split: sum.splits prod.splits dest: apply_op_read)
qed simp

lemma op_creates_writes: "op_creates x \<Longrightarrow> op_writes x"
  by (cases x) simp_all

lemma exec_rec_read: "is_read c \<Longrightarrow> snd (exec_rec Q c v) = v"
proof (cases c)
  case (COperate pol k ops)
  assume "is_read c"
  with COperate have nw: "\<not> list_ex op_writes ops" by simp
  then have "\<not> list_ex op_creates ops"
    by (auto simp: list_ex_iff op_creates_writes)
  with COperate nw show ?thesis
    by (auto simp: old_bins_def split: option.splits sum.splits prod.splits dest: apply_ops_read)
qed (auto split: option.splits)

section \<open>The server's laws\<close>

text \<open>
  A transaction keeps the records it has read (\<open>base\<close>: key and value seen) and the records it would
  write (\<open>work\<close>). Its commands see its own writes over the committed records. A fault is an error that
  is not about the record: the command may or may not have been applied.
\<close>

type_synonym base = "(askey \<times> bins option) list"
type_synonym work = "askey \<Rightarrow> bins option option"

definition fault :: "resp \<Rightarrow> bool" where
  "fault r \<longleftrightarrow> (\<exists>e. r = RErr e \<and> \<not> definite e)"

definition sees :: "store \<Rightarrow> work \<Rightarrow> store" where
  "sees s w = (\<lambda>k. case w k of Some v \<Rightarrow> v | None \<Rightarrow> s k)"

definition consistent :: "base \<Rightarrow> store \<Rightarrow> bool" where
  "consistent b s \<longleftrightarrow> (\<forall>(k, v) \<in> set b. s k = v)"

definition txn_base :: "cmd \<Rightarrow> store \<Rightarrow> base \<Rightarrow> work \<Rightarrow> base" where
  "txn_base c s b w = (if w (cmd_key c) = None then (cmd_key c, s (cmd_key c)) # b else b)"

definition txn_work :: "quirks \<Rightarrow> cmd \<Rightarrow> store \<Rightarrow> work \<Rightarrow> work" where
  "txn_work Q c s w =
     (if is_read c then w else w(cmd_key c \<mapsto> snd (exec_rec Q c (sees s w (cmd_key c)))))"

locale aerospike =
  fixes Q :: quirks
    and srv :: "cmd \<Rightarrow> 'db \<Rightarrow> resp \<times> 'db"
    and store_of :: "'db \<Rightarrow> store"
    and base_of :: "'db \<Rightarrow> txn \<Rightarrow> base"
    and work_of :: "'db \<Rightarrow> txn \<Rightarrow> work"
    and interferes :: "store \<Rightarrow> store \<Rightarrow> bool"
  assumes interferes_refl: "interferes s s"
    and interferes_trans: "interferes s1 s2 \<Longrightarrow> interferes s2 s3 \<Longrightarrow> interferes s1 s3"
    and plain_command: "\<lbrakk>single c; cmd_txn c = None; srv c db = (r, db')\<rbrakk> \<Longrightarrow>
      \<exists>s s'. interferes (store_of db) s \<and> interferes s' (store_of db') \<and>
        ((r, s') = exec Q c s \<or> (fault r \<and> (s' = s \<or> s' = snd (exec Q c s))))"
    and txn_command: "\<lbrakk>single c; cmd_txn c = Some t; srv c db = (r, db')\<rbrakk> \<Longrightarrow>
      \<exists>s. interferes (store_of db) s \<and> interferes s (store_of db') \<and>
        (fault r \<or> (r = fst (exec_rec Q c (sees s (work_of db t) (cmd_key c)))
           \<and> base_of db' t = txn_base c s (base_of db t) (work_of db t)
           \<and> work_of db' t = txn_work Q c s (work_of db t)))"
    and new_txn: "srv CNewTxn db = (r, db') \<Longrightarrow>
      \<exists>t. r = RTxn t \<and> base_of db' t = [] \<and> work_of db' t = Map.empty \<and> interferes (store_of db) (store_of db')"
    and commit_ok: "srv (CCommit t) db = (ROk, db') \<Longrightarrow>
      \<exists>s. interferes (store_of db) s \<and> consistent (base_of db t) s \<and> interferes (sees s (work_of db t)) (store_of db')"
    and commit_err: "srv (CCommit t) db = (r, db') \<Longrightarrow> r \<noteq> ROk \<Longrightarrow>
      interferes (store_of db) (store_of db') \<or>
      ((\<exists>e. r = RErr e \<and> \<not> isTxnConflict e \<and> \<not> isFilteredOut e) \<and>
       (\<exists>s. interferes (store_of db) s \<and> consistent (base_of db t) s \<and> interferes (sees s (work_of db t)) (store_of db')))"
    and commit_resp: "srv (CCommit t) db = (r, db') \<Longrightarrow> r = ROk \<or> (\<exists>e. r = RErr e)"
    and abort: "srv (CAbort t) db = (r, db') \<Longrightarrow> interferes (store_of db) (store_of db')"

text \<open>
  The same server with nobody else writing and no faults: every command has its documented effect, and
  a transaction whose reads still hold commits.
\<close>

locale quiet_aerospike = aerospike Q srv store_of base_of work_of "(=)"
  for Q :: quirks
    and srv :: "cmd \<Rightarrow> 'db \<Rightarrow> resp \<times> 'db"
    and store_of :: "'db \<Rightarrow> store"
    and base_of :: "'db \<Rightarrow> txn \<Rightarrow> base"
    and work_of :: "'db \<Rightarrow> txn \<Rightarrow> work" +
  assumes quiet_plain: "\<lbrakk>single c \<or> (\<exists>ks ns. c = CBatchGet ks ns) \<or> (\<exists>ns st. c = CScan ns st); cmd_txn c = None;
        srv c db = (r, db')\<rbrakk> \<Longrightarrow> (r, store_of db') = exec Q c (store_of db)"
    and quiet_txn: "\<lbrakk>single c; cmd_txn c = Some t; srv c db = (r, db')\<rbrakk> \<Longrightarrow>
        r = fst (exec_rec Q c (sees (store_of db) (work_of db t) (cmd_key c)))
          \<and> base_of db' t = txn_base c (store_of db) (base_of db t) (work_of db t)
          \<and> work_of db' t = txn_work Q c (store_of db) (work_of db t)"
    and quiet_commit: "consistent (base_of db t) (store_of db) \<Longrightarrow> fst (srv (CCommit t) db) = ROk"

section \<open>Programs inside a transaction\<close>

text \<open>Every command carries the transaction, and a fault ends the program with an error.\<close>

primrec txn_body :: "txn \<Rightarrow> 'a io \<Rightarrow> bool" where
  "txn_body t (Ret x) \<longleftrightarrow> True"
| "txn_body t (Cmd c k) \<longleftrightarrow> single c \<and> cmd_txn c = Some t \<and> (\<forall>r. txn_body t (k r)) \<and>
     (\<forall>e. \<not> definite e \<longrightarrow> (\<exists>x. k (RErr e) = Ret (Inl x)))"

lemma txn_body_tryP [txn_intros]: "txn_body t p \<Longrightarrow> (\<And>x. txn_body t (f x)) \<Longrightarrow> txn_body t (tryP p f)"
proof (induction p)
  case (Ret x)
  then show ?case by (cases x) simp_all
next
  case (Cmd c k)
  have "txn_body t (tryP (k r) f)" for r using Cmd by simp
  moreover have "\<exists>x. tryP (k (RErr e)) f = Ret (Inl x)" if nd: "\<not> definite e" for e
  proof -
    obtain x where "k (RErr e) = Ret (Inl x)" using Cmd.prems(1) nd by auto
    then show ?thesis by simp
  qed
  ultimately show ?case using Cmd.prems(1) by (simp add: tryP_def)
qed

lemma definite_wrongKind [simp]: "\<not> definite (PlainError m)"
  by (simp add: err_defs)

lemma wrongKind_RErr [simp]: "wrongKind (RErr e) = e"
  by (simp add: wrongKind_def)

text \<open>The commands as the first step of a transaction body.\<close>

lemma txn_body_cmd:
  assumes "single c" "cmd_txn c = Some t"
    and "\<And>x. txn_body t (g x)" "\<And>e. \<not> definite e \<Longrightarrow> \<exists>x. g (Inl e) = Ret (Inl x)"
    and "\<And>e. f (RErr e) = Inl e"
  shows "txn_body t (pbind (Cmd c (\<lambda>r. Ret (f r))) g)"
  using assms by simp

lemma txn_body_get [txn_intros]:
  "rp_Txn pol = Some t \<Longrightarrow> (\<And>x. txn_body t (g x)) \<Longrightarrow> (\<And>e. \<not> definite e \<Longrightarrow> \<exists>x. g (Inl e) = Ret (Inl x)) \<Longrightarrow>
   txn_body t (pbind (getP pol k bs) g)"
  unfolding getP_def by (rule txn_body_cmd) simp_all

lemma txn_body_exists [txn_intros]:
  "rp_Txn pol = Some t \<Longrightarrow> (\<And>x. txn_body t (g x)) \<Longrightarrow> (\<And>e. \<not> definite e \<Longrightarrow> \<exists>x. g (Inl e) = Ret (Inl x)) \<Longrightarrow>
   txn_body t (pbind (existsP pol k) g)"
  unfolding existsP_def by (rule txn_body_cmd) simp_all

lemma txn_body_put [txn_intros]:
  "wp_Txn pol = Some t \<Longrightarrow> (\<And>x. txn_body t (g x)) \<Longrightarrow> (\<And>e. \<not> definite e \<Longrightarrow> \<exists>x. g (Inl e) = Ret (Inl x)) \<Longrightarrow>
   txn_body t (pbind (putBinsP pol k bs) g)"
  unfolding putBinsP_def by (rule txn_body_cmd) simp_all

lemma txn_body_operate [txn_intros]:
  "wp_Txn pol = Some t \<Longrightarrow> (\<And>x. txn_body t (g x)) \<Longrightarrow> (\<And>e. \<not> definite e \<Longrightarrow> \<exists>x. g (Inl e) = Ret (Inl x)) \<Longrightarrow>
   txn_body t (pbind (operateP pol k ops) g)"
  unfolding operateP_def by (rule txn_body_cmd) simp_all

lemma txn_body_delete [txn_intros]:
  "wp_Txn pol = Some t \<Longrightarrow> (\<And>x. txn_body t (g x)) \<Longrightarrow> (\<And>e. \<not> definite e \<Longrightarrow> \<exists>x. g (Inl e) = Ret (Inl x)) \<Longrightarrow>
   txn_body t (pbind (deleteP pol k) g)"
  unfolding deleteP_def by (rule txn_body_cmd) simp_all

lemma consistent_Cons: "consistent ((k, v) # b) s \<longleftrightarrow> s k = v \<and> consistent b s"
  by (auto simp: consistent_def)

lemma consistent_mono: "consistent b s \<Longrightarrow> set b' \<subseteq> set b \<Longrightarrow> consistent b' s"
  by (auto simp: consistent_def)

text \<open>One command of a transaction, replayed against a store that agrees with everything it has read.\<close>

lemma txn_step_replay:
  assumes "single c" "consistent (txn_base c s b w) s0"
  shows "exec Q c (sees s0 w) =
    (fst (exec_rec Q c (sees s w (cmd_key c))), sees s0 (txn_work Q c s w))"
proof -
  let ?k = "cmd_key c"
  have k: "sees s0 w ?k = sees s w ?k"
    using assms(2) by (auto simp: txn_base_def sees_def consistent_Cons split: if_splits option.splits)
  obtain r v where e: "exec_rec Q c (sees s w ?k) = (r, v)" by fastforce
  have "(sees s0 w)(?k := v) = sees s0 (txn_work Q c s w)"
  proof (cases "is_read c")
    case True
    with e have "v = sees s w ?k" using exec_rec_read [of c Q "sees s w ?k"] by simp
    with True k show ?thesis by (simp add: txn_work_def fun_upd_idem)
  next
    case False
    with e show ?thesis by (auto simp: txn_work_def sees_def)
  qed
  with assms(1) e k show ?thesis by (simp add: exec_single)
qed

lemma consistent_txn_base: "consistent (txn_base c s b w) s0 \<Longrightarrow> consistent b s0"
  by (auto simp: txn_base_def consistent_Cons split: if_splits)

context aerospike
begin

text \<open>
  A transaction body changes no committed record; when it succeeds, its result and its writes are those
  of running it alone on any store that agrees with what it has read.
\<close>

lemma body_replay:
  "\<lbrakk>txn_body t p; run srv p db = (x, db')\<rbrakk> \<Longrightarrow>
   interferes (store_of db) (store_of db') \<and>
   ((\<exists>e. x = Inl e) \<or>
    (\<forall>s0. consistent (base_of db' t) s0 \<longrightarrow>
       consistent (base_of db t) s0 \<and>
       prun Q p (sees s0 (work_of db t)) = (x, sees s0 (work_of db' t))))"
proof (induction p arbitrary: db)
  case (Ret x)
  then show ?case by (auto simp: interferes_refl)
next
  case (Cmd c k)
  obtain r db1 where srv: "srv c db = (r, db1)" by fastforce
  with Cmd.prems have c: "single c" "cmd_txn c = Some t" and k: "txn_body t (k r)" "run srv (k r) db1 = (x, db')"
    by auto
  obtain s where s: "interferes (store_of db) s" "interferes s (store_of db1)"
    and cases: "fault r \<or> (r = fst (exec_rec Q c (sees s (work_of db t) (cmd_key c)))
           \<and> base_of db1 t = txn_base c s (base_of db t) (work_of db t)
           \<and> work_of db1 t = txn_work Q c s (work_of db t))"
    using txn_command [OF c srv] by blast
  have IH: "interferes (store_of db1) (store_of db') \<and> ((\<exists>e. x = Inl e) \<or>
      (\<forall>s0. consistent (base_of db' t) s0 \<longrightarrow> consistent (base_of db1 t) s0 \<and>
         prun Q (k r) (sees s0 (work_of db1 t)) = (x, sees s0 (work_of db' t))))"
    using Cmd.IH [OF _ k] by simp
  then have R: "interferes (store_of db) (store_of db')"
    using s interferes_trans by blast
  from cases show ?case
  proof
    assume "fault r"
    then obtain e where "r = RErr e" "\<not> definite e" by (auto simp: fault_def)
    with Cmd.prems(1) obtain y where "k r = Ret (Inl y)" by auto
    with k R show ?thesis by auto
  next
    assume step: "r = fst (exec_rec Q c (sees s (work_of db t) (cmd_key c)))
           \<and> base_of db1 t = txn_base c s (base_of db t) (work_of db t)
           \<and> work_of db1 t = txn_work Q c s (work_of db t)"
    then have "exec Q c (sees s0 (work_of db t)) = (r, sees s0 (work_of db1 t)) \<and> consistent (base_of db t) s0"
      if "consistent (base_of db1 t) s0" for s0
      using that txn_step_replay [OF c(1)] consistent_txn_base by metis
    with IH R show ?thesis by auto
  qed
qed

lemma run_abort: "(case run srv (finishTxn t False) db of (_, db'') \<Rightarrow> (y, db'')) = (z, db') \<Longrightarrow> z = y \<and> interferes (store_of db) (store_of db')"
  by (auto simp: finishTxn_def abortP_def run_pbind dest: abort split: prod.splits)

text \<open>The result of a transaction scope: what it returned, and what became of its writes.\<close>

lemma withTxn_cases:
  assumes body: "\<And>t. txn_body t (body (beginTxn E t))"
    and run: "run srv (withTxn E operation body) db = (y, db')"
  shows "(interferes (store_of db) (store_of db') \<and> (\<exists>e. y = Inl e)) \<or>
    (\<exists>t s0 s1 x. interferes (store_of db) s0 \<and> prun Q (body (beginTxn E t)) s0 = (Inr x, s1) \<and>
       interferes s1 (store_of db') \<and> (y = Inr x \<or> (\<exists>e. y = Inl (convertError operation e))))"
proof -
  obtain r0 db0 where new: "srv CNewTxn db = (r0, db0)" by fastforce
  then obtain t where t: "r0 = RTxn t" "base_of db0 t = []" "work_of db0 t = Map.empty"
    and R0: "interferes (store_of db) (store_of db0)"
    using new_txn by blast
  obtain x db1 where b: "run srv (body (beginTxn E t)) db0 = (x, db1)" by fastforce
  note replay = body_replay [OF body b]
  show ?thesis
  proof (cases x)
    case (Inl e)
    with run new t(1) b have "y = Inl e \<and> interferes (store_of db1) (store_of db')"
      by (auto simp: withTxn_def newTxnP_def run_pbind Let_def dest!: run_abort)
    then show ?thesis using R0 replay interferes_trans by blast
  next
    case (Inr x')
    have sees_empty: "sees s Map.empty = s" for s by (simp add: sees_def)
    have pure: "prun Q (body (beginTxn E t)) s0 = (Inr x', sees s0 (work_of db1 t))"
      if "consistent (base_of db1 t) s0" for s0
      using replay that Inr t(3) by (simp add: sees_empty)
    have R1: "interferes (store_of db) (store_of db1)" using R0 replay interferes_trans by blast
    obtain r2 db2 where com: "srv (CCommit t) db1 = (r2, db2)" by fastforce
    show ?thesis
    proof (cases "r2 = ROk")
      case True
      with run new t(1) b Inr com have "y = Inr x'" "db' = db2"
        by (auto simp: withTxn_def newTxnP_def commitTxn_def commitP_def finishTxn_def run_pbind Let_def)
      with True com commit_ok [of t db1 db2] pure R1 interferes_trans show ?thesis by metis
    next
      case False
      then obtain e where e: "r2 = RErr e" using commit_resp com by blast
      with run new t(1) b Inr com False
      have y: "y = Inl (classifyCommitError operation e)" and R2: "interferes (store_of db2) (store_of db')"
        by (auto simp: withTxn_def newTxnP_def commitTxn_def commitP_def run_pbind Let_def dest!: run_abort)
      have "y = Inl (convertError operation e)" if "\<not> isTxnConflict e \<and> \<not> isFilteredOut e"
        using that y by (simp add: classifyCommitError_def)
      with commit_err [OF com False] e y pure R1 R2 interferes_trans show ?thesis by (metis resp.inject(1))
    qed
  qed
qed

lemma withTxn_ok:
  assumes "\<And>t. txn_body t (body (beginTxn E t))"
    and "run srv (withTxn E operation body) db = (Inr x, db')"
  shows "\<exists>t s0 s1. interferes (store_of db) s0 \<and> prun Q (body (beginTxn E t)) s0 = (Inr x, s1) \<and> interferes s1 (store_of db')"
  using withTxn_cases [OF assms] by auto

lemma withTxn_err:
  assumes "\<And>t. txn_body t (body (beginTxn E t))"
    and "run srv (withTxn E operation body) db = (Inl e, db')"
    and "e \<notin> range (convertError operation)"
  shows "interferes (store_of db) (store_of db')"
  using withTxn_cases [OF assms(1,2)] assms(3) by auto

end

section \<open>Programs on a quiet server\<close>

primrec plain_prog :: "'a prog \<Rightarrow> bool" where
  "plain_prog (Ret x) \<longleftrightarrow> True"
| "plain_prog (Cmd c k) \<longleftrightarrow>
     (single c \<or> (\<exists>ks ns. c = CBatchGet ks ns) \<or> (\<exists>ns st. c = CScan ns st)) \<and> cmd_txn c = None \<and> (\<forall>r. plain_prog (k r))"

primrec in_txn :: "txn \<Rightarrow> 'a prog \<Rightarrow> bool" where
  "in_txn t (Ret x) \<longleftrightarrow> True"
| "in_txn t (Cmd c k) \<longleftrightarrow> single c \<and> cmd_txn c = Some t \<and> (\<forall>r. in_txn t (k r))"

lemma txn_body_in_txn: "txn_body t p \<Longrightarrow> in_txn t p"
  by (induction p) auto

lemma plain_pbind [txn_intros]: "plain_prog p \<Longrightarrow> (\<And>x. plain_prog (f x)) \<Longrightarrow> plain_prog (pbind p f)"
  by (induction p) auto

lemma plain_tryP [txn_intros]: "plain_prog p \<Longrightarrow> (\<And>x. plain_prog (f x)) \<Longrightarrow> plain_prog (tryP p f)"
  by (auto simp: tryP_def intro!: plain_pbind split: sum.splits)

lemma plain_cmds [txn_intros]:
  "rp_Txn pol = None \<Longrightarrow> plain_prog (getP pol k bs)" "rp_Txn pol = None \<Longrightarrow> plain_prog (existsP pol k)"
  "wp_Txn wpol = None \<Longrightarrow> plain_prog (putBinsP wpol k vs)" "wp_Txn wpol = None \<Longrightarrow> plain_prog (operateP wpol k ops)"
  "wp_Txn wpol = None \<Longrightarrow> plain_prog (deleteP wpol k)" "plain_prog (batchGetP ks bs)" "plain_prog (scanAllP ns st)"
  by (simp_all add: cmd_prog_defs)

lemma consistent_sees: "consistent (txn_base c s b w) s \<longleftrightarrow> consistent b s"
  by (auto simp: txn_base_def consistent_Cons)

context quiet_aerospike
begin

lemma quiet_run: "plain_prog p \<Longrightarrow> run srv p db = (x, db') \<Longrightarrow> prun Q p (store_of db) = (x, store_of db')"
proof (induction p arbitrary: db)
  case (Cmd c k)
  obtain r db1 where srv: "srv c db = (r, db1)" by fastforce
  then have "(r, store_of db1) = exec Q c (store_of db)"
    using Cmd.prems(1) by (intro quiet_plain) auto
  moreover have "prun Q (k r) (store_of db1) = (x, store_of db')"
    using Cmd.prems srv by (intro Cmd.IH) auto
  ultimately show ?case by (metis old.prod.case prun.simps(2))
qed simp

lemma quiet_body:
  "\<lbrakk>in_txn t p; run srv p db = (x, db'); consistent (base_of db t) (store_of db)\<rbrakk> \<Longrightarrow>
   store_of db' = store_of db \<and> consistent (base_of db' t) (store_of db) \<and>
   prun Q p (sees (store_of db) (work_of db t)) = (x, sees (store_of db) (work_of db' t))"
proof (induction p arbitrary: db)
  case (Cmd c k)
  obtain r db1 where srv: "srv c db = (r, db1)" by fastforce
  have c: "single c" "cmd_txn c = Some t" using Cmd.prems by auto
  have s: "store_of db1 = store_of db" using txn_command [OF c srv] by auto
  note q = quiet_txn [OF c srv]
  have con: "consistent (base_of db1 t) (store_of db)"
    using Cmd.prems(3) q by (simp add: consistent_sees)
  have step: "exec Q c (sees (store_of db) (work_of db t)) = (r, sees (store_of db) (work_of db1 t))"
    using txn_step_replay [OF c(1), of "store_of db" "base_of db t" "work_of db t" "store_of db" Q] q con by simp
  have "store_of db' = store_of db1 \<and> consistent (base_of db' t) (store_of db1) \<and>
      prun Q (k r) (sees (store_of db1) (work_of db1 t)) = (x, sees (store_of db1) (work_of db' t))"
    using Cmd.prems srv s con by (intro Cmd.IH) auto
  with s step show ?case by simp
qed simp

lemma withTxn_quiet:
  assumes body: "\<And>t. txn_body t (body (beginTxn E t))"
    and run: "run srv (withTxn E operation body) db = (y, db')"
  shows "\<exists>t s1. prun Q (body (beginTxn E t)) (store_of db) = (y, s1) \<and>
    store_of db' = (case y of Inl _ \<Rightarrow> store_of db | Inr _ \<Rightarrow> s1)"
proof -
  obtain r0 db0 where new: "srv CNewTxn db = (r0, db0)" by fastforce
  then obtain t where t: "r0 = RTxn t" "base_of db0 t = []" "work_of db0 t = Map.empty" "store_of db0 = store_of db"
    using new_txn by metis
  obtain x db1 where b: "run srv (body (beginTxn E t)) db0 = (x, db1)" by fastforce
  have "consistent (base_of db0 t) (store_of db0)" by (simp add: t(2) consistent_def)
  note q = quiet_body [OF txn_body_in_txn [OF body] b this]
  have pure: "prun Q (body (beginTxn E t)) (store_of db) = (x, sees (store_of db) (work_of db1 t))"
    using q t(3,4) by (simp add: sees_def)
  show ?thesis
  proof (cases x)
    case (Inl e)
    with run new t(1) b have "y = Inl e" "store_of db1 = store_of db'"
      by (auto simp: withTxn_def newTxnP_def run_pbind Let_def dest!: run_abort)
    with Inl pure q t(4) show ?thesis by auto
  next
    case (Inr x')
    obtain r2 db2 where com: "srv (CCommit t) db1 = (r2, db2)" by fastforce
    have r2: "r2 = ROk"
      using quiet_commit [of db1 t] q com by simp
    with run new t(1) b Inr com have "y = Inr x'" "db' = db2"
      by (auto simp: withTxn_def newTxnP_def commitTxn_def commitP_def finishTxn_def run_pbind Let_def)
    moreover have "store_of db2 = sees (store_of db) (work_of db1 t)"
      using commit_ok [of t db1 db2] com r2 q t(4) by auto
    ultimately show ?thesis using pure Inr by auto
  qed
qed

end

section \<open>Two servers that satisfy the laws\<close>

record mem =
  m_store :: store
  m_base :: "txn \<Rightarrow> base"
  m_work :: "txn \<Rightarrow> work"
  m_next :: txn

definition mem_init :: "store \<Rightarrow> mem" where
  "mem_init s = \<lparr>m_store = s, m_base = (\<lambda>_. []), m_work = (\<lambda>_. Map.empty), m_next = 0\<rparr>"

fun mem_server :: "quirks \<Rightarrow> cmd \<Rightarrow> mem \<Rightarrow> resp \<times> mem" where
  "mem_server Q CNewTxn m =
     (RTxn (m_next m), m\<lparr>m_next := Suc (m_next m), m_base := (m_base m)(m_next m := []),
        m_work := (m_work m)(m_next m := Map.empty)\<rparr>)"
| "mem_server Q (CCommit t) m =
     (if consistent (m_base m t) (m_store m) then (ROk, m\<lparr>m_store := sees (m_store m) (m_work m t)\<rparr>)
      else (RErr (AsError [TXN_FAILED, MRT_VERSION_MISMATCH]), m))"
| "mem_server Q (CAbort t) m = (ROk, m)"
| "mem_server Q c m =
     (case cmd_txn c of
        None \<Rightarrow> (case exec Q c (m_store m) of (r, s) \<Rightarrow> (r, m\<lparr>m_store := s\<rparr>))
      | Some t \<Rightarrow> (fst (exec_rec Q c (sees (m_store m) (m_work m t) (cmd_key c))),
          m\<lparr>m_base := (m_base m)(t := txn_base c (m_store m) (m_base m t) (m_work m t)),
            m_work := (m_work m)(t := txn_work Q c (m_store m) (m_work m t))\<rparr>))"

lemma mem_plain:
  "single c \<or> (\<exists>ks ns. c = CBatchGet ks ns) \<or> (\<exists>ns st. c = CScan ns st) \<Longrightarrow> cmd_txn c = None \<Longrightarrow>
   mem_server Q c m = (case exec Q c (m_store m) of (r, s) \<Rightarrow> (r, m\<lparr>m_store := s\<rparr>))"
  by (cases c) auto

lemma mem_txn:
  "single c \<Longrightarrow> cmd_txn c = Some t \<Longrightarrow> mem_server Q c m =
     (fst (exec_rec Q c (sees (m_store m) (m_work m t) (cmd_key c))),
          m\<lparr>m_base := (m_base m)(t := txn_base c (m_store m) (m_base m t) (m_work m t)),
            m_work := (m_work m)(t := txn_work Q c (m_store m) (m_work m t))\<rparr>)"
  by (cases c) auto

interpretation mem: quiet_aerospike Q "mem_server Q" m_store m_base m_work for Q
proof
  fix c db r db'
  assume "single c" "cmd_txn c = None" "mem_server Q c db = (r, db')"
  then show "\<exists>s s'. m_store db = s \<and> s' = m_store db' \<and>
        ((r, s') = exec Q c s \<or> (fault r \<and> (s' = s \<or> s' = snd (exec Q c s))))"
    by (auto simp: mem_plain split: prod.splits)
next
  fix c t db r db'
  assume "single c" "cmd_txn c = Some t" "mem_server Q c db = (r, db')"
  then show "\<exists>s. m_store db = s \<and> s = m_store db' \<and>
        (fault r \<or> (r = fst (exec_rec Q c (sees s (m_work db t) (cmd_key c)))
           \<and> m_base db' t = txn_base c s (m_base db t) (m_work db t)
           \<and> m_work db' t = txn_work Q c s (m_work db t)))"
    and "r = fst (exec_rec Q c (sees (m_store db) (m_work db t) (cmd_key c)))
          \<and> m_base db' t = txn_base c (m_store db) (m_base db t) (m_work db t)
          \<and> m_work db' t = txn_work Q c (m_store db) (m_work db t)"
    by (auto simp: mem_txn)
next
  fix c db r db'
  assume "single c \<or> (\<exists>ks ns. c = CBatchGet ks ns) \<or> (\<exists>ns st. c = CScan ns st)" "cmd_txn c = None"
    "mem_server Q c db = (r, db')"
  then show "(r, m_store db') = exec Q c (m_store db)"
    by (auto simp: mem_plain split: prod.splits)
qed (auto split: if_splits)

text \<open>
  A server on which another client performs the action \<open>a\<close> just before some of the commands: the
  state carries a schedule that says before which.
\<close>

definition busy_server :: "(store \<Rightarrow> store) \<Rightarrow> quirks \<Rightarrow> cmd \<Rightarrow> bool list \<times> mem \<Rightarrow> resp \<times> bool list \<times> mem" where
  "busy_server a Q c db =
     (case db of (sched, m) \<Rightarrow>
        let m' = (if sched \<noteq> [] \<and> hd sched then m\<lparr>m_store := a (m_store m)\<rparr> else m)
        in case mem_server Q c m' of (r, m'') \<Rightarrow> (r, tl sched, m''))"

definition acts :: "('s \<Rightarrow> 's) \<Rightarrow> 's \<Rightarrow> 's \<Rightarrow> bool" where
  "acts a s s' \<longleftrightarrow> (\<exists>n. s' = (a ^^ n) s)"

lemma acts_refl: "acts a s s"
  unfolding acts_def by (rule exI [of _ 0]) simp

lemma acts_once: "acts a s (a s)"
  unfolding acts_def by (rule exI [of _ 1]) simp

lemma acts_trans: "acts a s1 s2 \<Longrightarrow> acts a s2 s3 \<Longrightarrow> acts a s1 s3"
  unfolding acts_def by (metis comp_apply funpow_add)

lemma busy_step:
  assumes "busy_server a Q c (sched, m) = (r, sched', m')"
  obtains m1 where "mem_server Q c m1 = (r, m')" "acts a (m_store m) (m_store m1)"
    "m_base m1 = m_base m" "m_work m1 = m_work m"
proof -
  let ?m1 = "if sched \<noteq> [] \<and> hd sched then m\<lparr>m_store := a (m_store m)\<rparr> else m"
  have "mem_server Q c ?m1 = (r, m')" "acts a (m_store m) (m_store ?m1)"
    "m_base ?m1 = m_base m" "m_work ?m1 = m_work m"
    using assms by (auto simp: busy_server_def Let_def acts_refl acts_once split: prod.splits)
  then show ?thesis by (rule that)
qed

lemma busy_step':
  assumes "busy_server a Q c db = (r, db')"
  obtains m1 where "mem_server Q c m1 = (r, snd db')" "acts a (m_store (snd db)) (m_store m1)"
    "m_base m1 = m_base (snd db)" "m_work m1 = m_work (snd db)"
  using busy_step [of a Q c "fst db" "snd db" r "fst db'" "snd db'"] assms by auto

interpretation busy: aerospike Q "busy_server a Q" "m_store \<circ> snd" "m_base \<circ> snd" "m_work \<circ> snd" "acts a" for a Q
proof
  fix c db r db'
  assume c: "single c" "cmd_txn c = None" "busy_server a Q c db = (r, db')"
  obtain m1 where m1: "mem_server Q c m1 = (r, snd db')" "acts a (m_store (snd db)) (m_store m1)"
    using busy_step' [OF c(3)] .
  have "(r, m_store (snd db')) = exec Q c (m_store m1)"
    using c m1 by (intro mem.quiet_plain) auto
  with m1(2) show "\<exists>s s'. acts a ((m_store \<circ> snd) db) s \<and> acts a s' ((m_store \<circ> snd) db') \<and>
        ((r, s') = exec Q c s \<or> (fault r \<and> (s' = s \<or> s' = snd (exec Q c s))))"
    using acts_refl [of a "m_store (snd db')"] by (intro exI [of _ "m_store m1"] exI [of _ "m_store (snd db')"]) auto
next
  fix c t db r db'
  assume c: "single c" "cmd_txn c = Some t" "busy_server a Q c db = (r, db')"
  obtain m1 where m1: "mem_server Q c m1 = (r, snd db')" "acts a (m_store (snd db)) (m_store m1)"
    "m_base m1 = m_base (snd db)" "m_work m1 = m_work (snd db)"
    using busy_step' [OF c(3)] .
  show "\<exists>s. acts a ((m_store \<circ> snd) db) s \<and> acts a s ((m_store \<circ> snd) db') \<and>
        (fault r \<or> (r = fst (exec_rec Q c (sees s ((m_work \<circ> snd) db t) (cmd_key c)))
           \<and> (m_base \<circ> snd) db' t = txn_base c s ((m_base \<circ> snd) db t) ((m_work \<circ> snd) db t)
           \<and> (m_work \<circ> snd) db' t = txn_work Q c s ((m_work \<circ> snd) db t)))"
    using mem.txn_command [OF c(1,2) m1(1)] m1 acts_refl [of a "m_store (snd db')"] by auto
next
  fix db r db'
  assume b: "busy_server a Q CNewTxn db = (r, db')"
  obtain m1 where m1: "mem_server Q CNewTxn m1 = (r, snd db')" "acts a (m_store (snd db)) (m_store m1)"
    using busy_step' [OF b] .
  then show "\<exists>t. r = RTxn t \<and> (m_base \<circ> snd) db' t = [] \<and> (m_work \<circ> snd) db' t = Map.empty \<and>
      acts a ((m_store \<circ> snd) db) ((m_store \<circ> snd) db')"
    by (cases db') auto
next
  fix t db db'
  assume b: "busy_server a Q (CCommit t) db = (ROk, db')"
  obtain m1 where m1: "mem_server Q (CCommit t) m1 = (ROk, snd db')" "acts a (m_store (snd db)) (m_store m1)"
    "m_base m1 = m_base (snd db)" "m_work m1 = m_work (snd db)"
    using busy_step' [OF b] .
  then show "\<exists>s. acts a ((m_store \<circ> snd) db) s \<and> consistent ((m_base \<circ> snd) db t) s \<and>
      acts a (sees s ((m_work \<circ> snd) db t)) ((m_store \<circ> snd) db')"
    by (cases db') (auto simp: acts_refl split: if_splits)
next
  fix t db r db'
  assume b: "busy_server a Q (CCommit t) db = (r, db')" and r: "r \<noteq> ROk"
  obtain m1 where m1: "mem_server Q (CCommit t) m1 = (r, snd db')" "acts a (m_store (snd db)) (m_store m1)"
    using busy_step' [OF b] .
  with r show "acts a ((m_store \<circ> snd) db) ((m_store \<circ> snd) db') \<or>
      (\<exists>e. r = RErr e \<and> \<not> isTxnConflict e \<and> \<not> isFilteredOut e) \<and>
      (\<exists>s. acts a ((m_store \<circ> snd) db) s \<and> consistent ((m_base \<circ> snd) db t) s \<and>
        acts a (sees s ((m_work \<circ> snd) db t)) ((m_store \<circ> snd) db'))"
    by (auto split: if_splits)
next
  fix t db r db'
  assume b: "busy_server a Q (CCommit t) db = (r, db')"
  obtain m1 where "mem_server Q (CCommit t) m1 = (r, snd db')"
    using busy_step' [OF b] .
  then show "r = ROk \<or> (\<exists>e. r = RErr e)" by (auto split: if_splits)
next
  fix t db r db'
  assume b: "busy_server a Q (CAbort t) db = (r, db')"
  obtain m1 where "mem_server Q (CAbort t) m1 = (r, snd db')" "acts a (m_store (snd db)) (m_store m1)"
    using busy_step' [OF b] .
  then show "acts a ((m_store \<circ> snd) db) ((m_store \<circ> snd) db')" by auto
qed (auto intro: acts_refl acts_trans)

end
