(* ===== verification/StoreKeys.thy ===== *)
theory StoreKeys
  imports AeroServer
begin

text \<open>
  The key builder: \<^verbatim>\<open>keys.go\<close> and the key functions of the store files, with the logical set names.
  \<^verbatim>\<open>as.NewKey\<close> fails only for a user key of an unsupported type; every key here is an integer, a string
  or a byte string, so the builders are total.
\<close>

definition joinColon :: "string list \<Rightarrow> string" where
  "joinColon parts = (case parts of [] \<Rightarrow> [] | x # xs \<Rightarrow> x @ concat (map (\<lambda>y. CHR '':'' # y) xs))"

definition newKey :: "env \<Rightarrow> string \<Rightarrow> ukey \<Rightarrow> askey" where
  "newKey E logicalSet userKey = AKey (kb_namespace E) (kb_prefix E @ logicalSet) userKey"

definition physicalSet :: "env \<Rightarrow> string \<Rightarrow> string" where
  "physicalSet E logical = kb_prefix E @ logical"

definition allSets :: "string list" where
  "allSets = [''shard'', ''exec'', ''curr'', ''htask'', ''htaskidx'', ''dlq'', ''tq'', ''task'', ''taskidx'',
     ''tqdata'', ''buildidx'', ''q2meta'', ''q2msg'', ''nexus'', ''nexusver'', ''htree'', ''hbranch'',
     ''hnode'', ''ns'', ''nsid'', ''nsmeta'', ''cmeta'', ''cmember'', ''schema'']"

definition physicalSets :: "env \<Rightarrow> string list" where
  "physicalSets E = map (physicalSet E) allSets"

definition shardKey :: "env \<Rightarrow> int32 \<Rightarrow> askey" where
  "shardKey E shardID = newKey E ''shard'' (UInt (sint shardID))"

definition executionKey :: "env \<Rightarrow> int32 \<Rightarrow> string \<Rightarrow> string \<Rightarrow> string \<Rightarrow> askey" where
  "executionKey E shardID namespaceID workflowID runID =
     newKey E ''exec'' (UStr (joinColon [dec_int (sint shardID), namespaceID, workflowID, runID]))"

definition currentExecutionKey :: "env \<Rightarrow> int32 \<Rightarrow> string \<Rightarrow> string \<Rightarrow> string \<Rightarrow> askey" where
  "currentExecutionKey E shardID namespaceID workflowID discriminator =
     newKey E ''curr'' (UStr (joinColon [dec_int (sint shardID), namespaceID, workflowID, discriminator]))"

definition namespaceKey :: "env \<Rightarrow> string \<Rightarrow> askey" where
  "namespaceKey E name = newKey E ''ns'' (UStr name)"

definition namespaceByIDKey :: "env \<Rightarrow> string \<Rightarrow> askey" where
  "namespaceByIDKey E nsID = newKey E ''nsid'' (UStr nsID)"

definition namespaceMetadataKey :: "env \<Rightarrow> askey" where
  "namespaceMetadataKey E = newKey E ''nsmeta'' (UStr ''metadata'')"

definition clusterMetadataKey :: "env \<Rightarrow> string \<Rightarrow> askey" where
  "clusterMetadataKey E clusterName = newKey E ''cmeta'' (UStr clusterName)"

definition clusterMemberKey :: "env \<Rightarrow> bytes \<Rightarrow> askey" where
  "clusterMemberKey E hostID = newKey E ''cmember'' (UBytes hostID)"

definition schemaVersionKey :: "env \<Rightarrow> askey" where
  "schemaVersionKey E = newKey E ''schema'' (UStr ''version'')"

definition historyTaskKey :: "env \<Rightarrow> int32 \<Rightarrow> int \<Rightarrow> int64 \<Rightarrow> askey" where
  "historyTaskKey E shardID categoryID bucket =
     newKey E ''htask'' (UStr (joinColon [dec_int (sint shardID), dec_int categoryID, dec_int (sint bucket)]))"

definition historyTaskIndexKey :: "env \<Rightarrow> int32 \<Rightarrow> int \<Rightarrow> askey" where
  "historyTaskIndexKey E shardID categoryID =
     newKey E ''htaskidx'' (UStr (joinColon [dec_int (sint shardID), dec_int categoryID]))"

definition dlqKey :: "env \<Rightarrow> int32 \<Rightarrow> string \<Rightarrow> int64 \<Rightarrow> askey" where
  "dlqKey E shardID sourceCluster bucket =
     newKey E ''dlq'' (UStr (joinColon [dec_int (sint shardID), sourceCluster, dec_int (sint bucket)]))"

definition dlqIndexKey :: "env \<Rightarrow> int32 \<Rightarrow> string \<Rightarrow> askey" where
  "dlqIndexKey E shardID sourceCluster =
     newKey E ''dlq'' (UStr (joinColon [dec_int (sint shardID), sourceCluster, ''idx'']))"

definition historyTreeKey :: "env \<Rightarrow> string \<Rightarrow> askey" where
  "historyTreeKey E treeID = newKey E ''htree'' (UStr treeID)"

definition historyBranchKey :: "env \<Rightarrow> string \<Rightarrow> string \<Rightarrow> askey" where
  "historyBranchKey E treeID branchID = newKey E ''hbranch'' (UStr (joinColon [treeID, branchID]))"

definition historyNodeKey :: "env \<Rightarrow> string \<Rightarrow> string \<Rightarrow> int64 \<Rightarrow> int64 \<Rightarrow> askey" where
  "historyNodeKey E treeID branchID nodeID txnID =
     newKey E ''hnode'' (UStr (joinColon [treeID, branchID, dec_int (sint nodeID), dec_int (sint txnID)]))"

definition taskQueueKey :: "env \<Rightarrow> string \<Rightarrow> string \<Rightarrow> int32 \<Rightarrow> askey" where
  "taskQueueKey E namespaceID name taskType =
     newKey E ''tq'' (UStr (joinColon [namespaceID, name, dec_int (sint taskType)]))"

definition taskKey :: "env \<Rightarrow> string \<Rightarrow> string \<Rightarrow> int32 \<Rightarrow> int \<Rightarrow> int64 \<Rightarrow> askey" where
  "taskKey E namespaceID name taskType subqueue bucket =
     newKey E ''task'' (UStr (joinColon [namespaceID, name, dec_int (sint taskType), dec_int subqueue, dec_int (sint bucket)]))"

definition taskIndexKey :: "env \<Rightarrow> string \<Rightarrow> string \<Rightarrow> int32 \<Rightarrow> int \<Rightarrow> askey" where
  "taskIndexKey E namespaceID name taskType subqueue =
     newKey E ''taskidx'' (UStr (joinColon [namespaceID, name, dec_int (sint taskType), dec_int subqueue]))"

definition taskQueueUserDataKey :: "env \<Rightarrow> string \<Rightarrow> string \<Rightarrow> askey" where
  "taskQueueUserDataKey E namespaceID name = newKey E ''tqdata'' (UStr (joinColon [namespaceID, name]))"

definition buildIDIndexKey :: "env \<Rightarrow> string \<Rightarrow> string \<Rightarrow> askey" where
  "buildIDIndexKey E namespaceID buildID = newKey E ''buildidx'' (UStr (joinColon [namespaceID, buildID]))"

definition queueMetaKey :: "env \<Rightarrow> int \<Rightarrow> string \<Rightarrow> askey" where
  "queueMetaKey E queueType name = newKey E ''q2meta'' (UStr (joinColon [dec_int queueType, name]))"

definition queueMessageKey :: "env \<Rightarrow> int \<Rightarrow> string \<Rightarrow> int64 \<Rightarrow> askey" where
  "queueMessageKey E queueType name bucket =
     newKey E ''q2msg'' (UStr (joinColon [dec_int queueType, name, dec_int (sint bucket)]))"

definition nexusEndpointKey :: "env \<Rightarrow> string \<Rightarrow> askey" where
  "nexusEndpointKey E endpointID = newKey E ''nexus'' (UStr endpointID)"

definition nexusTableVersionKey :: "env \<Rightarrow> askey" where
  "nexusTableVersionKey E = newKey E ''nexusver'' (UStr ''table'')"

lemmas store_key_defs = shardKey_def executionKey_def currentExecutionKey_def namespaceKey_def namespaceByIDKey_def
  namespaceMetadataKey_def clusterMetadataKey_def clusterMemberKey_def schemaVersionKey_def historyTaskKey_def
  historyTaskIndexKey_def dlqKey_def dlqIndexKey_def historyTreeKey_def historyBranchKey_def historyNodeKey_def
  taskQueueKey_def taskKey_def taskIndexKey_def taskQueueUserDataKey_def buildIDIndexKey_def queueMetaKey_def
  queueMessageKey_def nexusEndpointKey_def nexusTableVersionKey_def

section \<open>Different things have different keys\<close>

lemma newKey_eq [simp]: "newKey E s1 k1 = newKey E s2 k2 \<longleftrightarrow> s1 = s2 \<and> k1 = k2"
  by (simp add: newKey_def)

lemma joinColon_Cons: "xs \<noteq> [] \<Longrightarrow> joinColon (x # xs) = x @ CHR '':'' # joinColon xs"
  by (cases xs) (simp_all add: joinColon_def)

lemma joinColon_single [simp]: "joinColon [x] = x"
  by (simp add: joinColon_def)

lemma joinColon_snoc: "xs \<noteq> [] \<Longrightarrow> joinColon (xs @ [x]) = joinColon xs @ CHR '':'' # x"
  by (cases xs) (simp_all add: joinColon_def)

text \<open>A first or last part without a colon can be split off again.\<close>

lemma joinColon_first:
  "\<lbrakk>CHR '':'' \<notin> set a; CHR '':'' \<notin> set b; xs \<noteq> []; ys \<noteq> []\<rbrakk> \<Longrightarrow>
   joinColon (a # xs) = joinColon (b # ys) \<longleftrightarrow> a = b \<and> joinColon xs = joinColon ys"
  by (simp add: joinColon_Cons colon_split_left)

lemma joinColon_last:
  "\<lbrakk>CHR '':'' \<notin> set a; CHR '':'' \<notin> set b; xs \<noteq> []; ys \<noteq> []\<rbrakk> \<Longrightarrow>
   joinColon (xs @ [a]) = joinColon (ys @ [b]) \<longleftrightarrow> joinColon xs = joinColon ys \<and> a = b"
  by (simp add: joinColon_snoc colon_split_right)

lemma sint_inject32 [simp]: "sint (a::int32) = sint b \<longleftrightarrow> a = b"
  by (auto intro: signed_word_eqI)

lemma shardKey_inject [key_simps, simp]: "shardKey E a = shardKey E b \<longleftrightarrow> a = b"
  by (simp add: shardKey_def)

lemma historyTaskKey_inject [key_simps, simp]:
  "historyTaskKey E s c b = historyTaskKey E s' c' b' \<longleftrightarrow> s = s' \<and> c = c' \<and> b = b'"
  by (simp add: historyTaskKey_def joinColon_first sint_inject64)

lemma historyTaskIndexKey_inject [key_simps, simp]:
  "historyTaskIndexKey E s c = historyTaskIndexKey E s' c' \<longleftrightarrow> s = s' \<and> c = c'"
  by (simp add: historyTaskIndexKey_def joinColon_first)

lemma joinColon_mid:
  assumes "CHR '':'' \<notin> set a" "CHR '':'' \<notin> set a'" "CHR '':'' \<notin> set z" "CHR '':'' \<notin> set z'"
  shows "joinColon [a, m, z] = joinColon [a', m', z'] \<longleftrightarrow> a = a' \<and> m = m' \<and> z = z'"
  using assms joinColon_last [of z z' "[m]" "[m']"] by (simp add: joinColon_first)

lemma executionKey_inject [key_simps]:
  assumes "CHR '':'' \<notin> set ns" "CHR '':'' \<notin> set ns'" "CHR '':'' \<notin> set r" "CHR '':'' \<notin> set r'"
  shows "executionKey E s ns w r = executionKey E s' ns' w' r' \<longleftrightarrow> s = s' \<and> ns = ns' \<and> w = w' \<and> r = r'"
  using assms by (simp add: executionKey_def joinColon_first [of "dec_int _"] joinColon_mid)

lemma currentExecutionKey_inject [key_simps]:
  assumes "CHR '':'' \<notin> set ns" "CHR '':'' \<notin> set ns'" "CHR '':'' \<notin> set r" "CHR '':'' \<notin> set r'"
  shows "currentExecutionKey E s ns w r = currentExecutionKey E s' ns' w' r' \<longleftrightarrow> s = s' \<and> ns = ns' \<and> w = w' \<and> r = r'"
  using assms by (simp add: currentExecutionKey_def joinColon_first [of "dec_int _"] joinColon_mid)

lemma dlqKey_inject [key_simps, simp]: "dlqKey E s c b = dlqKey E s' c' b' \<longleftrightarrow> s = s' \<and> c = c' \<and> b = b'"
  by (simp add: dlqKey_def joinColon_mid sint_inject64)

lemma dlqIndexKey_inject [key_simps, simp]: "dlqIndexKey E s c = dlqIndexKey E s' c' \<longleftrightarrow> s = s' \<and> c = c'"
  by (simp add: dlqIndexKey_def joinColon_mid)

lemma dec_int_not_idx: "dec_int i \<noteq> ''idx''"
proof
  assume "dec_int i = ''idx''"
  then have "CHR ''i'' \<in> set (dec_nat (nat (- i))) \<or> CHR ''i'' \<in> set (dec_nat (nat i))"
    by (auto simp: dec_int_def split: if_splits)
  then show False using dec_nat_digits [of "CHR ''i''"] by auto
qed

lemma dlqKey_not_index [key_simps, simp]: "dlqKey E s c b \<noteq> dlqIndexKey E s' c'" "dlqIndexKey E s' c' \<noteq> dlqKey E s c b"
  using dec_int_not_idx [of "sint b"] by (auto simp: dlqKey_def dlqIndexKey_def joinColon_mid)

lemma historyBranchKey_inject [key_simps]:
  "CHR '':'' \<notin> set t \<Longrightarrow> CHR '':'' \<notin> set t' \<Longrightarrow> historyBranchKey E t b = historyBranchKey E t' b' \<longleftrightarrow> t = t' \<and> b = b'"
  by (simp add: historyBranchKey_def joinColon_first)

lemma historyNodeKey_inject [key_simps]:
  assumes "CHR '':'' \<notin> set t" "CHR '':'' \<notin> set t'"
  shows "historyNodeKey E t b n x = historyNodeKey E t' b' n' x' \<longleftrightarrow> t = t' \<and> b = b' \<and> n = n' \<and> x = x'"
proof -
  have "joinColon [b, n1, x1] = joinColon [b', n2, x2] \<longleftrightarrow> b = b' \<and> n1 = n2 \<and> x1 = x2"
    if "CHR '':'' \<notin> set n1" "CHR '':'' \<notin> set n2" "CHR '':'' \<notin> set x1" "CHR '':'' \<notin> set x2" for n1 n2 x1 x2
    using that joinColon_last [of x1 x2 "[b, n1]" "[b', n2]"] joinColon_last [of n1 n2 "[b]" "[b']"] by auto
  with assms show ?thesis
    by (simp add: historyNodeKey_def joinColon_first [of t] sint_inject64)
qed

lemma queueMessageKey_inject [key_simps, simp]:
  "queueMessageKey E q n b = queueMessageKey E q' n' b' \<longleftrightarrow> q = q' \<and> n = n' \<and> b = b'"
  by (simp add: queueMessageKey_def joinColon_mid sint_inject64)

lemma queueMetaKey_inject [key_simps, simp]: "queueMetaKey E q n = queueMetaKey E q' n' \<longleftrightarrow> q = q' \<and> n = n'"
  by (simp add: queueMetaKey_def joinColon_first)

lemma taskKey_inject [key_simps]:
  assumes "CHR '':'' \<notin> set ns" "CHR '':'' \<notin> set ns'"
  shows "taskKey E ns n t q b = taskKey E ns' n' t' q' b' \<longleftrightarrow> ns = ns' \<and> n = n' \<and> t = t' \<and> q = q' \<and> b = b'"
  using assms joinColon_last [of "dec_int (sint b)" "dec_int (sint b')" "[n, dec_int (sint t), dec_int q]" "[n', dec_int (sint t'), dec_int q']"]
    joinColon_last [of "dec_int q" "dec_int q'" "[n, dec_int (sint t)]" "[n', dec_int (sint t')]"]
    joinColon_last [of "dec_int (sint t)" "dec_int (sint t')" "[n]" "[n']"]
  by (auto simp: taskKey_def joinColon_first [of ns ns'] sint_inject64)

lemma taskQueueKey_inject [key_simps]:
  assumes "CHR '':'' \<notin> set ns" "CHR '':'' \<notin> set ns'"
  shows "taskQueueKey E ns n t = taskQueueKey E ns' n' t' \<longleftrightarrow> ns = ns' \<and> n = n' \<and> t = t'"
  using assms by (simp add: taskQueueKey_def joinColon_mid)

end
