(* ===== verification/StoreProg.thy ===== *)
theory StoreProg
  imports StoreKeys
begin

text \<open>
  How a program runs on the documented semantics, one rule per client call, so that a handler's run
  unfolds by rewriting with \<open>prog_simps\<close>.
\<close>

lemma prun_get [prog_simps]:
  "prun Q (pbind (getP pol k bs) g) s =
     (case s k of
        None \<Rightarrow> prun Q (g (Inl (AsError [KEY_NOT_FOUND_ERROR]))) s
      | Some r \<Rightarrow> prun Q (g (Inr (read_bins Q k bs r))) s)"
  by (simp add: getP_def fun_upd_idem split: option.splits)

lemma prun_exists [prog_simps]: "prun Q (pbind (existsP pol k) g) s = prun Q (g (Inr (s k \<noteq> None))) s"
  by (simp add: existsP_def)

lemma prun_put [prog_simps]:
  "prun Q (pbind (putBinsP pol k vs) g) s =
     (case admit pol (s k) of
        Some c \<Rightarrow> prun Q (g (Inl (AsError [c]))) s
      | None \<Rightarrow> prun Q (g (Inr ())) (s(k \<mapsto> put_bins vs (if replaces pol then Map.empty else old_bins (s k)))))"
  by (simp add: putBinsP_def fun_upd_idem split: option.splits)

definition op_absent :: "quirks \<Rightarrow> operation list \<Rightarrow> bool" where
  "op_absent Q ops \<longleftrightarrow> list_ex op_writes ops \<and> \<not> q_absent_remove_fails Q"

lemma prun_operate [prog_simps]:
  "prun Q (pbind (operateP pol k ops) g) s =
     (case admit pol (s k) of
        Some c \<Rightarrow> prun Q (g (Inl (AsError [c]))) s
      | None \<Rightarrow>
          if replaces pol then prun Q (g (Inl (AsError [PARAMETER_ERROR]))) s
          else if s k = None \<and> \<not> list_ex op_creates ops then
            (if op_absent Q ops then prun Q (g (Inr (op_record Q k []))) s
             else prun Q (g (Inl (AsError [KEY_NOT_FOUND_ERROR]))) s)
          else (case apply_ops ops (old_bins (s k)) of
                  Inl c \<Rightarrow> prun Q (g (Inl (AsError [c]))) s
                | Inr (res, r) \<Rightarrow> prun Q (g (Inr (op_record Q k res))) (s(k \<mapsto> r))))"
  by (auto simp: operateP_def op_absent_def fun_upd_idem split: option.splits sum.splits prod.splits)

lemma prun_delete [prog_simps]:
  "prun Q (pbind (deleteP pol k) g) s =
     (case s k of
        None \<Rightarrow> prun Q (g (Inr False)) s
      | Some r \<Rightarrow>
          (case wp_FilterExpression pol of
             None \<Rightarrow> prun Q (g (Inr True)) (s(k := None))
           | Some f \<Rightarrow> if filter_holds f r then prun Q (g (Inr True)) (s(k := None))
                       else prun Q (g (Inl (AsError [FILTERED_OUT]))) s))"
  by (auto simp: deleteP_def fun_upd_idem split: option.splits)

lemma prun_batchGet [prog_simps]:
  "prun Q (pbind (batchGetP ks bs) g) s = prun Q (g (Inr (map (\<lambda>k. map_option (read_bins Q k bs) (s k)) ks))) s"
  by (simp add: batchGetP_def)

lemma prun_scanAll [prog_simps]:
  "prun Q (pbind (scanAllP ns st) g) s =
   prun Q (g (Inr (map (\<lambda>k. Inr (read_bins Q k [] (old_bins (s k)))) (q_scan Q s ns st)))) s"
  by (simp add: scanAllP_def)

lemma prun_tryP [prog_simps]:
  "prun Q (tryP p f) s = (case prun Q p s of (Inl e, s') \<Rightarrow> (Inl e, s') | (Inr x, s') \<Rightarrow> prun Q (f x) s')"
  by (auto simp: tryP_def prun_pbind split: sum.splits prod.splits)

lemma old_bins_simps [simp]: "old_bins None = Map.empty" "old_bins (Some r) = r"
  by (simp_all add: old_bins_def)

lemma admit_update [simp]:
  "wp_RecordExistsAction pol = UPDATE \<Longrightarrow> wp_FilterExpression pol = None \<Longrightarrow> admit pol v = None"
  by (simp add: admit_def split: option.splits)

lemma not_replaces [simp]:
  "wp_RecordExistsAction pol = UPDATE \<Longrightarrow> \<not> replaces pol"
  "wp_RecordExistsAction pol = UPDATE_ONLY \<Longrightarrow> \<not> replaces pol"
  "wp_RecordExistsAction pol = CREATE_ONLY \<Longrightarrow> \<not> replaces pol"
  by (simp_all add: replaces_def)

lemma admit_create: "wp_RecordExistsAction pol = CREATE_ONLY \<Longrightarrow>
    admit pol v = (case v of None \<Rightarrow> None | Some _ \<Rightarrow> Some KEY_EXISTS_ERROR)"
  by (simp add: admit_def split: option.splits)

lemma admit_cond: "wp_RecordExistsAction pol = UPDATE_ONLY \<Longrightarrow> wp_FilterExpression pol = Some f \<Longrightarrow>
    admit pol v = (case v of None \<Rightarrow> Some KEY_NOT_FOUND_ERROR | Some r \<Rightarrow> if filter_holds f r then None else Some FILTERED_OUT)"
  by (simp add: admit_def split: option.splits)

lemma policy_simps [simp]:
  "rp_Txn (readPolicy E) = None" "rp_Txn (readLinearizePolicy E) = None"
  "wp_Txn (writePolicy E) = None" "wp_Txn (createPolicy E) = None" "wp_Txn (replacePolicy E) = None"
  "wp_Txn (deletePolicy E) = None" "wp_Txn (condWrite E f) = None" "wp_Txn (condWriteTxn E f t) = Some t"
  "wp_RecordExistsAction (writePolicy E) = UPDATE" "wp_FilterExpression (writePolicy E) = None"
  "wp_RecordExistsAction (createPolicy E) = CREATE_ONLY" "wp_FilterExpression (createPolicy E) = None"
  "wp_RecordExistsAction (replacePolicy E) = REPLACE" "wp_FilterExpression (replacePolicy E) = None"
  "wp_RecordExistsAction (condWrite E f) = UPDATE_ONLY" "wp_FilterExpression (condWrite E f) = Some f"
  "wp_RecordExistsAction (condWriteTxn E f t) = UPDATE_ONLY" "wp_FilterExpression (condWriteTxn E f t) = Some f"
  "wp_FilterExpression (deletePolicy E) = None"
  by (simp_all add: policy_defs)

text \<open>Bins of a record, read and written.\<close>

lemma put_bins_simps [simp]: "put_bins [] r = r" "put_bins ((b, v) # bs) r = put_bins bs (r(b := put_bin v))"
  by (simp_all add: put_bins_def)

lemma put_bin_simps [simp]:
  "put_bin GNil = None" "put_bin (GInt n) = Some (BVal (GInt n))" "put_bin (GInt64 n) = Some (BVal (GInt n))"
  "put_bin (GString t) = Some (BVal (GString t))" "put_bin (GBytes b) = Some (BVal (GBytes b))"
  "put_bin (GBool c) = Some (BVal (GBool c))"
  by (simp_all add: put_bin_def)

lemma Bins_read_bins [simp]: "Bins (read_bins Q k names r) b = (if names = [] \<or> b \<in> set names then read_bin (r b) else GNil)"
  by (simp add: read_bins_def)

definition bin_int :: "string \<Rightarrow> bins \<Rightarrow> int64" where
  "bin_int b r = orZero (asInt64 (read_bin (r b))) 0"

definition bin_str :: "string \<Rightarrow> bins \<Rightarrow> string" where
  "bin_str b r = orZero (asString (read_bin (r b))) ''''"

lemma binInt64_read [simp]: "names = [] \<or> b \<in> set names \<Longrightarrow> binInt64 (read_bins Q k names r) b = bin_int b r"
  by (simp add: binInt64_def bin_int_def)

lemma binString_read [simp]: "names = [] \<or> b \<in> set names \<Longrightarrow> binString (read_bins Q k names r) b = bin_str b r"
  by (simp add: binString_def bin_str_def)

definition bin_blob :: "env \<Rightarrow> string \<Rightarrow> string \<Rightarrow> bins \<Rightarrow> blob option" where
  "bin_blob E d e r =
     (case asBytes (read_bin (r d)) of
        None \<Rightarrow> None
      | Some data \<Rightarrow> Some (NewDataBlob E data (orZero (asString (read_bin (r e))) '''')))"

lemma readBlob_read [simp]:
  "names = [] \<or> d \<in> set names \<and> e \<in> set names \<Longrightarrow> readBlob E (read_bins Q k names r) d e = bin_blob E d e r"
  by (auto simp: readBlob_def bin_blob_def split: option.splits)

lemma blobBins_eq [simp]:
  "blobBins E d e None = [(d, GNil), (e, GNil)]"
  "blobBins E d e (Some x) = [(d, GBytes (blob_data x)), (e, GString (EncodingType_String E (blob_enc x)))]"
  by (simp_all add: blobBins_def)

context temporal_api
begin

lemma bin_blob_put:
  assumes "d \<noteq> e"
    and "r d = put_bin (case b of None \<Rightarrow> GNil | Some x \<Rightarrow> GBytes (blob_data x))"
    and "r e = put_bin (case b of None \<Rightarrow> GNil | Some x \<Rightarrow> GString (EncodingType_String E (blob_enc x)))"
  shows "bin_blob E d e r = b"
  using assms by (cases b) (simp_all add: bin_blob_def NewDataBlob_String)

end

end
