(* ===== verification/Interleaving.thy ===== *)
theory Interleaving
  imports StoreProg
begin

text \<open>
  Several clients of one server: a step picks a client that still runs and executes its next command.
  A store operation is not atomic here, only its single commands are, so an invariant of this relation
  holds for every schedule of the operations.
\<close>

inductive istep :: "(cmd \<Rightarrow> 'db \<Rightarrow> resp \<times> 'db) \<Rightarrow> 'a prog list \<times> 'db \<Rightarrow> 'a prog list \<times> 'db \<Rightarrow> bool"
  for srv :: "cmd \<Rightarrow> 'db \<Rightarrow> resp \<times> 'db" where
  client: "\<lbrakk>i < length ps; ps ! i = Cmd c k; srv c db = (r, db')\<rbrakk> \<Longrightarrow> istep srv (ps, db) (ps[i := k r], db')"

inductive_cases istepE: "istep srv (ps, db) y"

lemma istep_length: "istep srv x y \<Longrightarrow> length (fst y) = length (fst x)"
  by (induction rule: istep.induct) simp

lemma isteps_invariant:
  assumes "(istep srv)\<^sup>*\<^sup>* x y" "Inv x" "\<And>x y. istep srv x y \<Longrightarrow> Inv x \<Longrightarrow> Inv y"
  shows "Inv y"
  using assms by (induction rule: rtranclp_induct) blast+

text \<open>A client that only reads and can no longer succeed.\<close>

primrec lost :: "'a io \<Rightarrow> bool" where
  "lost (Ret x) \<longleftrightarrow> (\<exists>e. x = Inl e)"
| "lost (Cmd c k) \<longleftrightarrow> single c \<and> cmd_txn c = None \<and> is_read c \<and> (\<forall>r. lost (k r))"

lemma snd_exec_read: "single c \<Longrightarrow> is_read c \<Longrightarrow> snd (exec Q c s) = s"
  using exec_rec_read [of c Q "s (cmd_key c)"] by (auto simp: exec_single fun_upd_idem split: prod.splits)

context aerospike
begin

lemma read_command:
  assumes "single c" "cmd_txn c = None" "is_read c" "srv c db = (r, db')"
  shows "interferes (store_of db) (store_of db')"
  using plain_command [OF assms(1,2,4)] snd_exec_read [OF assms(1,3), of Q]
  by (metis interferes_trans snd_conv)

text \<open>
  A race: every client starts with \<open>start\<close>, whose first command either leaves it succeeded or lost, and
  succeeds only on a store that satisfies \<open>avail\<close>, which it then no longer does.
\<close>

lemma one_winner:
  assumes start: "\<And>p. p \<in> set starts \<Longrightarrow> \<exists>c k. p = Cmd c k \<and> single c \<and> cmd_txn c = None \<and>
        (\<forall>r. k r = Ret (Inr ()) \<or> lost (k r)) \<and>
        (\<forall>s r s'. (r, s') = exec Q c s \<longrightarrow> k r = Ret (Inr ()) \<longrightarrow> avail s \<and> \<not> avail s') \<and>
        (\<forall>s. \<not> avail s \<longrightarrow> \<not> avail (snd (exec Q c s))) \<and>
        (\<forall>e. \<not> definite e \<longrightarrow> k (RErr e) \<noteq> Ret (Inr ()))"
    and keep: "\<And>s s'. interferes s s' \<Longrightarrow> avail s' \<longleftrightarrow> avail s"
    and reach: "(istep srv)\<^sup>*\<^sup>* (starts, db) (ps, db')"
    and win: "a < length ps" "b < length ps" "ps ! a = Ret (Inr ())" "ps ! b = Ret (Inr ())"
  shows "a = b"
proof -
  let ?win = "\<lambda>ps j. j < length ps \<and> ps ! j = Ret (Inr ())"
  let ?Inv = "\<lambda>(ps, db). (\<forall>j < length ps. ps ! j \<in> set starts \<or> ps ! j = Ret (Inr ()) \<or> lost (ps ! j)) \<and>
      (\<forall>a b. ?win ps a \<longrightarrow> ?win ps b \<longrightarrow> a = b) \<and> (\<forall>a. ?win ps a \<longrightarrow> \<not> avail (store_of db))"
  have "?Inv (ps, db')"
  proof (rule isteps_invariant [OF reach])
    have "\<not> ?win starts j" for j using start [OF nth_mem, of j] by auto
    then show "?Inv (starts, db)" by auto
  next
    fix x y assume "istep srv x y" "?Inv x"
    then show "?Inv y"
    proof (induction rule: istep.induct)
      case (client i ps c k db r db')
      then have one: "?win ps a \<Longrightarrow> ?win ps b \<Longrightarrow> a = b" and closed: "?win ps a \<Longrightarrow> \<not> avail (store_of db)" for a b by blast+
      have kinds: "j < length ps \<Longrightarrow> ps ! j \<in> set starts \<or> ps ! j = Ret (Inr ()) \<or> lost (ps ! j)" for j
        using client.prems by simp
      have "(k r = Ret (Inr ()) \<or> lost (k r)) \<and> (k r = Ret (Inr ()) \<longrightarrow> avail (store_of db) \<and> \<not> avail (store_of db')) \<and>
          (\<not> avail (store_of db) \<longrightarrow> \<not> avail (store_of db'))"
      proof (cases "lost (ps ! i)")
        case True
        with client.hyps have "single c" "cmd_txn c = None" "is_read c" "lost (k r)" by simp_all
        with read_command [of c db r db'] client.hyps(3) keep show ?thesis by auto
      next
        case False
        with kinds [of i] client.hyps have "Cmd c k \<in> set starts" by auto
        note st = start [OF this]
        then have c: "single c" "cmd_txn c = None" by auto
        obtain s s' where s: "interferes (store_of db) s" "interferes s' (store_of db')"
          and out: "(r, s') = exec Q c s \<or> fault r \<and> (s' = s \<or> s' = snd (exec Q c s))"
          using plain_command [OF c client.hyps(3)] by blast
        from out show ?thesis
        proof
          assume e: "(r, s') = exec Q c s"
          then have "s' = snd (exec Q c s)" by (metis snd_conv)
          with st e keep [OF s(1)] keep [OF s(2)] show ?thesis by auto
        next
          assume "fault r \<and> (s' = s \<or> s' = snd (exec Q c s))"
          with st keep [OF s(1)] keep [OF s(2)] show ?thesis by (auto simp: fault_def)
        qed
      qed
      with one closed kinds client.hyps(1) show ?case
        by (auto simp: nth_list_update split: if_splits)
    qed
  qed
  with win show ?thesis by auto
qed

end

context aerospike
begin

text \<open>
  Rely and guarantee: each client keeps a property of itself and the store, moves the store only within
  \<open>G\<close>, and the property survives the others moving it within \<open>G\<close>.
\<close>

lemma rely_guarantee:
  assumes init: "\<And>p. p \<in> set starts \<Longrightarrow> good p (store_of db)"
    and plain: "\<And>c k s. good (Cmd c k) s \<Longrightarrow> single c \<and> cmd_txn c = None"
    and step: "\<And>c k s r s'. good (Cmd c k) s \<Longrightarrow> (r, s') = exec Q c s \<or> fault r \<and> (s' = s \<or> s' = snd (exec Q c s)) \<Longrightarrow>
        good (k r) s' \<and> G s s'"
    and stable: "\<And>p s s'. good p s \<Longrightarrow> G s s' \<Longrightarrow> good p s'"
    and rely: "\<And>s s'. interferes s s' \<Longrightarrow> G s s'"
    and reach: "(istep srv)\<^sup>*\<^sup>* (starts, db) (ps, db')"
  shows "(\<forall>p \<in> set ps. good p (store_of db')) \<and> G\<^sup>*\<^sup>* (store_of db) (store_of db')"
proof -
  let ?s = "store_of db"
  let ?Inv = "\<lambda>(ps, db). (\<forall>p \<in> set ps. good p (store_of db)) \<and> G\<^sup>*\<^sup>* ?s (store_of db)"
  have "?Inv (ps, db')"
  proof (rule isteps_invariant [OF reach])
    show "?Inv (starts, db)" using init by auto
  next
    fix x y assume "istep srv x y" "?Inv x"
    then show "?Inv y"
    proof (induction rule: istep.induct)
      case (client i ps c k db r db')
      then have all: "\<And>p. p \<in> set ps \<Longrightarrow> good p (store_of db)" and path: "G\<^sup>*\<^sup>* ?s (store_of db)" by auto
      with client.hyps have mine: "good (Cmd c k) (store_of db)" by (metis nth_mem)
      with plain have c: "single c" "cmd_txn c = None" by blast+
      obtain s s' where s: "interferes (store_of db) s" "interferes s' (store_of db')"
        and out: "(r, s') = exec Q c s \<or> fault r \<and> (s' = s \<or> s' = snd (exec Q c s))"
        using plain_command [OF c client.hyps(3)] by blast
      have g: "good p s" if "p \<in> set ps" for p using all [OF that] s(1) rely stable by blast
      have st: "good (k r) s' \<and> G s s'"
        using step [OF _ out] mine s(1) rely stable by blast
      have "good (k r) (store_of db')" "p \<in> set ps \<Longrightarrow> good p (store_of db')" for p
        using st g s(2) rely stable by blast+
      moreover have "G\<^sup>*\<^sup>* ?s (store_of db')"
        using path rely [OF s(1)] conjunct2 [OF st] rely [OF s(2)] by (meson rtranclp.rtrancl_into_rtrancl)
      ultimately show ?case using client.hyps(1) set_update_subset_insert [of ps i "k r"] by auto
    qed
  qed
  then show ?thesis by simp
qed

text \<open>The same from any state of the run on: what the clients do to the store between two instants is within \<open>G\<close>.\<close>

lemma rely_guarantee_from:
  assumes init: "\<And>p. p \<in> set starts \<Longrightarrow> good p (store_of db)"
    and plain: "\<And>c k s. good (Cmd c k) s \<Longrightarrow> single c \<and> cmd_txn c = None"
    and step: "\<And>c k s r s'. good (Cmd c k) s \<Longrightarrow> (r, s') = exec Q c s \<or> fault r \<and> (s' = s \<or> s' = snd (exec Q c s)) \<Longrightarrow>
        good (k r) s' \<and> G s s'"
    and stable: "\<And>p s s'. good p s \<Longrightarrow> G s s' \<Longrightarrow> good p s'"
    and rely: "\<And>s s'. interferes s s' \<Longrightarrow> G s s'"
    and trans: "\<And>s s' s''. G s s' \<Longrightarrow> G s' s'' \<Longrightarrow> G s s''"
    and reach: "(istep srv)\<^sup>*\<^sup>* (starts, db) (mid, db1)" "(istep srv)\<^sup>*\<^sup>* (mid, db1) (ps, db')"
  shows "(\<forall>p \<in> set ps. good p (store_of db')) \<and> G (store_of db1) (store_of db')"
proof -
  have phase: "(\<forall>p \<in> set qs. good p (store_of d')) \<and> G\<^sup>*\<^sup>* (store_of d) (store_of d')"
    if "\<And>p. p \<in> set rs \<Longrightarrow> good p (store_of d)" "(istep srv)\<^sup>*\<^sup>* (rs, d) (qs, d')" for rs d qs d'
    by (rule rely_guarantee [where starts = rs]) (fact that plain step stable rely)+
  have "\<forall>p \<in> set mid. good p (store_of db1)" using phase [OF init reach(1)] by simp
  then have "(\<forall>p \<in> set ps. good p (store_of db')) \<and> G\<^sup>*\<^sup>* (store_of db1) (store_of db')"
    using phase [OF _ reach(2)] by simp
  moreover have "G s s'" if "G\<^sup>*\<^sup>* s s'" for s s'
    using that by (induction rule: rtranclp_induct) (auto intro: rely interferes_refl trans)
  ultimately show ?thesis by blast
qed

end

end
