(* ===== verification/ShardStore.thy ===== *)
theory ShardStore
  imports Interleaving
begin

text \<open>
  \<^verbatim>\<open>shard_store.go\<close>: the shard lease. One record per shard holds the range id, the fencing token every
  other store checks. The theorems: an update succeeds only on the range id it names, creation never
  overwrites, and of any number of clients racing from the same range id, under every interleaving of
  their commands, at most one succeeds.
\<close>

section \<open>The operations\<close>

text \<open>\<^verbatim>\<open>CreateShardInfo\<close> is the caller's constructor: nil, or a function giving a range id and a blob, or an error.\<close>

type_synonym create_info = "(perr + int64 \<times> blob option) option"

definition readShard :: "env \<Rightarrow> askey \<Rightarrow> (goerr + as_record) prog" where
  "readShard E key = getP (readLinearizePolicy E) key [''data'', ''enc'']"

definition shardBins :: "env \<Rightarrow> blob option \<Rightarrow> int64 \<Rightarrow> (string \<times> gval) list" where
  "shardBins E shardInfo rangeID = blobBins E ''data'' ''enc'' shardInfo @ [(''range_id'', GInt64 rangeID)]"

text \<open>The re-read after a lost creation race runs with the constructor cleared, so it does not recur again.\<close>

fun GetOrCreateShard :: "env \<Rightarrow> int32 \<Rightarrow> create_info \<Rightarrow> blob option io" where
  "GetOrCreateShard E shardID None =
     pbind (readShard E (shardKey E shardID)) (\<lambda>r. case r of
        Inr rec \<Rightarrow> Ret (Inr (readBlob E rec ''data'' ''enc''))
      | Inl err \<Rightarrow> Ret (Inl (convertError ''GetOrCreateShard'' err)))"
| "GetOrCreateShard E shardID (Some create) =
     pbind (readShard E (shardKey E shardID)) (\<lambda>r. case r of
        Inr rec \<Rightarrow> Ret (Inr (readBlob E rec ''data'' ''enc''))
      | Inl err \<Rightarrow>
          if \<not> isNotFound err then Ret (Inl (convertError ''GetOrCreateShard'' err))
          else (case create of
              Inl e \<Rightarrow> Ret (Inl e)
            | Inr (rangeID, shardInfo) \<Rightarrow>
                pbind (putBinsP (createPolicy E) (shardKey E shardID) (shardBins E shardInfo rangeID)) (\<lambda>w. case w of
                   Inr _ \<Rightarrow> Ret (Inr shardInfo)
                 | Inl err \<Rightarrow>
                     if isKeyExists err then GetOrCreateShard E shardID None
                     else Ret (Inl (convertError ''GetOrCreateShard'' err)))))"

definition shardOwnershipLost :: "env \<Rightarrow> int32 \<Rightarrow> unit io" where
  "shardOwnershipLost E shardID =
     pbind (getP (readLinearizePolicy E) (shardKey E shardID) [''range_id'', ''owner'']) (\<lambda>r.
       let actual = (case r of
              Inr rec \<Rightarrow> DiagFound (binInt64 rec ''range_id'') (binString rec ''owner'')
            | Inl err \<Rightarrow> if isNotFound err then DiagMissing else DiagUnknown)
       in Ret (Inl (ShardOwnershipLost shardID actual)))"

record UpdateShardRequest =
  us_ShardID :: int32
  us_RangeID :: int64
  us_Owner :: string
  us_ShardInfo :: "blob option"
  us_PreviousRangeID :: int64

definition updateBins :: "env \<Rightarrow> UpdateShardRequest \<Rightarrow> (string \<times> gval) list" where
  "updateBins E request =
     shardBins E (us_ShardInfo request) (us_RangeID request)
     @ (if us_Owner request \<noteq> '''' then [(''owner'', GString (us_Owner request))] else [])"

definition UpdateShard :: "env \<Rightarrow> UpdateShardRequest \<Rightarrow> unit io" where
  "UpdateShard E request =
     pbind (putBinsP (condWrite E (rangeIDEquals (us_PreviousRangeID request))) (shardKey E (us_ShardID request))
              (updateBins E request)) (\<lambda>w. case w of
        Inr _ \<Rightarrow> Ret (Inr ())
      | Inl err \<Rightarrow>
          if isFilteredOut err \<or> isNotFound err then shardOwnershipLost E (us_ShardID request)
          else Ret (Inl (convertError ''UpdateShard'' err)))"

definition AssertShardOwnership :: "env \<Rightarrow> int32 \<Rightarrow> unit io" where
  "AssertShardOwnership E shardID = Ret (Inr ())"

section \<open>One plain command against any server\<close>

context aerospike
begin

lemma plain_step:
  assumes "single c" "cmd_txn c = None" "run srv (Cmd c k) db = (x, db')"
  obtains r s s' db1 where "interferes (store_of db) s" "interferes s' (store_of db1)" "run srv (k r) db1 = (x, db')"
    "(r, s') = exec Q c s \<or> fault r \<and> (s' = s \<or> s' = snd (exec Q c s))"
proof -
  obtain r db1 where srv: "srv c db = (r, db1)" by fastforce
  with assms(3) have "run srv (k r) db1 = (x, db')" by simp
  with plain_command [OF assms(1,2) srv] that show ?thesis by blast
qed

lemma plain_put:
  assumes "wp_Txn pol = None" "run srv (pbind (putBinsP pol key bs) g) db = (x, db')"
  obtains w s s' db1 where "interferes (store_of db) s" "interferes s' (store_of db1)" "run srv (g w) db1 = (x, db')"
    "w = Inr () \<and> admit pol (s key) = None \<and> s' = s(key \<mapsto> put_bins bs (if replaces pol then Map.empty else old_bins (s key))) \<or>
     (\<exists>c. w = Inl (AsError [c]) \<and> admit pol (s key) = Some c \<and> s' = s) \<or> (\<exists>e. w = Inl e \<and> \<not> definite e)"
proof -
  let ?c = "CPut pol key bs"
  let ?w = "\<lambda>r. case r of ROk \<Rightarrow> Inr () | _ \<Rightarrow> Inl (wrongKind r)"
  have c: "single ?c" "cmd_txn ?c = None" using assms(1) by simp_all
  have run: "run srv (Cmd ?c (\<lambda>r. g (?w r))) db = (x, db')" using assms(2) by (simp add: putBinsP_def)
  obtain r s s' db1 where s: "interferes (store_of db) s" "interferes s' (store_of db1)" "run srv (g (?w r)) db1 = (x, db')"
    and "(r, s') = exec Q ?c s \<or> fault r \<and> (s' = s \<or> s' = snd (exec Q ?c s))"
    using plain_step [OF c run] .
  then have "?w r = Inr () \<and> admit pol (s key) = None \<and> s' = s(key \<mapsto> put_bins bs (if replaces pol then Map.empty else old_bins (s key))) \<or>
     (\<exists>c. ?w r = Inl (AsError [c]) \<and> admit pol (s key) = Some c \<and> s' = s) \<or> (\<exists>e. ?w r = Inl e \<and> \<not> definite e)"
    by (auto simp: fault_def fun_upd_idem split: option.splits)
  with s that show ?thesis by blast
qed

end

definition leaseHolds :: "store \<Rightarrow> askey \<Rightarrow> int64 \<Rightarrow> bool" where
  "leaseHolds s key rangeID \<longleftrightarrow> (\<exists>r. s key = Some r \<and> r ''range_id'' = Some (BVal (GInt rangeID)))"

lemma updateBins_rangeID: "put_bins (updateBins E req) r ''range_id'' = Some (BVal (GInt (us_RangeID req)))"
  by (cases "us_ShardInfo req") (auto simp: updateBins_def shardBins_def)

lemma shardOwnershipLost_fails:
  "run srv (shardOwnershipLost E i) db = (x, db') \<Longrightarrow> \<exists>d. x = Inl (ShardOwnershipLost i d)"
  by (auto simp: shardOwnershipLost_def getP_def Let_def split: prod.splits)

text \<open>
  C1. On any server that follows Aerospike's laws, whatever the other clients do, an \<^verbatim>\<open>UpdateShard\<close> that
  reports success replaced the shard record at an instant at which the record carried the
  \<^verbatim>\<open>PreviousRangeID\<close> of the request: a node whose lease has moved cannot update the shard.
\<close>

theorem UpdateShard_fenced:
  assumes "aerospike Q srv store_of base_of work_of R"
    and "run srv (UpdateShard E req) db = (Inr (), db')"
  shows "\<exists>s r. R (store_of db) s \<and> s (shardKey E (us_ShardID req)) = Some r
    \<and> r ''range_id'' = Some (BVal (GInt (us_PreviousRangeID req)))
    \<and> R (s(shardKey E (us_ShardID req) \<mapsto> put_bins (updateBins E req) r)) (store_of db')"
proof -
  let ?k = "shardKey E (us_ShardID req)"
  let ?pol = "condWrite E (rangeIDEquals (us_PreviousRangeID req))"
  obtain w s s' db1 where s: "R (store_of db) s" "R s' (store_of db1)"
    and run: "run srv (case w of Inr _ \<Rightarrow> Ret (Inr ()) | Inl err \<Rightarrow>
          if isFilteredOut err \<or> isNotFound err then shardOwnershipLost E (us_ShardID req)
          else Ret (Inl (convertError ''UpdateShard'' err))) db1 = (Inr (), db')"
    and w: "w = Inr () \<and> admit ?pol (s ?k) = None \<and> s' = s(?k \<mapsto> put_bins (updateBins E req) (if replaces ?pol then Map.empty else old_bins (s ?k))) \<or>
     (\<exists>c. w = Inl (AsError [c]) \<and> admit ?pol (s ?k) = Some c \<and> s' = s) \<or> (\<exists>e. w = Inl e \<and> \<not> definite e)"
    using assms(2) unfolding UpdateShard_def by (rule aerospike.plain_put [OF assms(1) policy_simps(7)])
  have "w = Inr ()"
    using run by (auto split: sum.splits if_splits dest: shardOwnershipLost_fails)
  with w run have "admit ?pol (s ?k) = None" "s' = s(?k \<mapsto> put_bins (updateBins E req) (old_bins (s ?k)))" "db1 = db'"
    by auto
  with s show ?thesis
    by (cases "s ?k") (auto simp: admit_cond rangeIDEquals_def split: if_splits)
qed

definition sampleUpdate :: "int64 \<Rightarrow> string \<Rightarrow> UpdateShardRequest" where
  "sampleUpdate rangeID owner =
     \<lparr>us_ShardID = 7, us_RangeID = rangeID, us_Owner = owner, us_ShardInfo = None, us_PreviousRangeID = 4\<rparr>"

definition sampleLease :: "int64 \<Rightarrow> store" where
  "sampleLease rangeID = [shardKey sample_env 7 \<mapsto> [''range_id'' \<mapsto> BVal (GInt rangeID)]]"

definition sampleQuirks :: quirks where
  "sampleQuirks = \<lparr>q_absent_remove_fails = True, q_digest = (\<lambda>_. ''''), q_scan = (\<lambda>_ _ _. [])\<rparr>"

lemma sample_update_run:
  "run (mem_server Q) (UpdateShard sample_env (sampleUpdate 5 ''n'')) (mem_init (sampleLease 4)) =
   (Inr (), mem_init ((sampleLease 4)(shardKey sample_env 7 \<mapsto>
      put_bins (updateBins sample_env (sampleUpdate 5 ''n'')) [''range_id'' \<mapsto> BVal (GInt 4)])))"
  by (simp add: UpdateShard_def sampleUpdate_def sampleLease_def putBinsP_def run_pbind mem_init_def admit_cond rangeIDEquals_def)

theorem UpdateShard_fenced_witness:
  "\<exists>s r. m_store (mem_init (sampleLease 4)) = s \<and> s (shardKey sample_env 7) = Some r
    \<and> r ''range_id'' = Some (BVal (GInt 4))"
  using UpdateShard_fenced [OF mem.aerospike_axioms sample_update_run [of sampleQuirks]]
  by (auto simp: sampleUpdate_def)

lemma lost_shardOwnershipLost [simp]: "lost (shardOwnershipLost E i)"
  by (simp add: shardOwnershipLost_def getP_def Let_def)

lemma exec_update:
  "exec Q (CPut (condWrite E (rangeIDEquals p)) k bs) s =
     (case s k of
        None \<Rightarrow> (RErr (AsError [KEY_NOT_FOUND_ERROR]), s)
      | Some r \<Rightarrow> if r ''range_id'' = Some (BVal (GInt p)) then (ROk, s(k \<mapsto> put_bins bs r))
                  else (RErr (AsError [FILTERED_OUT]), s))"
  by (simp add: admit_cond rangeIDEquals_def fun_upd_idem split: option.splits)

lemma UpdateShard_Cmd:
  "UpdateShard E req =
     Cmd (CPut (condWrite E (rangeIDEquals (us_PreviousRangeID req))) (shardKey E (us_ShardID req)) (updateBins E req))
       (\<lambda>r. case r of ROk \<Rightarrow> Ret (Inr ())
          | _ \<Rightarrow> if isFilteredOut (wrongKind r) \<or> isNotFound (wrongKind r) then shardOwnershipLost E (us_ShardID req)
                 else Ret (Inl (convertError ''UpdateShard'' (wrongKind r))))"
  by (auto simp: UpdateShard_def putBinsP_def fun_eq_iff split: resp.splits)

text \<open>
  C2. Any number of nodes that each try to move the lease of one shard away from the same range id, with
  their commands interleaved in any order, with commands failing with or without having been applied:
  at most one of them is told that it succeeded.
\<close>

theorem UpdateShard_one_winner:
  assumes srv: "aerospike Q srv store_of base_of work_of R"
    and alone: "\<And>s s'. R s s' \<Longrightarrow> s' (shardKey E i) = s (shardKey E i)"
    and race: "\<And>req. req \<in> set reqs \<Longrightarrow> us_ShardID req = i \<and> us_PreviousRangeID req = p \<and> us_RangeID req \<noteq> p"
    and reach: "(istep srv)\<^sup>*\<^sup>* (map (UpdateShard E) reqs, db) (ps, db')"
    and win: "a < length ps" "b < length ps" "ps ! a = Ret (Inr ())" "ps ! b = Ret (Inr ())"
  shows "a = b"
proof (rule aerospike.one_winner [OF srv _ _ reach win, where avail = "\<lambda>s. leaseHolds s (shardKey E i) p"])
  fix prog assume "prog \<in> set (map (UpdateShard E) reqs)"
  then obtain req where req: "prog = UpdateShard E req" "us_ShardID req = i" "us_PreviousRangeID req = p" "us_RangeID req \<noteq> p"
    using race by auto
  let ?c = "CPut (condWrite E (rangeIDEquals p)) (shardKey E i) (updateBins E req)"
  let ?k = "\<lambda>r. case r of ROk \<Rightarrow> Ret (Inr ())
          | _ \<Rightarrow> if isFilteredOut (wrongKind r) \<or> isNotFound (wrongKind r) then shardOwnershipLost E i
                 else Ret (Inl (convertError ''UpdateShard'' (wrongKind r)))"
  have prog: "prog = Cmd ?c ?k" unfolding req(1) UpdateShard_Cmd req(2,3) ..
  have succ: "?k r = Ret (Inr ()) \<longleftrightarrow> r = ROk" for r
    by (cases r) (auto dest: arg_cong [of _ _ lost])
  have "?k r = Ret (Inr ()) \<or> lost (?k r)" for r by (simp split: resp.splits)
  moreover have "leaseHolds s (shardKey E i) p \<and> \<not> leaseHolds s' (shardKey E i) p"
    if "(ROk, s') = exec Q ?c s" for s s'
    using that req(4) unfolding exec_update leaseHolds_def
    by (auto simp: updateBins_rangeID split: option.splits if_splits)
  moreover have "\<not> leaseHolds (snd (exec Q ?c s)) (shardKey E i) p" if "\<not> leaseHolds s (shardKey E i) p" for s
    using that unfolding exec_update leaseHolds_def by (auto split: option.splits)
  ultimately show "\<exists>c k. prog = Cmd c k \<and> single c \<and> cmd_txn c = None \<and>
        (\<forall>r. k r = Ret (Inr ()) \<or> lost (k r)) \<and>
        (\<forall>s r s'. (r, s') = exec Q c s \<longrightarrow> k r = Ret (Inr ()) \<longrightarrow> leaseHolds s (shardKey E i) p \<and> \<not> leaseHolds s' (shardKey E i) p) \<and>
        (\<forall>s. \<not> leaseHolds s (shardKey E i) p \<longrightarrow> \<not> leaseHolds (snd (exec Q c s)) (shardKey E i) p) \<and>
        (\<forall>e. \<not> definite e \<longrightarrow> k (RErr e) \<noteq> Ret (Inr ()))"
    using prog succ by (intro exI [of _ ?c] exI [of _ ?k]) (simp del: exec.simps)
next
  fix s s' assume "R s s'"
  from alone [OF this] show "leaseHolds s' (shardKey E i) p \<longleftrightarrow> leaseHolds s (shardKey E i) p"
    by (simp add: leaseHolds_def)
qed

lemma istep_first: "srv c db = (r, db') \<Longrightarrow> k r = p \<Longrightarrow> istep srv (Cmd c k # ps, db) (p # ps, db')"
  using istep.client [of 0 "Cmd c k # ps" c k srv db r db'] by simp

lemma sample_race:
  "(istep (mem_server Q))\<^sup>*\<^sup>* (map (UpdateShard sample_env) [sampleUpdate 5 ''a'', sampleUpdate 6 ''b''], mem_init (sampleLease 4))
     ([Ret (Inr ()), UpdateShard sample_env (sampleUpdate 6 ''b'')],
      mem_init ((sampleLease 4)(shardKey sample_env 7 \<mapsto>
        put_bins (updateBins sample_env (sampleUpdate 5 ''a'')) [''range_id'' \<mapsto> BVal (GInt 4)])))"
proof -
  have step: "mem_server Q (CPut (condWrite sample_env (rangeIDEquals 4)) (shardKey sample_env 7) bs) (mem_init (sampleLease 4)) =
    (ROk, mem_init ((sampleLease 4)(shardKey sample_env 7 \<mapsto> put_bins bs [''range_id'' \<mapsto> BVal (GInt 4)])))" for bs
    by (simp add: sampleLease_def mem_init_def admit_cond rangeIDEquals_def)
  have sel: "us_PreviousRangeID (sampleUpdate a b) = 4" "us_ShardID (sampleUpdate a b) = 7" for a b
    by (simp_all add: sampleUpdate_def)
  have "istep (mem_server Q) (UpdateShard sample_env (sampleUpdate 5 ''a'') # ps, mem_init (sampleLease 4))
     (Ret (Inr ()) # ps, mem_init ((sampleLease 4)(shardKey sample_env 7 \<mapsto>
        put_bins (updateBins sample_env (sampleUpdate 5 ''a'')) [''range_id'' \<mapsto> BVal (GInt 4)])))" for ps
    unfolding UpdateShard_Cmd sel by (rule istep_first, rule step) simp
  then show ?thesis by auto
qed

theorem UpdateShard_one_winner_witness:
  "{b. b < (2::nat) \<and> [Ret (Inr ()), UpdateShard sample_env (sampleUpdate 6 ''b'')] ! b = Ret (Inr ())} = {0}"
proof -
  have "b = 0" if "b < 2" "[Ret (Inr ()), UpdateShard sample_env (sampleUpdate 6 ''b'')] ! b = Ret (Inr ())" for b :: nat
    using UpdateShard_one_winner [OF mem.aerospike_axioms _ _ sample_race [of sampleQuirks], of 7 4 b 0] that
    by (fastforce simp: sampleUpdate_def)
  then show ?thesis by auto
qed

section \<open>Creation\<close>

definition storedInfo :: "env \<Rightarrow> int32 \<Rightarrow> store \<Rightarrow> blob option option" where
  "storedInfo E i s = map_option (bin_blob E ''data'' ''enc'') (s (shardKey E i))"

text \<open>Every state a creating client can be in, with what it knows about the record.\<close>

inductive creating :: "create_info set \<Rightarrow> env \<Rightarrow> int32 \<Rightarrow> blob option io \<Rightarrow> store \<Rightarrow> bool" for C E i where
  "c \<in> insert None C \<Longrightarrow> creating C E i (GetOrCreateShard E i c) s"
| "Some (Inr (rid, info)) \<in> C \<Longrightarrow> creating C E i (pbind (putBinsP (createPolicy E) (shardKey E i) (shardBins E info rid)) (\<lambda>w. case w of
       Inr _ \<Rightarrow> Ret (Inr info)
     | Inl err \<Rightarrow> if isKeyExists err then GetOrCreateShard E i None
                 else Ret (Inl (convertError ''GetOrCreateShard'' err)))) s"
| "creating C E i (Ret (Inl e)) s"
| "storedInfo E i s = Some x \<Longrightarrow> creating C E i (Ret (Inr x)) s"

inductive_cases creatingE: "creating C E i p s"

lemma creating_Ret:
  assumes "creating C E i (Ret (Inr x)) s"
  shows "storedInfo E i s = Some x"
  using assms
proof (cases rule: creating.cases)
  case (1 c)
  then show ?thesis by (cases c) (simp_all add: readShard_def getP_def)
qed (simp_all add: putBinsP_def)

definition keeps :: "askey \<Rightarrow> store \<Rightarrow> store \<Rightarrow> bool" where
  "keeps k s s' \<longleftrightarrow> (s k \<noteq> None \<longrightarrow> s' k = s k)"

text \<open>
  Creation at most once: the record stays as it is, range id and all, or, where there was none, becomes one
  of the records offered.
\<close>

definition firstWins :: "askey \<Rightarrow> bins set \<Rightarrow> store \<Rightarrow> store \<Rightarrow> bool" where
  "firstWins k offers s s' \<longleftrightarrow> s' k = s k \<or> s k = None \<and> (\<exists>r \<in> offers. s' k = Some r)"

definition offered :: "env \<Rightarrow> create_info set \<Rightarrow> bins set" where
  "offered E C = {put_bins (shardBins E info rid) Map.empty |rid info. Some (Inr (rid, info)) \<in> C}"

lemma firstWins_keeps: "firstWins k offers s s' \<Longrightarrow> keeps k s s'"
  by (auto simp: firstWins_def keeps_def)

lemma firstWins_trans: "firstWins k offers s s' \<Longrightarrow> firstWins k offers s' s'' \<Longrightarrow> firstWins k offers s s''"
  by (auto simp: firstWins_def)

lemma creating_stable: "creating C E i p s \<Longrightarrow> keeps (shardKey E i) s s' \<Longrightarrow> creating C E i p s'"
  by (erule creatingE) (auto intro: creating.intros simp: storedInfo_def keeps_def)

lemma shardBins_blob: "temporal_api E \<Longrightarrow> bin_blob E ''data'' ''enc'' (put_bins (shardBins E info rid) Map.empty) = info"
  by (rule temporal_api.bin_blob_put) (auto simp: shardBins_def split: option.splits)

lemma exec_create:
  "exec Q (CPut (createPolicy E) k bs) s =
     (case s k of None \<Rightarrow> (ROk, s(k \<mapsto> put_bins bs Map.empty)) | Some _ \<Rightarrow> (RErr (AsError [KEY_EXISTS_ERROR]), s))"
  by (simp add: admit_create fun_upd_idem split: option.splits)

lemma exec_get:
  "exec Q (CGet pol k bs) s =
     (case s k of None \<Rightarrow> (RErr (AsError [KEY_NOT_FOUND_ERROR]), s) | Some r \<Rightarrow> (RRec (read_bins Q k bs r), s))"
  by (simp add: fun_upd_idem split: option.splits)

lemma creating_step:
  assumes api: "temporal_api E" and "creating C E i (Cmd c k) s"
    and out: "(r, s') = exec Q c s \<or> fault r \<and> (s' = s \<or> s' = snd (exec Q c s))"
  shows "creating C E i (k r) s' \<and> firstWins (shardKey E i) (offered E C) s s'"
  using assms(2)
proof (cases rule: creating.cases)
  case (1 ci)
  then have c: "c = CGet (readLinearizePolicy E) (shardKey E i) [''data'', ''enc'']"
    by (cases ci) (simp_all add: readShard_def getP_def)
  then have s': "s' = s" using out by (auto simp: exec_get split: option.splits)
  show ?thesis
  proof (cases ci)
    case None
    with 1 c out s' show ?thesis
      by (auto simp: readShard_def getP_def exec_get fault_def firstWins_def storedInfo_def intro!: creating.intros split: option.splits resp.splits)
  next
    case (Some create)
    with 1 c out s' show ?thesis
      by (auto simp: readShard_def getP_def exec_get fault_def firstWins_def storedInfo_def intro!: creating.intros split: option.splits resp.splits sum.splits)
  qed
next
  case (2 rid info)
  then have c: "c = CPut (createPolicy E) (shardKey E i) (shardBins E info rid)" by (simp add: putBinsP_def)
  have fresh: "storedInfo E i (s(shardKey E i \<mapsto> put_bins (shardBins E info rid) Map.empty)) = Some info"
    by (simp add: storedInfo_def shardBins_blob [OF api])
  have "put_bins (shardBins E info rid) Map.empty \<in> offered E C" using 2 by (auto simp: offered_def)
  then have "firstWins (shardKey E i) (offered E C) s s'"
    using out unfolding c exec_create by (auto simp: firstWins_def split: option.splits)
  moreover have "r = ROk \<Longrightarrow> storedInfo E i s' = Some info"
    using out fresh unfolding c exec_create by (auto simp: fault_def split: option.splits)
  ultimately show ?thesis
    using 2 by (auto simp: putBinsP_def simp del: GetOrCreateShard.simps intro: creating.intros split: resp.splits)
qed

text \<open>
  C3. Any number of nodes run \<^verbatim>\<open>GetOrCreateShard\<close> on one shard at the same time, commands interleaved and
  failing in any way, and nobody else writes the shard record. Between any two instants of the run the whole
  record, the range id included, stays what it is, or goes from absent to exactly the record of one of the
  nodes' constructors: it is created at most once and never overwritten. Every node that has succeeded
  returns exactly the shard info that is stored, so all of them agree.
\<close>

theorem GetOrCreateShard_agreement:
  assumes srv: "aerospike Q srv store_of base_of work_of R" and api: "temporal_api E"
    and alone: "\<And>s s'. R s s' \<Longrightarrow> s' (shardKey E i) = s (shardKey E i)"
    and reach: "(istep srv)\<^sup>*\<^sup>* (map (GetOrCreateShard E i) creates, db) (mid, db1)" "(istep srv)\<^sup>*\<^sup>* (mid, db1) (ps, db')"
  shows "firstWins (shardKey E i) (offered E (set creates)) (store_of db1) (store_of db') \<and>
    (\<forall>x. Ret (Inr x) \<in> set ps \<longrightarrow> storedInfo E i (store_of db') = Some x)"
proof -
  let ?C = "set creates" and ?k = "shardKey E i"
  have "(\<forall>p \<in> set ps. creating ?C E i p (store_of db')) \<and> firstWins ?k (offered E ?C) (store_of db1) (store_of db')"
  proof (rule aerospike.rely_guarantee_from [OF srv _ _ _ _ _ _ reach, where G = "firstWins ?k (offered E ?C)"])
    fix c k s assume "creating ?C E i (Cmd c k) s"
    then show "single c \<and> cmd_txn c = None"
    proof (cases rule: creating.cases)
      case (1 ci)
      then show ?thesis by (cases ci) (auto simp: readShard_def getP_def)
    qed (auto simp: putBinsP_def)
  next
    show "creating ?C E i (k r) s' \<and> firstWins ?k (offered E ?C) s s'"
      if "creating ?C E i (Cmd c k) s" "(r, s') = exec Q c s \<or> fault r \<and> (s' = s \<or> s' = snd (exec Q c s))" for c k s r s'
      using creating_step [OF api that] .
  next
    show "firstWins ?k (offered E ?C) s s'" if "R s s'" for s s' using alone [OF that] by (simp add: firstWins_def)
  qed (auto intro: creating.intros creating_stable firstWins_keeps firstWins_trans)
  then show ?thesis by (blast intro: creating_Ret)
qed

lemma sample_create_run:
  "(istep (mem_server Q))\<^sup>*\<^sup>*
     (map (GetOrCreateShard sample_env 7) [Some (Inr (1, Some \<lparr>blob_data = [5], blob_enc = 1\<rparr>))], mem_init Map.empty)
     ([Ret (Inr (Some \<lparr>blob_data = [5], blob_enc = 1\<rparr>))],
      mem_init [shardKey sample_env 7 \<mapsto> put_bins (shardBins sample_env (Some \<lparr>blob_data = [5], blob_enc = 1\<rparr>) 1) Map.empty])"
proof -
  let ?b = "Some \<lparr>blob_data = [5], blob_enc = 1\<rparr>"
  let ?put = "CPut (createPolicy sample_env) (shardKey sample_env 7) (shardBins sample_env ?b 1)"
  let ?k = "\<lambda>r. case (case r of ROk \<Rightarrow> Inr () | _ \<Rightarrow> Inl (wrongKind r)) of Inr _ \<Rightarrow> Ret (Inr ?b)
      | Inl err \<Rightarrow> if isKeyExists err then GetOrCreateShard sample_env 7 None
                  else Ret (Inl (convertError ''GetOrCreateShard'' err))"
  have "istep (mem_server Q) ([GetOrCreateShard sample_env 7 (Some (Inr (1, ?b)))], mem_init Map.empty) ([Cmd ?put ?k], mem_init Map.empty)"
    unfolding GetOrCreateShard.simps readShard_def getP_def pbind.simps
    by (rule istep_first [where r = "RErr (AsError [KEY_NOT_FOUND_ERROR])"]) (simp_all add: mem_init_def putBinsP_def)
  moreover have "istep (mem_server Q) ([Cmd ?put ?k], mem_init Map.empty)
      ([Ret (Inr ?b)], mem_init [shardKey sample_env 7 \<mapsto> put_bins (shardBins sample_env ?b 1) Map.empty])"
    by (rule istep_first [where r = ROk]) (simp_all add: mem_init_def admit_create)
  ultimately show ?thesis by simp
qed

theorem GetOrCreateShard_agreement_witness:
  "firstWins (shardKey sample_env 7) (offered sample_env {Some (Inr (1, Some \<lparr>blob_data = [5], blob_enc = 1\<rparr>))}) Map.empty
     [shardKey sample_env 7 \<mapsto> put_bins (shardBins sample_env (Some \<lparr>blob_data = [5], blob_enc = 1\<rparr>) 1) Map.empty] \<and>
   storedInfo sample_env 7 [shardKey sample_env 7 \<mapsto>
      put_bins (shardBins sample_env (Some \<lparr>blob_data = [5], blob_enc = 1\<rparr>) 1) Map.empty] =
   Some (Some \<lparr>blob_data = [5], blob_enc = 1\<rparr>)"
  using GetOrCreateShard_agreement [OF mem.aerospike_axioms sample.temporal_api_axioms _ rtranclp.rtrancl_refl sample_create_run [of sampleQuirks]]
  by (simp add: mem_init_def)

end
