(* ===== verification/TaskCodec.thy ===== *)
theory TaskCodec
  imports ShardStore
begin

text \<open>
  The task key codec of \<^verbatim>\<open>tasks.go\<close>: how a task key becomes a map key, which bucket record it belongs
  to, and which buckets a range of keys spans. The theorems: the encoding is a round trip and preserves
  the order of the category, buckets are monotone in that order, and the bucket span of a range covers
  every key of it, except for the one kind of upper bound for which it does not.
\<close>

section \<open>The codec\<close>

record taskKeyCodec =
  scheduled :: bool

definition codecFor :: "category \<Rightarrow> taskKeyCodec" where
  "codecFor cat = \<lparr>scheduled = cat_scheduled cat\<rparr>"

definition encode :: "taskKeyCodec \<Rightarrow> task_key \<Rightarrow> mkey" where
  "encode c key =
     (if \<not> scheduled c then KInt (TaskID key)
      else KBytes (PutUint64 (FireTime key) @ PutUint64 (TaskID key)))"

definition encodeValue :: "taskKeyCodec \<Rightarrow> task_key \<Rightarrow> mkey" where
  "encodeValue c key = encode c key"

abbreviation "scheduledBucketNanos \<equiv> (60000000000 :: int64)"
abbreviation "immediateBucketShift \<equiv> (12 :: nat)"

definition bucket :: "taskKeyCodec \<Rightarrow> task_key \<Rightarrow> int64" where
  "bucket c key =
     (if \<not> scheduled c then shr64 immediateBucketShift (TaskID key)
      else quot64 (FireTime key) scheduledBucketNanos)"

definition boundaryIsExclusiveStart :: "taskKeyCodec \<Rightarrow> task_key \<Rightarrow> bool" where
  "boundaryIsExclusiveStart c maxKey =
     (if \<not> scheduled c then and (TaskID maxKey) (2 ^ immediateBucketShift - 1) = 0
      else rem64 (FireTime maxKey) scheduledBucketNanos = 0)"

definition bucketRange :: "taskKeyCodec \<Rightarrow> task_key \<Rightarrow> task_key \<Rightarrow> int64 \<times> int64" where
  "bucketRange c minKey maxKey =
     (let first = bucket c minKey;
          last = bucket c maxKey;
          last = (if boundaryIsExclusiveStart c maxKey then last - 1 else last);
          last = (if sint last < sint first then first - 1 else last)
      in (first, last))"

definition decode :: "env \<Rightarrow> taskKeyCodec \<Rightarrow> gval \<Rightarrow> task_key option" where
  "decode E c raw =
     (if \<not> scheduled c then (case asInt64 raw of None \<Rightarrow> None | Some i \<Rightarrow> Some (NewImmediateKey E i))
      else let b = orZero (asBytes raw) [] in
        if length b \<noteq> 16 then None
        else Some \<lparr>FireTime = Uint64 (take 8 b), TaskID = Uint64 (drop 8 b)\<rparr>)"

definition encodedBytes :: "taskKeyCodec \<Rightarrow> gval \<Rightarrow> bytes" where
  "encodedBytes c raw =
     (if \<not> scheduled c then PutUint64 (orZero (asInt64 raw) 0) else orZero (asBytes raw) [])"

text \<open>\<^verbatim>\<open>bytes.Compare\<close> of the standard library.\<close>

definition bytes_Compare :: "bytes \<Rightarrow> bytes \<Rightarrow> int" where
  "bytes_Compare a b = (if a < b then -1 else if a = b then 0 else 1)"

definition compareEncoded :: "taskKeyCodec \<Rightarrow> gval \<Rightarrow> bytes \<Rightarrow> int" where
  "compareEncoded c raw tokenKey = bytes_Compare (encodedBytes c raw) tokenKey"

text \<open>
  A page token is opaque to the caller. It is modelled by what \<^verbatim>\<open>json.Unmarshal\<close> makes of the bytes: none
  (no bytes), not a token, or a bucket and a key.
\<close>

datatype page_token = NoToken | BadToken | Token int64 bytes

definition encodeTaskPageToken :: "int64 \<Rightarrow> bytes \<Rightarrow> page_token" where
  "encodeTaskPageToken b lastKey = Token b lastKey"

fun decodeTaskPageToken :: "page_token \<Rightarrow> perr + (int64 \<times> bytes) option" where
  "decodeTaskPageToken NoToken = Inr None"
| "decodeTaskPageToken BadToken = Inl (Internal ''page token'')"
| "decodeTaskPageToken (Token b k) = Inr (Some (b, k))"

section \<open>The order of a category\<close>

text \<open>
  Immediate categories order by task id, scheduled ones by fire time, then task id. The encoding is
  order-preserving for non-negative parts, the ones Temporal uses.
\<close>

definition keyLess :: "taskKeyCodec \<Rightarrow> task_key \<Rightarrow> task_key \<Rightarrow> bool" where
  "keyLess c k l \<longleftrightarrow>
     (if scheduled c then sint (FireTime k) < sint (FireTime l) \<or> FireTime k = FireTime l \<and> sint (TaskID k) < sint (TaskID l)
      else sint (TaskID k) < sint (TaskID l))"

definition keyValid :: "taskKeyCodec \<Rightarrow> task_key \<Rightarrow> bool" where
  "keyValid c k \<longleftrightarrow> 0 \<le> sint (TaskID k) \<and> (scheduled c \<longrightarrow> 0 \<le> sint (FireTime k))"

lemma encode_less: "keyValid c k \<Longrightarrow> keyValid c l \<Longrightarrow> encode c k < encode c l \<longleftrightarrow> keyLess c k l"
  by (auto simp: encode_def keyLess_def keyValid_def PutUint64_append_less uint_less_sint64)

lemma encode_le: "keyValid c k \<Longrightarrow> keyValid c l \<Longrightarrow> encode c k \<le> encode c l \<longleftrightarrow> \<not> keyLess c l k"
  by (simp add: encode_less [symmetric] not_less)

lemma encode_inject: "encode c k = encode c l \<longleftrightarrow> TaskID k = TaskID l \<and> (scheduled c \<longrightarrow> FireTime k = FireTime l)"
  by (auto simp: encode_def)

lemma encodedBytes_less:
  "keyValid c k \<Longrightarrow> keyValid c l \<Longrightarrow>
   encodedBytes c (pair_key (encode c k)) < encodedBytes c (pair_key (encode c l)) \<longleftrightarrow> encode c k < encode c l"
  by (auto simp: encodedBytes_def encode_def keyValid_def PutUint64_less PutUint64_append_less uint_less_sint64)

lemma sint_bucket_immediate: "\<not> scheduled c \<Longrightarrow> sint (bucket c k) = sint (TaskID k) div 4096"
  by (simp add: bucket_def sint_shr64)

lemma sint_bucket_scheduled:
  "scheduled c \<Longrightarrow> 0 \<le> sint (FireTime k) \<Longrightarrow> sint (bucket c k) = sint (FireTime k) div 60000000000"
  by (simp add: bucket_def sint_quot64)

lemma bucket_mono:
  assumes "keyValid c k" "keyValid c l" "\<not> keyLess c l k"
  shows "sint (bucket c k) \<le> sint (bucket c l)"
  using assms
  by (cases "scheduled c") (auto simp: keyValid_def keyLess_def sint_bucket_immediate sint_bucket_scheduled intro!: zdiv_mono1)

lemma bucket_nonneg: "keyValid c k \<Longrightarrow> 0 \<le> sint (bucket c k)"
  by (cases "scheduled c") (auto simp: keyValid_def sint_bucket_immediate sint_bucket_scheduled pos_imp_zdiv_nonneg_iff)

lemma bucket_le: "keyValid c k \<Longrightarrow> sint (bucket c k) \<le> 2251799813685247"
  using sint_range64(2) [of "TaskID k"] sint_range64(2) [of "FireTime k"]
  by (cases "scheduled c") (auto simp: keyValid_def sint_bucket_immediate sint_bucket_scheduled)

section \<open>Round trip\<close>

text \<open>
  C4. Decoding a task key read back from a map entry returns the key that was encoded: for a scheduled
  category the whole key, for an immediate one the key made from the task id, which is all such a
  category stores.
\<close>

theorem decode_encode:
  assumes "temporal_api E"
  shows "\<exists>k. decode E c (pair_key (encode c key)) = Some k \<and> TaskID k = TaskID key \<and> (scheduled c \<longrightarrow> k = key)"
proof (cases "scheduled c")
  case False
  then show ?thesis
    using temporal_api.TaskID_NewImmediateKey [OF assms] by (simp add: decode_def encode_def)
next
  case True
  have "\<lparr>FireTime = FireTime key, TaskID = TaskID key\<rparr> = key" by (cases key) simp
  with True show ?thesis by (simp add: decode_def encode_def)
qed

theorem decode_encode_witness:
  "\<exists>k. decode sample_env \<lparr>scheduled = True\<rparr> (pair_key (encode \<lparr>scheduled = True\<rparr> \<lparr>FireTime = 61, TaskID = 3\<rparr>)) = Some k
     \<and> TaskID k = 3 \<and> k = \<lparr>FireTime = 61, TaskID = 3\<rparr>"
  using decode_encode [OF sample.temporal_api_axioms, of "\<lparr>scheduled = True\<rparr>" "\<lparr>FireTime = 61, TaskID = 3\<rparr>"] by auto

section \<open>Order\<close>

text \<open>
  C5. The map key order of the server is the order of the category, and buckets are monotone in it: of
  two keys the smaller one encodes to the smaller map key and never lies in a later bucket. Reading the
  buckets in ascending order, each in map key order, therefore visits the tasks in task order.
\<close>

theorem encode_order:
  assumes "keyValid c k" "keyValid c l"
  shows "(encode c k < encode c l \<longleftrightarrow> keyLess c k l) \<and> (keyLess c k l \<longrightarrow> sint (bucket c k) \<le> sint (bucket c l))"
proof -
  have "keyLess c k l \<Longrightarrow> \<not> keyLess c l k" by (auto simp: keyLess_def split: if_splits)
  with assms show ?thesis by (simp add: encode_less bucket_mono)
qed

theorem encode_order_witness:
  "encode \<lparr>scheduled = True\<rparr> \<lparr>FireTime = 255, TaskID = 9\<rparr> < encode \<lparr>scheduled = True\<rparr> \<lparr>FireTime = 256, TaskID = 1\<rparr>"
  using encode_order [of "\<lparr>scheduled = True\<rparr>" "\<lparr>FireTime = 255, TaskID = 9\<rparr>" "\<lparr>FireTime = 256, TaskID = 1\<rparr>"]
  by (simp add: keyValid_def keyLess_def)

section \<open>Ranges\<close>

lemma and_mask_zero: "0 \<le> sint (w::int64) \<Longrightarrow> and w (2 ^ 12 - 1) = 0 \<longleftrightarrow> sint w mod 4096 = 0"
proof -
  assume w: "0 \<le> sint w"
  have "and w (2 ^ 12 - 1) = take_bit 12 w" by (simp only: take_bit_eq_mask mask_eq_exp_minus_1)
  then have "and w (2 ^ 12 - 1) = 0 \<longleftrightarrow> uint (take_bit 12 w) = 0" by (simp only: unsigned_eq_0_iff)
  also have "uint (take_bit 12 w) = take_bit 12 (uint w)" by (rule unsigned_take_bit_eq)
  also have "\<dots> = sint w mod 4096" unfolding take_bit_eq_mod sint_eq_uint64 [OF w] by simp
  finally show ?thesis .
qed

lemma boundary_immediate:
  "\<not> scheduled c \<Longrightarrow> keyValid c k \<Longrightarrow> boundaryIsExclusiveStart c k \<longleftrightarrow> sint (TaskID k) mod 4096 = 0"
  using and_mask_zero [of "TaskID k"] by (simp add: boundaryIsExclusiveStart_def keyValid_def)

lemma boundary_scheduled:
  "scheduled c \<Longrightarrow> keyValid c k \<Longrightarrow> boundaryIsExclusiveStart c k \<longleftrightarrow> sint (FireTime k) mod 60000000000 = 0"
  by (simp add: boundaryIsExclusiveStart_def keyValid_def sint_inject64 [symmetric] sint_rem64)

text \<open>
  The upper bounds whose bucket is read in full: every one except, for a scheduled category, a bound with
  a positive task id whose fire time is the first nanosecond of a minute.
\<close>

definition exactBound :: "taskKeyCodec \<Rightarrow> task_key \<Rightarrow> bool" where
  "exactBound c maxKey \<longleftrightarrow> (scheduled c \<longrightarrow> boundaryIsExclusiveStart c maxKey \<longrightarrow> TaskID maxKey = 0)"

lemma below_boundary: "(x::int) < y \<Longrightarrow> y mod n = 0 \<Longrightarrow> 0 < n \<Longrightarrow> x div n \<le> y div n - 1"
proof -
  assume a: "x < y" "y mod n = 0" "0 < n"
  then have "y = n * (y div n)" by (metis add.right_neutral mult_div_mod_eq)
  with a(1) have "x < (y div n) * n" by (simp add: mult.commute)
  moreover have "x div n * n \<le> x" using a(3) by (simp add: minus_mod_eq_div_mult [symmetric])
  ultimately have "x div n * n < y div n * n" by linarith
  with a(3) have "x div n < y div n" by simp
  then show ?thesis by simp
qed

lemma bucket_below_boundary:
  assumes "keyValid c k" "keyValid c m" "keyLess c k m" "exactBound c m" "boundaryIsExclusiveStart c m"
  shows "sint (bucket c k) \<le> sint (bucket c m) - 1"
proof (cases "scheduled c")
  case True
  with assms have "TaskID m = 0" by (simp add: exactBound_def)
  with True assms have "sint (FireTime k) < sint (FireTime m)" by (auto simp: keyLess_def keyValid_def)
  with True assms show ?thesis
    by (auto simp: sint_bucket_scheduled keyValid_def boundary_scheduled intro!: below_boundary)
next
  case False
  with assms show ?thesis
    by (auto simp: sint_bucket_immediate keyLess_def boundary_immediate intro!: below_boundary)
qed

lemma sint_bucket_pred: "keyValid c m \<Longrightarrow> sint (bucket c m - 1) = sint (bucket c m) - 1"
  using bucket_nonneg [of c m] by (intro sint_minus_one64) simp

lemma bucketRange_bounds:
  assumes "keyValid c lo" "keyValid c hi" "bucketRange c lo hi = (firstB, lastB)"
  shows "firstB = bucket c lo" "sint lastB \<le> sint (bucket c hi) \<or> sint lastB < sint firstB" "sint lastB \<le> 2251799813685247"
  using assms bucket_le [of c lo] bucket_le [of c hi] sint_bucket_pred [of c lo] sint_bucket_pred [of c hi]
  by (auto simp: bucketRange_def Let_def split: if_splits)

lemma bucketRange_covers:
  assumes valid: "keyValid c lo" "keyValid c hi" "keyValid c k"
    and exact: "exactBound c hi"
    and inside: "\<not> keyLess c k lo" "keyLess c k hi"
    and range: "bucketRange c lo hi = (firstB, lastB)"
  shows "sint firstB \<le> sint (bucket c k)" "sint (bucket c k) \<le> sint lastB"
proof -
  have lo: "sint (bucket c lo) \<le> sint (bucket c k)" using valid inside by (intro bucket_mono)
  have "\<not> keyLess c hi k" using inside(2) by (auto simp: keyLess_def split: if_splits)
  then have hi: "sint (bucket c k) \<le> sint (bucket c hi)" using valid by (intro bucket_mono)
  show "sint firstB \<le> sint (bucket c k)" using lo bucketRange_bounds(1) [OF valid(1,2) range] by simp
  show "sint (bucket c k) \<le> sint lastB"
    using range lo hi sint_bucket_pred [OF valid(2)] bucket_below_boundary [OF valid(3,2) inside(2) exact]
    by (auto simp: bucketRange_def Let_def split: if_splits)
qed

text \<open>
  The bound up to which a range is really served. It is the bound of the request, except that a scheduled
  bound at the first nanosecond of a minute is served only up to that instant: the tasks of the instant with
  a smaller task id, if the bound asks for any, are in the bucket that the span leaves out.
\<close>

definition servedBound :: "taskKeyCodec \<Rightarrow> task_key \<Rightarrow> task_key" where
  "servedBound c hi = (if scheduled c \<and> boundaryIsExclusiveStart c hi then hi\<lparr>TaskID := 0\<rparr> else hi)"

lemma servedBound_exact: "exactBound c hi \<Longrightarrow> servedBound c hi = hi"
  by (cases hi) (auto simp: servedBound_def exactBound_def)

lemma keyValid_served [simp]: "keyValid c hi \<Longrightarrow> keyValid c (servedBound c hi)"
  by (auto simp: servedBound_def keyValid_def)

lemma exactBound_served: "exactBound c (servedBound c hi)"
  by (auto simp: servedBound_def exactBound_def boundaryIsExclusiveStart_def)

lemma bucketRange_served: "bucketRange c lo (servedBound c hi) = bucketRange c lo hi"
  by (simp add: servedBound_def bucketRange_def bucket_def boundaryIsExclusiveStart_def)

lemma bucketRange_serves:
  assumes valid: "keyValid c lo" "keyValid c hi" "keyValid c k" and lo: "\<not> keyLess c k lo"
    and range: "bucketRange c lo hi = (firstB, lastB)"
  shows "keyLess c k (servedBound c hi) \<longleftrightarrow> keyLess c k hi \<and> sint (bucket c k) \<le> sint lastB"
proof
  assume less: "keyLess c k (servedBound c hi)"
  then have "keyLess c k hi" using valid by (auto simp: servedBound_def keyLess_def keyValid_def split: if_splits)
  moreover have "sint (bucket c k) \<le> sint lastB"
    using bucketRange_covers(2) [OF valid(1) keyValid_served [OF valid(2)] valid(3) exactBound_served lo less] range
    by (simp add: bucketRange_served)
  ultimately show "keyLess c k hi \<and> sint (bucket c k) \<le> sint lastB" ..
next
  assume r: "keyLess c k hi \<and> sint (bucket c k) \<le> sint lastB"
  have first: "sint firstB \<le> sint (bucket c k)"
    using bucket_mono [OF valid(1,3) lo] bucketRange_bounds(1) [OF valid(1,2) range] by simp
  show "keyLess c k (servedBound c hi)"
  proof (cases "scheduled c \<and> boundaryIsExclusiveStart c hi")
    case True
    then have "sint lastB \<le> sint (bucket c hi) - 1 \<or> sint lastB < sint firstB"
      using range sint_bucket_pred [OF valid(1)] sint_bucket_pred [OF valid(2)] by (auto simp: bucketRange_def Let_def split: if_splits)
    with r first have "sint (bucket c k) < sint (bucket c hi)" by linarith
    then have "bucket c k \<noteq> bucket c hi" by auto
    with True have "FireTime k \<noteq> FireTime hi" by (auto simp: bucket_def)
    with True r show ?thesis by (auto simp: servedBound_def keyLess_def)
  next
    case False
    with r show ?thesis by (auto simp: servedBound_def)
  qed
qed

text \<open>
  C6. The span of buckets computed for a range \<open>[lo, hi)\<close> contains the bucket of every key of the range,
  for every immediate category and for every scheduled range whose upper bound does not combine the
  first nanosecond of a minute with a positive task id.
\<close>

theorem bucketRange_complete:
  assumes "keyValid c lo" "keyValid c hi" "keyValid c k" "exactBound c hi" "\<not> keyLess c k lo" "keyLess c k hi"
  shows "case bucketRange c lo hi of (firstB, lastB) \<Rightarrow> sint firstB \<le> sint (bucket c k) \<and> sint (bucket c k) \<le> sint lastB"
  using bucketRange_covers [OF assms] by (auto split: prod.splits)

theorem bucketRange_complete_witness:
  "bucketRange \<lparr>scheduled = False\<rparr> \<lparr>FireTime = 0, TaskID = 100\<rparr> \<lparr>FireTime = 0, TaskID = 8192\<rparr> = (0, 1) \<and>
   sint (bucket \<lparr>scheduled = False\<rparr> \<lparr>FireTime = 0, TaskID = 8191\<rparr>) \<le> 1"
proof -
  have r: "bucketRange \<lparr>scheduled = False\<rparr> \<lparr>FireTime = 0, TaskID = 100\<rparr> \<lparr>FireTime = 0, TaskID = 8192\<rparr> = (0, 1)" by code_simp
  then show ?thesis
    using bucketRange_complete [of "\<lparr>scheduled = False\<rparr>" "\<lparr>FireTime = 0, TaskID = 100\<rparr>" "\<lparr>FireTime = 0, TaskID = 8192\<rparr>"
      "\<lparr>FireTime = 0, TaskID = 8191\<rparr>"]
    by (simp add: keyValid_def keyLess_def exactBound_def)
qed

text \<open>
  The excepted bound is a real gap. With a scheduled upper bound whose fire time is the start of a
  minute and whose task id is positive, the span drops that minute's bucket although keys of the range
  lie in it: the comment on \<^verbatim>\<open>bucketRange\<close>, that such a bound contributes nothing, is wrong.
\<close>

lemma bucketRange_misses_boundary:
  "\<exists>lo hi k. let c = \<lparr>scheduled = True\<rparr> in keyValid c lo \<and> keyValid c hi \<and> keyValid c k \<and> \<not> keyLess c k lo \<and> keyLess c k hi \<and>
     sint (snd (bucketRange c lo hi)) < sint (bucket c k)"
proof -
  have "let c = \<lparr>scheduled = True\<rparr>; lo = \<lparr>FireTime = 0, TaskID = 0\<rparr>; hi = \<lparr>FireTime = 60000000000, TaskID = 10\<rparr>;
     k = \<lparr>FireTime = 60000000000, TaskID = 5\<rparr> in keyValid c lo \<and> keyValid c hi \<and> keyValid c k \<and> \<not> keyLess c k lo \<and> keyLess c k hi \<and>
     sint (snd (bucketRange c lo hi)) < sint (bucket c k)"
    by code_simp
  then show ?thesis by (auto simp: Let_def)
qed

end
