(* ===== verification/RecordOps.thy ===== *)
theory RecordOps
  imports TaskCodec
begin

text \<open>
  The effect of operation lists on map bins, stated once for all components that keep their collections
  in key-ordered maps: what a group of puts and removes leaves in the bin, and what the readers that fold
  over the entries of a bin return.
\<close>

definition effect :: "operation list \<Rightarrow> bins \<Rightarrow> bins \<Rightarrow> bool" where
  "effect ops r r' \<longleftrightarrow> (\<exists>res. apply_ops ops r = Inr (res, r'))"

lemma effect_Nil [simp]: "effect [] r r' \<longleftrightarrow> r' = r"
  by (auto simp: effect_def)

lemma effect_Cons: "apply_op x r = Inr (v, r1) \<Longrightarrow> effect xs r1 r2 \<Longrightarrow> effect (x # xs) r r2"
  by (auto simp: effect_def)

lemma effect_append: "effect xs r r1 \<Longrightarrow> effect ys r1 r2 \<Longrightarrow> effect (xs @ ys) r r2"
proof (induction xs arbitrary: r)
  case (Cons x xs)
  then obtain v r' where x: "apply_op x r = Inr (v, r')" and "effect xs r' r1"
    by (auto simp: effect_def split: sum.splits prod.splits)
  with Cons have "effect (xs @ ys) r' r2" by blast
  with x show ?case by (simp add: effect_Cons)
qed simp

lemma effect_put [simp]: "effect [PutOp b v] r r' \<longleftrightarrow> r' = r(b := put_bin v)"
  by (auto simp: effect_def)

lemma effect_put_Cons [simp]: "effect (PutOp b v # xs) r r' \<longleftrightarrow> effect xs (r(b := put_bin v)) r'"
  by (auto simp: effect_def split: sum.splits)

section \<open>Map bins\<close>

definition the_map :: "binval option \<Rightarrow> (mkey, gval) omap" where
  "the_map v = (case v of Some (BMap m) \<Rightarrow> m | _ \<Rightarrow> [])"

definition map_ok :: "binval option \<Rightarrow> bool" where
  "map_ok v \<longleftrightarrow> (case v of None \<Rightarrow> True | Some (BMap m) \<Rightarrow> omap_ok m | Some (BVal _) \<Rightarrow> False)"

definition entries :: "binval option \<Rightarrow> mkey \<rightharpoonup> gval" where
  "entries v = map_of (the_map v)"

lemma map_ok_simps [simp]:
  "map_ok None" "map_ok (Some (BMap m)) \<longleftrightarrow> omap_ok m" "\<not> map_ok (Some (BVal x))"
  "the_map None = []" "the_map (Some (BMap m)) = m" "entries None = Map.empty" "entries (Some (BMap m)) = map_of m"
  by (simp_all add: map_ok_def the_map_def entries_def)

lemma map_okE: "map_ok v \<Longrightarrow> (v = None \<Longrightarrow> P) \<Longrightarrow> (\<And>m. v = Some (BMap m) \<Longrightarrow> omap_ok m \<Longrightarrow> P) \<Longrightarrow> P"
  by (auto simp: map_ok_def split: option.splits binval.splits)

lemma map_write_ok:
  "map_ok (r b) \<Longrightarrow> map_write b r f = Inr (Some (GInt (of_nat (length (f (the_map (r b)))))), r(b \<mapsto> BMap (f (the_map (r b)))))"
  by (erule map_okE) (simp_all add: map_write_def Let_def)

lemma omap_ok_the_map: "map_ok v \<Longrightarrow> omap_ok (the_map v)"
  by (erule map_okE) simp_all

text \<open>Puts of one bin, then removes of it.\<close>

lemma effect_puts:
  assumes "map_ok (r b)"
  shows "\<exists>v. effect (map (\<lambda>(k, x). MapPutOp b k x) kvs) r (r(b := v)) \<and> map_ok v
    \<and> entries v = fold (\<lambda>(k, x) f. f(k \<mapsto> norm x)) kvs (entries (r b))"
  using assms
proof (induction kvs arbitrary: r)
  case Nil
  then show ?case by (intro exI [of _ "r b"]) simp
next
  case (Cons kx kvs)
  obtain k x where kx: "kx = (k, x)" by fastforce
  let ?m = "omap_put k (norm x) (the_map (r b))"
  have op: "apply_op (MapPutOp b k x) r = Inr (Some (GInt (of_nat (length ?m))), r(b \<mapsto> BMap ?m))"
    using Cons.prems by (simp add: map_write_ok)
  have "map_ok ((r(b \<mapsto> BMap ?m)) b)"
    using Cons.prems by (simp add: omap_put_ok omap_ok_the_map)
  from Cons.IH [of "r(b \<mapsto> BMap ?m)", OF this] obtain v where
    "effect (map (\<lambda>(k, x). MapPutOp b k x) kvs) (r(b \<mapsto> BMap ?m)) (r(b := v))" "map_ok v"
    "entries v = fold (\<lambda>(k, x) f. f(k \<mapsto> norm x)) kvs (map_of ?m)"
    unfolding fun_upd_upd fun_upd_same map_ok_simps by blast
  with op show ?case
    by (intro exI [of _ v]) (simp add: kx effect_Cons [OF op] map_of_omap_put entries_def del: fun_upd_apply)
qed

lemma effect_removes:
  assumes "map_ok (r b)"
  shows "\<exists>v. effect (map (\<lambda>k. MapRemoveByKeyOp b k RetNone) ks) r (r(b := v)) \<and> map_ok v
    \<and> entries v = (\<lambda>k. if k \<in> set ks then None else entries (r b) k)"
  using assms
proof (induction ks arbitrary: r)
  case Nil
  then show ?case by (intro exI [of _ "r b"]) simp
next
  case (Cons k ks)
  obtain v1 y where op: "apply_op (MapRemoveByKeyOp b k RetNone) r = Inr (y, r(b := v1))" "map_ok v1"
    "entries v1 = (entries (r b))(k := None)"
  proof (rule map_okE [OF Cons.prems])
    assume "r b = None"
    then show thesis using that [of None None] by (simp add: map_access_def fun_upd_idem)
  next
    fix m assume "r b = Some (BMap m)" "omap_ok m"
    then show thesis
      using that [of "Some GNil" "Some (BMap (omap_del k m))"] by (simp add: map_access_def omap_del_ok map_of_omap_del)
  qed
  from Cons.IH [of "r(b := v1)"] op(2) obtain v where v:
    "effect (map (\<lambda>k. MapRemoveByKeyOp b k RetNone) ks) (r(b := v1)) (r(b := v))" "map_ok v"
    "entries v = (\<lambda>k. if k \<in> set ks then None else entries v1 k)"
    unfolding fun_upd_upd fun_upd_same by blast
  have "effect (map (\<lambda>k. MapRemoveByKeyOp b k RetNone) (k # ks)) r (r(b := v))"
    using effect_Cons [OF op(1) v(1)] by simp
  moreover have "entries v = (\<lambda>k'. if k' \<in> set (k # ks) then None else entries (r b) k')"
    by (auto simp: v(3) op(3))
  ultimately show ?case using v(2) by blast
qed

lemma fold_upd_distinct:
  "distinct (map fst kvs) \<Longrightarrow>
   fold (\<lambda>(k, x) f. f(k \<mapsto> g x)) kvs f k = (case map_of kvs k of Some x \<Rightarrow> Some (g x) | None \<Rightarrow> f k)"
proof (induction kvs arbitrary: f)
  case (Cons p kvs)
  then show ?case
    by (cases p) (auto split: option.splits dest!: map_of_SomeD intro: rev_image_eqI)
qed simp

definition delta :: "(mkey \<times> gval) list \<Rightarrow> mkey list \<Rightarrow> (mkey \<rightharpoonup> gval) \<Rightarrow> mkey \<rightharpoonup> gval" where
  "delta ups dels f k =
     (if k \<in> set dels then None else case map_of ups k of Some x \<Rightarrow> Some (norm x) | None \<Rightarrow> f k)"

lemma effect_delta:
  assumes "map_ok (r b)" "distinct (map fst kvs)"
  shows "\<exists>v. effect (map (\<lambda>(k, x). MapPutOp b k x) kvs @ map (\<lambda>k. MapRemoveByKeyOp b k RetNone) ks) r (r(b := v))
    \<and> map_ok v \<and> entries v = delta kvs ks (entries (r b))"
proof -
  obtain v where v: "effect (map (\<lambda>(k, x). MapPutOp b k x) kvs) r (r(b := v))" "map_ok v"
    "entries v = fold (\<lambda>(k, x) f. f(k \<mapsto> norm x)) kvs (entries (r b))"
    using effect_puts [of r b kvs] assms(1) by blast
  obtain w where "effect (map (\<lambda>k. MapRemoveByKeyOp b k RetNone) ks) (r(b := v)) (r(b := w))" "map_ok w"
    "entries w = (\<lambda>k. if k \<in> set ks then None else entries v k)"
    using effect_removes [of "r(b := v)" b ks] v(2) unfolding fun_upd_upd fun_upd_same by blast
  with v show ?thesis
    by (intro exI [of _ w]) (auto simp: effect_append delta_def fun_eq_iff fold_upd_distinct [OF assms(2)])
qed

lemma put_items_ok: "omap_ok m \<Longrightarrow> omap_ok (put_items kvs m)"
  unfolding put_items_def by (induction kvs arbitrary: m) (auto simp: omap_put_ok)

lemma map_of_put_items:
  "distinct (map fst kvs) \<Longrightarrow>
   map_of (put_items kvs m) k = (case map_of kvs k of Some x \<Rightarrow> Some (norm x) | None \<Rightarrow> map_of m k)"
proof -
  have "map_of (put_items kvs m) = fold (\<lambda>(k, x) f. f(k \<mapsto> norm x)) kvs (map_of m)"
    unfolding put_items_def by (induction kvs arbitrary: m) (auto simp: map_of_omap_put)
  then show "distinct (map fst kvs) \<Longrightarrow> ?thesis" by (simp add: fold_upd_distinct)
qed

section \<open>Readers\<close>

lemma recordMapPairs_read: "Bins rec b = read_bin v \<Longrightarrow> map_ok v \<Longrightarrow> recordMapPairs rec b = map_pairs (the_map v)"
  by (erule map_okE) (simp_all add: recordMapPairs_def map_pairs_def)

lemma fold_pairs:
  assumes key: "\<And>mk k. d (pair_key mk) = Some k \<longleftrightarrow> mk = K k"
    and "omap_ok m"
  shows "foldl (\<lambda>out (key, v). case d key of None \<Rightarrow> out | Some k \<Rightarrow> (case g v of None \<Rightarrow> out | Some b \<Rightarrow> out(k \<mapsto> b)))
      out (map_pairs m) k = (case map_of m (K k) of None \<Rightarrow> out k | Some v \<Rightarrow> (case g v of None \<Rightarrow> out k | Some b \<Rightarrow> Some b))"
  using omap_ok_distinct [OF assms(2)]
proof (induction m arbitrary: out)
  case Nil
  then show ?case by (simp add: map_pairs_def)
next
  case (Cons p m)
  obtain mk v where p: "p = (mk, v)" by fastforce
  let ?out = "case d (pair_key mk) of None \<Rightarrow> out | Some k \<Rightarrow> (case g v of None \<Rightarrow> out | Some b \<Rightarrow> out(k \<mapsto> b))"
  have "?out k = (if mk = K k then (case g v of None \<Rightarrow> out k | Some b \<Rightarrow> Some b) else out k)"
    using key [of mk k] by (auto split: option.splits)
  moreover have "mk = K k \<Longrightarrow> map_of m (K k) = None"
    using Cons.prems p by (auto simp: map_of_eq_None_iff)
  ultimately show ?case
    using Cons.IH [of ?out] Cons.prems by (auto simp: p map_pairs_def split: option.splits)
qed

lemma decode_pair_key [simp]:
  "asInt64 (pair_key mk) = Some k \<longleftrightarrow> mk = KInt k" "asString (pair_key mk) = Some s \<longleftrightarrow> mk = KStr s"
  by (cases mk; simp)+

lemma map_filter_Cons: "List.map_filter f (x # xs) = (case f x of None \<Rightarrow> List.map_filter f xs | Some y \<Rightarrow> y # List.map_filter f xs)"
  by (simp add: List.map_filter_simps)

lemma set_map_filter: "set (List.map_filter f xs) = {y. \<exists>x \<in> set xs. f x = Some y}"
  by (auto simp: List.map_filter_def) force

end
