(* ===== verification/MutableState.thy ===== *)
theory MutableState
  imports RecordOps
begin

text \<open>
  \<^verbatim>\<open>mutable_state.go\<close>: how a workflow's mutable state is laid out in one record. A snapshot rewrites the
  record; a mutation is a list of server-side operations that apply sparse deltas without reading. The
  theorems: reading back a snapshot returns it, whatever the record held before, and applying a mutation
  to the record is applying the delta to the state. A map of the request is an association list, in the
  order in which Go ranges over it; a map of a response is a partial function.
\<close>

section \<open>Data\<close>

record chasm_node =
  cn_Metadata :: "blob option"
  cn_Data :: "blob option"

record snapshot =
  sn_ExecutionInfoBlob :: blob
  sn_ExecutionStateBlob :: blob
  sn_NextEventID :: int64
  sn_DBRecordVersion :: int64
  sn_Checksum :: "blob option"
  sn_ActivityInfos :: "(int64 \<times> blob option) list"
  sn_TimerInfos :: "(string \<times> blob option) list"
  sn_ChildExecutionInfos :: "(int64 \<times> blob option) list"
  sn_RequestCancelInfos :: "(int64 \<times> blob option) list"
  sn_SignalInfos :: "(int64 \<times> blob option) list"
  sn_ChasmNodes :: "(string \<times> chasm_node) list"
  sn_SignalRequestedIDs :: "string list"

record mutation =
  mu_ExecutionInfoBlob :: blob
  mu_ExecutionStateBlob :: blob
  mu_NextEventID :: int64
  mu_DBRecordVersion :: int64
  mu_Checksum :: "blob option"
  mu_UpsertActivityInfos :: "(int64 \<times> blob option) list"
  mu_DeleteActivityInfos :: "int64 list"
  mu_UpsertTimerInfos :: "(string \<times> blob option) list"
  mu_DeleteTimerInfos :: "string list"
  mu_UpsertChildExecutionInfos :: "(int64 \<times> blob option) list"
  mu_DeleteChildExecutionInfos :: "int64 list"
  mu_UpsertRequestCancelInfos :: "(int64 \<times> blob option) list"
  mu_DeleteRequestCancelInfos :: "int64 list"
  mu_UpsertSignalInfos :: "(int64 \<times> blob option) list"
  mu_DeleteSignalInfos :: "int64 list"
  mu_UpsertChasmNodes :: "(string \<times> chasm_node) list"
  mu_DeleteChasmNodes :: "string list"
  mu_UpsertSignalRequestedIDs :: "string list"
  mu_DeleteSignalRequestedIDs :: "string list"
  mu_ClearBufferedEvents :: bool
  mu_NewBufferedEvents :: "blob option"

record mutable_state =
  ms_ExecutionInfo :: "blob option"
  ms_ExecutionState :: "blob option"
  ms_NextEventID :: int64
  ms_DBRecordVersion :: int64
  ms_Checksum :: "blob option"
  ms_ActivityInfos :: "int64 \<rightharpoonup> blob"
  ms_TimerInfos :: "string \<rightharpoonup> blob"
  ms_ChildExecutionInfos :: "int64 \<rightharpoonup> blob"
  ms_RequestCancelInfos :: "int64 \<rightharpoonup> blob"
  ms_SignalInfos :: "int64 \<rightharpoonup> blob"
  ms_ChasmNodes :: "string \<rightharpoonup> chasm_node"
  ms_SignalRequestedIDs :: "string list"
  ms_BufferedEvents :: "blob list"

section \<open>Writing\<close>

definition chasmValue :: "env \<Rightarrow> chasm_node \<Rightarrow> gval" where
  "chasmValue E n =
     (let half = (\<lambda>b. case b of None \<Rightarrow> [GBytes [], GString '''']
                     | Some x \<Rightarrow> [GBytes (blob_data x), GString (EncodingType_String E (blob_enc x))])
      in GList (half (cn_Metadata n) @ half (cn_Data n)))"

definition chasmFromValue :: "env \<Rightarrow> gval \<Rightarrow> chasm_node" where
  "chasmFromValue E v =
     (case v of
        GList (md # me # dd # de # _) \<Rightarrow>
          \<lparr>cn_Metadata = map_option (\<lambda>d. NewDataBlob E d (orZero (asString me) '''')) (asBytes md),
           cn_Data = map_option (\<lambda>d. NewDataBlob E d (orZero (asString de) '''')) (asBytes dd)\<rparr>
      | _ \<Rightarrow> \<lparr>cn_Metadata = None, cn_Data = None\<rparr>)"

definition checksumOps :: "env \<Rightarrow> blob option \<Rightarrow> operation list" where
  "checksumOps E checksum =
     (case checksum of
        None \<Rightarrow> [PutOp ''csum'' GNil, PutOp ''csum_enc'' GNil]
      | Some c \<Rightarrow> [PutOp ''csum'' (GBytes (blob_data c)), PutOp ''csum_enc'' (GString (EncodingType_String E (blob_enc c)))])"

definition collectionBins :: "string list" where
  "collectionBins = [''act'', ''tmr'', ''chld'', ''cncl'', ''sig'', ''chasm'', ''sigreq'']"

definition int64BlobMap :: "env \<Rightarrow> (int64 \<times> blob option) list \<Rightarrow> (mkey \<times> gval) list" where
  "int64BlobMap E m = map (\<lambda>(k, v). (KInt k, blobValue E v)) m"

definition stringBlobMap :: "env \<Rightarrow> (string \<times> blob option) list \<Rightarrow> (mkey \<times> gval) list" where
  "stringBlobMap E m = map (\<lambda>(k, v). (KStr k, blobValue E v)) m"

definition chasmMap :: "env \<Rightarrow> (string \<times> chasm_node) list \<Rightarrow> (mkey \<times> gval) list" where
  "chasmMap E m = map (\<lambda>(k, v). (KStr k, chasmValue E v)) m"

definition signalRequestedMap :: "string list \<Rightarrow> (mkey \<times> gval) list" where
  "signalRequestedMap m = map (\<lambda>k. (KStr k, GInt 1)) m"

definition appendWholeMap :: "operation list \<Rightarrow> string \<Rightarrow> (mkey \<times> gval) list \<Rightarrow> operation list" where
  "appendWholeMap ops bin m = (if m = [] then ops else ops @ [MapPutItemsOp bin m])"

definition upsertInt64Blobs :: "env \<Rightarrow> string \<Rightarrow> (int64 \<times> blob option) list \<Rightarrow> operation list" where
  "upsertInt64Blobs E bin blobs = map (\<lambda>(k, b). MapPutOp bin (KInt k) (blobValue E b)) blobs"

definition upsertStringBlobs :: "env \<Rightarrow> string \<Rightarrow> (string \<times> blob option) list \<Rightarrow> operation list" where
  "upsertStringBlobs E bin blobs = map (\<lambda>(k, b). MapPutOp bin (KStr k) (blobValue E b)) blobs"

definition deleteInt64Keys :: "string \<Rightarrow> int64 list \<Rightarrow> operation list" where
  "deleteInt64Keys bin keys = map (\<lambda>k. MapRemoveByKeyOp bin (KInt k) RetNone) keys"

definition deleteStringKeys :: "string \<Rightarrow> string list \<Rightarrow> operation list" where
  "deleteStringKeys bin keys = map (\<lambda>k. MapRemoveByKeyOp bin (KStr k) RetNone) keys"

definition headOps :: "env \<Rightarrow> blob \<Rightarrow> blob \<Rightarrow> int64 \<Rightarrow> int64 \<Rightarrow> operation list" where
  "headOps E info st nextID ver =
     [PutOp ''info'' (GBytes (blob_data info)), PutOp ''info_enc'' (GString (EncodingType_String E (blob_enc info))),
      PutOp ''state'' (GBytes (blob_data st)), PutOp ''state_enc'' (GString (EncodingType_String E (blob_enc st))),
      PutOp ''next_id'' (GInt64 nextID), PutOp ''ver'' (GInt64 ver)]"

definition snapshotOps :: "env \<Rightarrow> snapshot \<Rightarrow> operation list" where
  "snapshotOps E s =
     (let ops = map (\<lambda>bin. PutOp bin GNil) collectionBins;
          ops = ops @ [PutOp ''buf'' GNil];
          ops = ops @ headOps E (sn_ExecutionInfoBlob s) (sn_ExecutionStateBlob s) (sn_NextEventID s) (sn_DBRecordVersion s);
          ops = ops @ checksumOps E (sn_Checksum s);
          ops = appendWholeMap ops ''act'' (int64BlobMap E (sn_ActivityInfos s));
          ops = appendWholeMap ops ''tmr'' (stringBlobMap E (sn_TimerInfos s));
          ops = appendWholeMap ops ''chld'' (int64BlobMap E (sn_ChildExecutionInfos s));
          ops = appendWholeMap ops ''cncl'' (int64BlobMap E (sn_RequestCancelInfos s));
          ops = appendWholeMap ops ''sig'' (int64BlobMap E (sn_SignalInfos s));
          ops = appendWholeMap ops ''chasm'' (chasmMap E (sn_ChasmNodes s));
          ops = appendWholeMap ops ''sigreq'' (signalRequestedMap (sn_SignalRequestedIDs s))
      in ops)"

definition mutationOps :: "env \<Rightarrow> mutation \<Rightarrow> operation list" where
  "mutationOps E m =
     headOps E (mu_ExecutionInfoBlob m) (mu_ExecutionStateBlob m) (mu_NextEventID m) (mu_DBRecordVersion m)
     @ checksumOps E (mu_Checksum m)
     @ upsertInt64Blobs E ''act'' (mu_UpsertActivityInfos m) @ deleteInt64Keys ''act'' (mu_DeleteActivityInfos m)
     @ upsertStringBlobs E ''tmr'' (mu_UpsertTimerInfos m) @ deleteStringKeys ''tmr'' (mu_DeleteTimerInfos m)
     @ upsertInt64Blobs E ''chld'' (mu_UpsertChildExecutionInfos m) @ deleteInt64Keys ''chld'' (mu_DeleteChildExecutionInfos m)
     @ upsertInt64Blobs E ''cncl'' (mu_UpsertRequestCancelInfos m) @ deleteInt64Keys ''cncl'' (mu_DeleteRequestCancelInfos m)
     @ upsertInt64Blobs E ''sig'' (mu_UpsertSignalInfos m) @ deleteInt64Keys ''sig'' (mu_DeleteSignalInfos m)
     @ map (\<lambda>(k, node). MapPutOp ''chasm'' (KStr k) (chasmValue E node)) (mu_UpsertChasmNodes m)
     @ deleteStringKeys ''chasm'' (mu_DeleteChasmNodes m)
     @ map (\<lambda>k. MapPutOp ''sigreq'' (KStr k) (GInt 1)) (mu_UpsertSignalRequestedIDs m)
     @ deleteStringKeys ''sigreq'' (mu_DeleteSignalRequestedIDs m)
     @ (if mu_ClearBufferedEvents m then [PutOp ''buf'' GNil] else [])
     @ (case mu_NewBufferedEvents m of None \<Rightarrow> [] | Some b \<Rightarrow> [ListAppendOp ''buf'' (blobValue E (Some b))])"

section \<open>Reading\<close>

definition readInt64BlobMap :: "env \<Rightarrow> as_record \<Rightarrow> string \<Rightarrow> int64 \<rightharpoonup> blob" where
  "readInt64BlobMap E rec bin =
     foldl (\<lambda>out (key, v). case asInt64 key of None \<Rightarrow> out | Some k \<Rightarrow>
        (case blobFromValue E v of None \<Rightarrow> out | Some b \<Rightarrow> out(k \<mapsto> b))) Map.empty (recordMapPairs rec bin)"

definition readStringBlobMap :: "env \<Rightarrow> as_record \<Rightarrow> string \<Rightarrow> string \<rightharpoonup> blob" where
  "readStringBlobMap E rec bin =
     foldl (\<lambda>out (key, v). case asString key of None \<Rightarrow> out | Some k \<Rightarrow>
        (case blobFromValue E v of None \<Rightarrow> out | Some b \<Rightarrow> out(k \<mapsto> b))) Map.empty (recordMapPairs rec bin)"

definition readChasmMap :: "env \<Rightarrow> as_record \<Rightarrow> string \<Rightarrow> string \<rightharpoonup> chasm_node" where
  "readChasmMap E rec bin =
     foldl (\<lambda>out (key, v). case asString key of None \<Rightarrow> out | Some k \<Rightarrow> out(k \<mapsto> chasmFromValue E v))
       Map.empty (recordMapPairs rec bin)"

definition readSignalRequested :: "as_record \<Rightarrow> string \<Rightarrow> string list" where
  "readSignalRequested rec bin = List.map_filter (\<lambda>(key, v). asString key) (recordMapPairs rec bin)"

definition readBufferedEvents :: "env \<Rightarrow> as_record \<Rightarrow> string \<Rightarrow> blob list" where
  "readBufferedEvents E rec bin = List.map_filter (blobFromValue E) (orZero (asList (Bins rec bin)) [])"

definition mutableStateFromRecord :: "env \<Rightarrow> as_record \<Rightarrow> mutable_state" where
  "mutableStateFromRecord E rec =
     \<lparr>ms_ExecutionInfo = readBlob E rec ''info'' ''info_enc'', ms_ExecutionState = readBlob E rec ''state'' ''state_enc'',
      ms_NextEventID = binInt64 rec ''next_id'', ms_DBRecordVersion = binInt64 rec ''ver'',
      ms_Checksum = readBlob E rec ''csum'' ''csum_enc'',
      ms_ActivityInfos = readInt64BlobMap E rec ''act'', ms_TimerInfos = readStringBlobMap E rec ''tmr'',
      ms_ChildExecutionInfos = readInt64BlobMap E rec ''chld'', ms_RequestCancelInfos = readInt64BlobMap E rec ''cncl'',
      ms_SignalInfos = readInt64BlobMap E rec ''sig'', ms_ChasmNodes = readChasmMap E rec ''chasm'',
      ms_SignalRequestedIDs = readSignalRequested rec ''sigreq'', ms_BufferedEvents = readBufferedEvents E rec ''buf''\<rparr>"

section \<open>What the readers return\<close>

lemma readInt64BlobMap_entries:
  "Bins rec b = read_bin v \<Longrightarrow> map_ok v \<Longrightarrow>
   readInt64BlobMap E rec b = (\<lambda>k. Option.bind (entries v (KInt k)) (blobFromValue E))"
  using fold_pairs [of asInt64 KInt "the_map v" "blobFromValue E" Map.empty]
  by (auto simp: readInt64BlobMap_def recordMapPairs_read entries_def omap_ok_the_map fun_eq_iff split: option.splits)

lemma readStringBlobMap_entries:
  "Bins rec b = read_bin v \<Longrightarrow> map_ok v \<Longrightarrow>
   readStringBlobMap E rec b = (\<lambda>k. Option.bind (entries v (KStr k)) (blobFromValue E))"
  using fold_pairs [of asString KStr "the_map v" "blobFromValue E" Map.empty]
  by (auto simp: readStringBlobMap_def recordMapPairs_read entries_def omap_ok_the_map fun_eq_iff split: option.splits)

lemma readChasmMap_entries:
  "Bins rec b = read_bin v \<Longrightarrow> map_ok v \<Longrightarrow> readChasmMap E rec b = (\<lambda>k. map_option (chasmFromValue E) (entries v (KStr k)))"
  using fold_pairs [of asString KStr "the_map v" "\<lambda>x. Some (chasmFromValue E x)" Map.empty] unfolding option.case
  by (auto simp: readChasmMap_def recordMapPairs_read entries_def omap_ok_the_map fun_eq_iff split: option.splits)

lemma readSignalRequested_entries:
  "Bins rec b = read_bin v \<Longrightarrow> map_ok v \<Longrightarrow> set (readSignalRequested rec b) = {s. entries v (KStr s) \<noteq> None}"
  by (auto simp: readSignalRequested_def recordMapPairs_read map_pairs_def set_map_filter entries_def map_of_eq_None_iff
      image_iff split: prod.splits) force+

text \<open>What a chasm node reads back as; a nil half reads back as the blob of no bytes.\<close>

definition chasmRead :: "env \<Rightarrow> chasm_node \<Rightarrow> chasm_node" where
  "chasmRead E n =
     \<lparr>cn_Metadata = Some (case cn_Metadata n of None \<Rightarrow> NewDataBlob E [] '''' | Some b \<Rightarrow> b),
      cn_Data = Some (case cn_Data n of None \<Rightarrow> NewDataBlob E [] '''' | Some b \<Rightarrow> b)\<rparr>"

lemma norm_values [simp]: "norm (blobValue E b) = blobValue E b" "norm (chasmValue E n) = chasmValue E n"
  by (auto simp: blobValue_def chasmValue_def Let_def split: option.splits)

lemma chasm_roundtrip: "temporal_api E \<Longrightarrow> chasmFromValue E (chasmValue E n) = chasmRead E n"
  by (auto simp: chasmValue_def chasmFromValue_def chasmRead_def Let_def temporal_api.NewDataBlob_String split: option.splits)

section \<open>Snapshots\<close>

definition storedMap :: "('k \<times> blob option) list \<Rightarrow> 'k \<rightharpoonup> blob" where
  "storedMap m k = (case map_of m k of Some b \<Rightarrow> b | None \<Rightarrow> None)"

definition snapshotState :: "env \<Rightarrow> snapshot \<Rightarrow> mutable_state" where
  "snapshotState E s =
     \<lparr>ms_ExecutionInfo = Some (sn_ExecutionInfoBlob s), ms_ExecutionState = Some (sn_ExecutionStateBlob s),
      ms_NextEventID = sn_NextEventID s, ms_DBRecordVersion = sn_DBRecordVersion s, ms_Checksum = sn_Checksum s,
      ms_ActivityInfos = storedMap (sn_ActivityInfos s), ms_TimerInfos = storedMap (sn_TimerInfos s),
      ms_ChildExecutionInfos = storedMap (sn_ChildExecutionInfos s), ms_RequestCancelInfos = storedMap (sn_RequestCancelInfos s),
      ms_SignalInfos = storedMap (sn_SignalInfos s), ms_ChasmNodes = map_option (chasmRead E) \<circ> map_of (sn_ChasmNodes s),
      ms_SignalRequestedIDs = sn_SignalRequestedIDs s, ms_BufferedEvents = []\<rparr>"

text \<open>Equal up to the order in which the requested signal ids are listed.\<close>

definition sameState :: "mutable_state \<Rightarrow> mutable_state \<Rightarrow> bool" where
  "sameState a b \<longleftrightarrow> a\<lparr>ms_SignalRequestedIDs := []\<rparr> = b\<lparr>ms_SignalRequestedIDs := []\<rparr>
     \<and> set (ms_SignalRequestedIDs a) = set (ms_SignalRequestedIDs b)"

definition snapshotOk :: "snapshot \<Rightarrow> bool" where
  "snapshotOk s \<longleftrightarrow> distinct (map fst (sn_ActivityInfos s)) \<and> distinct (map fst (sn_TimerInfos s))
     \<and> distinct (map fst (sn_ChildExecutionInfos s)) \<and> distinct (map fst (sn_RequestCancelInfos s))
     \<and> distinct (map fst (sn_SignalInfos s)) \<and> distinct (map fst (sn_ChasmNodes s)) \<and> distinct (sn_SignalRequestedIDs s)"

definition wholeMap :: "(mkey \<times> gval) list \<Rightarrow> binval option" where
  "wholeMap m = (if m = [] then None else Some (BMap (put_items m [])))"

lemma map_ok_wholeMap [simp]: "map_ok (wholeMap m)"
  by (simp add: wholeMap_def put_items_ok)

lemma entries_wholeMap: "distinct (map fst m) \<Longrightarrow> entries (wholeMap m) k = map_option norm (map_of m k)"
  by (auto simp: wholeMap_def map_of_put_items split: option.splits)

lemma effect_wholeMap:
  assumes "effect ops r r1" "r1 b = None"
  shows "effect (appendWholeMap ops b m) r (r1(b := wholeMap m))"
proof (cases "m = []")
  case True
  with assms show ?thesis by (simp add: appendWholeMap_def wholeMap_def fun_upd_idem)
next
  case False
  have "effect [MapPutItemsOp b m] r1 (r1(b := wholeMap m))"
    using assms(2) False by (simp add: wholeMap_def effect_def map_write_def Let_def)
  with assms(1) False show ?thesis by (simp add: appendWholeMap_def effect_append)
qed

lemma map_of_image_inj:
  "inj K \<Longrightarrow> map_of (map (\<lambda>(k, v). (K k, f v)) m) (K x) = map_option f (map_of m x)"
  by (induction m) (auto simp: inj_eq)

lemma inj_keys [simp]: "inj KInt" "inj KStr"
  by (auto intro: injI)

lemma distinct_keys:
  "inj K \<Longrightarrow> distinct (map fst m) \<Longrightarrow> distinct (map fst (map (\<lambda>(k, v). (K k, f v)) m))"
  by (induction m) (auto simp: image_iff inj_eq)

lemma entries_coded:
  assumes "inj K" "distinct (map fst m)"
  shows "entries (wholeMap (map (\<lambda>(k, v). (K k, f v)) m)) (K x) = map_option (\<lambda>v. norm (f v)) (map_of m x)"
  by (simp only: entries_wholeMap [OF distinct_keys [OF assms]] map_of_image_inj [OF assms(1)] option.map_comp o_def)

lemma map_entries [simp]:
  "distinct (map fst m) \<Longrightarrow> entries (wholeMap (int64BlobMap E m)) (KInt k) = map_option (blobValue E) (map_of m k)"
  "distinct (map fst ms) \<Longrightarrow> entries (wholeMap (stringBlobMap E ms)) (KStr s) = map_option (blobValue E) (map_of ms s)"
  "distinct (map fst mc) \<Longrightarrow> entries (wholeMap (chasmMap E mc)) (KStr s) = map_option (chasmValue E) (map_of mc s)"
  by (simp_all add: int64BlobMap_def stringBlobMap_def chasmMap_def entries_coded)

lemma signal_entries: "distinct ids \<Longrightarrow> entries (wholeMap (signalRequestedMap ids)) (KStr s) \<noteq> None \<longleftrightarrow> s \<in> set ids"
proof -
  assume "distinct ids"
  then have "distinct (map fst (signalRequestedMap ids))" by (simp add: signalRequestedMap_def o_def distinct_map inj_on_def)
  then show ?thesis by (auto simp: entries_wholeMap signalRequestedMap_def map_of_eq_None_iff image_iff)
qed

lemma blob_entries:
  "temporal_api E \<Longrightarrow> Option.bind (map_option (blobValue E) (map_of m k)) (blobFromValue E) = storedMap m k"
  by (auto simp: storedMap_def temporal_api.blobFromValue_blobValue split: option.splits)

definition headBins :: "env \<Rightarrow> blob \<Rightarrow> blob \<Rightarrow> int64 \<Rightarrow> int64 \<Rightarrow> blob option \<Rightarrow> (string \<times> gval) list" where
  "headBins E info st nextID ver csum =
     [(''info'', GBytes (blob_data info)), (''info_enc'', GString (EncodingType_String E (blob_enc info))),
      (''state'', GBytes (blob_data st)), (''state_enc'', GString (EncodingType_String E (blob_enc st))),
      (''next_id'', GInt64 nextID), (''ver'', GInt64 ver)] @ blobBins E ''csum'' ''csum_enc'' csum"

lemma effect_head: "effect (headOps E info st n v @ checksumOps E csum) r (put_bins (headBins E info st n v csum) r)"
  by (cases csum) (simp_all add: headOps_def checksumOps_def headBins_def)

lemma headBins_read:
  fixes r info st n v csum
  assumes "temporal_api E"
  defines "r' \<equiv> put_bins (headBins E info st n v csum) r"
  shows "bin_blob E ''info'' ''info_enc'' r' = Some info" "bin_blob E ''state'' ''state_enc'' r' = Some st"
    "bin_int ''next_id'' r' = n" "bin_int ''ver'' r' = v" "bin_blob E ''csum'' ''csum_enc'' r' = csum"
    "b \<notin> {''info'', ''info_enc'', ''state'', ''state_enc'', ''next_id'', ''ver'', ''csum'', ''csum_enc''} \<Longrightarrow> r' b = r b"
  unfolding r'_def
  by (cases csum; simp add: headBins_def bin_blob_def bin_int_def temporal_api.NewDataBlob_String [OF assms(1)])+

lemma bin_blob_cong: "r d = r' d \<Longrightarrow> r e = r' e \<Longrightarrow> bin_blob E d e r = bin_blob E d e r'"
  by (auto simp: bin_blob_def split: option.splits)

lemma bin_int_cong: "r b = r' b \<Longrightarrow> bin_int b r = bin_int b r'"
  by (simp add: bin_int_def)

definition snapshotBase :: "env \<Rightarrow> snapshot \<Rightarrow> bins \<Rightarrow> bins" where
  "snapshotBase E s r =
     put_bins (headBins E (sn_ExecutionInfoBlob s) (sn_ExecutionStateBlob s) (sn_NextEventID s) (sn_DBRecordVersion s) (sn_Checksum s))
       (put_bins (map (\<lambda>b. (b, GNil)) (collectionBins @ [''buf''])) r)"

definition snapshotBins :: "env \<Rightarrow> snapshot \<Rightarrow> bins \<Rightarrow> bins" where
  "snapshotBins E s r = (snapshotBase E s r)
     (''act'' := wholeMap (int64BlobMap E (sn_ActivityInfos s)), ''tmr'' := wholeMap (stringBlobMap E (sn_TimerInfos s)),
      ''chld'' := wholeMap (int64BlobMap E (sn_ChildExecutionInfos s)), ''cncl'' := wholeMap (int64BlobMap E (sn_RequestCancelInfos s)),
      ''sig'' := wholeMap (int64BlobMap E (sn_SignalInfos s)), ''chasm'' := wholeMap (chasmMap E (sn_ChasmNodes s)),
      ''sigreq'' := wholeMap (signalRequestedMap (sn_SignalRequestedIDs s)))"

lemma put_bins_notin: "b \<notin> fst ` set bs \<Longrightarrow> put_bins bs r b = r b"
  by (induction bs arbitrary: r) auto

lemma put_bins_const: "b \<in> set bs \<Longrightarrow> put_bins (map (\<lambda>b. (b, v)) bs) r b = put_bin v"
proof (induction bs arbitrary: r)
  case (Cons a bs)
  then show ?case by (cases "b \<in> set bs") (simp_all add: put_bins_notin image_iff)
qed simp

lemma headBins_fst:
  "fst ` set (headBins E i st n v c) = set [''info'', ''info_enc'', ''state'', ''state_enc'', ''next_id'', ''ver'', ''csum'', ''csum_enc'']"
  by (cases c) (simp_all add: headBins_def)

lemma collection_not_head:
  "b \<in> set (collectionBins @ [''buf'']) \<Longrightarrow> b \<notin> fst ` set (headBins E i st n v c)"
  unfolding headBins_fst collectionBins_def by auto

lemma cleared:
  "b \<in> set (collectionBins @ [''buf'']) \<Longrightarrow> snapshotBase E s r b = None"
  by (simp only: snapshotBase_def put_bins_notin [OF collection_not_head] put_bins_const put_bin_simps)

lemma snapshotBase_None [simp]:
  "snapshotBase E s r ''act'' = None" "snapshotBase E s r ''tmr'' = None" "snapshotBase E s r ''chld'' = None"
  "snapshotBase E s r ''cncl'' = None" "snapshotBase E s r ''sig'' = None" "snapshotBase E s r ''chasm'' = None"
  "snapshotBase E s r ''sigreq'' = None" "snapshotBase E s r ''buf'' = None"
  by (rule cleared, simp add: collectionBins_def)+

lemma snapshotBase_effect:
  "effect (((map (\<lambda>b. PutOp b GNil) collectionBins @ [PutOp ''buf'' GNil]) @
      headOps E (sn_ExecutionInfoBlob s) (sn_ExecutionStateBlob s) (sn_NextEventID s) (sn_DBRecordVersion s)) @ checksumOps E (sn_Checksum s))
     r (snapshotBase E s r)"
proof -
  have nils: "effect (map (\<lambda>b. PutOp b v) bs) r (put_bins (map (\<lambda>b. (b, v)) bs) r)" for bs v
    by (induction bs arbitrary: r) simp_all
  show ?thesis
    unfolding snapshotBase_def using effect_append [OF nils [of GNil "collectionBins @ [''buf'']"] effect_head]
    by (simp only: append_assoc map_append list.map)
qed

lemma snapshot_effect: "effect (snapshotOps E s) r (snapshotBins E s r)"
  unfolding snapshotOps_def Let_def snapshotBins_def
  by (rule effect_wholeMap)+ (rule snapshotBase_effect, simp_all)

lemma snapshotBins_other: "b \<notin> set collectionBins \<Longrightarrow> snapshotBins E s r b = snapshotBase E s r b"
  by (simp add: snapshotBins_def collectionBins_def)

lemma snapshotBins_head:
  "snapshotBins E s r ''info'' = snapshotBase E s r ''info''" "snapshotBins E s r ''info_enc'' = snapshotBase E s r ''info_enc''"
  "snapshotBins E s r ''state'' = snapshotBase E s r ''state''" "snapshotBins E s r ''state_enc'' = snapshotBase E s r ''state_enc''"
  "snapshotBins E s r ''next_id'' = snapshotBase E s r ''next_id''" "snapshotBins E s r ''ver'' = snapshotBase E s r ''ver''"
  "snapshotBins E s r ''csum'' = snapshotBase E s r ''csum''" "snapshotBins E s r ''csum_enc'' = snapshotBase E s r ''csum_enc''"
  "snapshotBins E s r ''buf'' = None"
  by (simp_all add: snapshotBins_other collectionBins_def)

lemma snapshot_head:
  assumes "temporal_api E"
  shows "bin_blob E ''info'' ''info_enc'' (snapshotBins E s r) = Some (sn_ExecutionInfoBlob s)"
    "bin_blob E ''state'' ''state_enc'' (snapshotBins E s r) = Some (sn_ExecutionStateBlob s)"
    "bin_int ''next_id'' (snapshotBins E s r) = sn_NextEventID s" "bin_int ''ver'' (snapshotBins E s r) = sn_DBRecordVersion s"
    "bin_blob E ''csum'' ''csum_enc'' (snapshotBins E s r) = sn_Checksum s"
  unfolding bin_blob_def bin_int_def snapshotBins_head
  unfolding bin_blob_def [symmetric] bin_int_def [symmetric]
  by (simp_all only: snapshotBase_def headBins_read(1-5) [OF assms])

lemma snapshot_collections:
  "snapshotBins E s r ''act'' = wholeMap (int64BlobMap E (sn_ActivityInfos s))"
  "snapshotBins E s r ''tmr'' = wholeMap (stringBlobMap E (sn_TimerInfos s))"
  "snapshotBins E s r ''chld'' = wholeMap (int64BlobMap E (sn_ChildExecutionInfos s))"
  "snapshotBins E s r ''cncl'' = wholeMap (int64BlobMap E (sn_RequestCancelInfos s))"
  "snapshotBins E s r ''sig'' = wholeMap (int64BlobMap E (sn_SignalInfos s))"
  "snapshotBins E s r ''chasm'' = wholeMap (chasmMap E (sn_ChasmNodes s))"
  "snapshotBins E s r ''sigreq'' = wholeMap (signalRequestedMap (sn_SignalRequestedIDs s))"
  by (simp_all add: snapshotBins_def)

text \<open>The state a record holds.\<close>

definition binsRecord :: "bins \<Rightarrow> as_record" where
  "binsRecord r = \<lparr>Bins = \<lambda>b. read_bin (r b), Digest = ''''\<rparr>"

definition stateOf :: "env \<Rightarrow> bins \<Rightarrow> mutable_state" where
  "stateOf E r = mutableStateFromRecord E (binsRecord r)"

lemma stateOf_read: "mutableStateFromRecord E (read_bins Q k [] r) = stateOf E r"
  by (simp add: stateOf_def binsRecord_def mutableStateFromRecord_def readBlob_def binInt64_def readInt64BlobMap_def readStringBlobMap_def
      readChasmMap_def readSignalRequested_def readBufferedEvents_def recordMapPairs_def cong: option.case_cong)

lemma binsRecord_simps [simp]:
  "Bins (binsRecord r) b = read_bin (r b)" "readBlob E (binsRecord r) d e = bin_blob E d e r" "binInt64 (binsRecord r) b = bin_int b r"
  by (simp_all add: binsRecord_def readBlob_def bin_blob_def binInt64_def bin_int_def cong: option.case_cong)

lemma snapshot_state:
  assumes api: "temporal_api E" and ok: "snapshotOk s"
  shows "sameState (stateOf E (snapshotBins E s r)) (snapshotState E s)"
proof -
  let ?r = "snapshotBins E s r"
  note maps = readInt64BlobMap_entries [OF binsRecord_simps(1)] readStringBlobMap_entries [OF binsRecord_simps(1)]
    readChasmMap_entries [OF binsRecord_simps(1)]
  have sig: "set (readSignalRequested (binsRecord ?r) ''sigreq'') = set (sn_SignalRequestedIDs s)"
    using ok readSignalRequested_entries [OF binsRecord_simps(1), of ?r "''sigreq''"] signal_entries [of "sn_SignalRequestedIDs s"]
    by (simp add: snapshot_collections snapshotOk_def)
  have chasm: "readChasmMap E (binsRecord ?r) ''chasm'' = map_option (chasmRead E) \<circ> map_of (sn_ChasmNodes s)"
    using ok by (simp add: maps snapshot_collections snapshotOk_def option.map_comp o_def chasm_roundtrip [OF api])
  show ?thesis
    unfolding sameState_def stateOf_def mutableStateFromRecord_def snapshotState_def
    using ok sig chasm
    by (simp add: snapshot_head [OF api] maps snapshot_collections snapshotOk_def blob_entries [OF api]
        readBufferedEvents_def snapshotBins_head fun_eq_iff List.map_filter_simps)
qed

text \<open>
  C8. Writing a snapshot always succeeds, whatever the record held before, and reading the record back
  yields exactly the state of the snapshot: nothing of the old collections or buffered events survives.
\<close>

theorem snapshot_roundtrip:
  assumes "temporal_api E" and "snapshotOk s"
  shows "\<exists>r'. effect (snapshotOps E s) r r' \<and> sameState (stateOf E r') (snapshotState E s)"
  using snapshot_effect snapshot_state [OF assms] by blast

definition sampleSnapshot :: snapshot where
  "sampleSnapshot = \<lparr>sn_ExecutionInfoBlob = \<lparr>blob_data = [1], blob_enc = 1\<rparr>, sn_ExecutionStateBlob = \<lparr>blob_data = [2], blob_enc = 1\<rparr>,
     sn_NextEventID = 5, sn_DBRecordVersion = 1, sn_Checksum = None,
     sn_ActivityInfos = [(9, Some \<lparr>blob_data = [3], blob_enc = 2\<rparr>)], sn_TimerInfos = [(''t'', Some \<lparr>blob_data = [4], blob_enc = 1\<rparr>)],
     sn_ChildExecutionInfos = [], sn_RequestCancelInfos = [], sn_SignalInfos = [], sn_ChasmNodes = [],
     sn_SignalRequestedIDs = [''s1'', ''s2'']\<rparr>"

theorem snapshot_roundtrip_witness:
  "\<exists>r'. effect (snapshotOps sample_env sampleSnapshot) [''tmr'' \<mapsto> BMap [(KStr ''old'', GInt 1)]] r'
     \<and> sameState (stateOf sample_env r') (snapshotState sample_env sampleSnapshot)"
  by (rule snapshot_roundtrip [OF sample.temporal_api_axioms]) (simp add: snapshotOk_def sampleSnapshot_def)

section \<open>Mutations\<close>

text \<open>The deltas of a mutation, one group of puts and removes per collection.\<close>

type_synonym group = "string \<times> (mkey \<times> gval) list \<times> mkey list"

definition groupOps :: "group \<Rightarrow> operation list" where
  "groupOps g = (case g of (b, ups, dels) \<Rightarrow> map (\<lambda>(k, x). MapPutOp b k x) ups @ map (\<lambda>k. MapRemoveByKeyOp b k RetNone) dels)"

lemma effect_groups:
  assumes "distinct (map fst gs)" "\<And>b ups dels. (b, ups, dels) \<in> set gs \<Longrightarrow> map_ok (r b) \<and> distinct (map fst ups)"
  shows "\<exists>r'. effect (concat (map groupOps gs)) r r'
    \<and> (\<forall>(b, ups, dels) \<in> set gs. map_ok (r' b) \<and> entries (r' b) = delta ups dels (entries (r b)))
    \<and> (\<forall>b. b \<notin> fst ` set gs \<longrightarrow> r' b = r b)"
  using assms
proof (induction gs arbitrary: r)
  case (Cons g gs)
  obtain b ups dels where g: "g = (b, ups, dels)" by (cases g)
  with Cons.prems(2) have "map_ok (r b)" "distinct (map fst ups)" by auto
  then obtain v where v: "effect (groupOps g) r (r(b := v))" "map_ok v" "entries v = delta ups dels (entries (r b))"
    using effect_delta [of r b ups dels] by (auto simp: g groupOps_def)
  have fresh: "b \<notin> fst ` set gs" using Cons.prems(1) by (simp add: g)
  have keep: "(r(b := v)) b' = r b'" if "(b', u, d) \<in> set gs" for b' u d
    using that fresh by (auto simp: image_iff)
  have ok: "map_ok ((r(b := v)) b') \<and> distinct (map fst u)" if "(b', u, d) \<in> set gs" for b' u d
    using Cons.prems(2) [of b' u d] that by (simp add: keep [OF that] del: fun_upd_apply)
  have "distinct (map fst gs)" using Cons.prems(1) by simp
  from Cons.IH [OF this, of "r(b := v)"] ok obtain r' where r': "effect (concat (map groupOps gs)) (r(b := v)) r'"
    "\<forall>(b', u, d) \<in> set gs. map_ok (r' b') \<and> entries (r' b') = delta u d (entries ((r(b := v)) b'))"
    "\<forall>b'. b' \<notin> fst ` set gs \<longrightarrow> r' b' = (r(b := v)) b'"
    by blast
  have "effect (concat (map groupOps (g # gs))) r r'" using effect_append [OF v(1) r'(1)] by simp
  moreover have "map_ok (r' b') \<and> entries (r' b') = delta u d (entries (r b'))" if "(b', u, d) \<in> set (g # gs)" for b' u d
  proof (cases "(b', u, d) = g")
    case True
    with g have "b' = b" "u = ups" "d = dels" by auto
    with r'(3) fresh v show ?thesis by simp
  next
    case False
    with that have g': "(b', u, d) \<in> set gs" by auto
    from bspec [OF r'(2) g'] show ?thesis by (simp add: keep [OF g'] del: fun_upd_apply)
  qed
  ultimately show ?case using r'(3) by (intro exI [of _ r']) (auto simp: g)
qed simp

definition mutationGroups :: "env \<Rightarrow> mutation \<Rightarrow> group list" where
  "mutationGroups E m =
     [(''act'', int64BlobMap E (mu_UpsertActivityInfos m), map KInt (mu_DeleteActivityInfos m)),
      (''tmr'', stringBlobMap E (mu_UpsertTimerInfos m), map KStr (mu_DeleteTimerInfos m)),
      (''chld'', int64BlobMap E (mu_UpsertChildExecutionInfos m), map KInt (mu_DeleteChildExecutionInfos m)),
      (''cncl'', int64BlobMap E (mu_UpsertRequestCancelInfos m), map KInt (mu_DeleteRequestCancelInfos m)),
      (''sig'', int64BlobMap E (mu_UpsertSignalInfos m), map KInt (mu_DeleteSignalInfos m)),
      (''chasm'', chasmMap E (mu_UpsertChasmNodes m), map KStr (mu_DeleteChasmNodes m)),
      (''sigreq'', signalRequestedMap (mu_UpsertSignalRequestedIDs m), map KStr (mu_DeleteSignalRequestedIDs m))]"

definition bufferOps :: "env \<Rightarrow> mutation \<Rightarrow> operation list" where
  "bufferOps E m = (if mu_ClearBufferedEvents m then [PutOp ''buf'' GNil] else [])
     @ (case mu_NewBufferedEvents m of None \<Rightarrow> [] | Some b \<Rightarrow> [ListAppendOp ''buf'' (blobValue E (Some b))])"

lemma mutationOps_groups:
  "mutationOps E m =
     (headOps E (mu_ExecutionInfoBlob m) (mu_ExecutionStateBlob m) (mu_NextEventID m) (mu_DBRecordVersion m) @ checksumOps E (mu_Checksum m))
     @ concat (map groupOps (mutationGroups E m)) @ bufferOps E m"
  by (auto simp: mutationOps_def mutationGroups_def groupOps_def bufferOps_def upsertInt64Blobs_def upsertStringBlobs_def
      deleteInt64Keys_def deleteStringKeys_def int64BlobMap_def stringBlobMap_def chasmMap_def signalRequestedMap_def o_def)

definition bufferOk :: "binval option \<Rightarrow> bool" where
  "bufferOk v \<longleftrightarrow> (v = None \<or> (\<exists>vs. v = Some (BVal (GList vs))))"

definition execOk :: "bins \<Rightarrow> bool" where
  "execOk r \<longleftrightarrow> (\<forall>b \<in> set collectionBins. map_ok (r b)) \<and> bufferOk (r ''buf'')"

lemma execOk_snapshotBins: "execOk (snapshotBins E s r)"
  by (simp add: execOk_def collectionBins_def snapshot_collections snapshotBins_head(9) bufferOk_def)

definition buffered :: "env \<Rightarrow> binval option \<Rightarrow> blob list" where
  "buffered E v = List.map_filter (blobFromValue E) (orZero (asList (read_bin v)) [])"

lemma effect_buffer:
  assumes "temporal_api E" "bufferOk (r ''buf'')"
  shows "\<exists>v. effect (bufferOps E m) r (r(''buf'' := v)) \<and> bufferOk v \<and> buffered E v =
    (if mu_ClearBufferedEvents m then [] else buffered E (r ''buf'')) @ (case mu_NewBufferedEvents m of None \<Rightarrow> [] | Some b \<Rightarrow> [b])"
proof -
  have app: "\<exists>w. effect [ListAppendOp ''buf'' (blobValue E (Some b))] (r(''buf'' := v)) (r(''buf'' := w)) \<and> bufferOk w
      \<and> buffered E w = buffered E v @ [b]" if "bufferOk v" for v b
  proof -
    let ?w = "Some (BVal (GList (orZero (asList (read_bin v)) [] @ [blobValue E (Some b)])))"
    have "effect [ListAppendOp ''buf'' (blobValue E (Some b))] (r(''buf'' := v)) (r(''buf'' := ?w))"
      using that by (auto simp: bufferOk_def effect_def)
    moreover have "buffered E ?w = buffered E v @ [b]"
      by (simp add: buffered_def List.map_filter_def temporal_api.blobFromValue_blobValue [OF assms(1)])
    ultimately show ?thesis by (metis bufferOk_def)
  qed
  show ?thesis
  proof (cases "mu_NewBufferedEvents m")
    case None
    with assms(2) show ?thesis
      by (intro exI [of _ "if mu_ClearBufferedEvents m then None else r ''buf''"])
        (simp add: bufferOps_def bufferOk_def buffered_def List.map_filter_simps)
  next
    case (Some b)
    let ?v = "if mu_ClearBufferedEvents m then None else r ''buf''"
    have "bufferOk ?v" using assms(2) by (simp add: bufferOk_def)
    from app [OF this] obtain w where "effect [ListAppendOp ''buf'' (blobValue E (Some b))] (r(''buf'' := ?v)) (r(''buf'' := w))" "bufferOk w"
      "buffered E w = buffered E ?v @ [b]"
      by blast
    with Some show ?thesis
      by (intro exI [of _ w]) (auto simp: bufferOps_def buffered_def List.map_filter_simps split: if_splits)
  qed
qed

text \<open>The delta of a mutation on the state, independent of how the record stores it.\<close>

definition mutateMap :: "('k \<times> blob option) list \<Rightarrow> 'k list \<Rightarrow> ('k \<rightharpoonup> blob) \<Rightarrow> 'k \<rightharpoonup> blob" where
  "mutateMap ups dels f k = (if k \<in> set dels then None else case map_of ups k of Some b \<Rightarrow> b | None \<Rightarrow> f k)"

definition mutateChasm :: "env \<Rightarrow> (string \<times> chasm_node) list \<Rightarrow> string list \<Rightarrow> (string \<rightharpoonup> chasm_node) \<Rightarrow> string \<rightharpoonup> chasm_node" where
  "mutateChasm E ups dels f k =
     (if k \<in> set dels then None else case map_of ups k of Some n \<Rightarrow> Some (chasmRead E n) | None \<Rightarrow> f k)"

definition applyDelta :: "env \<Rightarrow> mutation \<Rightarrow> mutable_state \<Rightarrow> mutable_state" where
  "applyDelta E m st =
     \<lparr>ms_ExecutionInfo = Some (mu_ExecutionInfoBlob m), ms_ExecutionState = Some (mu_ExecutionStateBlob m),
      ms_NextEventID = mu_NextEventID m, ms_DBRecordVersion = mu_DBRecordVersion m, ms_Checksum = mu_Checksum m,
      ms_ActivityInfos = mutateMap (mu_UpsertActivityInfos m) (mu_DeleteActivityInfos m) (ms_ActivityInfos st),
      ms_TimerInfos = mutateMap (mu_UpsertTimerInfos m) (mu_DeleteTimerInfos m) (ms_TimerInfos st),
      ms_ChildExecutionInfos = mutateMap (mu_UpsertChildExecutionInfos m) (mu_DeleteChildExecutionInfos m) (ms_ChildExecutionInfos st),
      ms_RequestCancelInfos = mutateMap (mu_UpsertRequestCancelInfos m) (mu_DeleteRequestCancelInfos m) (ms_RequestCancelInfos st),
      ms_SignalInfos = mutateMap (mu_UpsertSignalInfos m) (mu_DeleteSignalInfos m) (ms_SignalInfos st),
      ms_ChasmNodes = mutateChasm E (mu_UpsertChasmNodes m) (mu_DeleteChasmNodes m) (ms_ChasmNodes st),
      ms_SignalRequestedIDs = filter (\<lambda>i. i \<notin> set (mu_DeleteSignalRequestedIDs m))
         (ms_SignalRequestedIDs st @ mu_UpsertSignalRequestedIDs m),
      ms_BufferedEvents = (if mu_ClearBufferedEvents m then [] else ms_BufferedEvents st)
         @ (case mu_NewBufferedEvents m of None \<Rightarrow> [] | Some b \<Rightarrow> [b])\<rparr>"

definition mutationOk :: "mutation \<Rightarrow> bool" where
  "mutationOk m \<longleftrightarrow> distinct (map fst (mu_UpsertActivityInfos m)) \<and> distinct (map fst (mu_UpsertTimerInfos m))
     \<and> distinct (map fst (mu_UpsertChildExecutionInfos m)) \<and> distinct (map fst (mu_UpsertRequestCancelInfos m))
     \<and> distinct (map fst (mu_UpsertSignalInfos m)) \<and> distinct (map fst (mu_UpsertChasmNodes m))
     \<and> distinct (mu_UpsertSignalRequestedIDs m)"

lemma distinct_coded:
  "distinct (map fst m) \<Longrightarrow> distinct (map fst (int64BlobMap E m))"
  "distinct (map fst ms) \<Longrightarrow> distinct (map fst (stringBlobMap E ms))"
  "distinct (map fst mc) \<Longrightarrow> distinct (map fst (chasmMap E mc))"
  "distinct ids \<Longrightarrow> distinct (map fst (signalRequestedMap ids))"
  unfolding int64BlobMap_def stringBlobMap_def chasmMap_def
  by (rule distinct_keys; simp)+ (simp add: signalRequestedMap_def o_def distinct_map inj_on_def)

lemma groups_distinct:
  assumes "mutationOk m" "(b, ups, dels) \<in> set (mutationGroups E m)"
  shows "distinct (map fst ups)"
  using assms unfolding mutationGroups_def mutationOk_def
  by (elim conjE) (simp, elim disjE; simp add: distinct_coded)

lemma groups_bins: "map fst (mutationGroups E m) = collectionBins"
  by (simp add: mutationGroups_def collectionBins_def)

lemma mutation_effect:
  assumes api: "temporal_api E" and r: "execOk r" and m: "mutationOk m"
  shows "\<exists>r'. effect (mutationOps E m) r r' \<and> execOk r'
    \<and> (\<forall>(b, ups, dels) \<in> set (mutationGroups E m). entries (r' b) = delta ups dels (entries (r b)))
    \<and> buffered E (r' ''buf'') = (if mu_ClearBufferedEvents m then [] else buffered E (r ''buf''))
         @ (case mu_NewBufferedEvents m of None \<Rightarrow> [] | Some b \<Rightarrow> [b])
    \<and> (\<forall>b. b \<notin> set collectionBins \<longrightarrow> b \<noteq> ''buf'' \<longrightarrow> r' b =
         put_bins (headBins E (mu_ExecutionInfoBlob m) (mu_ExecutionStateBlob m) (mu_NextEventID m) (mu_DBRecordVersion m) (mu_Checksum m)) r b)"
proof -
  let ?head = "headBins E (mu_ExecutionInfoBlob m) (mu_ExecutionStateBlob m) (mu_NextEventID m) (mu_DBRecordVersion m) (mu_Checksum m)"
  let ?r1 = "put_bins ?head r"
  have same: "?r1 b = r b" if "b \<in> set (collectionBins @ [''buf''])" for b
    using put_bins_notin [OF collection_not_head [OF that]] .
  have mem: "b \<in> set collectionBins" if "(b, ups, dels) \<in> set (mutationGroups E m)" for b ups dels
    using that groups_bins [of E m] by (metis fst_conv in_set_conv_nth length_map nth_map nth_mem)
  have "distinct (map fst (mutationGroups E m))" by (simp add: groups_bins) (simp add: collectionBins_def)
  moreover have "map_ok (?r1 b) \<and> distinct (map fst ups)" if "(b, ups, dels) \<in> set (mutationGroups E m)" for b ups dels
    using r mem [OF that] groups_distinct [OF m that] by (simp add: same execOk_def del: put_bins_simps)
  ultimately obtain r2 where r2: "effect (concat (map groupOps (mutationGroups E m))) ?r1 r2"
    "\<forall>(b, ups, dels) \<in> set (mutationGroups E m). map_ok (r2 b) \<and> entries (r2 b) = delta ups dels (entries (?r1 b))"
    "\<forall>b. b \<notin> fst ` set (mutationGroups E m) \<longrightarrow> r2 b = ?r1 b"
    using effect_groups [of "mutationGroups E m" ?r1] by blast
  have bins: "fst ` set (mutationGroups E m) = set collectionBins"
    using groups_bins [of E m] by (metis list.set_map)
  have "r2 ''buf'' = r ''buf''"
    using r2(3) same [of "''buf''"] by (simp add: bins) (simp add: collectionBins_def)
  moreover from this obtain v where v: "effect (bufferOps E m) r2 (r2(''buf'' := v))" "bufferOk v"
    "buffered E v = (if mu_ClearBufferedEvents m then [] else buffered E (r ''buf'')) @ (case mu_NewBufferedEvents m of None \<Rightarrow> [] | Some b \<Rightarrow> [b])"
    using effect_buffer [OF api, of r2 m] r by (auto simp: execOk_def)
  have nb: "''buf'' \<notin> set collectionBins" by (simp add: collectionBins_def)
  have eff: "effect (mutationOps E m) r (r2(''buf'' := v))"
    unfolding mutationOps_groups by (intro effect_append [OF effect_head] effect_append [OF r2(1)] v(1))
  have ent: "map_ok (r2 b) \<and> entries (r2 b) = delta ups dels (entries (r b)) \<and> b \<noteq> ''buf''"
    if g: "(b, ups, dels) \<in> set (mutationGroups E m)" for b ups dels
    using bspec [OF r2(2) g] same [of b] mem [OF g] nb by (auto simp del: put_bins_simps)
  have "map_ok (r2 b)" if "b \<in> set collectionBins" for b
    using that ent bins by (metis (no_types, lifting) image_iff prod.collapse)
  then have "execOk (r2(''buf'' := v))" using v(2) nb by (auto simp: execOk_def)
  then show ?thesis
    using eff ent v(3) r2(3) by (intro exI [of _ "r2(''buf'' := v)"]) (auto simp: bins simp del: put_bins_simps)
qed

lemma map_of_keys [simp]:
  "map_of (int64BlobMap E m) (KInt k) = map_option (blobValue E) (map_of m k)"
  "map_of (stringBlobMap E ms) (KStr s) = map_option (blobValue E) (map_of ms s)"
  "map_of (chasmMap E mc) (KStr s) = map_option (chasmValue E) (map_of mc s)"
  by (simp_all add: int64BlobMap_def stringBlobMap_def chasmMap_def map_of_image_inj)

lemma map_of_signalRequestedMap: "map_of (signalRequestedMap ids) (KStr s) = (if s \<in> set ids then Some (GInt 1) else None)"
  by (induction ids) (auto simp: signalRequestedMap_def)

lemma delta_blobs:
  assumes "temporal_api E" "inj K" "map_of ups (K k) = map_option (blobValue E) (map_of ms k)"
  shows "Option.bind (delta ups (map K dels) f (K k)) (blobFromValue E) = mutateMap ms dels (\<lambda>k. Option.bind (f (K k)) (blobFromValue E)) k"
  using assms by (auto simp: delta_def mutateMap_def inj_image_mem_iff temporal_api.blobFromValue_blobValue split: option.splits)

lemma head_of_other:
  assumes api: "temporal_api E"
    and other: "\<And>b. b \<notin> set collectionBins \<Longrightarrow> b \<noteq> ''buf'' \<Longrightarrow> r' b = put_bins (headBins E i st n v c) r b"
  shows "bin_blob E ''info'' ''info_enc'' r' = Some i" "bin_blob E ''state'' ''state_enc'' r' = Some st"
    "bin_int ''next_id'' r' = n" "bin_int ''ver'' r' = v" "bin_blob E ''csum'' ''csum_enc'' r' = c"
proof -
  let ?h = "put_bins (headBins E i st n v c) r"
  have hd: "r' ''info'' = ?h ''info''" "r' ''info_enc'' = ?h ''info_enc''" "r' ''state'' = ?h ''state''"
    "r' ''state_enc'' = ?h ''state_enc''" "r' ''next_id'' = ?h ''next_id''" "r' ''ver'' = ?h ''ver''"
    "r' ''csum'' = ?h ''csum''" "r' ''csum_enc'' = ?h ''csum_enc''"
    by (rule other; simp add: collectionBins_def)+
  show "bin_blob E ''info'' ''info_enc'' r' = Some i" "bin_blob E ''state'' ''state_enc'' r' = Some st"
    "bin_int ''next_id'' r' = n" "bin_int ''ver'' r' = v" "bin_blob E ''csum'' ''csum_enc'' r' = c"
    unfolding bin_blob_def bin_int_def hd
    unfolding bin_blob_def [symmetric] bin_int_def [symmetric]
    by (simp_all only: headBins_read(1-5) [OF api])
qed

lemma mutation_state:
  assumes api: "temporal_api E" and r: "execOk r" and m: "mutationOk m"
  shows "\<exists>r'. effect (mutationOps E m) r r' \<and> execOk r' \<and> sameState (stateOf E r') (applyDelta E m (stateOf E r))"
proof -
  let ?head = "headBins E (mu_ExecutionInfoBlob m) (mu_ExecutionStateBlob m) (mu_NextEventID m) (mu_DBRecordVersion m) (mu_Checksum m)"
  obtain r' where r': "effect (mutationOps E m) r r'" "execOk r'"
    and ent: "\<forall>(b, ups, dels) \<in> set (mutationGroups E m). entries (r' b) = delta ups dels (entries (r b))"
    and buf: "buffered E (r' ''buf'') = (if mu_ClearBufferedEvents m then [] else buffered E (r ''buf''))
         @ (case mu_NewBufferedEvents m of None \<Rightarrow> [] | Some b \<Rightarrow> [b])"
    and other: "\<And>b. b \<notin> set collectionBins \<Longrightarrow> b \<noteq> ''buf'' \<Longrightarrow> r' b = put_bins ?head r b"
    using mutation_effect [OF api r m] by blast
  have ok: "map_ok (r b)" "map_ok (r' b)" if "b \<in> set collectionBins" for b
    using that r r'(2) by (auto simp: execOk_def)
  have mem: "''act'' \<in> set collectionBins" "''tmr'' \<in> set collectionBins" "''chld'' \<in> set collectionBins" "''cncl'' \<in> set collectionBins"
    "''sig'' \<in> set collectionBins" "''chasm'' \<in> set collectionBins" "''sigreq'' \<in> set collectionBins"
    by (simp_all add: collectionBins_def)
  note maps = readInt64BlobMap_entries [OF binsRecord_simps(1)] readStringBlobMap_entries [OF binsRecord_simps(1)]
    readChasmMap_entries [OF binsRecord_simps(1)]
  note head = head_of_other [OF api other]
  note ents = ent [unfolded mutationGroups_def list.set ball_simps prod.case]
  have blobs: "readInt64BlobMap E (binsRecord r') ''act'' = mutateMap (mu_UpsertActivityInfos m) (mu_DeleteActivityInfos m) (readInt64BlobMap E (binsRecord r) ''act'')"
    "readStringBlobMap E (binsRecord r') ''tmr'' = mutateMap (mu_UpsertTimerInfos m) (mu_DeleteTimerInfos m) (readStringBlobMap E (binsRecord r) ''tmr'')"
    "readInt64BlobMap E (binsRecord r') ''chld'' = mutateMap (mu_UpsertChildExecutionInfos m) (mu_DeleteChildExecutionInfos m) (readInt64BlobMap E (binsRecord r) ''chld'')"
    "readInt64BlobMap E (binsRecord r') ''cncl'' = mutateMap (mu_UpsertRequestCancelInfos m) (mu_DeleteRequestCancelInfos m) (readInt64BlobMap E (binsRecord r) ''cncl'')"
    "readInt64BlobMap E (binsRecord r') ''sig'' = mutateMap (mu_UpsertSignalInfos m) (mu_DeleteSignalInfos m) (readInt64BlobMap E (binsRecord r) ''sig'')"
    using ents by (simp_all add: maps ok mem delta_blobs [OF api] fun_eq_iff)
  have chasm: "readChasmMap E (binsRecord r') ''chasm'' =
      mutateChasm E (mu_UpsertChasmNodes m) (mu_DeleteChasmNodes m) (readChasmMap E (binsRecord r) ''chasm'')"
    using ents by (auto simp: mutateChasm_def maps ok mem delta_def fun_eq_iff inj_image_mem_iff chasm_roundtrip [OF api] split: option.splits)
  have sig: "set (readSignalRequested (binsRecord r') ''sigreq'') =
      set (filter (\<lambda>i. i \<notin> set (mu_DeleteSignalRequestedIDs m)) (readSignalRequested (binsRecord r) ''sigreq'' @ mu_UpsertSignalRequestedIDs m))"
    using ents by (auto simp: readSignalRequested_entries [OF binsRecord_simps(1)] ok mem delta_def inj_image_mem_iff map_of_signalRequestedMap
        split: if_splits option.splits)
  have "readBufferedEvents E (binsRecord x) ''buf'' = buffered E (x ''buf'')" for x
    by (simp add: readBufferedEvents_def buffered_def)
  then have "sameState (stateOf E r') (applyDelta E m (stateOf E r))"
    unfolding sameState_def stateOf_def mutableStateFromRecord_def applyDelta_def
    using blobs chasm sig buf head by simp
  with r' show ?thesis by blast
qed

text \<open>
  C9. Applying the operations of a mutation to a well-formed execution record always succeeds, keeps the
  record well-formed, and changes the state it holds exactly by the delta of the mutation: upserts, then
  deletes, per collection; everything the mutation does not mention stays. The store computes no
  collection, so the delta is applied to whatever the record holds at that moment.
\<close>

theorem mutation_refines:
  assumes "temporal_api E" and "execOk r" and "mutationOk m"
  shows "\<exists>r'. effect (mutationOps E m) r r' \<and> execOk r' \<and> sameState (stateOf E r') (applyDelta E m (stateOf E r))"
  using assms by (rule mutation_state)

definition sampleMutation :: mutation where
  "sampleMutation = \<lparr>mu_ExecutionInfoBlob = \<lparr>blob_data = [1], blob_enc = 1\<rparr>, mu_ExecutionStateBlob = \<lparr>blob_data = [2], blob_enc = 1\<rparr>,
     mu_NextEventID = 6, mu_DBRecordVersion = 2, mu_Checksum = None,
     mu_UpsertActivityInfos = [(9, Some \<lparr>blob_data = [7], blob_enc = 2\<rparr>)], mu_DeleteActivityInfos = [4],
     mu_UpsertTimerInfos = [], mu_DeleteTimerInfos = [''old''], mu_UpsertChildExecutionInfos = [], mu_DeleteChildExecutionInfos = [],
     mu_UpsertRequestCancelInfos = [], mu_DeleteRequestCancelInfos = [], mu_UpsertSignalInfos = [], mu_DeleteSignalInfos = [],
     mu_UpsertChasmNodes = [], mu_DeleteChasmNodes = [], mu_UpsertSignalRequestedIDs = [''s''], mu_DeleteSignalRequestedIDs = [],
     mu_ClearBufferedEvents = False, mu_NewBufferedEvents = Some \<lparr>blob_data = [8], blob_enc = 1\<rparr>\<rparr>"

theorem mutation_refines_witness:
  "\<exists>r'. effect (mutationOps sample_env sampleMutation) [''tmr'' \<mapsto> BMap [(KStr ''old'', GInt 1)]] r' \<and> execOk r'
     \<and> sameState (stateOf sample_env r') (applyDelta sample_env sampleMutation (stateOf sample_env [''tmr'' \<mapsto> BMap [(KStr ''old'', GInt 1)]]))"
  by (rule mutation_refines [OF sample.temporal_api_axioms])
    (simp_all add: execOk_def collectionBins_def bufferOk_def mutationOk_def sampleMutation_def omap_ok_def)

end
