(* ===== verification/ShardFence.thy ===== *)
theory ShardFence
  imports MutableState
begin

text \<open>
  \<^verbatim>\<open>assertShardOwnership\<close> of \<^verbatim>\<open>execution_store.go\<close>: reading the lease inside the transaction. Because
  the read joins the transaction's read set, a scope that starts with it and commits did so at an
  instant at which the lease carried the expected range id; the lemma is stated for every body.
\<close>

definition assertShardOwnership :: "env \<Rightarrow> txnScope \<Rightarrow> int32 \<Rightarrow> int64 \<Rightarrow> unit io" where
  "assertShardOwnership E t shardID rangeID =
     pbind (getP (ts_read t) (shardKey E shardID) [''range_id'']) (\<lambda>r. case r of
        Inl err \<Rightarrow>
          if isNotFound err then Ret (Inl (ShardOwnershipLost shardID DiagMissing))
          else Ret (Inl (convertError ''assertShardOwnership'' err))
      | Inr rec \<Rightarrow>
          let actual = binInt64 rec ''range_id'' in
          if actual \<noteq> rangeID then Ret (Inl (ShardOwnershipLost shardID (DiagFound actual '''')))
          else Ret (Inr ()))"

text \<open>The lease of a shard in a store, as the fence reads it.\<close>

definition leaseID :: "env \<Rightarrow> int32 \<Rightarrow> store \<Rightarrow> int64 option" where
  "leaseID E shardID s = map_option (bin_int ''range_id'') (s (shardKey E shardID))"

lemma txn_body_Ret [txn_intros, simp]: "txn_body t (Ret x)"
  by simp

lemma txn_body_assertShardOwnership [txn_intros]: "txn_body t (assertShardOwnership E (beginTxn E' t) i r)"
  unfolding assertShardOwnership_def
  by (intro txn_intros) (auto simp: Let_def split: sum.splits)

lemma prun_assertShardOwnership [prog_simps]:
  "prun Q (assertShardOwnership E t i r) s =
     (case leaseID E i s of
        None \<Rightarrow> (Inl (ShardOwnershipLost i DiagMissing), s)
      | Some a \<Rightarrow> if a = r then (Inr (), s) else (Inl (ShardOwnershipLost i (DiagFound a '''')), s))"
  by (simp add: assertShardOwnership_def leaseID_def prog_simps Let_def split: option.splits)

definition fenced :: "env \<Rightarrow> string \<Rightarrow> int32 \<Rightarrow> int64 \<Rightarrow> (txnScope \<Rightarrow> 'a io) \<Rightarrow> 'a io" where
  "fenced E operation shardID rangeID rest =
     withTxn E operation (\<lambda>t. tryP (assertShardOwnership E t shardID rangeID) (\<lambda>_. rest t))"

lemma prun_fenced_ok:
  "prun Q (tryP (assertShardOwnership E t i r) (\<lambda>_. rest)) s = (Inr x, s') \<longleftrightarrow> leaseID E i s = Some r \<and> prun Q rest s = (Inr x, s')"
  by (auto simp: prog_simps split: option.splits if_splits)

context aerospike
begin

text \<open>
  A fenced scope that succeeds: its body ran, as if alone, on a store that held the lease; everything it
  wrote appeared at that instant.
\<close>

lemma fenced_ok:
  assumes body: "\<And>t. txn_body t (rest (beginTxn E t))"
    and run: "run srv (fenced E operation i r rest) db = (Inr x, db')"
  shows "\<exists>t s0 s1. interferes (store_of db) s0 \<and> leaseID E i s0 = Some r \<and> prun Q (rest (beginTxn E t)) s0 = (Inr x, s1)
    \<and> interferes s1 (store_of db')"
proof -
  have "txn_body t (tryP (assertShardOwnership E (beginTxn E t) i r) (\<lambda>_. rest (beginTxn E t)))" for t
    by (intro txn_intros body)
  from withTxn_ok [OF this run [unfolded fenced_def]] show ?thesis
    by (auto simp: prun_fenced_ok)
qed

text \<open>A fenced scope that fails with anything but an unknown commit outcome changed nothing.\<close>

lemma fenced_err:
  assumes body: "\<And>t. txn_body t (rest (beginTxn E t))"
    and run: "run srv (fenced E operation i r rest) db = (Inl e, db')"
    and known: "e \<notin> range (convertError operation)"
  shows "interferes (store_of db) (store_of db')"
proof -
  have "txn_body t (tryP (assertShardOwnership E (beginTxn E t) i r) (\<lambda>_. rest (beginTxn E t)))" for t
    by (intro txn_intros body)
  from withTxn_err [OF this run [unfolded fenced_def] known] show ?thesis .
qed

end

context quiet_aerospike
begin

text \<open>On a quiet server a fenced scope is its body, run on the store: an error leaves the store as it was.\<close>

lemma fenced_quiet:
  assumes body: "\<And>t. txn_body t (rest (beginTxn E t))"
    and run: "run srv (fenced E operation i r rest) db = (y, db')"
  shows "(case leaseID E i (store_of db) of
      None \<Rightarrow> y = Inl (ShardOwnershipLost i DiagMissing) \<and> store_of db' = store_of db
    | Some a \<Rightarrow> if a \<noteq> r then y = Inl (ShardOwnershipLost i (DiagFound a '''')) \<and> store_of db' = store_of db
        else (\<exists>t s1. prun Q (rest (beginTxn E t)) (store_of db) = (y, s1) \<and>
          store_of db' = (case y of Inl _ \<Rightarrow> store_of db | Inr _ \<Rightarrow> s1)))"
proof -
  have "txn_body t (tryP (assertShardOwnership E (beginTxn E t) i r) (\<lambda>_. rest (beginTxn E t)))" for t
    by (intro txn_intros body)
  from withTxn_quiet [OF this run [unfolded fenced_def]] show ?thesis
    by (auto simp: prog_simps split: option.splits if_splits)
qed

lemma quiet_plain_run:
  assumes "plain_prog p" "prun Q p (store_of db) = (x, s')"
  shows "\<exists>db'. run srv p db = (x, db') \<and> store_of db' = s'"
  using quiet_run [OF assms(1)] assms(2) by (metis prod.inject surj_pair)

end

end
