(* ===== verification/HistoryTasks.thy ===== *)
theory HistoryTasks
  imports ShardFence
begin

text \<open>
  The task queues of \<^verbatim>\<open>tasks.go\<close>: history tasks in bucket records with an index of the populated buckets,
  and the replication dead-letter queue built the same way. This theory holds the operations; the
  theories \<open>BucketedQueue\<close> and \<open>HistoryTasksProps\<close> prove them correct.
\<close>

record hist_task =
  ht_Key :: task_key
  ht_Blob :: "blob option"

section \<open>Writing\<close>

text \<open>\<^verbatim>\<open>grouped[bucket] = append(grouped[bucket], op)\<close>, the map as an association list.\<close>

fun groupAppend :: "int64 \<Rightarrow> operation \<Rightarrow> (int64 \<times> operation list) list \<Rightarrow> (int64 \<times> operation list) list" where
  "groupAppend b x [] = [(b, [x])]"
| "groupAppend b x ((b', xs) # g) = (if b' = b then (b', xs @ [x]) # g else (b', xs) # groupAppend b x g)"

definition groupTasks :: "env \<Rightarrow> taskKeyCodec \<Rightarrow> hist_task list \<Rightarrow> (int64 \<times> operation list) list" where
  "groupTasks E c taskList =
     foldl (\<lambda>g task. groupAppend (bucket c (ht_Key task))
        (MapPutOp ''t'' (encode c (ht_Key task)) (blobValue E (ht_Blob task))) g) [] taskList"

primrec writeBuckets :: "env \<Rightarrow> txnScope \<Rightarrow> int32 \<Rightarrow> int \<Rightarrow> (int64 \<times> operation list) list \<Rightarrow> unit io" where
  "writeBuckets E t shardID categoryID [] = Ret (Inr ())"
| "writeBuckets E t shardID categoryID (g # grouped) =
     (case g of (b, ops) \<Rightarrow>
        pbind (operateP (ts_write t) (historyTaskKey E shardID categoryID b) ops) (\<lambda>r. case r of
           Inl err \<Rightarrow> Ret (Inl (convertError ''writeTasks'' err))
         | Inr _ \<Rightarrow>
             pbind (operateP (ts_write t) (historyTaskIndexKey E shardID categoryID) [MapPutOp ''b'' (KInt b) (GInt 1)]) (\<lambda>r. case r of
                Inl err \<Rightarrow> Ret (Inl (convertError ''writeTasks'' err))
              | Inr _ \<Rightarrow> writeBuckets E t shardID categoryID grouped)))"

primrec writeTasks :: "env \<Rightarrow> txnScope \<Rightarrow> int32 \<Rightarrow> (category \<times> hist_task list) list \<Rightarrow> unit io" where
  "writeTasks E t shardID [] = Ret (Inr ())"
| "writeTasks E t shardID (x # byCategory) =
     (case x of (cat, taskList) \<Rightarrow>
        if taskList = [] then writeTasks E t shardID byCategory
        else tryP (writeBuckets E t shardID (cat_id cat) (rangeMap E (groupTasks E (codecFor cat) taskList)))
               (\<lambda>_. writeTasks E t shardID byCategory))"

definition AddHistoryTasks :: "env \<Rightarrow> int32 \<Rightarrow> int64 \<Rightarrow> (category \<times> hist_task list) list \<Rightarrow> unit io" where
  "AddHistoryTasks E shardID rangeID tasks =
     withTxn E ''AddHistoryTasks'' (\<lambda>t.
       tryP (assertShardOwnership E t shardID rangeID) (\<lambda>_.
       writeTasks E t shardID tasks))"

section \<open>Reading\<close>

text \<open>The index read shared by \<^verbatim>\<open>populatedBuckets\<close> and \<^verbatim>\<open>dlqPopulatedBuckets\<close>.\<close>

definition indexBuckets :: "env \<Rightarrow> string \<Rightarrow> askey \<Rightarrow> int64 \<Rightarrow> int64 \<Rightarrow> int64 list io" where
  "indexBuckets E operation key firstB lastB =
     (if sint lastB < sint firstB then Ret (Inr [])
      else pbind (operateP (writePolicy E) key [MapGetByKeyRangeOp ''b'' (KInt firstB) (Some (KInt (lastB + 1))) RetKey]) (\<lambda>r. case r of
          Inl err \<Rightarrow> if isNotFound err then Ret (Inr []) else Ret (Inl (convertError operation err))
        | Inr rec \<Rightarrow> Ret (Inr (List.map_filter asInt64 (orZero (asList (Bins rec ''b'')) [])))))"

definition populatedBuckets :: "env \<Rightarrow> int32 \<Rightarrow> int \<Rightarrow> int64 \<Rightarrow> int64 \<Rightarrow> int64 list io" where
  "populatedBuckets E shardID categoryID firstB lastB =
     indexBuckets E ''populatedBuckets'' (historyTaskIndexKey E shardID categoryID) firstB lastB"

definition dlqPopulatedBuckets :: "env \<Rightarrow> int32 \<Rightarrow> string \<Rightarrow> int64 \<Rightarrow> int64 \<Rightarrow> int64 list io" where
  "dlqPopulatedBuckets E shardID sourceCluster firstB lastB =
     indexBuckets E ''dlqPopulatedBuckets'' (dlqIndexKey E shardID sourceCluster) firstB lastB"

record tasks_resp =
  tr_Tasks :: "(task_key \<times> blob) list"
  tr_NextPageToken :: page_token

text \<open>
  The two nested loops of \<^verbatim>\<open>GetHistoryTasks\<close> and \<^verbatim>\<open>GetReplicationTasksFromDLQ\<close>. The loop state is the
  response so far, and the bucket and key emitted last; \<open>Inl\<close> is the early return with a full page.
\<close>

type_synonym scan_state = "(task_key \<times> blob) list \<times> int64 \<times> bytes"

fun scanEntries :: "env \<Rightarrow> taskKeyCodec \<Rightarrow> (int64 \<times> bytes) option \<Rightarrow> int \<Rightarrow> int64 \<Rightarrow> (gval \<times> gval) list \<Rightarrow> scan_state \<Rightarrow> tasks_resp + scan_state" where
  "scanEntries E c token batchSize b [] st = Inr st"
| "scanEntries E c token batchSize b ((k, v) # es) (acc, lastB, lastK) =
     (if (case token of None \<Rightarrow> False | Some (tb, tk) \<Rightarrow> b = tb \<and> compareEncoded c k tk \<le> 0)
      then scanEntries E c token batchSize b es (acc, lastB, lastK)
      else if int (length acc) = batchSize
      then Inl \<lparr>tr_Tasks = acc, tr_NextPageToken = encodeTaskPageToken lastB lastK\<rparr>
      else (case decode E c k of
          None \<Rightarrow> scanEntries E c token batchSize b es (acc, lastB, lastK)
        | Some tkey \<Rightarrow> (case blobFromValue E v of
              None \<Rightarrow> scanEntries E c token batchSize b es (acc, lastB, lastK)
            | Some blob \<Rightarrow> scanEntries E c token batchSize b es (acc @ [(tkey, blob)], b, encodedBytes c k))))"

fun scanBuckets :: "env \<Rightarrow> string \<Rightarrow> taskKeyCodec \<Rightarrow> (int64 \<times> bytes) option \<Rightarrow> int \<Rightarrow> mkey \<Rightarrow> mkey \<Rightarrow> (int64 \<Rightarrow> askey) \<Rightarrow>
    int64 list \<Rightarrow> scan_state \<Rightarrow> tasks_resp io" where
  "scanBuckets E operation c token batchSize minKey maxKey keyOf [] st = Ret (Inr \<lparr>tr_Tasks = fst st, tr_NextPageToken = NoToken\<rparr>)"
| "scanBuckets E operation c token batchSize minKey maxKey keyOf (b # buckets) st =
     pbind (operateP (writePolicy E) (keyOf b) [MapGetByKeyRangeOp ''t'' minKey (Some maxKey) RetKeyValue]) (\<lambda>r. case r of
        Inl err \<Rightarrow>
          if isNotFound err then scanBuckets E operation c token batchSize minKey maxKey keyOf buckets st
          else Ret (Inl (convertError operation err))
      | Inr rec \<Rightarrow> (case scanEntries E c token batchSize b (recordMapPairs rec ''t'') st of
            Inl resp \<Rightarrow> Ret (Inr resp)
          | Inr st' \<Rightarrow> scanBuckets E operation c token batchSize minKey maxKey keyOf buckets st'))"

record get_tasks_req =
  gt_InclusiveMinTaskKey :: task_key
  gt_ExclusiveMaxTaskKey :: task_key
  gt_BatchSize :: int
  gt_NextPageToken :: page_token

definition GetHistoryTasks :: "env \<Rightarrow> int32 \<Rightarrow> category \<Rightarrow> get_tasks_req \<Rightarrow> tasks_resp io" where
  "GetHistoryTasks E shardID cat request =
     (let c = codecFor cat in
      case decodeTaskPageToken (gt_NextPageToken request) of
        Inl e \<Rightarrow> Ret (Inl e)
      | Inr token \<Rightarrow>
          (case bucketRange c (gt_InclusiveMinTaskKey request) (gt_ExclusiveMaxTaskKey request) of
             (firstB, lastB) \<Rightarrow>
               let firstB = (case token of None \<Rightarrow> firstB | Some (tb, _) \<Rightarrow> if sint firstB < sint tb then tb else firstB);
                   batchSize = (if gt_BatchSize request \<le> 0 then 1000 else gt_BatchSize request)
               in tryP (populatedBuckets E shardID (cat_id cat) firstB lastB) (\<lambda>buckets.
                  scanBuckets E ''GetHistoryTasks'' c token batchSize
                    (encodeValue c (gt_InclusiveMinTaskKey request)) (encodeValue c (gt_ExclusiveMaxTaskKey request))
                    (historyTaskKey E shardID (cat_id cat)) buckets ([], 0, []))))"

section \<open>Deleting\<close>

definition CompleteHistoryTask :: "env \<Rightarrow> int32 \<Rightarrow> category \<Rightarrow> task_key \<Rightarrow> unit io" where
  "CompleteHistoryTask E shardID cat tkey =
     pbind (operateP (writePolicy E) (historyTaskKey E shardID (cat_id cat) (bucket (codecFor cat) tkey))
              [MapRemoveByKeyOp ''t'' (encode (codecFor cat) tkey) RetNone]) (\<lambda>r. case r of
        Inl err \<Rightarrow> if \<not> isNotFound err then Ret (Inl (convertError ''CompleteHistoryTask'' err)) else Ret (Inr ())
      | Inr _ \<Rightarrow> Ret (Inr ()))"

definition retireBucket :: "env \<Rightarrow> askey \<Rightarrow> askey \<Rightarrow> int64 \<Rightarrow> unit io" where
  "retireBucket E bucketKey indexKey b =
     (let removeEntry =
            pbind (operateP (writePolicy E) indexKey [MapRemoveByKeyOp ''b'' (KInt b) RetNone]) (\<lambda>r. case r of
               Inl err \<Rightarrow> if \<not> isNotFound err then Ret (Inl (convertError ''RangeCompleteHistoryTasks'' err)) else Ret (Inr ())
             | Inr _ \<Rightarrow> Ret (Inr ()))
      in pbind (deleteP (deletePolicy E) bucketKey) (\<lambda>r. case r of
           Inl err \<Rightarrow> if \<not> isNotFound err then Ret (Inl (convertError ''RangeCompleteHistoryTasks'' err)) else removeEntry
         | Inr _ \<Rightarrow> removeEntry))"

primrec completeBuckets :: "env \<Rightarrow> mkey \<Rightarrow> mkey \<Rightarrow> (int64 \<Rightarrow> askey) \<Rightarrow> askey \<Rightarrow> int64 list \<Rightarrow> unit io" where
  "completeBuckets E minKey maxKey keyOf indexKey [] = Ret (Inr ())"
| "completeBuckets E minKey maxKey keyOf indexKey (b # buckets) =
     pbind (operateP (writePolicy E) (keyOf b)
              [MapRemoveByKeyRangeOp ''t'' minKey (Some maxKey) RetNone, MapSizeOp ''t'']) (\<lambda>r. case r of
        Inl err \<Rightarrow>
          if isNotFound err then completeBuckets E minKey maxKey keyOf indexKey buckets
          else Ret (Inl (convertError ''RangeCompleteHistoryTasks'' err))
      | Inr rec \<Rightarrow>
          if lastOpResultInt rec ''t'' = Some 0
          then tryP (retireBucket E (keyOf b) indexKey b) (\<lambda>_. completeBuckets E minKey maxKey keyOf indexKey buckets)
          else completeBuckets E minKey maxKey keyOf indexKey buckets)"

definition RangeCompleteHistoryTasks :: "env \<Rightarrow> int32 \<Rightarrow> category \<Rightarrow> task_key \<Rightarrow> task_key \<Rightarrow> unit io" where
  "RangeCompleteHistoryTasks E shardID cat lo hi =
     (let c = codecFor cat in
      case bucketRange c lo hi of (firstB, lastB) \<Rightarrow>
        tryP (populatedBuckets E shardID (cat_id cat) firstB lastB) (\<lambda>buckets.
        completeBuckets E (encodeValue c lo) (encodeValue c hi) (historyTaskKey E shardID (cat_id cat))
          (historyTaskIndexKey E shardID (cat_id cat)) buckets))"

section \<open>The replication dead-letter queue\<close>

definition dlqCodec :: taskKeyCodec where
  "dlqCodec = \<lparr>scheduled = False\<rparr>"

text \<open>\<^verbatim>\<open>ReplicationTaskInfo\<close>: its task id, and the rest as serialised content.\<close>

definition PutReplicationTaskToDLQ :: "env \<Rightarrow> int32 \<Rightarrow> string \<Rightarrow> int64 \<times> bytes \<Rightarrow> unit io" where
  "PutReplicationTaskToDLQ E shardID sourceCluster taskInfo =
     (case ReplicationTaskInfoToBlob E taskInfo of
        Inl err \<Rightarrow> Ret (Inl (convertError ''PutReplicationTaskToDLQ'' err))
      | Inr blob \<Rightarrow>
          let taskID = fst taskInfo; b = bucket dlqCodec (NewImmediateKey E taskID) in
          pbind (operateP (writePolicy E) (dlqKey E shardID sourceCluster b) [MapPutOp ''t'' (KInt taskID) (blobValue E (Some blob))]) (\<lambda>r. case r of
             Inl err \<Rightarrow> Ret (Inl (convertError ''PutReplicationTaskToDLQ'' err))
           | Inr _ \<Rightarrow>
               pbind (operateP (writePolicy E) (dlqIndexKey E shardID sourceCluster) [MapPutOp ''b'' (KInt b) (GInt 1)]) (\<lambda>r. case r of
                  Inl err \<Rightarrow> Ret (Inl (convertError ''PutReplicationTaskToDLQ'' err))
                | Inr _ \<Rightarrow> Ret (Inr ()))))"

definition GetReplicationTasksFromDLQ :: "env \<Rightarrow> int32 \<Rightarrow> string \<Rightarrow> get_tasks_req \<Rightarrow> tasks_resp io" where
  "GetReplicationTasksFromDLQ E shardID sourceCluster request =
     (case decodeTaskPageToken (gt_NextPageToken request) of
        Inl e \<Rightarrow> Ret (Inl e)
      | Inr token \<Rightarrow>
          (case bucketRange dlqCodec (gt_InclusiveMinTaskKey request) (gt_ExclusiveMaxTaskKey request) of
             (firstB, lastB) \<Rightarrow>
               let firstB = (case token of None \<Rightarrow> firstB | Some (tb, _) \<Rightarrow> if sint firstB < sint tb then tb else firstB);
                   batchSize = (if gt_BatchSize request \<le> 0 then 1000 else gt_BatchSize request)
               in tryP (dlqPopulatedBuckets E shardID sourceCluster firstB lastB) (\<lambda>buckets.
                  scanBuckets E ''GetReplicationTasksFromDLQ'' dlqCodec token batchSize
                    (encodeValue dlqCodec (gt_InclusiveMinTaskKey request)) (encodeValue dlqCodec (gt_ExclusiveMaxTaskKey request))
                    (dlqKey E shardID sourceCluster) buckets ([], 0, []))))"

definition DeleteReplicationTaskFromDLQ :: "env \<Rightarrow> int32 \<Rightarrow> string \<Rightarrow> task_key \<Rightarrow> unit io" where
  "DeleteReplicationTaskFromDLQ E shardID sourceCluster tkey =
     pbind (operateP (writePolicy E) (dlqKey E shardID sourceCluster (bucket dlqCodec tkey))
              [MapRemoveByKeyOp ''t'' (encode dlqCodec tkey) RetNone]) (\<lambda>r. case r of
        Inl err \<Rightarrow> if \<not> isNotFound err then Ret (Inl (convertError ''DeleteReplicationTaskFromDLQ'' err)) else Ret (Inr ())
      | Inr _ \<Rightarrow> Ret (Inr ()))"

primrec dlqDeleteBuckets :: "env \<Rightarrow> mkey \<Rightarrow> mkey \<Rightarrow> (int64 \<Rightarrow> askey) \<Rightarrow> int64 list \<Rightarrow> unit io" where
  "dlqDeleteBuckets E minKey maxKey keyOf [] = Ret (Inr ())"
| "dlqDeleteBuckets E minKey maxKey keyOf (b # buckets) =
     pbind (operateP (writePolicy E) (keyOf b) [MapRemoveByKeyRangeOp ''t'' minKey (Some maxKey) RetNone]) (\<lambda>r. case r of
        Inl err \<Rightarrow>
          if \<not> isNotFound err then Ret (Inl (convertError ''RangeDeleteReplicationTaskFromDLQ'' err))
          else dlqDeleteBuckets E minKey maxKey keyOf buckets
      | Inr _ \<Rightarrow> dlqDeleteBuckets E minKey maxKey keyOf buckets)"

definition RangeDeleteReplicationTaskFromDLQ :: "env \<Rightarrow> int32 \<Rightarrow> string \<Rightarrow> task_key \<Rightarrow> task_key \<Rightarrow> unit io" where
  "RangeDeleteReplicationTaskFromDLQ E shardID sourceCluster lo hi =
     (case bucketRange dlqCodec lo hi of (firstB, lastB) \<Rightarrow>
        tryP (dlqPopulatedBuckets E shardID sourceCluster firstB lastB) (\<lambda>buckets.
        dlqDeleteBuckets E (encodeValue dlqCodec lo) (encodeValue dlqCodec hi) (dlqKey E shardID sourceCluster) buckets))"

primrec dlqEmptyLoop :: "env \<Rightarrow> mkey \<Rightarrow> (int64 \<Rightarrow> askey) \<Rightarrow> int64 list \<Rightarrow> bool io" where
  "dlqEmptyLoop E minKey keyOf [] = Ret (Inr True)"
| "dlqEmptyLoop E minKey keyOf (b # buckets) =
     pbind (operateP (writePolicy E) (keyOf b) [MapGetByKeyRangeOp ''t'' minKey None RetKey]) (\<lambda>r. case r of
        Inl err \<Rightarrow>
          if isNotFound err then dlqEmptyLoop E minKey keyOf buckets
          else Ret (Inl (convertError ''IsReplicationDLQEmpty'' err))
      | Inr rec \<Rightarrow>
          if orZero (asList (Bins rec ''t'')) [] \<noteq> [] then Ret (Inr False)
          else dlqEmptyLoop E minKey keyOf buckets)"

definition IsReplicationDLQEmpty :: "env \<Rightarrow> int32 \<Rightarrow> string \<Rightarrow> task_key \<Rightarrow> bool io" where
  "IsReplicationDLQEmpty E shardID sourceCluster lo =
     pbind (operateP (writePolicy E) (dlqIndexKey E shardID sourceCluster)
              [MapGetByKeyRangeOp ''b'' (KInt (bucket dlqCodec lo)) None RetKey]) (\<lambda>r. case r of
        Inl err \<Rightarrow> if isNotFound err then Ret (Inr True) else Ret (Inl (convertError ''IsReplicationDLQEmpty'' err))
      | Inr rec \<Rightarrow> dlqEmptyLoop E (encodeValue dlqCodec lo) (dlqKey E shardID sourceCluster)
           (List.map_filter asInt64 (orZero (asList (Bins rec ''b'')) [])))"

end
