(* ===== verification/BucketedQueue.thy ===== *)
theory BucketedQueue
  imports HistoryTasks
begin

text \<open>
  The bucketed queue as an abstract data type. Its content is one ordered map; the store keeps it as a
  family of bucket records with an index record. \<open>represents\<close> is the abstraction relation, and the
  locale \<open>bucketed\<close> proves, for any such family, that index reads, the paging loops, puts and deletes
  implement the operations of the ordered map. It is interpreted on the history tasks and on the
  replication dead-letter queue.
\<close>

section \<open>Abstraction\<close>

definition binOf :: "store \<Rightarrow> askey \<Rightarrow> string \<Rightarrow> binval option" where
  "binOf s k b = old_bins (s k) b"

definition taskEntries :: "(int64 \<Rightarrow> askey) \<Rightarrow> store \<Rightarrow> int64 \<Rightarrow> mkey \<rightharpoonup> gval" where
  "taskEntries keyOf s b = entries (binOf s (keyOf b) ''t'')"

definition queueOk :: "env \<Rightarrow> taskKeyCodec \<Rightarrow> (int64 \<Rightarrow> askey) \<Rightarrow> askey \<Rightarrow> store \<Rightarrow> bool" where
  "queueOk E c keyOf idx s \<longleftrightarrow>
     map_ok (binOf s idx ''b'') \<and>
     (\<forall>mk. entries (binOf s idx ''b'') mk \<noteq> None \<longrightarrow> (\<exists>b. mk = KInt b)) \<and>
     (\<forall>b. map_ok (binOf s (keyOf b) ''t'')) \<and>
     (\<forall>b mk x. taskEntries keyOf s b mk = Some x \<longrightarrow>
        entries (binOf s idx ''b'') (KInt b) \<noteq> None \<and>
        (\<exists>key blob. keyValid c key \<and> bucket c key = b \<and> mk = encode c key \<and> x = blobValue E (Some blob)))"

definition represents :: "env \<Rightarrow> taskKeyCodec \<Rightarrow> (int64 \<Rightarrow> askey) \<Rightarrow> askey \<Rightarrow> store \<Rightarrow> (mkey, gval) omap \<Rightarrow> bool" where
  "represents E c keyOf idx s m \<longleftrightarrow>
     queueOk E c keyOf idx s \<and> omap_ok m \<and> (\<forall>mk x. map_of m mk = Some x \<longleftrightarrow> (\<exists>b. taskEntries keyOf s b mk = Some x))"

text \<open>What a reader is promised: a page of an ordered list of tasks, and a token iff there is more.\<close>

definition items :: "env \<Rightarrow> taskKeyCodec \<Rightarrow> (mkey, gval) omap \<Rightarrow> (task_key \<times> blob) list" where
  "items E c m = map (\<lambda>(mk, v). (the (decode E c (pair_key mk)), the (blobFromValue E v))) m"

definition tokenFor :: "taskKeyCodec \<Rightarrow> task_key \<Rightarrow> page_token" where
  "tokenFor c key = Token (bucket c key) (encodedBytes c (pair_key (encode c key)))"

definition afterKey :: "taskKeyCodec \<Rightarrow> task_key option \<Rightarrow> mkey \<Rightarrow> bool" where
  "afterKey c frm mk \<longleftrightarrow> (case frm of None \<Rightarrow> True | Some key \<Rightarrow> encode c key < mk)"

definition fromToken :: "taskKeyCodec \<Rightarrow> task_key option \<Rightarrow> page_token" where
  "fromToken c frm = (case frm of None \<Rightarrow> NoToken | Some key \<Rightarrow> tokenFor c key)"

definition pageOf :: "env \<Rightarrow> taskKeyCodec \<Rightarrow> nat \<Rightarrow> (mkey, gval) omap \<Rightarrow> tasks_resp \<Rightarrow> bool" where
  "pageOf E c n rest resp \<longleftrightarrow>
     tr_Tasks resp = items E c (take n rest) \<and>
     (if length rest \<le> n then tr_NextPageToken resp = NoToken
      else \<exists>key. keyValid c key \<and> encode c key = fst (rest ! (n - 1)) \<and> tr_NextPageToken resp = tokenFor c key)"

section \<open>The paging loops on a flat list of entries\<close>

definition skips :: "taskKeyCodec \<Rightarrow> (int64 \<times> bytes) option \<Rightarrow> int64 \<Rightarrow> mkey \<Rightarrow> bool" where
  "skips c token b mk \<longleftrightarrow> (case token of None \<Rightarrow> False | Some (tb, tk) \<Rightarrow> b = tb \<and> compareEncoded c (pair_key mk) tk \<le> 0)"

type_synonym flat = "(int64 \<times> mkey \<times> gval) list"

definition flatOk :: "env \<Rightarrow> taskKeyCodec \<Rightarrow> flat \<Rightarrow> bool" where
  "flatOk E c xs \<longleftrightarrow> (\<forall>(b, mk, v) \<in> set xs. decode E c (pair_key mk) \<noteq> None \<and> blobFromValue E v \<noteq> None)"

fun scanFlat :: "env \<Rightarrow> taskKeyCodec \<Rightarrow> (int64 \<times> bytes) option \<Rightarrow> nat \<Rightarrow> flat \<Rightarrow> scan_state \<Rightarrow> tasks_resp + scan_state" where
  "scanFlat E c token n [] st = Inr st"
| "scanFlat E c token n ((b, mk, v) # xs) (acc, lb, lk) =
     (if skips c token b mk then scanFlat E c token n xs (acc, lb, lk)
      else if length acc = n then Inl \<lparr>tr_Tasks = acc, tr_NextPageToken = Token lb lk\<rparr>
      else scanFlat E c token n xs (acc @ [(the (decode E c (pair_key mk)), the (blobFromValue E v))], b, encodedBytes c (pair_key mk)))"

definition tagged :: "int64 \<Rightarrow> (mkey, gval) omap \<Rightarrow> flat" where
  "tagged b m = map (\<lambda>(mk, v). (b, mk, v)) m"

lemma scanEntries_flat:
  "flatOk E c (tagged b m) \<Longrightarrow> scanEntries E c token (int n) b (map_pairs m) st = scanFlat E c token n (tagged b m) st"
proof (induction m arbitrary: st)
  case Nil
  then show ?case by (simp add: tagged_def map_pairs_def)
next
  case (Cons p m)
  obtain mk v acc lb lk where p: "p = (mk, v)" "st = (acc, lb, lk)" by (cases p; cases st) auto
  from Cons.prems have ok: "flatOk E c (tagged b m)" "decode E c (pair_key mk) \<noteq> None" "blobFromValue E v \<noteq> None"
    by (auto simp: flatOk_def tagged_def p)
  with Cons.IH [OF ok(1)] show ?case
    by (auto simp: p tagged_def map_pairs_def skips_def encodeTaskPageToken_def split: option.splits prod.splits)
qed

lemma scanFlat_append:
  "scanFlat E c token n (xs @ ys) st = (case scanFlat E c token n xs st of Inl r \<Rightarrow> Inl r | Inr st' \<Rightarrow> scanFlat E c token n ys st')"
proof (induction xs arbitrary: st)
  case (Cons x xs)
  then show ?case by (cases x; cases st) auto
qed simp

definition respOf :: "tasks_resp + scan_state \<Rightarrow> tasks_resp" where
  "respOf r = (case r of Inl resp \<Rightarrow> resp | Inr st \<Rightarrow> \<lparr>tr_Tasks = fst st, tr_NextPageToken = NoToken\<rparr>)"

text \<open>The loop over a flat list, in closed form.\<close>

definition flatItems :: "env \<Rightarrow> taskKeyCodec \<Rightarrow> flat \<Rightarrow> (task_key \<times> blob) list" where
  "flatItems E c xs = items E c (map snd xs)"

lemma scanFlat_closed:
  fixes c token
  assumes "length acc \<le> n"
  defines "ys xs \<equiv> filter (\<lambda>(b, mk, v). \<not> skips c token b mk) xs"
  shows "respOf (scanFlat E c token n xs (acc, lb, lk)) =
    (if length (ys xs) \<le> n - length acc then \<lparr>tr_Tasks = acc @ flatItems E c (ys xs), tr_NextPageToken = NoToken\<rparr>
     else \<lparr>tr_Tasks = acc @ flatItems E c (take (n - length acc) (ys xs)),
       tr_NextPageToken = (if length acc = n then Token lb lk
         else case ys xs ! (n - length acc - 1) of (b, mk, v) \<Rightarrow> Token b (encodedBytes c (pair_key mk)))\<rparr>)"
  using assms(1)
proof (induction xs arbitrary: acc lb lk)
  case Nil
  then show ?case by (simp add: ys_def respOf_def flatItems_def items_def)
next
  case (Cons x xs)
  obtain b mk v where x: "x = (b, mk, v)" by (cases x)
  show ?case
  proof (cases "skips c token b mk \<or> length acc = n")
    case True
    with Cons show ?thesis by (auto simp: x ys_def respOf_def flatItems_def items_def)
  next
    case False
    let ?acc = "acc @ [(the (decode E c (pair_key mk)), the (blobFromValue E v))]"
    have len: "length ?acc \<le> n" "n - length acc = Suc (n - length ?acc)" using False Cons.prems by auto
    have cons: "ys (x # xs) = x # ys xs" using False by (simp add: x ys_def)
    have nth: "(x # ys xs) ! (Suc (n - length ?acc) - 1) = (if length ?acc = n then x else ys xs ! (n - length ?acc - 1))"
      using len(1) by (auto simp: nth_Cons')
    show ?thesis
      using False Cons.IH [OF len(1), of b "encodedBytes c (pair_key mk)"]
      unfolding cons len(2) nth by (auto simp: x flatItems_def items_def)
  qed
qed

section \<open>Reads of one record\<close>

lemma prun_map_read:
  assumes "map_ok (binOf s k b)"
  shows "prun Q (pbind (operateP (writePolicy E) k [MapGetByKeyRangeOp b lo hi rt]) g) s =
    (if s k = None then prun Q (g (Inl (AsError [KEY_NOT_FOUND_ERROR]))) s
     else if binOf s k b = None then prun Q (g (Inr (op_record Q k []))) s
     else prun Q (g (Inr (op_record Q k [(b, ret_value rt (omap_range lo hi (the_map (binOf s k b))))]))) s)"
  using assms
  by (cases "s k") (auto simp: prog_simps op_absent_def binOf_def map_access_def fun_upd_idem split: option.splits binval.splits)

lemma op_record_one [simp]:
  "Bins (op_record Q k []) b = GNil" "Bins (op_record Q k [(b, v)]) b = v"
  by (simp_all add: op_record_def)

definition intKey :: "mkey \<Rightarrow> int64 option" where
  "intKey mk = (case mk of KInt b \<Rightarrow> Some b | _ \<Rightarrow> None)"

lemma intKey_eq [simp]: "intKey mk = Some b \<longleftrightarrow> mk = KInt b"
  by (auto simp: intKey_def split: mkey.splits)

lemma intKey_KInt [simp]: "intKey (KInt b) = Some b"
  by (simp add: intKey_def)

lemma asInt64_read_key: "asInt64 (read_key mk) = intKey mk"
  by (cases mk) (simp_all add: intKey_def)

lemma map_filter_map: "List.map_filter f (map g xs) = List.map_filter (f \<circ> g) xs"
  by (simp add: List.map_filter_def filter_map o_def)

definition bucketsIn :: "store \<Rightarrow> askey \<Rightarrow> int64 \<Rightarrow> int64 \<Rightarrow> int64 list" where
  "bucketsIn s idx firstB lastB =
     (if sint lastB < sint firstB then []
      else List.map_filter (intKey \<circ> fst) (omap_range (KInt firstB) (Some (KInt (lastB + 1))) (the_map (binOf s idx ''b''))))"

lemma prun_indexBuckets [prog_simps]:
  assumes "map_ok (binOf s idx ''b'')"
  shows "prun Q (indexBuckets E operation idx firstB lastB) s = (Inr (bucketsIn s idx firstB lastB), s)"
proof -
  have read: "List.map_filter asInt64 (map (\<lambda>p. read_key (fst p)) m) = List.map_filter (intKey \<circ> fst) m" for m :: "(mkey, gval) omap"
    by (simp add: map_filter_map o_def asInt64_read_key)
  have empty: "s idx = None \<Longrightarrow> binOf s idx ''b'' = None" by (simp add: binOf_def)
  show ?thesis
    using assms empty
    by (auto simp: indexBuckets_def bucketsIn_def prun_map_read read omap_range_def List.map_filter_simps)
qed

lemma sorted_bucketsIn:
  assumes "map_ok (binOf s idx ''b'')"
  shows "sorted_wrt (\<lambda>a b. sint a < sint b) (bucketsIn s idx firstB lastB)"
proof -
  have "omap_ok m \<Longrightarrow> sorted_wrt (\<lambda>a b. sint a < sint b) (List.map_filter (intKey \<circ> fst) m)" for m :: "(mkey, gval) omap"
  proof (induction m)
    case (Cons p m)
    then show ?case
      by (cases "intKey (fst p)") (force simp: omap_ok_Cons map_filter_Cons set_map_filter)+
  qed (simp add: List.map_filter_simps)
  then show ?thesis
    using assms by (simp add: bucketsIn_def omap_range_ok omap_ok_the_map)
qed

lemma set_bucketsIn:
  assumes "map_ok (binOf s idx ''b'')" "sint lastB < 9223372036854775807"
  shows "set (bucketsIn s idx firstB lastB) =
    {b. entries (binOf s idx ''b'') (KInt b) \<noteq> None \<and> sint firstB \<le> sint b \<and> sint b \<le> sint lastB}"
proof -
  have succ: "sint (lastB + 1) = sint lastB + 1" using assms(2) by (rule sint_plus_one64)
  have mem: "entries (binOf s idx ''b'') mk \<noteq> None \<longleftrightarrow> mk \<in> fst ` set (the_map (binOf s idx ''b''))" for mk
    by (simp add: entries_def map_of_eq_None_iff)
  show ?thesis
    unfolding bucketsIn_def set_map_filter mem
    by (auto simp: set_map_filter omap_range_def in_range_def succ image_iff) force
qed

section \<open>The family of records\<close>

locale bucketed = temporal_api E for E :: env +
  fixes c :: taskKeyCodec and keyOf :: "int64 \<Rightarrow> askey" and idx :: askey
  assumes keyOf_eq [simp]: "keyOf b = keyOf b' \<longleftrightarrow> b = b'"
    and keyOf_idx [simp]: "keyOf b \<noteq> idx"
begin

abbreviation "ents lo hi s b \<equiv> tagged b (omap_range lo hi (the_map (binOf s (keyOf b) ''t'')))"
abbreviation "stream lo hi s bs \<equiv> concat (map (ents lo hi s) bs)"

lemma queueOk_entry:
  assumes "queueOk E c keyOf idx s" "(mk, v) \<in> set (the_map (binOf s (keyOf b) ''t''))"
  obtains key blob where "keyValid c key" "bucket c key = b" "mk = encode c key" "v = blobValue E (Some blob)"
    "entries (binOf s idx ''b'') (KInt b) \<noteq> None" "taskEntries keyOf s b mk = Some v"
proof -
  have "omap_ok (the_map (binOf s (keyOf b) ''t''))"
    using assms(1) by (intro omap_ok_the_map) (simp add: queueOk_def)
  with assms(2) have e: "taskEntries keyOf s b mk = Some v"
    by (simp add: taskEntries_def entries_def omap_map_of)
  with assms(1) that show ?thesis unfolding queueOk_def by blast
qed

lemma decode_ok: "decode E c (pair_key (encode c key)) \<noteq> None"
  by (cases "scheduled c") (simp_all add: decode_def encode_def)

lemma flatOk_stream:
  assumes "queueOk E c keyOf idx s"
  shows "flatOk E c (stream lo hi s bs)"
proof -
  have "decode E c (pair_key mk) \<noteq> None \<and> blobFromValue E v \<noteq> None"
    if "(mk, v) \<in> set (the_map (binOf s (keyOf b) ''t''))" for b mk v
    using queueOk_entry [OF assms that] decode_ok blobFromValue_blobValue by (metis option.distinct(1))
  then show ?thesis by (auto simp: flatOk_def tagged_def omap_range_def)
qed

lemma prun_scanBuckets:
  assumes "queueOk E c keyOf idx s"
  shows "prun Q (scanBuckets E operation c token (int n) lo hi keyOf bs st) s =
    (Inr (respOf (scanFlat E c token n (stream lo (Some hi) s bs) st)), s)"
proof (induction bs arbitrary: st)
  case Nil
  then show ?case by (simp add: respOf_def)
next
  case (Cons b bs)
  let ?m = "omap_range lo (Some hi) (the_map (binOf s (keyOf b) ''t''))"
  have ok: "map_ok (binOf s (keyOf b) ''t'')" using assms by (simp add: queueOk_def)
  have fl: "flatOk E c (tagged b ?m)" using flatOk_stream [OF assms, of lo "Some hi" "[b]"] by simp
  have none: "s (keyOf b) = None \<Longrightarrow> binOf s (keyOf b) ''t'' = None" by (simp add: binOf_def)
  have empty: "binOf s (keyOf b) ''t'' = None \<Longrightarrow> tagged b ?m = []" by (simp add: tagged_def omap_range_def)
  have pairs: "recordMapPairs (op_record Q k []) ''t'' = []" "recordMapPairs (op_record Q k [(''t'', GPairs ps)]) ''t'' = ps" for k ps
    by (simp_all add: recordMapPairs_def)
  show ?case
    using none empty Cons.IH
    by (auto simp: prun_map_read [OF ok] pairs scanEntries_flat [OF fl] scanFlat_append respOf_def split: sum.splits)
qed

end

lemma omap_ok_append: "omap_ok (xs @ ys) \<longleftrightarrow> omap_ok xs \<and> omap_ok ys \<and> (\<forall>x \<in> set xs. \<forall>y \<in> set ys. fst x < fst y)"
  by (auto simp: omap_ok_def sorted_wrt_append)

lemma omap_ok_sublist: "omap_ok (map f xs) \<Longrightarrow> omap_ok (map f (filter P xs))"
  by (induction xs) (auto simp: omap_ok_Cons)

lemma map_snd_tagged [simp]: "map snd (tagged b m) = m"
  by (induction m) (auto simp: tagged_def)

definition tokenOf :: "taskKeyCodec \<Rightarrow> task_key option \<Rightarrow> (int64 \<times> bytes) option" where
  "tokenOf c frm = map_option (\<lambda>key. (bucket c key, encodedBytes c (pair_key (encode c key)))) frm"

definition startBucket :: "taskKeyCodec \<Rightarrow> task_key option \<Rightarrow> int64 \<Rightarrow> int64" where
  "startBucket c frm firstB = (case frm of None \<Rightarrow> firstB | Some key \<Rightarrow> if sint firstB < sint (bucket c key) then bucket c key else firstB)"

lemma compareEncoded_le: "compareEncoded c k t \<le> 0 \<longleftrightarrow> \<not> t < encodedBytes c k"
  by (auto simp: compareEncoded_def bytes_Compare_def)

lemma bucket_less_encode:
  assumes "keyValid c k" "keyValid c l" "sint (bucket c k) < sint (bucket c l)"
  shows "encode c k < encode c l"
  using bucket_mono [of c l k] assms by (auto simp: encode_less)

lemma after_iff_not_skips:
  assumes "keyValid c k" "\<And>key. frm = Some key \<Longrightarrow> keyValid c key \<and> sint (bucket c key) \<le> sint (bucket c k)"
  shows "\<not> skips c (tokenOf c frm) (bucket c k) (encode c k) \<longleftrightarrow> afterKey c frm (encode c k)"
proof (cases frm)
  case None
  then show ?thesis by (simp add: skips_def tokenOf_def afterKey_def)
next
  case (Some key)
  with assms have key: "keyValid c key" "sint (bucket c key) \<le> sint (bucket c k)" by auto
  show ?thesis
  proof (cases "bucket c k = bucket c key")
    case True
    with Some key assms(1) show ?thesis
      by (simp add: skips_def tokenOf_def afterKey_def compareEncoded_le encodedBytes_less)
  next
    case False
    then have "sint (bucket c key) < sint (bucket c k)" using key(2) sint_inject64 [of "bucket c key" "bucket c k"] by auto
    with bucket_less_encode [OF key(1) assms(1)] False Some show ?thesis
      by (simp add: skips_def tokenOf_def afterKey_def)
  qed
qed

text \<open>The keys of the served range are those of the requested range that lie in a bucket of the span.\<close>

lemma in_range_served:
  assumes "keyValid c lo" "keyValid c hi" "keyValid c k" "bucketRange c lo hi = (firstB, lastB)"
  shows "in_range (encode c lo) (Some (encode c (servedBound c hi))) (encode c k) \<longleftrightarrow>
    in_range (encode c lo) (Some (encode c hi)) (encode c k) \<and> sint firstB \<le> sint (bucket c k) \<and> sint (bucket c k) \<le> sint lastB"
  using assms bucketRange_serves [OF assms(1-3) _ assms(4)] bucket_mono [OF assms(1,3)] bucketRange_bounds(1) [OF assms(1,2,4)]
  by (auto simp: in_range_def encode_le encode_less)

context bucketed
begin

lemma set_stream:
  assumes "queueOk E c keyOf idx s"
  shows "(b, mk, v) \<in> set (stream lo hi s bs) \<longleftrightarrow> b \<in> set bs \<and> in_range lo hi mk \<and> taskEntries keyOf s b mk = Some v"
proof -
  have "omap_ok (the_map (binOf s (keyOf b) ''t''))"
    using assms by (intro omap_ok_the_map) (simp add: queueOk_def)
  then show ?thesis
    by (auto simp: tagged_def omap_range_def taskEntries_def entries_def omap_map_of) force
qed

lemma omap_ok_stream:
  assumes ok: "queueOk E c keyOf idx s" and "sorted_wrt (\<lambda>a b. sint a < sint b) bs"
  shows "omap_ok (map snd (stream lo hi s bs))"
  using assms(2)
proof (induction bs)
  case (Cons b bs)
  have b: "omap_ok (omap_range lo hi (the_map (binOf s (keyOf b) ''t'')))"
    using ok by (intro omap_range_ok omap_ok_the_map) (simp add: queueOk_def)
  have "mk < mk'"
    if "(mk, v) \<in> set (omap_range lo hi (the_map (binOf s (keyOf b) ''t'')))" "(b', mk', v') \<in> set (stream lo hi s bs)" for mk v b' mk' v'
  proof -
    have "(mk, v) \<in> set (the_map (binOf s (keyOf b) ''t''))" using that(1) by (simp add: omap_range_def)
    then obtain k where k: "keyValid c k" "bucket c k = b" "mk = encode c k" using queueOk_entry [OF ok] by metis
    have "b' \<in> set bs" "(mk', v') \<in> set (the_map (binOf s (keyOf b') ''t''))"
      using that(2) by (auto simp: tagged_def omap_range_def)
    then obtain k' where k': "keyValid c k'" "bucket c k' = b'" "mk' = encode c k'" using queueOk_entry [OF ok] by metis
    from \<open>b' \<in> set bs\<close> Cons.prems have "sint b < sint b'" by auto
    with k k' show ?thesis using bucket_less_encode by blast
  qed
  with b Cons show ?case by (fastforce simp: omap_ok_append)
qed simp

lemma page_stream:
  assumes rep: "represents E c keyOf idx s m"
    and valid: "keyValid c lo" "keyValid c hi" "\<And>key. frm = Some key \<Longrightarrow> keyValid c key"
    and range: "bucketRange c lo hi = (firstB, lastB)"
  defines "xs \<equiv> stream (encode c lo) (Some (encode c hi)) s (bucketsIn s idx (startBucket c frm firstB) lastB)"
  shows "map snd (filter (\<lambda>(b, mk, v). \<not> skips c (tokenOf c frm) b mk) xs) =
    filter (afterKey c frm \<circ> fst) (omap_range (encode c lo) (Some (encode c (servedBound c hi))) m)" (is "?l = ?r")
proof (rule omap_set_ext)
  have ok: "queueOk E c keyOf idx s" and m: "omap_ok m"
    and content: "\<And>mk x. map_of m mk = Some x \<longleftrightarrow> (\<exists>b. taskEntries keyOf s b mk = Some x)"
    using rep by (auto simp: represents_def)
  have idx: "map_ok (binOf s idx ''b'')" using ok by (simp add: queueOk_def)
  have last: "sint lastB < 9223372036854775807"
    using bucketRange_bounds(3) [OF valid(1,2) range] by simp
  show "omap_ok ?l"
    unfolding xs_def using omap_ok_stream [OF ok sorted_bucketsIn [OF idx]] by (rule omap_ok_sublist)
  show "omap_ok ?r" using m by (intro omap_filter_ok omap_range_ok)
  have entry: "(b, mk, v) \<in> set xs \<and> \<not> skips c (tokenOf c frm) b mk \<longleftrightarrow>
      in_range (encode c lo) (Some (encode c (servedBound c hi))) mk \<and> afterKey c frm mk" if e: "taskEntries keyOf s b mk = Some v" for b mk v
  proof -
    obtain k where k: "keyValid c k" "bucket c k = b" "mk = encode c k" and reg: "entries (binOf s idx ''b'') (KInt b) \<noteq> None"
      using ok e unfolding queueOk_def by blast
    have first: "in_range (encode c lo) (Some (encode c (servedBound c hi))) mk \<longleftrightarrow>
        in_range (encode c lo) (Some (encode c hi)) mk \<and> sint firstB \<le> sint b \<and> sint b \<le> sint lastB"
      unfolding k(3) in_range_served [OF valid(1,2) k(1) range] by (simp add: k(2))
    have start: "b \<in> set (bucketsIn s idx (startBucket c frm firstB) lastB) \<longleftrightarrow>
        sint firstB \<le> sint b \<and> sint b \<le> sint lastB \<and> (\<forall>key. frm = Some key \<longrightarrow> sint (bucket c key) \<le> sint b)"
      using reg by (auto simp: set_bucketsIn [OF idx last] startBucket_def split: option.splits)
    have late: "afterKey c frm mk \<Longrightarrow> frm = Some key \<Longrightarrow> sint (bucket c key) \<le> sint b" for key
      using bucket_less_encode [OF k(1) valid(3)] k by (force simp: afterKey_def)
    have mem: "(b, mk, v) \<in> set xs \<longleftrightarrow> b \<in> set (bucketsIn s idx (startBucket c frm firstB) lastB)
        \<and> in_range (encode c lo) (Some (encode c hi)) mk"
      unfolding xs_def set_stream [OF ok] using e by simp
    show ?thesis
    proof (cases "\<forall>key. frm = Some key \<longrightarrow> sint (bucket c key) \<le> sint b")
      case True
      then have "\<not> skips c (tokenOf c frm) b mk \<longleftrightarrow> afterKey c frm mk"
        using after_iff_not_skips [OF k(1), of "frm"] valid(3) k by auto
      with first start True mem show ?thesis by auto
    next
      case False
      with late start mem show ?thesis by auto
    qed
  qed
  have "(mk, v) \<in> set ?l \<longleftrightarrow> (mk, v) \<in> set ?r" for mk v
  proof -
    have "(mk, v) \<in> set ?l \<longleftrightarrow> (\<exists>b. (b, mk, v) \<in> set xs \<and> \<not> skips c (tokenOf c frm) b mk)" by force
    also have "\<dots> \<longleftrightarrow> (\<exists>b. taskEntries keyOf s b mk = Some v) \<and> in_range (encode c lo) (Some (encode c (servedBound c hi))) mk \<and> afterKey c frm mk"
      using entry set_stream [OF ok] unfolding xs_def by blast
    also have "\<dots> \<longleftrightarrow> (mk, v) \<in> set ?r"
      using content [of mk v] omap_map_of [OF m, of mk v] by (auto simp: omap_range_def)
    finally show ?thesis .
  qed
  then show "set ?l = set ?r" by (intro set_eqI) (simp only: split_paired_all)
qed

end

context bucketed
begin

text \<open>
  The page a reader gets: the first \<open>n\<close> tasks of the range, up to the bound that is served, behind the
  token, in order, and a token for the last of them iff there are more.
\<close>

lemma page_read:
  assumes rep: "represents E c keyOf idx s m"
    and valid: "keyValid c lo" "keyValid c hi" "\<And>key. frm = Some key \<Longrightarrow> keyValid c key"
    and range: "bucketRange c lo hi = (firstB, lastB)" and n: "0 < n"
  shows "\<exists>resp. prun Q (tryP (indexBuckets E op1 idx (startBucket c frm firstB) lastB) (\<lambda>bs.
        scanBuckets E op2 c (tokenOf c frm) (int n) (encode c lo) (encode c hi) keyOf bs ([], 0, []))) s = (Inr resp, s)
    \<and> pageOf E c n (filter (afterKey c frm \<circ> fst) (omap_range (encode c lo) (Some (encode c (servedBound c hi))) m)) resp"
proof -
  have ok: "queueOk E c keyOf idx s" using rep by (simp add: represents_def)
  then have idx: "map_ok (binOf s idx ''b'')" by (simp add: queueOk_def)
  let ?xs = "stream (encode c lo) (Some (encode c hi)) s (bucketsIn s idx (startBucket c frm firstB) lastB)"
  let ?ys = "filter (\<lambda>(b, mk, v). \<not> skips c (tokenOf c frm) b mk) ?xs"
  let ?resp = "respOf (scanFlat E c (tokenOf c frm) n ?xs ([], 0, []))"
  have rest: "map snd ?ys = filter (afterKey c frm \<circ> fst) (omap_range (encode c lo) (Some (encode c (servedBound c hi))) m)"
    by (rule page_stream [OF rep valid range])
  note closed = scanFlat_closed [of "[]" n E c "tokenOf c frm" ?xs 0 "[]"]
  have "pageOf E c n (map snd ?ys) ?resp"
  proof (cases "length ?ys \<le> n")
    case True
    with closed show ?thesis by (simp add: pageOf_def flatItems_def)
  next
    case False
    obtain b mk v where y: "?ys ! (n - 1) = (b, mk, v)" by (cases "?ys ! (n - 1)")
    have "n - 1 < length ?ys" using False by arith
    from nth_mem [OF this] have "(b, mk, v) \<in> set ?ys" unfolding y .
    then have "(b, mk, v) \<in> set ?xs" by simp
    then have "taskEntries keyOf s b mk = Some v" unfolding set_stream [OF ok] by simp
    then obtain k where k: "keyValid c k" "bucket c k = b" "mk = encode c k" using ok unfolding queueOk_def by blast
    have "tr_NextPageToken ?resp = tokenFor c k"
      using closed False n y k by (simp add: tokenFor_def)
    moreover have "fst (map snd ?ys ! (n - 1)) = encode c k"
      using False y k n by (simp add: nth_map)
    moreover have "tr_Tasks ?resp = items E c (take n (map snd ?ys))"
      using closed False n by (simp add: flatItems_def take_map)
    ultimately show ?thesis using False k(1) by (auto simp: pageOf_def)
  qed
  moreover have "prun Q (tryP (indexBuckets E op1 idx (startBucket c frm firstB) lastB) (\<lambda>bs.
        scanBuckets E op2 c (tokenOf c frm) (int n) (encode c lo) (encode c hi) keyOf bs ([], 0, []))) s = (Inr ?resp, s)"
    by (simp add: prun_tryP prun_indexBuckets [OF idx] prun_scanBuckets [OF ok])
  ultimately show ?thesis unfolding rest by blast
qed

end

section \<open>Changing the content\<close>

definition upds :: "(mkey \<times> gval) list \<Rightarrow> (mkey \<rightharpoonup> gval) \<Rightarrow> mkey \<rightharpoonup> gval" where
  "upds kvs f = fold (\<lambda>(k, x) f. f(k \<mapsto> norm x)) kvs f"

lemma upds_simps [simp]: "upds [] f = f" "upds ((k, x) # kvs) f = upds kvs (f(k \<mapsto> norm x))"
  by (simp_all add: upds_def)

lemma map_of_put_items_upds: "map_of (put_items kvs m) = upds kvs (map_of m)"
  unfolding put_items_def upds_def by (induction kvs arbitrary: m) (auto simp: map_of_omap_put)

lemma upds_notin: "mk \<notin> fst ` set kvs \<Longrightarrow> upds kvs f mk = f mk"
  by (induction kvs arbitrary: f) auto

lemma upds_cong: "mk \<in> fst ` set kvs \<or> f mk = g mk \<Longrightarrow> upds kvs f mk = upds kvs g mk"
proof (induction kvs arbitrary: f g)
  case (Cons p kvs)
  then show ?case by (cases p) auto
qed simp

lemma upds_filter: "(\<And>x. (mk, x) \<in> set kvs \<Longrightarrow> P (mk, x)) \<Longrightarrow> upds (filter P kvs) f mk = upds kvs f mk"
proof (induction kvs arbitrary: f)
  case (Cons p kvs)
  obtain k x where p: "p = (k, x)" by fastforce
  have IH: "upds (filter P kvs) f mk = upds kvs f mk" for f using Cons by auto
  show ?case
  proof (cases "P p")
    case True
    with IH show ?thesis by (simp add: p)
  next
    case False
    with Cons.prems have "k \<noteq> mk" by (auto simp: p)
    with False IH upds_cong [of mk kvs f "f(k \<mapsto> norm x)"] show ?thesis by (simp add: p)
  qed
qed simp

lemma upds_value: "upds kvs f mk = Some y \<Longrightarrow> (\<exists>x. (mk, x) \<in> set kvs \<and> y = norm x) \<or> f mk = Some y"
proof (induction kvs arbitrary: f)
  case (Cons p kvs)
  then show ?case by (cases p) (fastforce split: if_splits)
qed simp

definition taskItem :: "env \<Rightarrow> taskKeyCodec \<Rightarrow> task_key \<times> blob \<Rightarrow> mkey \<times> gval" where
  "taskItem E c p = (encode c (fst p), blobValue E (Some (snd p)))"

lemma encode_bucket: "encode c k = encode c l \<Longrightarrow> bucket c k = bucket c l"
  by (auto simp: encode_inject bucket_def)

definition bucketItems :: "env \<Rightarrow> taskKeyCodec \<Rightarrow> int64 \<Rightarrow> (task_key \<times> blob) list \<Rightarrow> (mkey \<times> gval) list" where
  "bucketItems E c b ts = map (taskItem E c) (filter (\<lambda>p. bucket c (fst p) = b) ts)"

context bucketed
begin

text \<open>
  Tasks written, in whatever order of buckets: each bucket got the tasks of its own, the buckets touched
  were registered.
\<close>

lemma queueOk_put:
  assumes rep: "represents E c keyOf idx s m" and valid: "\<And>p. p \<in> set ts \<Longrightarrow> keyValid c (fst p)"
    and maps: "\<And>b. map_ok (binOf s' (keyOf b) ''t'')" "map_ok (binOf s' idx ''b'')"
    and tasks: "\<And>b. taskEntries keyOf s' b = upds (bucketItems E c b ts) (taskEntries keyOf s b)"
    and index: "\<And>mk. entries (binOf s' idx ''b'') mk \<noteq> None \<longleftrightarrow>
        entries (binOf s idx ''b'') mk \<noteq> None \<or> mk \<in> (\<lambda>p. KInt (bucket c (fst p))) ` set ts"
  shows "queueOk E c keyOf idx s'"
proof -
  have ok: "queueOk E c keyOf idx s" using rep by (simp add: represents_def)
  have item: "(mk, x) \<in> set (bucketItems E c b ts) \<longleftrightarrow> (\<exists>p \<in> set ts. bucket c (fst p) = b \<and> (mk, x) = taskItem E c p)" for mk x b
    by (auto simp: bucketItems_def)
  have entry: "entries (binOf s' idx ''b'') (KInt b) \<noteq> None \<and>
      (\<exists>key blob. keyValid c key \<and> bucket c key = b \<and> mk = encode c key \<and> x = blobValue E (Some blob))"
    if e: "taskEntries keyOf s' b mk = Some x" for b mk x
  proof -
    consider y where "(mk, y) \<in> set (bucketItems E c b ts)" "x = norm y" | "taskEntries keyOf s b mk = Some x"
      using e upds_value [of "bucketItems E c b ts" "taskEntries keyOf s b" mk x] by (auto simp: tasks)
    then show ?thesis
    proof cases
      case (1 y)
      then obtain p where p: "p \<in> set ts" "bucket c (fst p) = b" "mk = encode c (fst p)" "y = blobValue E (Some (snd p))"
        by (auto simp: item taskItem_def)
      moreover have "KInt b \<in> (\<lambda>p. KInt (bucket c (fst p))) ` set ts" using p(1,2) by auto
      ultimately show ?thesis using index [of "KInt b"] valid [OF p(1)] 1(2) by auto
    next
      case 2
      with ok index [of "KInt b"] show ?thesis unfolding queueOk_def by blast
    qed
  qed
  have "\<exists>b. mk = KInt b" if "entries (binOf s' idx ''b'') mk \<noteq> None" for mk
    using that ok index [of mk] by (auto simp: queueOk_def)
  with entry maps show ?thesis unfolding queueOk_def by blast
qed

lemma represents_put:
  assumes rep: "represents E c keyOf idx s m" and valid: "\<And>p. p \<in> set ts \<Longrightarrow> keyValid c (fst p)"
    and maps: "\<And>b. map_ok (binOf s' (keyOf b) ''t'')" "map_ok (binOf s' idx ''b'')"
    and tasks: "\<And>b. taskEntries keyOf s' b = upds (bucketItems E c b ts) (taskEntries keyOf s b)"
    and index: "\<And>mk. entries (binOf s' idx ''b'') mk \<noteq> None \<longleftrightarrow>
        entries (binOf s idx ''b'') mk \<noteq> None \<or> mk \<in> (\<lambda>p. KInt (bucket c (fst p))) ` set ts"
  shows "represents E c keyOf idx s' (put_items (map (taskItem E c) ts) m)"
proof -
  have ok: "queueOk E c keyOf idx s" and m: "omap_ok m"
    and content: "\<And>mk x. map_of m mk = Some x \<longleftrightarrow> (\<exists>b. taskEntries keyOf s b mk = Some x)"
    using rep by (auto simp: represents_def)
  note ok' = queueOk_put [OF assms]
  have home: "bucket c key = b" if "taskEntries keyOf s b (encode c key) = Some x" for b key x
    using ok that encode_bucket unfolding queueOk_def by metis
  have "map_of (put_items (map (taskItem E c) ts) m) mk = Some x \<longleftrightarrow> (\<exists>b. taskEntries keyOf s' b mk = Some x)" for mk x
  proof (cases "\<exists>key. mk = encode c key")
    case False
    then have "mk \<notin> fst ` set (map (taskItem E c) ts)" "mk \<notin> fst ` set (bucketItems E c b ts)" for b
      by (auto simp: taskItem_def bucketItems_def)
    then show ?thesis using content by (simp add: map_of_put_items_upds tasks upds_notin)
  next
    case True
    then obtain key where key: "mk = encode c key" by blast
    have other: "taskEntries keyOf s' b mk = None" if "b \<noteq> bucket c key" for b
    proof (rule ccontr)
      assume "taskEntries keyOf s' b mk \<noteq> None"
      then obtain y where "taskEntries keyOf s' b mk = Some y" by blast
      with ok' obtain key' where "bucket c key' = b" "mk = encode c key'" unfolding queueOk_def by blast
      with that key encode_bucket show False by metis
    qed
    have "map_of m mk = taskEntries keyOf s (bucket c key) mk"
    proof (cases "taskEntries keyOf s (bucket c key) mk")
      case None
      with content home key show ?thesis by (metis not_None_eq)
    qed (use content in auto)
    moreover have "upds (bucketItems E c (bucket c key) ts) f mk = upds (map (taskItem E c) ts) f mk" for f
    proof -
      let ?P = "\<lambda>(k, x). \<exists>key'. k = encode c key' \<and> bucket c key' = bucket c key"
      have "bucketItems E c (bucket c key) ts = filter ?P (map (taskItem E c) ts)"
        unfolding bucketItems_def filter_map
        by (rule arg_cong [of _ _ "map (taskItem E c)"], rule filter_cong) (auto simp: taskItem_def dest: encode_bucket)
      then show ?thesis using upds_filter [of mk "map (taskItem E c) ts" ?P f] key by auto
    qed
    ultimately have "map_of (put_items (map (taskItem E c) ts) m) mk = taskEntries keyOf s' (bucket c key) mk"
      using upds_cong [of mk "map (taskItem E c) ts" "map_of m" "taskEntries keyOf s (bucket c key)"]
      by (simp add: map_of_put_items_upds tasks)
    with other show ?thesis by (metis option.distinct(1))
  qed
  with ok' m show ?thesis by (simp add: represents_def put_items_ok)
qed

end

context bucketed
begin

text \<open>Tasks removed: in every bucket exactly those that are not kept, and no bucket with tasks was unregistered.\<close>

lemma represents_remove:
  assumes rep: "represents E c keyOf idx s m"
    and maps: "\<And>b. map_ok (binOf s' (keyOf b) ''t'')" "map_ok (binOf s' idx ''b'')"
    and tasks: "\<And>b mk. taskEntries keyOf s' b mk = (if keep mk then taskEntries keyOf s b mk else None)"
    and index: "\<And>mk. entries (binOf s' idx ''b'') mk \<noteq> None \<Longrightarrow> entries (binOf s idx ''b'') mk \<noteq> None"
      "\<And>b mk x. taskEntries keyOf s' b mk = Some x \<Longrightarrow> entries (binOf s' idx ''b'') (KInt b) \<noteq> None"
  shows "represents E c keyOf idx s' (filter (\<lambda>p. keep (fst p)) m)"
proof -
  have ok: "queueOk E c keyOf idx s" using rep by (simp add: represents_def)
  have old: "taskEntries keyOf s b mk = Some x" if "taskEntries keyOf s' b mk = Some x" for b mk x
    using that by (auto simp: tasks split: if_splits)
  have "queueOk E c keyOf idx s'"
    unfolding queueOk_def
  proof (intro conjI allI impI)
    show "\<exists>b. mk = KInt b" if "entries (binOf s' idx ''b'') mk \<noteq> None" for mk
      using index(1) [OF that] ok unfolding queueOk_def by blast
    show "\<exists>key blob. keyValid c key \<and> bucket c key = b \<and> mk = encode c key \<and> x = blobValue E (Some blob)"
      if "taskEntries keyOf s' b mk = Some x" for b mk x
      using old [OF that] ok unfolding queueOk_def by blast
  qed (fact maps, fact maps, erule index(2))
  moreover have "map_of (filter (\<lambda>p. keep (fst p)) m) mk = Some x \<longleftrightarrow> (\<exists>b. taskEntries keyOf s' b mk = Some x)" for mk x
    using rep by (auto simp: represents_def map_of_filter_fst tasks)
  ultimately show ?thesis using rep by (simp add: represents_def omap_filter_ok)
qed

end

text \<open>The families: history tasks, and the dead-letter queue.\<close>

sublocale temporal_api \<subseteq> htask: bucketed E c "historyTaskKey E shardID categoryID" "historyTaskIndexKey E shardID categoryID"
  for c :: taskKeyCodec and shardID :: int32 and categoryID :: int
  by unfold_locales (simp_all add: historyTaskKey_def historyTaskIndexKey_def joinColon_first sint_inject64)

sublocale temporal_api \<subseteq> dlq: bucketed E dlqCodec "dlqKey E shardID sourceCluster" "dlqIndexKey E shardID sourceCluster"
  for shardID :: int32 and sourceCluster :: string
  by unfold_locales simp_all

interpretation sample_htask: bucketed sample_env c "historyTaskKey sample_env shardID categoryID" "historyTaskIndexKey sample_env shardID categoryID"
  for c shardID categoryID
  by unfold_locales (simp_all add: historyTaskKey_def historyTaskIndexKey_def joinColon_first sint_inject64)

end
