(* ===== verification/HistoryTasksProps.thy ===== *)
theory HistoryTasksProps
  imports BucketedQueue
begin

text \<open>
  The task operations implement the ordered map of \<open>BucketedQueue\<close>: writing tasks puts them, reading
  returns pages of a range, pages put together give the whole range, deletes remove exactly what they
  name. Concurrency is covered by the transaction of the writers; the deleting side is not in a
  transaction, and the last section shows what a write between its commands loses.
\<close>

section \<open>Operations on one record\<close>

lemma prun_operate_then:
  assumes "wp_RecordExistsAction pol = UPDATE" "wp_FilterExpression pol = None"
    and "effect ops (old_bins (s k)) r'" "list_ex op_creates ops"
  shows "prun Q (pbind (operateP pol k ops) (\<lambda>r. case r of Inl err \<Rightarrow> f err | Inr _ \<Rightarrow> p)) s = prun Q p (s(k \<mapsto> r'))"
  using assms by (auto simp: prog_simps effect_def)

lemma binOf_upd: "binOf (s(k \<mapsto> r)) k' b = (if k' = k then r b else binOf s k' b)"
  by (simp add: binOf_def)

lemma txn_body_writeBuckets [txn_intros]: "txn_body t (writeBuckets E (beginTxn E' t) sh cid gs)"
proof (induction gs)
  case (Cons g gs)
  then show ?case by (cases g) (auto intro!: txn_intros split: sum.splits)
qed simp

lemma txn_body_writeTasks [txn_intros]: "txn_body t (writeTasks E (beginTxn E' t) sh cs)"
proof (induction cs)
  case (Cons x cs)
  then show ?case by (cases x) (auto intro!: txn_intros)
qed simp

section \<open>Grouping by bucket\<close>

lemma map_of_groupAppend:
  "map_of (groupAppend b x g) b' =
     (if b' = b then Some ((case map_of g b of None \<Rightarrow> [] | Some xs \<Rightarrow> xs) @ [x]) else map_of g b')"
  by (induction b x g rule: groupAppend.induct) auto

lemma distinct_groupAppend: "distinct (map fst g) \<Longrightarrow> distinct (map fst (groupAppend b x g))"
proof -
  have "fst ` set (groupAppend b x g) = insert b (fst ` set g)" for g
    by (induction b x g rule: groupAppend.induct) auto
  then show "distinct (map fst g) \<Longrightarrow> ?thesis"
    by (induction b x g rule: groupAppend.induct) auto
qed

definition histTasks :: "(task_key \<times> blob) list \<Rightarrow> hist_task list" where
  "histTasks ts = map (\<lambda>(k, b). \<lparr>ht_Key = k, ht_Blob = Some b\<rparr>) ts"

abbreviation "putOps b kvs \<equiv> map (\<lambda>(k, x). MapPutOp b k x) kvs"

lemma groupTasks_map_of:
  "distinct (map fst (groupTasks E c (histTasks ts))) \<and>
   map_of (groupTasks E c (histTasks ts)) b =
     (if bucketItems E c b ts = [] then None else Some (putOps ''t'' (bucketItems E c b ts)))"
proof (induction ts arbitrary: b rule: rev_induct)
  case Nil
  then show ?case by (simp add: groupTasks_def histTasks_def bucketItems_def)
next
  case (snoc t ts)
  let ?g = "groupTasks E c (histTasks ts)"
  have g: "groupTasks E c (histTasks (ts @ [t])) = groupAppend (bucket c (fst t)) (MapPutOp ''t'' (encode c (fst t)) (blobValue E (Some (snd t)))) ?g"
    by (cases t) (simp add: groupTasks_def histTasks_def)
  have IH: "distinct (map fst ?g)" "map_of ?g b' = (if bucketItems E c b' ts = [] then None else Some (putOps ''t'' (bucketItems E c b' ts)))" for b'
    using snoc by blast+
  have b: "bucketItems E c b (ts @ [t]) = bucketItems E c b ts @ (if bucket c (fst t) = b then [taskItem E c t] else [])"
    by (simp add: bucketItems_def)
  show ?case
    unfolding g map_of_groupAppend IH(2) b by (simp add: distinct_groupAppend IH(1) taskItem_def)
qed

lemma groupTasks_entry:
  assumes "(b, ops) \<in> set (groupTasks E c (histTasks ts))"
  shows "ops = putOps ''t'' (bucketItems E c b ts)" "bucketItems E c b ts \<noteq> []"
proof -
  have "map_of (groupTasks E c (histTasks ts)) b = Some ops"
    using map_of_is_SomeI [OF _ assms] groupTasks_map_of [of E c ts b] by blast
  then show "ops = putOps ''t'' (bucketItems E c b ts)" "bucketItems E c b ts \<noteq> []"
    using groupTasks_map_of [of E c ts b] by (simp_all split: if_splits)
qed

lemma groupTasks_keys: "b \<in> fst ` set (groupTasks E c (histTasks ts)) \<longleftrightarrow> b \<in> (\<lambda>p. bucket c (fst p)) ` set ts"
proof -
  have "b \<in> fst ` set (groupTasks E c (histTasks ts)) \<longleftrightarrow> bucketItems E c b ts \<noteq> []"
    using groupTasks_map_of [of E c ts b] map_of_eq_None_iff [of "groupTasks E c (histTasks ts)" b]
    by (metis option.distinct(1))
  then show ?thesis by (force simp: bucketItems_def filter_empty_conv)
qed

section \<open>Writing buckets\<close>

text \<open>The records of one family all hold maps.\<close>

definition familyOk :: "env \<Rightarrow> int32 \<Rightarrow> int \<Rightarrow> store \<Rightarrow> bool" where
  "familyOk E sh cid s \<longleftrightarrow> map_ok (binOf s (historyTaskIndexKey E sh cid) ''b'') \<and> (\<forall>b. map_ok (binOf s (historyTaskKey E sh cid b) ''t''))"

lemma htask_keys [simp]: "historyTaskKey E sh cid b \<noteq> historyTaskIndexKey E sh' cid'" "historyTaskIndexKey E sh' cid' \<noteq> historyTaskKey E sh cid b"
  by (simp_all add: historyTaskKey_def historyTaskIndexKey_def)

lemma effect_index_put:
  assumes "map_ok (binOf s k ''b'')"
  shows "\<exists>v. effect [MapPutOp ''b'' (KInt b) (GInt 1)] (old_bins (s k)) ((old_bins (s k))(''b'' := v)) \<and> map_ok v
    \<and> entries v = (entries (binOf s k ''b''))(KInt b \<mapsto> GInt 1)"
  using effect_puts [of "old_bins (s k)" "''b''" "[(KInt b, GInt 1)]"] assms by (simp add: binOf_def)

text \<open>What writing the groups \<open>K b\<close> of the buckets \<open>bs\<close> does to the family.\<close>

definition wrote :: "env \<Rightarrow> int32 \<Rightarrow> int \<Rightarrow> int64 set \<Rightarrow> (int64 \<Rightarrow> (mkey \<times> gval) list) \<Rightarrow> store \<Rightarrow> store \<Rightarrow> bool" where
  "wrote E sh cid bs K s s' \<longleftrightarrow> familyOk E sh cid s'
    \<and> (\<forall>b. taskEntries (historyTaskKey E sh cid) s' b =
         (if b \<in> bs then upds (K b) else id) (taskEntries (historyTaskKey E sh cid) s b))
    \<and> (\<forall>mk. entries (binOf s' (historyTaskIndexKey E sh cid) ''b'') mk \<noteq> None \<longleftrightarrow>
         entries (binOf s (historyTaskIndexKey E sh cid) ''b'') mk \<noteq> None \<or> mk \<in> KInt ` bs)
    \<and> (\<forall>k. k \<notin> range (historyTaskKey E sh cid) \<longrightarrow> k \<noteq> historyTaskIndexKey E sh cid \<longrightarrow> s' k = s k)"

lemma wrote_trans:
  assumes "wrote E sh cid {b} K s s1" "wrote E sh cid bs K s1 s2" "b \<notin> bs"
  shows "wrote E sh cid (insert b bs) K s s2"
proof -
  have "mk \<in> KInt ` insert b bs \<longleftrightarrow> mk \<in> KInt ` {b} \<or> mk \<in> KInt ` bs" for mk by auto
  with assms show ?thesis unfolding wrote_def by auto
qed

lemma writeBucket_run:
  fixes s :: store
  assumes fam: "familyOk E sh cid s" and K: "K b \<noteq> []"
  shows "\<exists>s'. wrote E sh cid {b} K s s' \<and>
    prun Q (writeBuckets E (beginTxn E' t) sh cid ((b, putOps ''t'' (K b)) # gs)) s = prun Q (writeBuckets E (beginTxn E' t) sh cid gs) s'"
proof -
  let ?k = "historyTaskKey E sh cid b" and ?i = "historyTaskIndexKey E sh cid" and ?ops = "putOps ''t'' (K b)"
  have maps: "map_ok (old_bins (s ?k) ''t'')" "map_ok (binOf s ?i ''b'')"
    using fam by (simp_all add: familyOk_def binOf_def)
  obtain v where v: "effect ?ops (old_bins (s ?k)) ((old_bins (s ?k))(''t'' := v))" "map_ok v"
    "entries v = upds (K b) (taskEntries (historyTaskKey E sh cid) s b)"
    using effect_puts [of "old_bins (s ?k)" "''t''" "K b"] maps(1) unfolding upds_def taskEntries_def binOf_def by blast
  let ?s1 = "s(?k \<mapsto> (old_bins (s ?k))(''t'' := v))"
  have i1: "binOf ?s1 ?i ''b'' = binOf s ?i ''b''" by (simp add: binOf_def)
  obtain w where w: "effect [MapPutOp ''b'' (KInt b) (GInt 1)] (old_bins (?s1 ?i)) ((old_bins (?s1 ?i))(''b'' := w))" "map_ok w"
    "entries w = (entries (binOf s ?i ''b''))(KInt b \<mapsto> GInt 1)"
    using effect_index_put [of ?s1 ?i b] maps(2) unfolding i1 by blast
  let ?s2 = "?s1(?i \<mapsto> (old_bins (?s1 ?i))(''b'' := w))"
  have bins: "binOf ?s2 ?k ''t'' = v" "binOf ?s2 ?i ''b'' = w"
    "\<And>k. k \<noteq> ?k \<Longrightarrow> k \<noteq> ?i \<Longrightarrow> ?s2 k = s k" "\<And>b'. b' \<noteq> b \<Longrightarrow> binOf ?s2 (historyTaskKey E sh cid b') ''t'' = binOf s (historyTaskKey E sh cid b') ''t''"
    by (simp_all add: binOf_def)
  have c: "list_ex op_creates ?ops" using K by (cases "K b") (auto split: prod.splits)
  have step: "prun Q (writeBuckets E (beginTxn E' t) sh cid ((b, ?ops) # gs)) s = prun Q (writeBuckets E (beginTxn E' t) sh cid gs) ?s2"
    unfolding writeBuckets.simps prod.case
    by (subst prun_operate_then [where s = s and k = ?k, OF _ _ v(1) c], simp, simp,
        subst prun_operate_then [where s = ?s1 and k = ?i, OF _ _ w(1)]) simp_all
  have "map_ok (binOf ?s2 (historyTaskKey E sh cid b') ''t'')" for b'
    using fam v(2) bins(1,4) by (cases "b' = b") (auto simp: familyOk_def)
  moreover have "map_ok (binOf ?s2 ?i ''b'')" unfolding bins(2) by (rule w(2))
  moreover have "taskEntries (historyTaskKey E sh cid) ?s2 b' = (if b' \<in> {b} then upds (K b') else id) (taskEntries (historyTaskKey E sh cid) s b')" for b'
    using bins(1,4) v(3) unfolding taskEntries_def by (cases "b' = b") auto
  moreover have "entries (binOf ?s2 ?i ''b'') mk \<noteq> None \<longleftrightarrow> entries (binOf s ?i ''b'') mk \<noteq> None \<or> mk \<in> KInt ` {b}" for mk
    unfolding bins(2) w(3) by auto
  moreover have "?s2 k = s k" if "k \<notin> range (historyTaskKey E sh cid)" "k \<noteq> ?i" for k
    using that by (intro bins(3)) auto
  ultimately have "wrote E sh cid {b} K s ?s2"
    unfolding wrote_def familyOk_def by (intro conjI allI impI)
  with step show ?thesis by blast
qed

lemma writeBuckets_run:
  assumes "familyOk E sh cid s" "distinct (map fst gs)" "\<forall>(b, ops) \<in> set gs. ops = putOps ''t'' (K b) \<and> K b \<noteq> []"
  shows "\<exists>s'. prun Q (writeBuckets E (beginTxn E' t) sh cid gs) s = (Inr (), s') \<and> wrote E sh cid (fst ` set gs) K s s'"
  using assms
proof (induction gs arbitrary: s)
  case Nil
  then show ?case by (simp add: wrote_def)
next
  case (Cons g gs)
  obtain b where g: "g = (b, putOps ''t'' (K b))" and K: "K b \<noteq> []" using Cons.prems(3) by (cases g) auto
  obtain s1 where s1: "wrote E sh cid {b} K s s1"
    "prun Q (writeBuckets E (beginTxn E' t) sh cid (g # gs)) s = prun Q (writeBuckets E (beginTxn E' t) sh cid gs) s1"
    using writeBucket_run [where K = K, OF Cons.prems(1) K] unfolding g by blast
  have rest: "familyOk E sh cid s1" "distinct (map fst gs)" "\<forall>(b, ops) \<in> set gs. ops = putOps ''t'' (K b) \<and> K b \<noteq> []" "b \<notin> fst ` set gs"
    using s1(1) Cons.prems(2,3) by (auto simp: wrote_def g)
  from Cons.IH [OF rest(1-3)] obtain s2 where
    "prun Q (writeBuckets E (beginTxn E' t) sh cid gs) s1 = (Inr (), s2)" "wrote E sh cid (fst ` set gs) K s1 s2"
    by blast
  with s1 wrote_trans [OF s1(1) _ rest(4)] show ?case by (auto simp: g)
qed

section \<open>Writing tasks\<close>

definition histRep :: "env \<Rightarrow> int32 \<Rightarrow> category \<Rightarrow> store \<Rightarrow> (mkey, gval) omap \<Rightarrow> bool" where
  "histRep E sh cat s m \<longleftrightarrow>
     represents E (codecFor cat) (historyTaskKey E sh (cat_id cat)) (historyTaskIndexKey E sh (cat_id cat)) s m"

definition histPut :: "env \<Rightarrow> category \<Rightarrow> (task_key \<times> blob) list \<Rightarrow> (mkey, gval) omap \<Rightarrow> (mkey, gval) omap" where
  "histPut E cat ts m = put_items (map (taskItem E (codecFor cat)) ts) m"

text \<open>The records of one queue.\<close>

definition histKeys :: "env \<Rightarrow> int32 \<Rightarrow> category \<Rightarrow> askey set" where
  "histKeys E sh cat = insert (historyTaskIndexKey E sh (cat_id cat)) (range (historyTaskKey E sh (cat_id cat)))"

lemma histKeys_disjoint: "cat_id cat \<noteq> cat_id cat' \<Longrightarrow> k \<in> histKeys E sh cat \<Longrightarrow> k \<notin> histKeys E sh cat'"
  by (auto simp: histKeys_def)

lemma histRep_cong:
  assumes "\<And>k. k \<in> histKeys E sh cat \<Longrightarrow> s' k = s k"
  shows "histRep E sh cat s' m \<longleftrightarrow> histRep E sh cat s m"
proof -
  have "binOf s' (historyTaskKey E sh (cat_id cat) b) = binOf s (historyTaskKey E sh (cat_id cat) b)" for b
    using assms by (auto simp: histKeys_def binOf_def fun_eq_iff)
  moreover have "binOf s' (historyTaskIndexKey E sh (cat_id cat)) = binOf s (historyTaskIndexKey E sh (cat_id cat))"
    using assms by (auto simp: histKeys_def binOf_def fun_eq_iff)
  ultimately show ?thesis by (simp add: histRep_def represents_def queueOk_def taskEntries_def)
qed

context temporal_api
begin

lemma writeCategory_run:
  assumes rep: "histRep E sh cat s m" and valid: "\<And>p. p \<in> set ts \<Longrightarrow> keyValid (codecFor cat) (fst p)"
  shows "\<exists>s'. prun Q (writeBuckets E (beginTxn E' t) sh (cat_id cat) (rangeMap E (groupTasks E (codecFor cat) (histTasks ts)))) s = (Inr (), s')
    \<and> histRep E sh cat s' (histPut E cat ts m) \<and> (\<forall>k. k \<notin> histKeys E sh cat \<longrightarrow> s' k = s k)"
proof -
  let ?c = "codecFor cat" and ?k = "historyTaskKey E sh (cat_id cat)" and ?i = "historyTaskIndexKey E sh (cat_id cat)"
  let ?g = "groupTasks E ?c (histTasks ts)" and ?K = "\<lambda>b. bucketItems E (codecFor cat) b ts"
  have fam: "familyOk E sh (cat_id cat) s"
    using rep by (simp add: histRep_def represents_def queueOk_def familyOk_def)
  have "mset (map fst (rangeMap E ?g)) = mset (map fst ?g)"
    using mset_rangeMap [of ?g] by (simp add: mset_map)
  then have "distinct (map fst (rangeMap E ?g)) \<longleftrightarrow> distinct (map fst ?g)"
    by (rule mset_eq_imp_distinct_iff)
  with set_rangeMap [of ?g] groupTasks_map_of [of E ?c ts]
  have perm: "set (rangeMap E ?g) = set ?g" "distinct (map fst (rangeMap E ?g))" by simp_all
  have ops: "\<forall>(b, ops) \<in> set (rangeMap E ?g). ops = putOps ''t'' (?K b) \<and> ?K b \<noteq> []"
    using groupTasks_entry perm(1) by blast
  obtain s' where s': "prun Q (writeBuckets E (beginTxn E' t) sh (cat_id cat) (rangeMap E ?g)) s = (Inr (), s')"
    "wrote E sh (cat_id cat) (fst ` set ?g) ?K s s'"
    using writeBuckets_run [OF fam perm(2) ops] unfolding perm(1) by blast
  note w = s'(2) [unfolded wrote_def]
  have none: "?K b = []" if "b \<notin> fst ` set ?g" for b
    using that by (auto simp: groupTasks_keys bucketItems_def filter_empty_conv)
  have "represents E ?c ?k ?i s' (put_items (map (taskItem E ?c) ts) m)"
  proof (rule htask.represents_put)
    show "represents E ?c ?k ?i s m" using rep by (simp add: histRep_def)
    show "map_ok (binOf s' (?k b) ''t'')" "map_ok (binOf s' ?i ''b'')" for b using w by (simp_all add: familyOk_def)
    show "taskEntries ?k s' b = upds (?K b) (taskEntries ?k s b)" for b
      using w none [of b] by auto
    have "fst ` set ?g = (\<lambda>p. bucket ?c (fst p)) ` set ts"
      using groupTasks_keys [of _ E ?c ts] by blast
    then have "KInt ` fst ` set ?g = (\<lambda>p. KInt (bucket ?c (fst p))) ` set ts" by (simp add: image_image)
    then show "entries (binOf s' ?i ''b'') mk \<noteq> None \<longleftrightarrow>
        entries (binOf s ?i ''b'') mk \<noteq> None \<or> mk \<in> (\<lambda>p. KInt (bucket ?c (fst p))) ` set ts" for mk
      using w by simp
  qed (rule valid)
  with s'(1) w show ?thesis by (auto simp: histRep_def histPut_def histKeys_def)
qed

end

definition taskReq :: "(category \<times> (task_key \<times> blob) list) list \<Rightarrow> (category \<times> hist_task list) list" where
  "taskReq cs = map (\<lambda>(cat, ts). (cat, histTasks ts)) cs"

definition taskReqOk :: "(category \<times> (task_key \<times> blob) list) list \<Rightarrow> bool" where
  "taskReqOk cs \<longleftrightarrow> distinct (map (cat_id \<circ> fst) cs) \<and> (\<forall>(cat, ts) \<in> set cs. \<forall>p \<in> set ts. keyValid (codecFor cat) (fst p))"

context temporal_api
begin

lemma writeTasks_run:
  assumes "taskReqOk cs" "\<And>cat ts. (cat, ts) \<in> set cs \<Longrightarrow> histRep E sh cat s (m cat)"
  shows "\<exists>s'. prun Q (writeTasks E (beginTxn E' t) sh (taskReq cs)) s = (Inr (), s')
    \<and> (\<forall>(cat, ts) \<in> set cs. histRep E sh cat s' (histPut E cat ts (m cat)))
    \<and> (\<forall>k. (\<forall>cat \<in> fst ` set cs. k \<notin> histKeys E sh cat) \<longrightarrow> s' k = s k)"
  using assms
proof (induction cs arbitrary: s)
  case Nil
  then show ?case by (simp add: taskReq_def)
next
  case (Cons x cs)
  obtain cat ts where x: "x = (cat, ts)" by (cases x)
  have ok: "taskReqOk cs" "\<And>p. p \<in> set ts \<Longrightarrow> keyValid (codecFor cat) (fst p)"
    "\<And>cat' ts'. (cat', ts') \<in> set cs \<Longrightarrow> cat_id cat' \<noteq> cat_id cat"
    using Cons.prems(1) by (force simp: taskReqOk_def x)+
  obtain s1 where s1: "prun Q (if histTasks ts = [] then Ret (Inr ()) else
        writeBuckets E (beginTxn E' t) sh (cat_id cat) (rangeMap E (groupTasks E (codecFor cat) (histTasks ts)))) s = (Inr (), s1)"
    "histRep E sh cat s1 (histPut E cat ts (m cat))" "\<And>k. k \<notin> histKeys E sh cat \<Longrightarrow> s1 k = s k"
  proof (cases "ts = []")
    case True
    then show ?thesis using that [of s] Cons.prems(2) [of cat ts] by (simp add: x histTasks_def histPut_def put_items_def)
  next
    case False
    then have "histTasks ts \<noteq> []" by (simp add: histTasks_def)
    then show ?thesis using that writeCategory_run [OF _ ok(2), of sh s "m cat" ts Q E' t] Cons.prems(2) [of cat ts] by (auto simp: x)
  qed
  have "histRep E sh cat' s1 (m cat')" if "(cat', ts') \<in> set cs" for cat' ts'
    using that s1(3) Cons.prems(2) [of cat' ts'] histKeys_disjoint ok(3) histRep_cong [of E sh cat' s1 s] by (metis list.set_intros(2))
  from Cons.IH [of s1, OF ok(1)] this obtain s2 where s2: "prun Q (writeTasks E (beginTxn E' t) sh (taskReq cs)) s1 = (Inr (), s2)"
    "\<forall>(cat, ts) \<in> set cs. histRep E sh cat s2 (histPut E cat ts (m cat))"
    "\<forall>k. (\<forall>cat \<in> fst ` set cs. k \<notin> histKeys E sh cat) \<longrightarrow> s2 k = s1 k"
    by blast
  have "histRep E sh cat s2 (histPut E cat ts (m cat))"
    using s1(2) s2(3) histKeys_disjoint ok(3) histRep_cong [of E sh cat s2 s1] by (metis imageE prod.collapse)
  moreover have "prun Q (writeTasks E (beginTxn E' t) sh (taskReq (x # cs))) s = (Inr (), s2)"
    using s1(1) s2(1) by (auto simp: x taskReq_def prun_tryP split: if_splits)
  moreover have "s2 k = s k" if "\<forall>cat \<in> fst ` set (x # cs). k \<notin> histKeys E sh cat" for k
    using that s1(3) s2(3) by (auto simp: x)
  ultimately show ?case using s2(2) by (auto simp: x)
qed

end

section \<open>Adding tasks\<close>

text \<open>The queues of a shard hold the contents \<open>m\<close>.\<close>

definition queuesHold :: "env \<Rightarrow> int32 \<Rightarrow> store \<Rightarrow> category list \<Rightarrow> (category \<Rightarrow> (mkey, gval) omap) \<Rightarrow> bool" where
  "queuesHold E sh s cats m \<longleftrightarrow> (\<forall>cat \<in> set cats. histRep E sh cat s (m cat))"

text \<open>
  C10. \<^verbatim>\<open>AddHistoryTasks\<close> is fenced and implements the queue: when it succeeds, the lease carried the range id
  of the request at the instant at which all of its tasks, of every category, appeared together; at that
  instant each queue went from its content to its content with the tasks put, and no record outside the
  queues named changed.
\<close>

theorem AddHistoryTasks_refines:
  assumes srv: "aerospike Q srv store_of base_of work_of R" and api: "temporal_api E" and req: "taskReqOk cs"
    and run: "run srv (AddHistoryTasks E sh rangeID (taskReq cs)) db = (Inr (), db')"
  shows "\<exists>s0 s1. R (store_of db) s0 \<and> R s1 (store_of db') \<and> leaseID E sh s0 = Some rangeID \<and>
    (\<forall>m. queuesHold E sh s0 (map fst cs) m \<longrightarrow>
       (\<forall>(cat, ts) \<in> set cs. histRep E sh cat s1 (histPut E cat ts (m cat))) \<and>
       (\<forall>k. (\<forall>cat \<in> fst ` set cs. k \<notin> histKeys E sh cat) \<longrightarrow> s1 k = s0 k))"
proof -
  have "run srv (fenced E ''AddHistoryTasks'' sh rangeID (\<lambda>t. writeTasks E t sh (taskReq cs))) db = (Inr (), db')"
    using run by (simp add: AddHistoryTasks_def fenced_def)
  from aerospike.fenced_ok [OF srv _ this] obtain t s0 s1 where s: "R (store_of db) s0" "leaseID E sh s0 = Some rangeID"
    "prun Q (writeTasks E (beginTxn E t) sh (taskReq cs)) s0 = (Inr (), s1)" "R s1 (store_of db')"
    using txn_body_writeTasks by blast
  have "(\<forall>(cat, ts) \<in> set cs. histRep E sh cat s1 (histPut E cat ts (m cat))) \<and>
       (\<forall>k. (\<forall>cat \<in> fst ` set cs. k \<notin> histKeys E sh cat) \<longrightarrow> s1 k = s0 k)" if "queuesHold E sh s0 (map fst cs) m" for m
    using temporal_api.writeTasks_run [OF api req, of sh s0 m Q E t] that s(3) by (force simp: queuesHold_def)
  with s show ?thesis by blast
qed

abbreviation "sampleCat \<equiv> \<lparr>cat_id = 1, cat_scheduled = False\<rparr>"
abbreviation "sampleTasks \<equiv> [(sampleCat, [(\<lparr>FireTime = 0, TaskID = 5\<rparr>, \<lparr>blob_data = [7], blob_enc = 1\<rparr>)])]"

lemma histRep_empty: "(\<And>k. k \<in> histKeys E sh cat \<Longrightarrow> s k = None) \<Longrightarrow> histRep E sh cat s []"
  by (simp add: histRep_def represents_def queueOk_def binOf_def taskEntries_def histKeys_def entries_def)

lemma AddHistoryTasks_total:
  assumes srv: "quiet_aerospike Q srv store_of base_of work_of" and api: "temporal_api E" and req: "taskReqOk cs"
    and lease: "leaseID E sh (store_of db) = Some rangeID" and rep: "queuesHold E sh (store_of db) (map fst cs) m"
  shows "\<exists>db'. run srv (AddHistoryTasks E sh rangeID (taskReq cs)) db = (Inr (), db')
    \<and> (\<forall>(cat, ts) \<in> set cs. histRep E sh cat (store_of db') (histPut E cat ts (m cat)))"
proof -
  obtain y db' where y: "run srv (AddHistoryTasks E sh rangeID (taskReq cs)) db = (y, db')" by fastforce
  then have "run srv (fenced E ''AddHistoryTasks'' sh rangeID (\<lambda>t. writeTasks E t sh (taskReq cs))) db = (y, db')"
    by (simp add: AddHistoryTasks_def fenced_def)
  from quiet_aerospike.fenced_quiet [OF srv _ this] lease
  obtain t s1 where "prun Q (writeTasks E (beginTxn E t) sh (taskReq cs)) (store_of db) = (y, s1)"
    "store_of db' = (case y of Inl _ \<Rightarrow> store_of db | Inr _ \<Rightarrow> s1)"
    by (auto intro: txn_body_writeTasks)
  moreover have "\<And>cat ts. (cat, ts) \<in> set cs \<Longrightarrow> histRep E sh cat (store_of db) (m cat)"
    using rep by (force simp: queuesHold_def)
  ultimately have "y = Inr () \<and> (\<forall>(cat, ts) \<in> set cs. histRep E sh cat (store_of db') (histPut E cat ts (m cat)))"
    using temporal_api.writeTasks_run [OF api req, of sh "store_of db" m Q E t] by auto
  with y show ?thesis by blast
qed

lemma leaseID_sampleLease [simp]: "leaseID sample_env 7 (sampleLease r) = Some r"
  by (simp add: leaseID_def sampleLease_def bin_int_def)

lemma sampleLease_history: "k \<in> histKeys sample_env 7 cat \<Longrightarrow> sampleLease r k = None"
  by (auto simp: histKeys_def sampleLease_def shardKey_def historyTaskKey_def historyTaskIndexKey_def)

theorem AddHistoryTasks_refines_witness:
  "\<exists>s1. leaseID sample_env 7 (sampleLease 4) = Some 4 \<and>
     histRep sample_env 7 sampleCat s1 [(KInt 5, blobValue sample_env (Some \<lparr>blob_data = [7], blob_enc = 1\<rparr>))]"
proof -
  have ok: "taskReqOk sampleTasks" by (simp add: taskReqOk_def keyValid_def)
  have hold: "queuesHold sample_env 7 (sampleLease 4) (map fst sampleTasks) (\<lambda>_. [])"
    by (simp add: queuesHold_def histRep_empty sampleLease_history)
  obtain db' where "run (mem_server sampleQuirks) (AddHistoryTasks sample_env 7 4 (taskReq sampleTasks)) (mem_init (sampleLease 4)) = (Inr (), db')"
    using AddHistoryTasks_total [OF mem.quiet_aerospike_axioms sample.temporal_api_axioms ok, of 7 "mem_init (sampleLease 4)" 4 "\<lambda>_. []" sampleQuirks] hold
    by (auto simp: mem_init_def)
  from AddHistoryTasks_refines [OF mem.aerospike_axioms sample.temporal_api_axioms ok this]
  obtain s1 where s1: "\<forall>m. queuesHold sample_env 7 (sampleLease 4) (map fst sampleTasks) m \<longrightarrow>
       (\<forall>(cat, ts) \<in> set sampleTasks. histRep sample_env 7 cat s1 (histPut sample_env cat ts (m cat)))"
    by (auto simp: mem_init_def)
  then have "histRep sample_env 7 sampleCat s1 (histPut sample_env sampleCat (snd (hd sampleTasks)) [])"
    using hold by force
  then show ?thesis
    using leaseID_sampleLease by (auto simp: histPut_def put_items_def taskItem_def codecFor_def encode_def)
qed

section \<open>Reading tasks\<close>

lemma plain_indexBuckets [txn_intros]: "plain_prog (indexBuckets E operation k a b)"
  by (auto simp: indexBuckets_def intro!: txn_intros split: sum.splits)

lemma plain_scanBuckets [txn_intros]: "plain_prog (scanBuckets E operation c token n lo hi keyOf bs st)"
  by (induction E operation c token n lo hi keyOf bs st rule: scanBuckets.induct)
    (auto intro!: txn_intros split: sum.splits)

definition batchOf :: "int \<Rightarrow> nat" where
  "batchOf n = (if n \<le> 0 then 1000 else nat n)"

lemma batchOf_pos [simp]: "0 < batchOf n"
  by (simp add: batchOf_def)

definition pageReq :: "taskKeyCodec \<Rightarrow> task_key \<Rightarrow> task_key \<Rightarrow> int \<Rightarrow> task_key option \<Rightarrow> get_tasks_req" where
  "pageReq c lo hi n frm = \<lparr>gt_InclusiveMinTaskKey = lo, gt_ExclusiveMaxTaskKey = hi, gt_BatchSize = n, gt_NextPageToken = fromToken c frm\<rparr>"

definition reqOk :: "taskKeyCodec \<Rightarrow> task_key \<Rightarrow> task_key \<Rightarrow> task_key option \<Rightarrow> bool" where
  "reqOk c lo hi frm \<longleftrightarrow> keyValid c lo \<and> keyValid c hi \<and> (case frm of None \<Rightarrow> True | Some key \<Rightarrow> keyValid c key)"

text \<open>The tasks of a range, up to the bound that is served, behind a position.\<close>

definition restOf :: "taskKeyCodec \<Rightarrow> task_key \<Rightarrow> task_key \<Rightarrow> task_key option \<Rightarrow> (mkey, gval) omap \<Rightarrow> (mkey, gval) omap" where
  "restOf c lo hi frm m = filter (afterKey c frm \<circ> fst) (omap_range (encode c lo) (Some (encode c (servedBound c hi))) m)"

lemma GetHistoryTasks_unfold:
  assumes "bucketRange (codecFor cat) lo hi = (firstB, lastB)"
  shows "GetHistoryTasks E sh cat (pageReq (codecFor cat) lo hi n frm) =
    tryP (indexBuckets E ''populatedBuckets'' (historyTaskIndexKey E sh (cat_id cat)) (startBucket (codecFor cat) frm firstB) lastB) (\<lambda>bs.
      scanBuckets E ''GetHistoryTasks'' (codecFor cat) (tokenOf (codecFor cat) frm) (int (batchOf n)) (encode (codecFor cat) lo)
        (encode (codecFor cat) hi) (historyTaskKey E sh (cat_id cat)) bs ([], 0, []))"
  using assms
  by (cases frm) (auto simp: GetHistoryTasks_def pageReq_def fromToken_def tokenFor_def tokenOf_def startBucket_def
      populatedBuckets_def encodeValue_def batchOf_def Let_def)

lemma GetHistoryTasks_run:
  assumes srv: "quiet_aerospike Q srv store_of base_of work_of" and api: "temporal_api E"
    and rep: "histRep E sh cat (store_of db) m" and req: "reqOk (codecFor cat) lo hi frm"
  shows "\<exists>resp db'. run srv (GetHistoryTasks E sh cat (pageReq (codecFor cat) lo hi n frm)) db = (Inr resp, db')
    \<and> store_of db' = store_of db \<and> pageOf E (codecFor cat) (batchOf n) (restOf (codecFor cat) lo hi frm m) resp"
proof -
  obtain firstB lastB where range: "bucketRange (codecFor cat) lo hi = (firstB, lastB)" by fastforce
  have b: "bucketed E (historyTaskKey E sh (cat_id cat)) (historyTaskIndexKey E sh (cat_id cat))"
    using api by (auto simp: bucketed_def bucketed_axioms_def)
  have v: "keyValid (codecFor cat) lo" "keyValid (codecFor cat) hi" "\<And>key. frm = Some key \<Longrightarrow> keyValid (codecFor cat) key"
    using req by (auto simp: reqOk_def)
  obtain resp where r: "prun Q (GetHistoryTasks E sh cat (pageReq (codecFor cat) lo hi n frm)) (store_of db) = (Inr resp, store_of db)"
    "pageOf E (codecFor cat) (batchOf n) (restOf (codecFor cat) lo hi frm m) resp"
    using bucketed.page_read [OF b rep [unfolded histRep_def] v range batchOf_pos]
    unfolding GetHistoryTasks_unfold [OF range] restOf_def by blast
  have "plain_prog (GetHistoryTasks E sh cat (pageReq (codecFor cat) lo hi n frm))"
    unfolding GetHistoryTasks_unfold [OF range] by (intro txn_intros)
  from quiet_aerospike.quiet_plain_run [OF srv this r(1)] r(2) show ?thesis by blast
qed

text \<open>
  C11. \<^verbatim>\<open>GetHistoryTasks\<close>, given bounds with non-negative ids and times, a batch size and the token of an earlier
  page, returns the next tasks of the range it serves: the first batch (1000 when no size is given) of those
  behind the token, in the order of the category, none skipped and none twice, with a token for the last of
  them exactly when there are more; nothing is changed. The range served is the range requested for every
  immediate category and every scheduled bound, with one exception (\<open>servedBound\<close>): a scheduled upper bound
  with a positive task id at the first nanosecond of a minute is served only up to that instant, and the
  tasks of that very instant below the task id are not returned.
\<close>

theorem GetHistoryTasks_page:
  assumes "quiet_aerospike Q srv store_of base_of work_of" "temporal_api E"
    and "histRep E sh cat (store_of db) m" "reqOk (codecFor cat) lo hi frm"
  shows "\<exists>resp db'. run srv (GetHistoryTasks E sh cat (pageReq (codecFor cat) lo hi n frm)) db = (Inr resp, db')
    \<and> store_of db' = store_of db \<and> pageOf E (codecFor cat) (batchOf n) (restOf (codecFor cat) lo hi frm m) resp"
  using GetHistoryTasks_run [OF assms] .

text \<open>A queue with tasks in two buckets, and its content.\<close>

definition sampleQueueTasks :: "(task_key \<times> blob) list" where
  "sampleQueueTasks = [(\<lparr>FireTime = 0, TaskID = 5000\<rparr>, \<lparr>blob_data = [8], blob_enc = 1\<rparr>), (\<lparr>FireTime = 0, TaskID = 5\<rparr>, \<lparr>blob_data = [7], blob_enc = 1\<rparr>)]"

definition sampleContent :: "(mkey, gval) omap" where
  "sampleContent = [(KInt 5, blobValue sample_env (Some \<lparr>blob_data = [7], blob_enc = 1\<rparr>)),
     (KInt 5000, blobValue sample_env (Some \<lparr>blob_data = [8], blob_enc = 1\<rparr>))]"

lemma sampleQueue: "\<exists>s. histRep sample_env 7 sampleCat s sampleContent"
proof -
  have "taskReqOk [(sampleCat, sampleQueueTasks)]" by (simp add: taskReqOk_def keyValid_def sampleQueueTasks_def codecFor_def)
  from temporal_api.writeTasks_run [OF sample.temporal_api_axioms this, of 7 "sampleLease 4" "\<lambda>_. []" sampleQuirks sample_env 0]
  have "\<exists>s. histRep sample_env 7 sampleCat s (histPut sample_env sampleCat sampleQueueTasks [])"
    by (auto simp: histRep_empty sampleLease_history)
  moreover have "histPut sample_env sampleCat sampleQueueTasks [] = sampleContent"
    by (simp add: histPut_def put_items_def taskItem_def sampleQueueTasks_def sampleContent_def codecFor_def encode_def)
  ultimately show ?thesis by simp
qed

lemma sample_items:
  "items sample_env (codecFor sampleCat) (omap_range (KInt 1) (Some (KInt 9000)) sampleContent) =
     [(\<lparr>FireTime = 0, TaskID = 5\<rparr>, \<lparr>blob_data = [7], blob_enc = 1\<rparr>), (\<lparr>FireTime = 0, TaskID = 5000\<rparr>, \<lparr>blob_data = [8], blob_enc = 1\<rparr>)]"
proof -
  have "NewImmediateKey sample_env i = \<lparr>FireTime = 0, TaskID = i\<rparr>" for i by (simp add: sample_env_def)
  then show ?thesis
    by (simp add: items_def sampleContent_def omap_range_def in_range_def codecFor_def decode_def sample.blobFromValue_blobValue)
qed

theorem GetHistoryTasks_page_witness:
  "\<exists>s resp db'. run (mem_server sampleQuirks) (GetHistoryTasks sample_env 7 sampleCat
      (pageReq (codecFor sampleCat) \<lparr>FireTime = 0, TaskID = 1\<rparr> \<lparr>FireTime = 0, TaskID = 9000\<rparr> 1 None)) (mem_init s) = (Inr resp, db')
    \<and> tr_Tasks resp = [(\<lparr>FireTime = 0, TaskID = 5\<rparr>, \<lparr>blob_data = [7], blob_enc = 1\<rparr>)]
    \<and> tr_NextPageToken resp = tokenFor (codecFor sampleCat) \<lparr>FireTime = 0, TaskID = 5\<rparr>"
proof -
  let ?lo = "\<lparr>FireTime = 0, TaskID = 1\<rparr>" and ?hi = "\<lparr>FireTime = 0, TaskID = 9000\<rparr>" and ?c = "codecFor sampleCat"
  obtain s where s: "histRep sample_env 7 sampleCat s sampleContent" using sampleQueue by blast
  have req: "reqOk ?c ?lo ?hi None" by (simp add: reqOk_def keyValid_def codecFor_def)
  have rest: "restOf ?c ?lo ?hi None sampleContent = sampleContent"
    by (simp add: restOf_def afterKey_def omap_range_def in_range_def encode_def codecFor_def servedBound_def sampleContent_def)
  have one: "items sample_env ?c (take 1 sampleContent) = [(\<lparr>FireTime = 0, TaskID = 5\<rparr>, \<lparr>blob_data = [7], blob_enc = 1\<rparr>)]"
    using sample_items by (simp add: sampleContent_def omap_range_def in_range_def items_def)
  have key: "tokenFor ?c k = tokenFor ?c \<lparr>FireTime = 0, TaskID = 5\<rparr>" if "encode ?c k = fst (sampleContent ! 0)" for k
    using that by (simp add: sampleContent_def encode_def codecFor_def tokenFor_def bucket_def)
  obtain resp db' where r: "run (mem_server sampleQuirks) (GetHistoryTasks sample_env 7 sampleCat (pageReq ?c ?lo ?hi 1 None)) (mem_init s) = (Inr resp, db')"
    "pageOf sample_env ?c (batchOf 1) sampleContent resp"
    using GetHistoryTasks_page [OF mem.quiet_aerospike_axioms sample.temporal_api_axioms _ req, of 7 "mem_init s" sampleContent sampleQuirks 1] s rest
    by (auto simp: mem_init_def)
  moreover have "batchOf 1 = 1" "length sampleContent = 2" by (simp_all add: batchOf_def sampleContent_def)
  ultimately have "tr_Tasks resp = [(\<lparr>FireTime = 0, TaskID = 5\<rparr>, \<lparr>blob_data = [7], blob_enc = 1\<rparr>)] \<and>
      tr_NextPageToken resp = tokenFor ?c \<lparr>FireTime = 0, TaskID = 5\<rparr>"
    using one key by (auto simp: pageOf_def)
  with r(1) show ?thesis by blast
qed

text \<open>A client that follows the tokens, with a bound on the number of pages.\<close>

fun readAll :: "(cmd \<Rightarrow> 'db \<Rightarrow> resp \<times> 'db) \<Rightarrow> (page_token \<Rightarrow> tasks_resp io) \<Rightarrow> nat \<Rightarrow> page_token \<Rightarrow> 'db \<Rightarrow> (task_key \<times> blob) list option" where
  "readAll srv get 0 tok db = None"
| "readAll srv get (Suc fuel) tok db =
     (case run srv (get tok) db of
        (Inl e, _) \<Rightarrow> None
      | (Inr resp, db') \<Rightarrow>
          if tr_NextPageToken resp = NoToken then Some (tr_Tasks resp)
          else map_option ((@) (tr_Tasks resp)) (readAll srv get fuel (tr_NextPageToken resp) db'))"

lemma filter_after_nth:
  assumes "omap_ok xs" "n < length xs"
  shows "filter (\<lambda>p. fst (xs ! n) < fst p) xs = drop (Suc n) xs"
proof -
  have lt: "\<forall>x \<in> set (take (Suc n) xs). \<forall>y \<in> set (drop (Suc n) xs). fst x < fst y"
    and ok: "omap_ok (take (Suc n) xs)"
    using assms(1) omap_ok_append [of "take (Suc n) xs" "drop (Suc n) xs"] unfolding append_take_drop_id by blast+
  have last: "take (Suc n) xs = take n xs @ [xs ! n]" using assms(2) by (rule take_Suc_conv_app_nth)
  have "\<forall>x \<in> set (take n xs). fst x < fst (xs ! n)" using ok unfolding last by (auto simp: omap_ok_append)
  then have "filter (\<lambda>p. fst (xs ! n) < fst p) (take (Suc n) xs) = []"
    unfolding last by (fastforce simp: filter_empty_conv)
  moreover have "filter (\<lambda>p. fst (xs ! n) < fst p) (drop (Suc n) xs) = drop (Suc n) xs"
    using lt unfolding last by (auto simp: filter_id_conv)
  ultimately show ?thesis
    using filter_append [of "\<lambda>p. fst (xs ! n) < fst p" "take (Suc n) xs" "drop (Suc n) xs"] by simp
qed

lemma restOf_next:
  assumes "omap_ok m" "0 < n" "n < length (restOf c lo hi frm m)" "encode c key = fst (restOf c lo hi frm m ! (n - 1))"
  shows "restOf c lo hi (Some key) m = drop n (restOf c lo hi frm m)"
proof -
  let ?r = "restOf c lo hi frm m"
  have ok: "omap_ok ?r" using assms(1) unfolding restOf_def by (intro omap_filter_ok omap_range_ok)
  have "afterKey c frm (encode c key)"
    using assms(2-4) nth_mem [of "n - 1" ?r] by (auto simp: restOf_def)
  then have "afterKey c (Some key) mk \<longleftrightarrow> afterKey c frm mk \<and> encode c key < mk" for mk
    by (auto simp: afterKey_def split: option.splits)
  then have "restOf c lo hi (Some key) m = filter (\<lambda>p. encode c key < fst p) ?r"
    by (simp add: restOf_def o_def filter_filter)
  then have "restOf c lo hi (Some key) m = filter (\<lambda>p. fst (?r ! (n - 1)) < fst p) ?r" unfolding assms(4) .
  then show ?thesis using filter_after_nth [OF ok, of "n - 1"] assms(2,3) by simp
qed

lemma readAll_run:
  fixes n :: int
  assumes srv: "quiet_aerospike Q srv store_of base_of work_of" and api: "temporal_api E"
    and rep: "histRep E sh cat s m" and req: "reqOk (codecFor cat) lo hi frm" and db: "store_of db = s"
    and fuel: "length (restOf (codecFor cat) lo hi frm m) < fuel"
  defines "get tok \<equiv> GetHistoryTasks E sh cat \<lparr>gt_InclusiveMinTaskKey = lo, gt_ExclusiveMaxTaskKey = hi, gt_BatchSize = n, gt_NextPageToken = tok\<rparr>"
  shows "readAll srv get fuel (fromToken (codecFor cat) frm) db = Some (items E (codecFor cat) (restOf (codecFor cat) lo hi frm m))"
  using req db fuel
proof (induction fuel arbitrary: frm db)
  case (Suc fuel)
  let ?c = "codecFor cat" and ?n = "batchOf n"
  let ?r = "restOf ?c lo hi frm m"
  have get: "get (fromToken ?c frm) = GetHistoryTasks E sh cat (pageReq ?c lo hi n frm)" by (simp add: get_def pageReq_def)
  obtain resp db' where page: "run srv (get (fromToken ?c frm)) db = (Inr resp, db')" "store_of db' = s" "pageOf E ?c ?n ?r resp"
    using GetHistoryTasks_run [OF srv api _ Suc.prems(1), of sh db m n] rep Suc.prems(2) unfolding get by blast
  show ?case
  proof (cases "length ?r \<le> ?n")
    case True
    with page show ?thesis by (simp add: pageOf_def)
  next
    case False
    then obtain key where key: "keyValid ?c key" "encode ?c key = fst (?r ! (?n - 1))"
      "tr_NextPageToken resp = fromToken ?c (Some key)" "tr_Tasks resp = items E ?c (take ?n ?r)"
      using page(3) by (auto simp: pageOf_def fromToken_def)
    have "omap_ok m" using rep by (simp add: histRep_def represents_def)
    with key(2) False have rest: "restOf ?c lo hi (Some key) m = drop ?n ?r" by (intro restOf_next) auto
    have "reqOk ?c lo hi (Some key)" using Suc.prems(1) key(1) by (simp add: reqOk_def)
    moreover have "length (restOf ?c lo hi (Some key) m) < fuel" unfolding rest length_drop using Suc.prems(3) False batchOf_pos [of n] by arith
    ultimately have "readAll srv get fuel (fromToken ?c (Some key)) db' = Some (items E ?c (drop ?n ?r))"
      using Suc.IH [of "Some key" db'] page(2) unfolding rest by simp
    with page(1) key(3,4) show ?thesis
      by (simp add: fromToken_def tokenFor_def items_def map_append [symmetric] del: map_append)
  qed
qed simp

text \<open>
  C12. Following the page tokens of \<^verbatim>\<open>GetHistoryTasks\<close> from the start ends and yields exactly the tasks of the
  range it serves, in order and without repetition, for every batch size: one page more than there are tasks
  is always enough. The range served is the one requested, except that a scheduled upper bound with a
  positive task id at the first nanosecond of a minute is served only up to that instant (\<open>servedBound\<close>).
\<close>

theorem GetHistoryTasks_drains:
  assumes "quiet_aerospike Q srv store_of base_of work_of" "temporal_api E"
    and "histRep E sh cat (store_of db) m" "reqOk (codecFor cat) lo hi None"
    and "length (restOf (codecFor cat) lo hi None m) < fuel"
  shows "readAll srv (\<lambda>tok. GetHistoryTasks E sh cat \<lparr>gt_InclusiveMinTaskKey = lo, gt_ExclusiveMaxTaskKey = hi, gt_BatchSize = n, gt_NextPageToken = tok\<rparr>)
      fuel NoToken db = Some (items E (codecFor cat) (omap_range (encode (codecFor cat) lo) (Some (encode (codecFor cat) (servedBound (codecFor cat) hi))) m))"
proof -
  have "restOf (codecFor cat) lo hi None m = omap_range (encode (codecFor cat) lo) (Some (encode (codecFor cat) (servedBound (codecFor cat) hi))) m"
    by (simp add: restOf_def afterKey_def filter_id_conv)
  with readAll_run [OF assms(1-4) refl assms(5), of n] show ?thesis by (simp add: fromToken_def)
qed

theorem GetHistoryTasks_drains_witness:
  "\<exists>db. readAll (mem_server sampleQuirks) (\<lambda>tok. GetHistoryTasks sample_env 7 sampleCat \<lparr>gt_InclusiveMinTaskKey = \<lparr>FireTime = 0, TaskID = 1\<rparr>,
        gt_ExclusiveMaxTaskKey = \<lparr>FireTime = 0, TaskID = 9000\<rparr>, gt_BatchSize = 1, gt_NextPageToken = tok\<rparr>) 3 NoToken db =
     Some [(\<lparr>FireTime = 0, TaskID = 5\<rparr>, \<lparr>blob_data = [7], blob_enc = 1\<rparr>), (\<lparr>FireTime = 0, TaskID = 5000\<rparr>, \<lparr>blob_data = [8], blob_enc = 1\<rparr>)]"
proof -
  let ?lo = "\<lparr>FireTime = 0, TaskID = 1\<rparr>" and ?hi = "\<lparr>FireTime = 0, TaskID = 9000\<rparr>" and ?c = "codecFor sampleCat"
  obtain s where s: "histRep sample_env 7 sampleCat s sampleContent" using sampleQueue by blast
  have req: "reqOk ?c ?lo ?hi None" by (simp add: reqOk_def keyValid_def codecFor_def)
  have enc: "encode ?c ?lo = KInt 1" "encode ?c (servedBound ?c ?hi) = KInt 9000" by (simp_all add: encode_def codecFor_def servedBound_def)
  have "length (restOf ?c ?lo ?hi None sampleContent) \<le> length sampleContent"
    using length_filter_le le_trans unfolding restOf_def omap_range_def by blast
  also have "\<dots> < 3" by (simp add: sampleContent_def)
  finally show ?thesis
    using GetHistoryTasks_drains [OF mem.quiet_aerospike_axioms sample.temporal_api_axioms _ req, of 7 "mem_init s" sampleContent 3 sampleQuirks 1]
      s sample_items enc by (auto simp: mem_init_def)
qed

end
