(* ===== verification/TaskDeletion.thy ===== *)
theory TaskDeletion
  imports HistoryTasksProps
begin

text \<open>
  The deleting side of \<^verbatim>\<open>tasks.go\<close>. On a quiet server \<^verbatim>\<open>CompleteHistoryTask\<close> and
  \<^verbatim>\<open>RangeCompleteHistoryTasks\<close> remove exactly the tasks they name, whatever buckets are retired on the way;
  the dead-letter queue behaves the same. The last section shows the interleaving in which retiring a
  bucket destroys a task that was added meanwhile.
\<close>

section \<open>Removing from one bucket\<close>

lemma prun_remove_range:
  assumes "map_ok (binOf s k b)"
  shows "prun Q (pbind (operateP (writePolicy E) k [MapRemoveByKeyRangeOp b lo hi RetNone, MapSizeOp b]) g) s =
    (if s k = None then (if q_absent_remove_fails Q then prun Q (g (Inl (AsError [KEY_NOT_FOUND_ERROR]))) s
                         else prun Q (g (Inr (op_record Q k []))) s)
     else if binOf s k b = None then prun Q (g (Inr (op_record Q k []))) s
     else let m = omap_rdel lo hi (the_map (binOf s k b)) in
       prun Q (g (Inr (op_record Q k [(b, GNil), (b, GInt (of_nat (length m)))]))) (s(k \<mapsto> (old_bins (s k))(b \<mapsto> BMap m))))"
  using assms
  by (cases "s k") (auto simp: prog_simps op_absent_def binOf_def map_access_def fun_upd_idem Let_def split: option.splits binval.splits)

lemma prun_remove_range1:
  assumes "map_ok (binOf s k b)"
  shows "prun Q (pbind (operateP (writePolicy E) k [MapRemoveByKeyRangeOp b lo hi RetNone]) g) s =
    (if s k = None then (if q_absent_remove_fails Q then prun Q (g (Inl (AsError [KEY_NOT_FOUND_ERROR]))) s
                         else prun Q (g (Inr (op_record Q k []))) s)
     else if binOf s k b = None then prun Q (g (Inr (op_record Q k []))) s
     else prun Q (g (Inr (op_record Q k [(b, GNil)]))) (s(k \<mapsto> (old_bins (s k))(b \<mapsto> BMap (omap_rdel lo hi (the_map (binOf s k b)))))))"
  using assms
  by (cases "s k") (auto simp: prog_simps op_absent_def binOf_def map_access_def fun_upd_idem split: option.splits binval.splits)

lemma prun_remove_key:
  assumes "map_ok (binOf s k b)"
  shows "prun Q (pbind (operateP (writePolicy E) k [MapRemoveByKeyOp b mk RetNone]) g) s =
    (if s k = None then (if q_absent_remove_fails Q then prun Q (g (Inl (AsError [KEY_NOT_FOUND_ERROR]))) s
                         else prun Q (g (Inr (op_record Q k []))) s)
     else if binOf s k b = None then prun Q (g (Inr (op_record Q k []))) s
     else prun Q (g (Inr (op_record Q k [(b, GNil)]))) (s(k \<mapsto> (old_bins (s k))(b \<mapsto> BMap (omap_del mk (the_map (binOf s k b)))))))"
  using assms
  by (cases "s k") (auto simp: prog_simps op_absent_def binOf_def map_access_def fun_upd_idem split: option.splits binval.splits)

lemma lastOpResultInt_simps [simp]:
  "lastOpResultInt (op_record Q k []) b = None" "lastOpResultInt (op_record Q k [(b, v), (b, GInt n)]) b = Some n"
  by (simp_all add: lastOpResultInt_def op_record_def)

text \<open>The tasks satisfying \<open>P\<close> were removed from the buckets \<open>bs\<close>; no bucket that still has tasks was unregistered.\<close>

definition cleared :: "(int64 \<Rightarrow> askey) \<Rightarrow> askey \<Rightarrow> (mkey \<Rightarrow> bool) \<Rightarrow> int64 set \<Rightarrow> store \<Rightarrow> store \<Rightarrow> bool" where
  "cleared keyOf idx P bs s s' \<longleftrightarrow>
     (\<forall>b. map_ok (binOf s' (keyOf b) ''t'')) \<and> map_ok (binOf s' idx ''b'') \<and>
     (\<forall>b. length (the_map (binOf s' (keyOf b) ''t'')) \<le> length (the_map (binOf s (keyOf b) ''t''))) \<and>
     (\<forall>b mk. taskEntries keyOf s' b mk = (if b \<in> bs \<and> P mk then None else taskEntries keyOf s b mk)) \<and>
     (\<forall>mk. entries (binOf s' idx ''b'') mk \<noteq> None \<longrightarrow> entries (binOf s idx ''b'') mk \<noteq> None) \<and>
     (\<forall>b. taskEntries keyOf s' b \<noteq> Map.empty \<longrightarrow> entries (binOf s idx ''b'') (KInt b) \<noteq> None \<longrightarrow> entries (binOf s' idx ''b'') (KInt b) \<noteq> None) \<and>
     (\<forall>k. k \<noteq> idx \<longrightarrow> k \<notin> range keyOf \<longrightarrow> s' k = s k)"

lemma cleared_trans:
  assumes a: "cleared keyOf idx P bs s s1" and b: "cleared keyOf idx P cs s1 s2"
  shows "cleared keyOf idx P (bs \<union> cs) s s2"
proof -
  have "taskEntries keyOf s2 b \<noteq> Map.empty \<Longrightarrow> taskEntries keyOf s1 b \<noteq> Map.empty" for b
    using b unfolding cleared_def by (auto simp: fun_eq_iff split: if_splits)
  moreover have "length (the_map (binOf s2 (keyOf b) ''t'')) \<le> length (the_map (binOf s (keyOf b) ''t''))" for b
  proof -
    have "length (the_map (binOf s2 (keyOf b) ''t'')) \<le> length (the_map (binOf s1 (keyOf b) ''t''))" using b by (simp add: cleared_def)
    also have "\<dots> \<le> length (the_map (binOf s (keyOf b) ''t''))" using a by (simp add: cleared_def)
    finally show ?thesis .
  qed
  moreover have "taskEntries keyOf s2 b mk = (if b \<in> bs \<union> cs \<and> P mk then None else taskEntries keyOf s b mk)" for b mk
    using a b by (auto simp: cleared_def)
  ultimately show ?thesis using a b unfolding cleared_def by (intro conjI; metis)
qed

lemma cleared_refl:
  assumes "\<And>b. map_ok (binOf s (keyOf b) ''t'')" "map_ok (binOf s idx ''b'')" "\<And>b mk. b \<in> bs \<Longrightarrow> taskEntries keyOf s b mk = None"
  shows "cleared keyOf idx P bs s s"
  using assms by (auto simp: cleared_def)

context bucketed
begin

lemma bucket_length:
  assumes "represents E c keyOf idx s m"
  shows "length (the_map (binOf s (keyOf b) ''t'')) \<le> length m"
proof -
  let ?t = "the_map (binOf s (keyOf b) ''t'')"
  have ok: "omap_ok ?t" "omap_ok m"
    using assms by (auto simp: represents_def queueOk_def intro: omap_ok_the_map)
  have "set ?t \<subseteq> set m"
  proof
    fix p assume "p \<in> set ?t"
    then have "taskEntries keyOf s b (fst p) = Some (snd p)" using omap_map_of [OF ok(1), of "fst p" "snd p"] by (simp add: taskEntries_def entries_def)
    then have "map_of m (fst p) = Some (snd p)" using assms by (auto simp: represents_def)
    then show "p \<in> set m" using omap_map_of [OF ok(2), of "fst p" "snd p"] by simp
  qed
  moreover have "distinct ?t" "distinct m" using ok omap_ok_distinct distinct_map by blast+
  ultimately show ?thesis by (metis List.finite_set card_mono distinct_card)
qed

lemma cleared_bucket:
  assumes "\<And>b. map_ok (binOf s (keyOf b) ''t'')" "map_ok (binOf s idx ''b'')"
    and m: "map_ok v" "length (the_map v) \<le> length (the_map (binOf s (keyOf b) ''t''))"
      "\<And>mk. entries v mk = (if P mk then None else taskEntries keyOf s b mk)"
    and w: "map_ok w" "\<And>mk. entries w mk = (if entries v = Map.empty \<and> mk = KInt b \<and> drp then None else entries (binOf s idx ''b'') mk)"
    and s': "binOf s' (keyOf b) ''t'' = v" "binOf s' idx ''b'' = w" "\<And>k. k \<noteq> keyOf b \<Longrightarrow> k \<noteq> idx \<Longrightarrow> s' k = s k"
  shows "cleared keyOf idx P {b} s s'"
proof -
  have other: "binOf s' (keyOf b') ''t'' = binOf s (keyOf b') ''t''" if "b' \<noteq> b" for b'
    using that s'(3) by (simp add: binOf_def)
  have e: "taskEntries keyOf s' b' = (if b' = b then entries v else taskEntries keyOf s b')" for b'
    using other [of b'] s'(1) by (auto simp: taskEntries_def)
  have "map_ok (binOf s' (keyOf b') ''t'')" "length (the_map (binOf s' (keyOf b') ''t'')) \<le> length (the_map (binOf s (keyOf b') ''t''))" for b'
    using assms(1) m s'(1) other by (cases "b' = b"; simp)+
  moreover have "taskEntries keyOf s' b' mk = (if b' \<in> {b} \<and> P mk then None else taskEntries keyOf s b' mk)" for b' mk
    using m(3) by (simp add: e)
  moreover have "s' k = s k" if "k \<noteq> idx" "k \<notin> range keyOf" for k using that s'(3) by auto
  moreover have "taskEntries keyOf s' b' \<noteq> Map.empty \<Longrightarrow> entries (binOf s idx ''b'') (KInt b') \<noteq> None \<Longrightarrow> entries (binOf s' idx ''b'') (KInt b') \<noteq> None" for b'
    by (auto simp: s'(2) w(2) e split: if_splits)
  moreover have "entries (binOf s' idx ''b'') mk \<noteq> None \<Longrightarrow> entries (binOf s idx ''b'') mk \<noteq> None" for mk
    by (simp add: s'(2) w(2) split: if_splits)
  ultimately show ?thesis using w(1) s'(2) unfolding cleared_def by blast
qed

lemma idx_keyOf [simp]: "idx \<noteq> keyOf b"
  using keyOf_idx by metis

lemma remove_empty:
  assumes "of_nat (length m) = (0::int64)" "length m < 2 ^ 63"
  shows "m = []"
proof -
  have "unat (of_nat (length m) :: int64) = length m" using assms(2) by (simp add: unat_of_nat)
  with assms(1) show "m = []" by simp
qed
lemma prun_retireBucket:
  assumes maps: "\<And>b. map_ok (binOf s (keyOf b) ''t'')" "map_ok (binOf s idx ''b'')" and empty: "taskEntries keyOf s b = Map.empty"
  shows "\<exists>s'. prun Q (tryP (retireBucket E (keyOf b) idx b) g) s = prun Q (g ()) s' \<and> cleared keyOf idx P {b} s s'"
proof -
  let ?s1 = "s(keyOf b := None)"
  have i: "binOf ?s1 idx ''b'' = binOf s idx ''b''" "?s1 idx = s idx" by (simp_all add: binOf_def)
  let ?s' = "if s idx = None \<or> binOf s idx ''b'' = None then ?s1
     else ?s1(idx \<mapsto> (old_bins (s idx))(''b'' \<mapsto> BMap (omap_del (KInt b) (the_map (binOf s idx ''b'')))))"
  have del: "prun Q (pbind (deleteP (deletePolicy E) (keyOf b)) h) s = prun Q (h (Inr (s (keyOf b) \<noteq> None))) ?s1" for h :: "_ \<Rightarrow> unit io"
    by (auto simp: prog_simps fun_upd_idem split: option.splits)
  have "prun Q (retireBucket E (keyOf b) idx b) s = (Inr (), ?s')"
    using maps(2) unfolding retireBucket_def Let_def del sum.case
    by (subst prun_remove_key) (auto simp: i)
  moreover have "cleared keyOf idx P {b} s ?s'"
  proof (rule cleared_bucket [OF maps, where v = None and drp = True])
    show "binOf ?s' (keyOf b) ''t'' = None" by (simp add: binOf_def)
    show "entries None mk = (if P mk then None else taskEntries keyOf s b mk)" for mk by (simp add: empty)
    show "map_ok (binOf ?s' idx ''b'')" using maps(2) by (simp add: binOf_def omap_del_ok omap_ok_the_map)
    show "entries (binOf ?s' idx ''b'') mk = (if entries None = Map.empty \<and> mk = KInt b \<and> True then None else entries (binOf s idx ''b'') mk)" for mk
      by (auto simp: binOf_def map_of_omap_del entries_def)
  qed simp_all
  ultimately show ?thesis by (auto simp: prun_tryP)
qed

end

context bucketed
begin

lemma prun_completeBucket:
  assumes maps: "\<And>b. map_ok (binOf s (keyOf b) ''t'')" "map_ok (binOf s idx ''b'')"
    and small: "length (the_map (binOf s (keyOf b) ''t'')) < 2 ^ 63"
  shows "\<exists>s'. prun Q (completeBuckets E lo hi keyOf idx (b # bs)) s = prun Q (completeBuckets E lo hi keyOf idx bs) s'
    \<and> cleared keyOf idx (in_range lo (Some hi)) {b} s s'"
proof (cases "binOf s (keyOf b) ''t''")
  case None
  then have "prun Q (completeBuckets E lo hi keyOf idx (b # bs)) s = prun Q (completeBuckets E lo hi keyOf idx bs) s"
    by (simp add: prun_remove_range [OF maps(1)])
  moreover have "cleared keyOf idx (in_range lo (Some hi)) {b} s s"
    using None by (intro cleared_refl maps) (simp add: taskEntries_def)
  ultimately show ?thesis by blast
next
  case (Some v)
  then have some: "s (keyOf b) \<noteq> None" by (cases "s (keyOf b)") (auto simp: binOf_def)
  let ?m = "omap_rdel lo (Some hi) (the_map (binOf s (keyOf b) ''t''))"
  let ?s1 = "s(keyOf b \<mapsto> (old_bins (s (keyOf b)))(''t'' \<mapsto> BMap ?m))"
  have c1: "cleared keyOf idx (in_range lo (Some hi)) {b} s ?s1"
  proof (rule cleared_bucket [OF maps, where v = "Some (BMap ?m)" and drp = False])
    show "entries (Some (BMap ?m)) mk = (if in_range lo (Some hi) mk then None else taskEntries keyOf s b mk)" for mk
      by (simp add: map_of_omap_rdel taskEntries_def entries_def)
    show "map_ok (Some (BMap ?m))" using maps(1) by (simp add: omap_rdel_ok omap_ok_the_map)
    show "length (the_map (Some (BMap ?m))) \<le> length (the_map (binOf s (keyOf b) ''t''))" by (simp add: omap_rdel_def)
    show "map_ok (binOf s idx ''b'')" by (rule maps(2))
  qed (simp_all add: binOf_def)
  have run: "prun Q (completeBuckets E lo hi keyOf idx (b # bs)) s =
      (if of_nat (length ?m) = (0::int64) then prun Q (tryP (retireBucket E (keyOf b) idx b) (\<lambda>_. completeBuckets E lo hi keyOf idx bs)) ?s1
       else prun Q (completeBuckets E lo hi keyOf idx bs) ?s1)"
    using Some some by (auto simp: prun_remove_range [OF maps(1)] Let_def)
  show ?thesis
  proof (cases "of_nat (length ?m) = (0::int64)")
    case False
    with run c1 show ?thesis by auto
  next
    case True
    have "length ?m < 2 ^ 63" using small le_less_trans [OF length_filter_le] unfolding omap_rdel_def by blast
    with True have "?m = []" by (rule remove_empty)
    then have "taskEntries keyOf ?s1 b = Map.empty" by (simp add: taskEntries_def binOf_def)
    moreover have "map_ok (binOf ?s1 (keyOf b') ''t'')" "map_ok (binOf ?s1 idx ''b'')" for b' using c1 by (simp_all add: cleared_def)
    ultimately obtain s' where "prun Q (tryP (retireBucket E (keyOf b) idx b) (\<lambda>_. completeBuckets E lo hi keyOf idx bs)) ?s1 = prun Q (completeBuckets E lo hi keyOf idx bs) s'"
      "cleared keyOf idx (in_range lo (Some hi)) {b} ?s1 s'"
      using prun_retireBucket [of ?s1 b Q] by blast
    moreover from this have "cleared keyOf idx (in_range lo (Some hi)) {b} s s'" using cleared_trans [OF c1, of "{b}" s'] by simp
    ultimately show ?thesis using run True by auto
  qed
qed

lemma prun_completeBuckets:
  assumes "\<And>b. map_ok (binOf s (keyOf b) ''t'')" "map_ok (binOf s idx ''b'')" "\<And>b. length (the_map (binOf s (keyOf b) ''t'')) < 2 ^ 63"
  shows "\<exists>s'. prun Q (completeBuckets E lo hi keyOf idx bs) s = (Inr (), s') \<and> cleared keyOf idx (in_range lo (Some hi)) (set bs) s s'"
  using assms
proof (induction bs arbitrary: s)
  case Nil
  then show ?case using cleared_refl [of s keyOf idx "{}"] by simp
next
  case (Cons b bs)
  obtain s1 where s1: "prun Q (completeBuckets E lo hi keyOf idx (b # bs)) s = prun Q (completeBuckets E lo hi keyOf idx bs) s1"
    "cleared keyOf idx (in_range lo (Some hi)) {b} s s1"
    using prun_completeBucket [OF Cons.prems] by blast
  have "map_ok (binOf s1 (keyOf b') ''t'')" "map_ok (binOf s1 idx ''b'')" for b' using s1(2) by (simp_all add: cleared_def)
  moreover have "length (the_map (binOf s1 (keyOf b') ''t'')) < 2 ^ 63" for b'
    by (rule le_less_trans [OF _ Cons.prems(3) [of b']]) (use s1(2) in \<open>simp add: cleared_def\<close>)
  ultimately obtain s2 where "prun Q (completeBuckets E lo hi keyOf idx bs) s1 = (Inr (), s2)"
    "cleared keyOf idx (in_range lo (Some hi)) (set bs) s1 s2"
    using Cons.IH [of s1] by blast
  with s1 cleared_trans [OF s1(2)] show ?case by auto
qed

text \<open>Clearing a range in all the buckets its index read returned removes the range.\<close>

lemma cleared_range:
  assumes rep: "represents E c keyOf idx s m"
    and valid: "keyValid c lo" "keyValid c hi" and range: "bucketRange c lo hi = (firstB, lastB)"
    and c: "cleared keyOf idx (in_range (encode c lo) (Some (encode c hi))) (set (bucketsIn s idx firstB lastB)) s s'"
  shows "represents E c keyOf idx s' (omap_rdel (encode c lo) (Some (encode c (servedBound c hi))) m)"
proof -
  have ok: "queueOk E c keyOf idx s" using rep by (simp add: represents_def)
  have idx: "map_ok (binOf s idx ''b'')" using ok by (simp add: queueOk_def)
  have last: "sint lastB < 9223372036854775807" using bucketRange_bounds(3) [OF valid(1,2) range] by simp
  have hit: "b \<in> set (bucketsIn s idx firstB lastB) \<and> in_range (encode c lo) (Some (encode c hi)) mk \<longleftrightarrow>
      in_range (encode c lo) (Some (encode c (servedBound c hi))) mk"
    if e: "taskEntries keyOf s b mk = Some v" for b mk v
  proof -
    obtain k where k: "keyValid c k" "bucket c k = b" "mk = encode c k" "entries (binOf s idx ''b'') (KInt b) \<noteq> None"
      using ok e unfolding queueOk_def by blast
    show ?thesis unfolding k(3) in_range_served [OF valid k(1) range] using k(2,4) by (auto simp: set_bucketsIn [OF idx last])
  qed
  have tasks: "taskEntries keyOf s' b mk = (if \<not> in_range (encode c lo) (Some (encode c (servedBound c hi))) mk then taskEntries keyOf s b mk else None)" for b mk
    using c hit [of b mk] unfolding cleared_def by (cases "taskEntries keyOf s b mk") auto
  have "represents E c keyOf idx s' (filter (\<lambda>p. \<not> in_range (encode c lo) (Some (encode c (servedBound c hi))) (fst p)) m)"
  proof (rule represents_remove [OF rep _ _ tasks])
    show "entries (binOf s' idx ''b'') (KInt b) \<noteq> None" if "taskEntries keyOf s' b mk = Some x" for b mk x
    proof -
      have "taskEntries keyOf s b mk = Some x" using that by (simp add: tasks split: if_splits)
      then have "entries (binOf s idx ''b'') (KInt b) \<noteq> None" using ok unfolding queueOk_def by blast
      moreover have "taskEntries keyOf s' b \<noteq> Map.empty" using that by auto
      ultimately show ?thesis using c unfolding cleared_def by blast
    qed
  qed (use c in \<open>auto simp: cleared_def\<close>)
  then show ?thesis by (simp add: omap_rdel_def)
qed

end

section \<open>Completing history tasks\<close>

lemma plain_retireBucket [txn_intros]: "plain_prog (retireBucket E k i b)"
  by (auto simp: retireBucket_def Let_def policy_defs intro!: txn_intros split: sum.splits)

lemma plain_completeBuckets [txn_intros]: "plain_prog (completeBuckets E lo hi keyOf idx bs)"
  by (induction bs) (auto intro!: txn_intros split: sum.splits)



section \<open>Retiring a bucket is not atomic\<close>

text \<open>The first commands of one client, and its whole run, as steps of the interleaving.\<close>

fun advance :: "(cmd \<Rightarrow> 'db \<Rightarrow> resp \<times> 'db) \<Rightarrow> nat \<Rightarrow> 'a prog \<Rightarrow> 'db \<Rightarrow> 'a prog \<times> 'db" where
  "advance srv (Suc n) (Cmd c k) db = (case srv c db of (r, db') \<Rightarrow> advance srv n (k r) db')"
| "advance srv n p db = (p, db)"

lemma advance_isteps:
  "i < length ps \<Longrightarrow> ps ! i = p \<Longrightarrow> advance srv n p db = (p', db') \<Longrightarrow> (istep srv)\<^sup>*\<^sup>* (ps, db) (ps[i := p'], db')"
proof (induction srv n p db arbitrary: ps rule: advance.induct)
  case (1 srv n c k db)
  obtain r db1 where r: "srv c db = (r, db1)" by fastforce
  with 1 have "istep srv (ps, db) (ps[i := k r], db1)" by (intro istep.client)
  moreover have "(istep srv)\<^sup>*\<^sup>* (ps[i := k r], db1) (ps[i := k r, i := p'], db')"
    using 1 r by (intro "1.IH") auto
  ultimately show ?case by (simp add: converse_rtranclp_into_rtranclp)
qed (use list_update_id in fastforce)+

lemma run_isteps:
  "i < length ps \<Longrightarrow> ps ! i = p \<Longrightarrow> run srv p db = (x, db') \<Longrightarrow> (istep srv)\<^sup>*\<^sup>* (ps, db) (ps[i := Ret x], db')"
proof (induction p arbitrary: ps db)
  case (Ret y)
  then show ?case by (metis list_update_id prod.inject rtranclp.rtrancl_refl run.simps(1))
next
  case (Cmd c k)
  obtain r db1 where r: "srv c db = (r, db1)" by fastforce
  with Cmd.prems have "istep srv (ps, db) (ps[i := k r], db1)" by (intro istep.client)
  moreover have "(istep srv)\<^sup>*\<^sup>* (ps[i := k r], db1) (ps[i := k r, i := Ret x], db')"
    using Cmd.prems r by (intro Cmd.IH) auto
  ultimately show ?case by (simp add: converse_rtranclp_into_rtranclp)
qed


text \<open>Task 5 is completed while task 6, of the same bucket, is added between the two halves.\<close>

definition raceStore :: store where
  "raceStore = [shardKey sample_env 7 \<mapsto> [''range_id'' \<mapsto> BVal (GInt 4)],
     historyTaskKey sample_env 7 1 0 \<mapsto> [''t'' \<mapsto> BMap [(KInt 5, blobValue sample_env (Some \<lparr>blob_data = [7], blob_enc = 1\<rparr>))]],
     historyTaskIndexKey sample_env 7 1 \<mapsto> [''b'' \<mapsto> BMap [(KInt 0, GInt 1)]]]"

definition raceClients :: "unit io list" where
  "raceClients =
     [RangeCompleteHistoryTasks sample_env 7 sampleCat \<lparr>FireTime = 0, TaskID = 1\<rparr> \<lparr>FireTime = 0, TaskID = 6\<rparr>,
      AddHistoryTasks sample_env 7 4 (taskReq [(sampleCat, [(\<lparr>FireTime = 0, TaskID = 6\<rparr>, \<lparr>blob_data = [8], blob_enc = 1\<rparr>)])])]"

lemma race_buckets:
  "bucketRange \<lparr>scheduled = False\<rparr> \<lparr>FireTime = 0, TaskID = 1\<rparr> \<lparr>FireTime = 0, TaskID = 6\<rparr> = (0, 0)"
  "bucket \<lparr>scheduled = False\<rparr> \<lparr>FireTime = 0, TaskID = 6\<rparr> = 0"
  by code_simp+

lemma race_tasks:
  "groupTasks sample_env \<lparr>scheduled = False\<rparr> [\<lparr>ht_Key = \<lparr>FireTime = 0, TaskID = 6\<rparr>, ht_Blob = Some v\<rparr>] =
     [(0, [MapPutOp ''t'' (KInt 6) (blobValue sample_env (Some v))])]"
  "rangeMap sample_env [x] = [x]"
  by (simp_all add: groupTasks_def race_buckets encode_def rangeMap_def sample_env_def)

lemma race_keys:
  "shardKey E a \<noteq> historyTaskKey E b c d" "historyTaskKey E b c d \<noteq> shardKey E a"
  "shardKey E a \<noteq> historyTaskIndexKey E b c" "historyTaskIndexKey E b c \<noteq> shardKey E a"
  by (simp_all add: store_key_defs)

lemma race_prefix:
  "advance (mem_server Q) 2 (raceClients ! 0) (mem_init raceStore) =
    (tryP (retireBucket sample_env (historyTaskKey sample_env 7 1 0) (historyTaskIndexKey sample_env 7 1) 0) (\<lambda>_. Ret (Inr ())),
     mem_init (raceStore(historyTaskKey sample_env 7 1 0 \<mapsto> [''t'' \<mapsto> BMap []])))"
  by (simp add: raceClients_def RangeCompleteHistoryTasks_def race_buckets codecFor_def populatedBuckets_def indexBuckets_def encodeValue_def encode_def
    cmd_prog_defs tryP_def numeral_2_eq_2 mem_init_def raceStore_def map_access_def op_record_def omap_range_def omap_rdel_def in_range_def
    List.map_filter_simps lastOpResultInt_def fun_upd_idem)

text \<open>What the second client did to the store, and what the rest of the first then does.\<close>

lemma raceStore_rep:
  "histRep sample_env 7 sampleCat (raceStore(historyTaskKey sample_env 7 1 0 \<mapsto> [''t'' \<mapsto> BMap []])) []"
  by (simp add: histRep_def represents_def queueOk_def binOf_def taskEntries_def raceStore_def race_keys entries_def omap_ok_def)

lemma raceStore_lease: "leaseID sample_env 7 (raceStore(historyTaskKey sample_env 7 1 0 \<mapsto> r)) = Some 4"
  by (simp add: leaseID_def raceStore_def race_keys bin_int_def)

lemma race_suffix:
  assumes "histRep sample_env 7 sampleCat (m_store db) m"
  shows "\<exists>db'. run (mem_server Q) (tryP (retireBucket sample_env (historyTaskKey sample_env 7 1 0) (historyTaskIndexKey sample_env 7 1) 0) (\<lambda>_. Ret (Inr ()))) db = (Inr (), db')
    \<and> m_store db' (historyTaskKey sample_env 7 1 0) = None"
proof -
  let ?k = "historyTaskKey sample_env 7 1 0" and ?i = "historyTaskIndexKey sample_env 7 1"
  have i: "map_ok (binOf ((m_store db)(?k := None)) ?i ''b'')"
    using assms by (simp add: histRep_def represents_def queueOk_def binOf_def)
  have del: "prun Q (pbind (deleteP (deletePolicy sample_env) ?k) h) (m_store db) = prun Q (h (Inr (m_store db ?k \<noteq> None))) ((m_store db)(?k := None))" for h :: "_ \<Rightarrow> unit io"
    by (auto simp: prog_simps fun_upd_idem split: option.splits)
  obtain s' where s': "prun Q (retireBucket sample_env ?k ?i 0) (m_store db) = (Inr (), s')" "s' ?k = None"
  proof -
    let ?p = "prun Q (retireBucket sample_env ?k ?i 0) (m_store db)"
    have "fst ?p = Inr () \<and> snd ?p ?k = None"
      unfolding retireBucket_def Let_def del sum.case by (subst prun_remove_key [OF i], subst prun_remove_key [OF i]) auto
    with that show thesis by (metis prod.collapse)
  qed
  have "plain_prog (tryP (retireBucket sample_env ?k ?i 0) (\<lambda>_. Ret (Inr ())))" by (intro txn_intros) simp
  from mem.quiet_plain_run [OF this, of Q db "Inr ()" s'] s' show ?thesis by (auto simp: prun_tryP)
qed

text \<open>
  C14. The two halves of \<^verbatim>\<open>RangeCompleteHistoryTasks\<close> are separate commands, and a task added in between is
  destroyed: there is an interleaving, on a server without any fault, in which completing the tasks below
  6 and adding task 6 both report success, and afterwards the bucket of task 6 does not exist.
\<close>

theorem RangeCompleteHistoryTasks_loses_task:
  "\<exists>db. (istep (mem_server sampleQuirks))\<^sup>*\<^sup>* (raceClients, mem_init raceStore) ([Ret (Inr ()), Ret (Inr ())], db)
    \<and> m_store db (historyTaskKey sample_env 7 1 0) = None"
proof -
  let ?srv = "mem_server sampleQuirks" and ?db1 = "mem_init (raceStore(historyTaskKey sample_env 7 1 0 \<mapsto> [''t'' \<mapsto> BMap []]))"
  let ?cs = "[(sampleCat, [(\<lparr>FireTime = 0, TaskID = 6\<rparr>, \<lparr>blob_data = [8], blob_enc = 1\<rparr>)])]"
  let ?A = "tryP (retireBucket sample_env (historyTaskKey sample_env 7 1 0) (historyTaskIndexKey sample_env 7 1) 0) (\<lambda>_. Ret (Inr ()))"
  have one: "(istep ?srv)\<^sup>*\<^sup>* (raceClients, mem_init raceStore) (raceClients[0 := ?A], ?db1)"
    by (rule advance_isteps [OF _ refl race_prefix]) (simp add: raceClients_def)
  have ok: "taskReqOk ?cs" by (simp add: taskReqOk_def keyValid_def codecFor_def)
  have hold: "queuesHold sample_env 7 (m_store ?db1) (map fst ?cs) (\<lambda>_. [])"
    using raceStore_rep by (simp add: queuesHold_def mem_init_def)
  have lease: "leaseID sample_env 7 (m_store ?db1) = Some 4" using raceStore_lease by (simp add: mem_init_def)
  obtain db2 where db2: "run ?srv (AddHistoryTasks sample_env 7 4 (taskReq ?cs)) ?db1 = (Inr (), db2)"
    "\<exists>m. histRep sample_env 7 sampleCat (m_store db2) m"
    using AddHistoryTasks_total [OF mem.quiet_aerospike_axioms sample.temporal_api_axioms ok lease hold, of sampleQuirks] by (auto simp del: fun_upd_apply)
  from db2(1) have two: "(istep ?srv)\<^sup>*\<^sup>* (raceClients[0 := ?A], ?db1) (raceClients[0 := ?A, 1 := Ret (Inr ())], db2)"
    by (intro run_isteps) (simp_all add: raceClients_def)
  from db2(2) obtain db3 where db3: "run ?srv ?A db2 = (Inr (), db3)" "m_store db3 (historyTaskKey sample_env 7 1 0) = None"
    using race_suffix by blast
  have "(istep ?srv)\<^sup>*\<^sup>* (raceClients[0 := ?A, 1 := Ret (Inr ())], db2) (raceClients[0 := ?A, 1 := Ret (Inr ()), 0 := Ret (Inr ())], db3)"
    using db3(1) by (intro run_isteps) (simp_all add: raceClients_def)
  with one two db3(2) show ?thesis by (auto simp: raceClients_def dest: rtranclp_trans)
qed

section \<open>The dead-letter queue\<close>

definition dlqRep :: "env \<Rightarrow> int32 \<Rightarrow> string \<Rightarrow> store \<Rightarrow> (mkey, gval) omap \<Rightarrow> bool" where
  "dlqRep E sh src s m \<longleftrightarrow> represents E dlqCodec (dlqKey E sh src) (dlqIndexKey E sh src) s m"

lemma prun_dlqEmptyLoop:
  assumes "\<And>b. map_ok (binOf s (keyOf b) ''t'')"
  shows "prun Q (dlqEmptyLoop E lo keyOf bs) s =
    (Inr (\<forall>b \<in> set bs. omap_range lo None (the_map (binOf s (keyOf b) ''t'')) = []), s)"
proof (induction bs)
  case (Cons b bs)
  have none: "s (keyOf b) = None \<Longrightarrow> binOf s (keyOf b) ''t'' = None" by (simp add: binOf_def)
  show ?case
    using Cons none by (auto simp: prun_map_read [OF assms] omap_range_def)
qed simp

lemma plain_dlqEmptyLoop [txn_intros]: "plain_prog (dlqEmptyLoop E lo keyOf bs)"
  by (induction bs) (auto intro!: txn_intros split: sum.splits)

text \<open>
  \<^verbatim>\<open>IsReplicationDLQEmpty\<close> answers the question it is asked: true exactly when the dead-letter queue of
  the source cluster holds no task at or above the given key, whatever buckets the index lists.
\<close>

lemma IsReplicationDLQEmpty_correct:
  assumes srv: "quiet_aerospike Q srv store_of base_of work_of"
    and rep: "dlqRep E sh src (store_of db) m" and lo: "keyValid dlqCodec lo"
  shows "\<exists>db'. run srv (IsReplicationDLQEmpty E sh src lo) db = (Inr (omap_range (encode dlqCodec lo) None m = []), db') \<and> store_of db' = store_of db"
proof -
  let ?s = "store_of db" and ?k = "dlqKey E sh src" and ?i = "dlqIndexKey E sh src"
  have ok: "queueOk E dlqCodec ?k ?i ?s" "omap_ok m" and content: "\<And>mk x. map_of m mk = Some x \<longleftrightarrow> (\<exists>b. taskEntries ?k ?s b mk = Some x)"
    using rep by (auto simp: dlqRep_def represents_def)
  have maps: "\<And>b. map_ok (binOf ?s (?k b) ''t'')" "map_ok (binOf ?s ?i ''b'')" using ok(1) by (simp_all add: queueOk_def)
  let ?bs = "List.map_filter (intKey \<circ> fst) (omap_range (KInt (bucket dlqCodec lo)) None (the_map (binOf ?s ?i ''b'')))"
  have none: "?s ?i = None \<Longrightarrow> binOf ?s ?i ''b'' = None" by (simp add: binOf_def)
  have read: "List.map_filter asInt64 (map (\<lambda>p. read_key (fst p)) m) = List.map_filter (intKey \<circ> fst) m" for m :: "(mkey, gval) omap"
    by (simp add: map_filter_map o_def asInt64_read_key)
  have "prun Q (IsReplicationDLQEmpty E sh src lo) ?s = prun Q (dlqEmptyLoop E (encode dlqCodec lo) ?k ?bs) ?s"
    using none by (auto simp: IsReplicationDLQEmpty_def prun_map_read [OF maps(2)] encodeValue_def read omap_range_def List.map_filter_simps)
  also have "\<dots> = (Inr (\<forall>b \<in> set ?bs. omap_range (encode dlqCodec lo) None (the_map (binOf ?s (?k b) ''t'')) = []), ?s)"
    by (rule prun_dlqEmptyLoop) (rule maps)
  also have "(\<forall>b \<in> set ?bs. omap_range (encode dlqCodec lo) None (the_map (binOf ?s (?k b) ''t'')) = []) \<longleftrightarrow> omap_range (encode dlqCodec lo) None m = []"
  proof -
    have mem: "entries v mk = Some x \<longleftrightarrow> (mk, x) \<in> set (the_map v)" if "map_ok v" for v mk x
      unfolding entries_def by (rule omap_map_of [OF omap_ok_the_map [OF that]])
    have listed: "b \<in> set ?bs" if e: "taskEntries ?k ?s b mk = Some x" "encode dlqCodec lo \<le> mk" for b mk x
    proof -
      obtain k where k: "keyValid dlqCodec k" "bucket dlqCodec k = b" "mk = encode dlqCodec k" "entries (binOf ?s ?i ''b'') (KInt b) \<noteq> None"
        using ok(1) e(1) unfolding queueOk_def by blast
      have "sint (bucket dlqCodec lo) \<le> sint b" using bucket_mono [OF lo k(1)] e(2) k by (simp add: encode_le lo)
      moreover obtain y where "(KInt b, y) \<in> set (the_map (binOf ?s ?i ''b''))" using k(4) mem [OF maps(2)] by blast
      ultimately show ?thesis by (force simp: set_map_filter omap_range_def in_range_def)
    qed
    have "omap_range (encode dlqCodec lo) None m = [] \<longleftrightarrow> (\<forall>mk x. (mk, x) \<in> set m \<longrightarrow> \<not> encode dlqCodec lo \<le> mk)"
      by (auto simp: omap_range_def in_range_def filter_empty_conv)
    then have "omap_range (encode dlqCodec lo) None m = [] \<longleftrightarrow> (\<nexists>b mk x. taskEntries ?k ?s b mk = Some x \<and> encode dlqCodec lo \<le> mk)"
      unfolding omap_map_of [OF ok(2), symmetric] content by blast
    moreover have "omap_range (encode dlqCodec lo) None (the_map (binOf ?s (?k b) ''t'')) = [] \<longleftrightarrow>
        (\<forall>mk x. taskEntries ?k ?s b mk = Some x \<longrightarrow> \<not> encode dlqCodec lo \<le> mk)" for b
      by (auto simp: taskEntries_def mem [OF maps(1)] omap_range_def in_range_def filter_empty_conv)
    ultimately show ?thesis using listed by blast
  qed
  finally have run: "prun Q (IsReplicationDLQEmpty E sh src lo) ?s = (Inr (omap_range (encode dlqCodec lo) None m = []), ?s)" .
  have "plain_prog (IsReplicationDLQEmpty E sh src lo)"
    unfolding IsReplicationDLQEmpty_def by (auto intro!: txn_intros split: sum.splits)
  from quiet_aerospike.quiet_plain_run [OF srv this run] show ?thesis .
qed

lemma IsReplicationDLQEmpty_correct_witness:
  "\<exists>db'. run (mem_server sampleQuirks) (IsReplicationDLQEmpty sample_env 7 ''east'' \<lparr>FireTime = 0, TaskID = 3\<rparr>) (mem_init Map.empty) = (Inr True, db')"
proof -
  have "dlqRep sample_env 7 ''east'' (m_store (mem_init Map.empty)) []"
    by (simp add: dlqRep_def represents_def queueOk_def binOf_def taskEntries_def mem_init_def entries_def)
  from IsReplicationDLQEmpty_correct [OF mem.quiet_aerospike_axioms this, of "\<lparr>FireTime = 0, TaskID = 3\<rparr>" sampleQuirks] show ?thesis
    by (auto simp: keyValid_def dlqCodec_def omap_range_def)
qed

end
