(* ===== verification/Paging.thy ===== *)
theory Paging
  imports ShardFence
begin

text \<open>
  Listing a set page by page: the insertion sort of \<^verbatim>\<open>metadata_store.go\<close> and the cursor arithmetic of
  \<^verbatim>\<open>cluster_metadata_store.go\<close>, shared by every operation that scans a set. The sort is proved to be the
  stable sort; the locale \<open>listing\<close> states what a paged listing promises and shows that following its
  cursors yields the whole listing.
\<close>

section \<open>The code\<close>

text \<open>The inner loop of \<^verbatim>\<open>sortByDigest\<close>: swap down while smaller than the left neighbour.\<close>

fun sinkDown :: "('a \<Rightarrow> string) \<Rightarrow> nat \<Rightarrow> 'a list \<Rightarrow> 'a list" where
  "sinkDown keyOf 0 xs = xs"
| "sinkDown keyOf (Suc j) xs =
     (if keyOf (xs ! Suc j) < keyOf (xs ! j) then sinkDown keyOf j (xs[Suc j := xs ! j, j := xs ! Suc j]) else xs)"

lemma length_sinkDown [simp]: "length (sinkDown keyOf j xs) = length xs"
  by (induction keyOf j xs rule: sinkDown.induct) simp_all

function sortLoop :: "('a \<Rightarrow> string) \<Rightarrow> nat \<Rightarrow> 'a list \<Rightarrow> 'a list" where
  "sortLoop keyOf i xs = (if i < length xs then sortLoop keyOf (Suc i) (sinkDown keyOf i xs) else xs)"
  by pat_completeness auto
termination
  by (relation "measure (\<lambda>(keyOf, i, xs). length xs - i)") auto

declare sortLoop.simps [simp del]

definition sortByDigest :: "('a \<Rightarrow> string) \<Rightarrow> 'a list \<Rightarrow> 'a list" where
  "sortByDigest keyOf xs = sortLoop keyOf 1 xs"

text \<open>The loop of \<^verbatim>\<open>pageStart\<close> from index \<open>i\<close>; a token is a byte string, here the text it came from.\<close>

function startLoop :: "nat \<Rightarrow> string \<Rightarrow> (nat \<Rightarrow> string) \<Rightarrow> nat \<Rightarrow> nat" where
  "startLoop n cursor digestAt i =
     (if i < n then (if cursor < digestAt i then i else startLoop n cursor digestAt (Suc i)) else n)"
  by pat_completeness auto
termination
  by (relation "measure (\<lambda>(n, cursor, digestAt, i). n - i)") auto

declare startLoop.simps [simp del]

definition pageStart :: "nat \<Rightarrow> string \<Rightarrow> (nat \<Rightarrow> string) \<Rightarrow> nat" where
  "pageStart n token digestAt = (if token = [] then 0 else startLoop n token digestAt 0)"

definition pageEnd :: "nat \<Rightarrow> int \<Rightarrow> nat \<Rightarrow> nat" where
  "pageEnd start pageSize n =
     (if pageSize \<le> 0 then n
      else let stop = int start + pageSize in if int n < stop then n else nat stop)"

section \<open>The sort\<close>

lemma sinkDown_insert:
  assumes "sorted (map keyOf as)"
  shows "sinkDown keyOf (length as) (as @ x # bs) =
    takeWhile (\<lambda>y. keyOf y \<le> keyOf x) as @ x # dropWhile (\<lambda>y. keyOf y \<le> keyOf x) as @ bs"
  using assms
proof (induction as arbitrary: bs rule: rev_induct)
  case (snoc y as)
  let ?P = "\<lambda>y. keyOf y \<le> keyOf x"
  have nth: "((as @ [y]) @ x # bs) ! Suc (length as) = x" "((as @ [y]) @ x # bs) ! length as = y"
    by (simp_all add: nth_append)
  show ?case
  proof (cases "keyOf x < keyOf y")
    case True
    have "((as @ [y]) @ x # bs)[Suc (length as) := y, length as := x] = as @ x # y # bs"
      by (simp add: list_update_append)
    then have "sinkDown keyOf (length (as @ [y])) ((as @ [y]) @ x # bs) = sinkDown keyOf (length as) (as @ x # y # bs)"
      using True by (simp add: nth del: append_assoc)
    also have "\<dots> = takeWhile ?P as @ x # dropWhile ?P as @ y # bs"
      using snoc by (simp add: sorted_append)
    also have "\<dots> = takeWhile ?P (as @ [y]) @ x # dropWhile ?P (as @ [y]) @ bs"
      using True by (auto simp: takeWhile_append dropWhile_append takeWhile_eq_all_conv [THEN iffD2])
    finally show ?thesis .
  next
    case False
    then have all: "\<forall>z \<in> set (as @ [y]). ?P z" using snoc.prems by (force simp: sorted_append)
    then have "takeWhile ?P (as @ [y]) = as @ [y]" "dropWhile ?P (as @ [y]) = []"
      by (simp_all only: takeWhile_eq_all_conv dropWhile_eq_Nil_conv)
    moreover have "sinkDown keyOf (length (as @ [y])) ((as @ [y]) @ x # bs) = (as @ [y]) @ x # bs"
      using False by (simp add: nth del: append_assoc)
    ultimately show ?thesis by simp
  qed
qed simp

lemma sort_key_snoc:
  "sort_key f (as @ [x]) = takeWhile (\<lambda>y. f y \<le> f x) (sort_key f as) @ x # dropWhile (\<lambda>y. f y \<le> f x) (sort_key f as)"
    (is "_ = ?t @ x # ?d")
proof (rule properties_for_sort_key)
  let ?P = "\<lambda>y. f y \<le> f x"
  have td: "?t @ ?d = sort_key f as" by (rule takeWhile_dropWhile_id)
  have "mset ?t + mset ?d = mset as" using arg_cong [OF td, of mset] by (simp only: mset_append mset_sort)
  then show "mset (?t @ x # ?d) = mset (as @ [x])" by simp
  have "sorted (map f (?t @ ?d))" unfolding td by simp
  then have s: "sorted (map f ?t)" "sorted (map f ?d)" by (simp_all only: map_append sorted_append)
  have later: "f x < f y" if "y \<in> set ?d" for y
  proof -
    from that obtain z zs where z: "?d = z # zs" by (cases ?d) auto
    then have "\<not> f z \<le> f x" by (metis hd_dropWhile list.distinct(1) list.sel(1))
    moreover have "f z \<le> f y" using that s(2) z by auto
    ultimately show ?thesis by simp
  qed
  have early: "f y \<le> f x" if "y \<in> set ?t" for y using set_takeWhileD [OF that] by simp
  show "sorted (map f (?t @ x # ?d))"
    using s early later by (auto simp: sorted_append less_imp_le intro: order_trans [of _ "f x"])
  show "filter (\<lambda>y. f k = f y) (?t @ x # ?d) = filter (\<lambda>y. f k = f y) (as @ [x])" if "k \<in> set (?t @ x # ?d)" for k
  proof -
    have "filter (\<lambda>y. f k = f y) as = filter (\<lambda>y. f k = f y) (?t @ ?d)"
      using sort_key_stable [of f "f k" as] unfolding td by (simp only: eq_commute [of "f k"])
    then have stable: "filter (\<lambda>y. f k = f y) as = filter (\<lambda>y. f k = f y) ?t @ filter (\<lambda>y. f k = f y) ?d"
      by (simp only: filter_append)
    have "filter (\<lambda>y. f k = f y) ?d = []" if "f k = f x"
      using later that by (fastforce simp: filter_empty_conv)
    with stable show ?thesis by auto
  qed
qed

lemma sortLoop_sort: "sortLoop keyOf (length as) (sort_key keyOf as @ bs) = sort_key keyOf (as @ bs)"
proof (induction bs arbitrary: as)
  case Nil
  then show ?case by (simp add: sortLoop.simps)
next
  case (Cons x bs)
  have "sinkDown keyOf (length as) (sort_key keyOf as @ x # bs) = sort_key keyOf (as @ [x]) @ bs"
    using sinkDown_insert [of keyOf "sort_key keyOf as" x bs] by (simp add: sort_key_snoc)
  then show ?case
    using Cons.IH [of "as @ [x]"] by (subst sortLoop.simps) simp
qed


lemma sortByDigest_sort_eq: "sortByDigest keyOf xs = sort_key keyOf xs"
proof (cases xs)
  case Nil
  then show ?thesis by (simp add: sortByDigest_def sortLoop.simps)
next
  case (Cons x bs)
  then show ?thesis using sortLoop_sort [of keyOf "[x]" bs] by (simp add: sortByDigest_def)
qed

text \<open>
  C16. \<^verbatim>\<open>sortByDigest\<close>, an insertion sort by swaps on the slice, leaves the slice as the stable sort of what
  it was: ascending in the key, a permutation, and entries with equal keys in their old order.
\<close>

theorem sortByDigest_stable_sort:
  "sorted (map keyOf (sortByDigest keyOf xs)) \<and> mset (sortByDigest keyOf xs) = mset xs \<and>
   filter (\<lambda>x. keyOf x = k) (sortByDigest keyOf xs) = filter (\<lambda>x. keyOf x = k) xs"
  unfolding sortByDigest_sort_eq by (simp add: sort_key_stable)

section \<open>Pages\<close>

lemma startLoop_filter:
  assumes "sorted (map keyOf xs)" "i \<le> length xs" "\<And>j. j < i \<Longrightarrow> keyOf (xs ! j) \<le> cursor"
  shows "drop (startLoop (length xs) cursor (\<lambda>i. keyOf (xs ! i)) i) xs = filter (\<lambda>x. cursor < keyOf x) xs \<and>
    startLoop (length xs) cursor (\<lambda>i. keyOf (xs ! i)) i \<le> length xs"
  using assms(2,3)
proof (induction "length xs" cursor "\<lambda>i. keyOf (xs ! i)" i rule: startLoop.induct)
  case (1 cursor i)
  have before: "filter (\<lambda>x. cursor < keyOf x) (take i xs) = []"
    using "1.prems" by (auto simp: filter_empty_conv in_set_conv_nth not_less)
  have split: "filter (\<lambda>x. cursor < keyOf x) xs = filter (\<lambda>x. cursor < keyOf x) (drop i xs)"
    using before filter_append [of "\<lambda>x. cursor < keyOf x" "take i xs" "drop i xs"] by simp
  show ?case
  proof (cases "i < length xs \<and> \<not> cursor < keyOf (xs ! i)")
    case True
    then have "keyOf (xs ! j) \<le> cursor" if "j < Suc i" for j using that "1.prems" by (cases "j = i") auto
    with True 1 show ?thesis by (subst (1 2) startLoop.simps) simp
  next
    case False
    have "cursor < keyOf x" if "x \<in> set (drop i xs)" for x
    proof -
      from that obtain j where j0: "j < length xs - i" "x = drop i xs ! j" by (auto simp: in_set_conv_nth)
      then have j: "i + j < length xs" "x = xs ! (i + j)" by (simp_all add: add.commute less_diff_conv)
      have "keyOf (xs ! i) \<le> keyOf (xs ! (i + j))" using assms(1) j by (auto simp: sorted_iff_nth_mono)
      with False j show ?thesis by auto
    qed
    then have "filter (\<lambda>x. cursor < keyOf x) (drop i xs) = drop i xs" by (simp add: filter_id_conv)
    with False split show ?thesis by (subst (1 2) startLoop.simps) auto
  qed
qed

text \<open>
  The window that \<^verbatim>\<open>pageStart\<close> and \<^verbatim>\<open>pageEnd\<close> cut out of a sorted slice: it starts behind the cursor, has the
  page size, or everything when none is given, and ends before the end of the slice iff there is more.
\<close>

definition behind :: "string \<Rightarrow> (string \<times> 'a) list \<Rightarrow> (string \<times> 'a) list" where
  "behind cursor xs = filter (\<lambda>x. cursor = [] \<or> cursor < fst x) xs"

lemma drop_pageStart:
  assumes "sorted (map fst xs)"
  shows "drop (pageStart (length xs) cursor (\<lambda>i. fst (xs ! i))) xs = behind cursor xs"
    "pageStart (length xs) cursor (\<lambda>i. fst (xs ! i)) \<le> length xs"
  using startLoop_filter [of fst xs 0 cursor] assms by (auto simp: pageStart_def behind_def filter_id_conv)

lemma window:
  assumes drop: "drop start xs = behind cursor xs" "start \<le> length xs" and stop: "stop = pageEnd start pageSize (length xs)"
  shows "take (stop - start) (drop start xs) = (if pageSize \<le> 0 then behind cursor xs else take (nat pageSize) (behind cursor xs))"
    "start \<le> stop" "stop < length xs \<longleftrightarrow> 0 < pageSize \<and> nat pageSize < length (behind cursor xs)"
    "stop - start = (if pageSize \<le> 0 then length (behind cursor xs) else min (nat pageSize) (length (behind cursor xs)))"
    "0 < pageSize \<Longrightarrow> nat pageSize \<le> length (behind cursor xs) \<Longrightarrow> xs ! (stop - 1) = behind cursor xs ! (nat pageSize - 1)"
proof -
  have len: "length (behind cursor xs) = length xs - start" using arg_cong [OF drop(1), of length] by simp
  have stop': "stop = (if pageSize \<le> 0 \<or> length (behind cursor xs) < nat pageSize then length xs else start + nat pageSize)"
    using drop(2) by (auto simp: stop pageEnd_def len Let_def nat_add_distrib)
  show size: "stop - start = (if pageSize \<le> 0 then length (behind cursor xs) else min (nat pageSize) (length (behind cursor xs)))"
    and "start \<le> stop" "stop < length xs \<longleftrightarrow> 0 < pageSize \<and> nat pageSize < length (behind cursor xs)"
    using drop(2) len by (auto simp: stop')
  show "take (stop - start) (drop start xs) = (if pageSize \<le> 0 then behind cursor xs else take (nat pageSize) (behind cursor xs))"
    unfolding size drop(1) by (simp add: min_def)
  show "xs ! (stop - 1) = behind cursor xs ! (nat pageSize - 1)" if "0 < pageSize" "nat pageSize \<le> length (behind cursor xs)"
  proof -
    have "stop - 1 = start + (nat pageSize - 1)" using that by (auto simp: stop')
    then show ?thesis using that len drop(2) unfolding drop(1) [symmetric] by simp
  qed
qed

lemma filter_greater_nth:
  fixes f :: "'a \<Rightarrow> 'b::linorder"
  assumes "sorted_wrt (<) (map f xs)" "n < length xs"
  shows "filter (\<lambda>x. f (xs ! n) < f x) xs = drop (Suc n) xs"
proof -
  have s: "sorted_wrt (<) (map f (take (Suc n) xs) @ map f (drop (Suc n) xs))"
    unfolding map_append [symmetric] append_take_drop_id by (rule assms(1))
  have last: "take (Suc n) xs = take n xs @ [xs ! n]" using assms(2) by (rule take_Suc_conv_app_nth)
  have "filter (\<lambda>x. f (xs ! n) < f x) (take (Suc n) xs) = []"
    using s unfolding last by (auto simp: sorted_wrt_append filter_empty_conv dest: order.asym)
  moreover have "filter (\<lambda>x. f (xs ! n) < f x) (drop (Suc n) xs) = drop (Suc n) xs"
    using s unfolding last by (auto simp: sorted_wrt_append filter_id_conv)
  ultimately show ?thesis
    using filter_append [of "\<lambda>x. f (xs ! n) < f x" "take (Suc n) xs" "drop (Suc n) xs"] by simp
qed

section \<open>Listings\<close>

text \<open>
  A client that follows the cursors of a listing on a server, with a bound on the number of pages: \<open>answer\<close>
  takes the entries and the next token out of a response.
\<close>

fun drain :: "(cmd \<Rightarrow> 'db \<Rightarrow> resp \<times> 'db) \<Rightarrow> ('tok \<Rightarrow> 'r io) \<Rightarrow> ('r \<Rightarrow> 'a list \<times> 'tok) \<Rightarrow> 'tok \<Rightarrow> nat \<Rightarrow> 'tok \<Rightarrow> 'db \<Rightarrow> 'a list option" where
  "drain srv get answer noToken 0 token db = None"
| "drain srv get answer noToken (Suc fuel) token db =
     (case run srv (get token) db of
        (Inl e, _) \<Rightarrow> None
      | (Inr resp, db') \<Rightarrow>
          if snd (answer resp) = noToken then Some (fst (answer resp))
          else map_option ((@) (fst (answer resp))) (drain srv get answer noToken fuel (snd (answer resp)) db'))"

text \<open>
  What a listing promises: on a store with this content, in cursor order, each call returns the next entries
  behind its token, some if there are any, and the token of the last of them unless nothing is left.
\<close>

definition nextPage :: "'tok \<Rightarrow> (string \<Rightarrow> 'tok) \<Rightarrow> (string \<times> 'a) list \<Rightarrow> 'a list \<times> 'tok \<Rightarrow> bool" where
  "nextPage noToken tokenOf rest a \<longleftrightarrow>
     (\<exists>n > 0. fst a = map snd (take n rest) \<and>
        (length rest \<le> n \<and> snd a = noToken \<or> n \<le> length rest \<and> snd a = tokenOf (fst (rest ! (n - 1)))))"

locale listing =
  fixes srv :: "cmd \<Rightarrow> 'db \<Rightarrow> resp \<times> 'db" and store_of :: "'db \<Rightarrow> store" and s :: store
    and get :: "'tok \<Rightarrow> 'r io" and answer :: "'r \<Rightarrow> 'a list \<times> 'tok" and noToken :: 'tok and tokenOf :: "string \<Rightarrow> 'tok"
    and content :: "(string \<times> 'a) list"
  assumes token: "c \<noteq> [] \<Longrightarrow> tokenOf c \<noteq> noToken"
    and page: "store_of db = s \<Longrightarrow> \<exists>resp db'. run srv (get (if c = [] then noToken else tokenOf c)) db = (Inr resp, db') \<and>
      store_of db' = s \<and> nextPage noToken tokenOf (behind c content) (answer resp)"
begin

lemma drain_behind:
  assumes keys: "sorted_wrt (<) (map fst content)" "[] \<notin> fst ` set content"
    and "store_of db = s" "length (behind c content) < fuel"
  shows "drain srv get answer noToken fuel (if c = [] then noToken else tokenOf c) db = Some (map snd (behind c content))"
  using assms(3,4)
proof (induction fuel arbitrary: c db)
  case (Suc fuel)
  let ?r = "behind c content"
  obtain resp db' n where run: "run srv (get (if c = [] then noToken else tokenOf c)) db = (Inr resp, db')" "store_of db' = s" "0 < n"
    and pg: "fst (answer resp) = map snd (take n ?r)" "length ?r \<le> n \<and> snd (answer resp) = noToken \<or> n \<le> length ?r \<and> snd (answer resp) = tokenOf (fst (?r ! (n - 1)))"
    using page [OF Suc.prems(1), of c] unfolding nextPage_def by blast
  show ?case
  proof (cases "snd (answer resp) = noToken")
    case True
    have False if n: "n \<le> length ?r" "snd (answer resp) = tokenOf (fst (?r ! (n - 1)))"
    proof -
      have "?r ! (n - 1) \<in> set ?r" using n(1) run(3) by (intro nth_mem) simp
      then have "fst (?r ! (n - 1)) \<noteq> []" using keys(2) by (force simp: behind_def)
      with True n(2) token show False by metis
    qed
    with pg have "length ?r \<le> n" by blast
    with True run(1) pg(1) show ?thesis by simp
  next
    case False
    with pg(2) have n: "n \<le> length ?r" and nxt: "snd (answer resp) = tokenOf (fst (?r ! (n - 1)))" by auto
    let ?k = "fst (?r ! (n - 1))"
    have mem: "?r ! (n - 1) \<in> set ?r" using n run(3) by (intro nth_mem) simp
    then have k: "?k \<noteq> []" "c = [] \<or> c < ?k" using keys(2) by (force simp: behind_def)+
    have "sorted_wrt (<) (map fst ?r)" using keys(1) unfolding behind_def sorted_wrt_map by (rule sorted_wrt_filter)
    from filter_greater_nth [OF this, of "n - 1"] n run(3) have "filter (\<lambda>x. ?k < fst x) ?r = drop n ?r" by simp
    moreover have "filter (\<lambda>x. ?k < fst x) ?r = behind ?k content"
      using k unfolding behind_def filter_filter by (intro filter_cong) auto
    ultimately have rest: "behind ?k content = drop n ?r" by simp
    then have "length (behind ?k content) < fuel" using Suc.prems(2) n run(3) by simp
    from Suc.IH [OF run(2) this] k(1) have "drain srv get answer noToken fuel (tokenOf ?k) db' = Some (map snd (drop n ?r))"
      unfolding rest by simp
    with False run(1) pg(1) nxt show ?thesis by (simp add: map_append [symmetric] del: map_append)
  qed
qed simp

lemma drain_all:
  assumes "sorted_wrt (<) (map fst content)" "[] \<notin> fst ` set content" "store_of db = s" "length content < fuel"
  shows "drain srv get answer noToken fuel noToken db = Some (map snd content)"
  using drain_behind [OF assms(1-3), of "[]" fuel] assms(4) by (simp add: behind_def)

end

end
