(* ===== verification/HistoryStore.thy ===== *)
theory HistoryStore
  imports Paging
begin

text \<open>
  \<^verbatim>\<open>history_store.go\<close>: history nodes, kept as one payload record per node and one index record per branch,
  and the tree records that list the branches. This theory holds the operations.
\<close>

section \<open>Sort keys\<close>

abbreviation "MaxInt64 \<equiv> (9223372036854775807 :: int64)"

definition historyNodeSortKey :: "int64 \<Rightarrow> int64 \<Rightarrow> bytes" where
  "historyNodeSortKey nodeID txnID = PutUint64 nodeID @ PutUint64 (MaxInt64 - txnID)"

definition decodeHistoryNodeSortKey :: "bytes \<Rightarrow> (int64 \<times> int64) option" where
  "decodeHistoryNodeSortKey b =
     (if length b \<noteq> 16 then None
      else Some (Uint64 (take 8 b), MaxInt64 - Uint64 (drop 8 b)))"

text \<open>The bytewise loop of \<^verbatim>\<open>compareSortKeys\<close> on two strings of the same length.\<close>

fun compareLoop :: "bytes \<Rightarrow> bytes \<Rightarrow> int" where
  "compareLoop (x # xs) (y # ys) = (if x \<noteq> y then (if x < y then -1 else 1) else compareLoop xs ys)"
| "compareLoop _ _ = 0"

definition compareSortKeys :: "bytes \<Rightarrow> bytes \<Rightarrow> bool \<Rightarrow> int" where
  "compareSortKeys a b reverse =
     (let cmp = (if length a \<noteq> length b then (if length a < length b then -1 else 1) else compareLoop a b)
      in if reverse then - cmp else cmp)"

section \<open>Appending\<close>

record append_req =
  ah_BranchInfo :: branch_info
  ah_NodeID :: int64
  ah_TransactionID :: int64
  ah_PrevTransactionID :: int64
  ah_Events :: blob
  ah_IsNewBranch :: bool
  ah_TreeInfo :: "blob option"

definition nodeBins :: "env \<Rightarrow> append_req \<Rightarrow> (string \<times> gval) list" where
  "nodeBins E request =
     [(''node_id'', GInt64 (ah_NodeID request)),
      (''txn_id'', GInt64 (ah_TransactionID request)),
      (''prev_txn'', GInt64 (ah_PrevTransactionID request)),
      (''data'', GBytes (blob_data (ah_Events request))),
      (''enc'', GString (EncodingType_String E (blob_enc (ah_Events request))))]"

definition treeOps :: "env \<Rightarrow> string \<Rightarrow> string \<Rightarrow> blob option \<Rightarrow> operation list" where
  "treeOps E treeID branchID treeInfo =
     [PutOp ''tree_id'' (GString treeID), MapPutOp ''br'' (KStr branchID) (blobValue E treeInfo)]"

definition appendHistoryNodesIn :: "env \<Rightarrow> txnScope \<Rightarrow> append_req \<Rightarrow> unit io" where
  "appendHistoryNodesIn E t request =
     (let treeID = br_treeID (ah_BranchInfo request);
          branchID = br_branchID (ah_BranchInfo request);
          nodeKey = historyNodeKey E treeID branchID (ah_NodeID request) (ah_TransactionID request);
          indexKey = historyBranchKey E treeID branchID
      in pbind (putBinsP (ts_write t) nodeKey (nodeBins E request)) (\<lambda>w. case w of
           Inl err \<Rightarrow> Ret (Inl (convertError ''AppendHistoryNodes'' err))
         | Inr _ \<Rightarrow>
             pbind (operateP (ts_write t) indexKey
                      [MapPutOp ''idx'' (KBytes (historyNodeSortKey (ah_NodeID request) (ah_TransactionID request)))
                         (GInt64 (ah_PrevTransactionID request))]) (\<lambda>r. case r of
                Inl err \<Rightarrow> Ret (Inl (convertError ''AppendHistoryNodes'' err))
              | Inr _ \<Rightarrow>
                  if ah_IsNewBranch request then
                    pbind (operateP (ts_write t) (historyTreeKey E treeID) (treeOps E treeID branchID (ah_TreeInfo request))) (\<lambda>r. case r of
                       Inl err \<Rightarrow> Ret (Inl (convertError ''AppendHistoryNodes'' err))
                     | Inr _ \<Rightarrow> Ret (Inr ()))
                  else Ret (Inr ()))))"

definition AppendHistoryNodes :: "env \<Rightarrow> append_req \<Rightarrow> unit io" where
  "AppendHistoryNodes E request = withTxn E ''AppendHistoryNodes'' (\<lambda>t. appendHistoryNodesIn E t request)"

section \<open>Reading a branch\<close>

record read_branch_req =
  rb_BranchToken :: bytes
  rb_BranchID :: string
  rb_MinNodeID :: int64
  rb_MaxNodeID :: int64
  rb_PageSize :: int
  rb_NextPageToken :: bytes
  rb_ReverseOrder :: bool
  rb_MetadataOnly :: bool

record hist_node =
  hn_NodeID :: int64
  hn_TransactionID :: int64
  hn_PrevTransactionID :: int64
  hn_Events :: "blob option"

record read_branch_resp =
  rr_Nodes :: "hist_node list"
  rr_NextPageToken :: bytes

definition emptyBranch :: read_branch_resp where
  "emptyBranch = \<lparr>rr_Nodes = [], rr_NextPageToken = []\<rparr>"

text \<open>\<^verbatim>\<open>for i, j := 0, len(entries)-1; i < j; ...\<close>: the entries swapped pairwise from both ends.\<close>

function reverseLoop :: "nat \<Rightarrow> nat \<Rightarrow> 'a list \<Rightarrow> 'a list" where
  "reverseLoop i j xs = (if i < j then reverseLoop (i + 1) (j - 1) (xs[i := xs ! j, j := xs ! i]) else xs)"
  by pat_completeness auto
termination
  by (relation "measure (\<lambda>(i, j, xs). j - i)") auto

declare reverseLoop.simps [simp del]

text \<open>The loop that finds the first entry behind the token; \<open>i\<close> counts the entries passed.\<close>

fun resumeLoop :: "bytes \<Rightarrow> bool \<Rightarrow> nat \<Rightarrow> (gval \<times> gval) list \<Rightarrow> nat" where
  "resumeLoop token reverse i [] = i"
| "resumeLoop token reverse i (e # es) =
     (if 0 < compareSortKeys (orZero (asBytes (fst e)) []) token reverse then i
      else resumeLoop token reverse (i + 1) es)"

definition resumeAt :: "bytes \<Rightarrow> bool \<Rightarrow> (gval \<times> gval) list \<Rightarrow> nat" where
  "resumeAt token reverse es = (if 0 < length token then resumeLoop token reverse 0 es else 0)"

text \<open>The page: its entries, and the token of the last of them when the page size cut the rest off.\<close>

definition cutPage :: "int \<Rightarrow> (gval \<times> gval) list \<Rightarrow> (gval \<times> gval) list \<times> bytes" where
  "cutPage pageSize es =
     (if 0 < pageSize \<and> pageSize < int (length es)
      then let es = take (nat pageSize) es in (es, orZero (asBytes (fst (last es))) [])
      else (es, []))"

text \<open>The loop over the page: the nodes, and the payload records to fetch with the index of their node.\<close>

fun collectNodes :: "env \<Rightarrow> string \<Rightarrow> string \<Rightarrow> bool \<Rightarrow> (gval \<times> gval) list \<Rightarrow> hist_node list \<Rightarrow> (nat \<times> askey) list \<Rightarrow>
    hist_node list \<times> (nat \<times> askey) list" where
  "collectNodes E treeID branchID metadataOnly [] nodes toFetch = (nodes, toFetch)"
| "collectNodes E treeID branchID metadataOnly (e # es) nodes toFetch =
     (case decodeHistoryNodeSortKey (orZero (asBytes (fst e)) []) of
        None \<Rightarrow> collectNodes E treeID branchID metadataOnly es nodes toFetch
      | Some (nodeID, txnID) \<Rightarrow>
          let nodes' = nodes @ [\<lparr>hn_NodeID = nodeID, hn_TransactionID = txnID,
                 hn_PrevTransactionID = orZero (asInt64 (snd e)) 0, hn_Events = None\<rparr>]
          in collectNodes E treeID branchID metadataOnly es nodes'
               (if metadataOnly then toFetch
                else toFetch @ [(length nodes' - 1, historyNodeKey E treeID branchID nodeID txnID)]))"

fun fillEvents :: "env \<Rightarrow> (nat \<times> askey) list \<Rightarrow> as_record option list \<Rightarrow> hist_node list \<Rightarrow> hist_node list" where
  "fillEvents E (pf # toFetch) (r # records) nodes =
     fillEvents E toFetch records
       (case r of None \<Rightarrow> nodes
        | Some rec \<Rightarrow> nodes[fst pf := (nodes ! fst pf)\<lparr>hn_Events := readBlob E rec ''data'' ''enc''\<rparr>])"
| "fillEvents E _ _ nodes = nodes"

definition ReadHistoryBranch :: "env \<Rightarrow> read_branch_req \<Rightarrow> read_branch_resp io" where
  "ReadHistoryBranch E request =
     (case ParseHistoryBranchInfo E (rb_BranchToken request) of
        Inl e \<Rightarrow> Ret (Inl e)
      | Inr branch \<Rightarrow>
          let treeID = br_treeID branch; branchID = rb_BranchID request in
          pbind (operateP (writePolicy E) (historyBranchKey E treeID branchID)
                   [MapGetByKeyRangeOp ''idx'' (KBytes (historyNodeSortKey (rb_MinNodeID request) MaxInt64))
                      (Some (KBytes (historyNodeSortKey (rb_MaxNodeID request) MaxInt64))) RetKeyValue]) (\<lambda>r. case r of
             Inl err \<Rightarrow>
               if isNotFound err then Ret (Inr emptyBranch) else Ret (Inl (convertError ''ReadHistoryBranch'' err))
           | Inr rec \<Rightarrow>
               let es = recordMapPairs rec ''idx'' in
               if es = [] then Ret (Inr emptyBranch)
               else
                 let es = (if rb_ReverseOrder request then reverseLoop 0 (length es - 1) es else es);
                     start = resumeAt (rb_NextPageToken request) (rb_ReverseOrder request) es
                 in case cutPage (rb_PageSize request) (drop start es) of (es, nextToken) \<Rightarrow>
                    case collectNodes E treeID branchID (rb_MetadataOnly request) es [] [] of (nodes, toFetch) \<Rightarrow>
                      if toFetch \<noteq> [] then
                        pbind (batchGetP (map snd toFetch) [''data'', ''enc'']) (\<lambda>r. case r of
                           Inl err \<Rightarrow> Ret (Inl (convertError ''ReadHistoryBranch'' err))
                         | Inr records \<Rightarrow>
                             Ret (Inr \<lparr>rr_Nodes = fillEvents E toFetch records nodes, rr_NextPageToken = nextToken\<rparr>))
                      else Ret (Inr \<lparr>rr_Nodes = nodes, rr_NextPageToken = nextToken\<rparr>)))"

section \<open>Forking and deleting\<close>

definition ForkHistoryBranch :: "env \<Rightarrow> branch_info \<Rightarrow> string \<Rightarrow> blob option \<Rightarrow> unit io" where
  "ForkHistoryBranch E forkBranchInfo newBranchID treeInfo =
     pbind (operateP (writePolicy E) (historyTreeKey E (br_treeID forkBranchInfo))
              (treeOps E (br_treeID forkBranchInfo) newBranchID treeInfo)) (\<lambda>r. case r of
        Inl err \<Rightarrow> Ret (Inl (convertError ''ForkHistoryBranch'' err))
      | Inr _ \<Rightarrow> Ret (Inr ()))"

primrec deleteNodes :: "env \<Rightarrow> txnScope \<Rightarrow> string \<Rightarrow> string \<Rightarrow> bytes list \<Rightarrow> unit io" where
  "deleteNodes E t treeID branchID [] = Ret (Inr ())"
| "deleteNodes E t treeID branchID (raw # raws) =
     (case decodeHistoryNodeSortKey raw of
        None \<Rightarrow> deleteNodes E t treeID branchID raws
      | Some (nodeID, txnID) \<Rightarrow>
          pbind (deleteP (ts_del t) (historyNodeKey E treeID branchID nodeID txnID)) (\<lambda>r. case r of
             Inl err \<Rightarrow>
               if \<not> isNotFound err then Ret (Inl (convertError ''deleteBranchNodes'' err))
               else deleteNodes E t treeID branchID raws
           | Inr _ \<Rightarrow> deleteNodes E t treeID branchID raws))"

definition deleteBranchNodesFrom :: "env \<Rightarrow> txnScope \<Rightarrow> string \<Rightarrow> string \<Rightarrow> int64 \<Rightarrow> unit io" where
  "deleteBranchNodesFrom E t treeID branchID beginNodeID =
     (let indexKey = historyBranchKey E treeID branchID;
          lo = KBytes (historyNodeSortKey beginNodeID MaxInt64)
      in pbind (operateP (ts_write t) indexKey [MapGetByKeyRangeOp ''idx'' lo None RetKey]) (\<lambda>r. case r of
           Inl err \<Rightarrow> if isNotFound err then Ret (Inr ()) else Ret (Inl (convertError ''deleteBranchNodes'' err))
         | Inr rec \<Rightarrow>
             tryP (deleteNodes E t treeID branchID (mapKeyList rec ''idx'')) (\<lambda>_.
             pbind (operateP (ts_write t) indexKey [MapRemoveByKeyRangeOp ''idx'' lo None RetNone]) (\<lambda>r. case r of
                Inl err \<Rightarrow> if \<not> isNotFound err then Ret (Inl (convertError ''deleteBranchNodes'' err)) else Ret (Inr ())
              | Inr _ \<Rightarrow> Ret (Inr ())))))"

primrec deleteRanges :: "env \<Rightarrow> txnScope \<Rightarrow> string \<Rightarrow> (string \<times> int64) list \<Rightarrow> unit io" where
  "deleteRanges E t treeID [] = Ret (Inr ())"
| "deleteRanges E t treeID (br # ranges) =
     tryP (deleteBranchNodesFrom E t treeID (fst br) (snd br)) (\<lambda>_. deleteRanges E t treeID ranges)"

definition DeleteHistoryBranch :: "env \<Rightarrow> branch_info \<Rightarrow> (string \<times> int64) list \<Rightarrow> unit io" where
  "DeleteHistoryBranch E branch branchRanges =
     withTxn E ''DeleteHistoryBranch'' (\<lambda>t.
       pbind (operateP (ts_write t) (historyTreeKey E (br_treeID branch))
                [MapRemoveByKeyOp ''br'' (KStr (br_branchID branch)) RetNone]) (\<lambda>r. case r of
          Inl err \<Rightarrow>
            if \<not> isNotFound err then Ret (Inl (convertError ''DeleteHistoryBranch'' err))
            else deleteRanges E t (br_treeID branch) branchRanges
        | Inr _ \<Rightarrow> deleteRanges E t (br_treeID branch) branchRanges))"

definition DeleteHistoryNodes :: "env \<Rightarrow> branch_info \<Rightarrow> int64 \<Rightarrow> int64 \<Rightarrow> unit io" where
  "DeleteHistoryNodes E branch nodeID txnID =
     withTxn E ''DeleteHistoryNodes'' (\<lambda>t.
       let removeEntry =
         pbind (operateP (ts_write t) (historyBranchKey E (br_treeID branch) (br_branchID branch))
                  [MapRemoveByKeyOp ''idx'' (KBytes (historyNodeSortKey nodeID txnID)) RetNone]) (\<lambda>r. case r of
            Inl err \<Rightarrow> if \<not> isNotFound err then Ret (Inl (convertError ''DeleteHistoryNodes'' err)) else Ret (Inr ())
          | Inr _ \<Rightarrow> Ret (Inr ()))
       in pbind (deleteP (ts_del t) (historyNodeKey E (br_treeID branch) (br_branchID branch) nodeID txnID)) (\<lambda>r. case r of
            Inl err \<Rightarrow> if \<not> isNotFound err then Ret (Inl (convertError ''DeleteHistoryNodes'' err)) else removeEntry
          | Inr _ \<Rightarrow> removeEntry))"

section \<open>Trees\<close>

definition treeInfos :: "env \<Rightarrow> (gval \<times> gval) list \<Rightarrow> blob list" where
  "treeInfos E pairs = List.map_filter (\<lambda>p. blobFromValue E (snd p)) pairs"

definition GetHistoryTreeContainingBranch :: "env \<Rightarrow> bytes \<Rightarrow> blob list io" where
  "GetHistoryTreeContainingBranch E branchToken =
     (case ParseHistoryBranchInfo E branchToken of
        Inl e \<Rightarrow> Ret (Inl e)
      | Inr branch \<Rightarrow>
          pbind (getP (readPolicy E) (historyTreeKey E (br_treeID branch)) [''br'']) (\<lambda>r. case r of
             Inl err \<Rightarrow>
               if isNotFound err then Ret (Inr []) else Ret (Inl (convertError ''GetHistoryTreeContainingBranch'' err))
           | Inr rec \<Rightarrow> Ret (Inr (treeInfos E (recordMapPairs rec ''br'')))))"

record branch_detail =
  bd_TreeID :: string
  bd_BranchID :: string
  bd_Encoding :: string
  bd_Data :: bytes

definition branchDetails :: "env \<Rightarrow> as_record \<Rightarrow> branch_detail list" where
  "branchDetails E rec =
     List.map_filter (\<lambda>(k, v).
        case k of
          GString branchID \<Rightarrow> (case blobFromValue E v of
              None \<Rightarrow> None
            | Some b \<Rightarrow> Some \<lparr>bd_TreeID = binString rec ''tree_id'', bd_BranchID = branchID,
                bd_Encoding = EncodingType_String E (blob_enc b), bd_Data = blob_data b\<rparr>)
        | _ \<Rightarrow> None) (recordMapPairs rec ''br'')"

text \<open>\<^verbatim>\<open>for res := range recordset.Results()\<close>: the records of a scan, or the first error.\<close>

fun scanResults :: "string \<Rightarrow> (goerr + as_record) list \<Rightarrow> perr + as_record list" where
  "scanResults operation [] = Inr []"
| "scanResults operation (res # results) =
     (case res of
        Inl err \<Rightarrow> Inl (convertError operation err)
      | Inr rec \<Rightarrow> (case scanResults operation results of Inl e \<Rightarrow> Inl e | Inr recs \<Rightarrow> Inr (rec # recs)))"

definition branchCursor :: "branch_detail \<Rightarrow> string" where
  "branchCursor b = bd_TreeID b @ '':'' @ bd_BranchID b"

definition GetAllHistoryTreeBranches :: "env \<Rightarrow> int \<Rightarrow> string \<Rightarrow> (branch_detail list \<times> string) io" where
  "GetAllHistoryTreeBranches E pageSize nextPageToken =
     pbind (scanAllP (kb_namespace E) (physicalSet E ''htree'')) (\<lambda>r. case r of
        Inl err \<Rightarrow> Ret (Inl (convertError ''GetAllHistoryTreeBranches'' err))
      | Inr results \<Rightarrow>
          (case scanResults ''GetAllHistoryTreeBranches'' results of
             Inl e \<Rightarrow> Ret (Inl e)
           | Inr recs \<Rightarrow>
               let found = sortByDigest branchCursor (concat (map (branchDetails E) recs));
                   start = pageStart (length found) nextPageToken (\<lambda>i. branchCursor (found ! i));
                   stop = pageEnd start pageSize (length found)
               in Ret (Inr (take (stop - start) (drop start found),
                            if stop < length found then branchCursor (found ! (stop - 1)) else []))))"

end
