(* ===== verification/Serial.thy ===== *)
theory Serial
  imports ShardFence
begin

text \<open>
  Several transactions at once. \<open>shared_aerospike\<close> adds to the server's laws that transactions are kept
  apart: a fresh identifier for every new one, and no command of one changes what another has read or
  would write. From that, \<open>serializable\<close>: whatever the interleaving of the single commands of any number
  of transaction scopes, with other clients acting in between and commands failing, the committed store
  is that of running some of the scopes one after the other, each as a whole, and every scope that was
  told it succeeded is among them with the result it was given.
\<close>

definition touches :: "cmd \<Rightarrow> txn \<Rightarrow> bool" where
  "touches c t \<longleftrightarrow> cmd_txn c = Some t \<or> c = CCommit t \<or> c = CAbort t"

locale shared_aerospike = aerospike Q srv store_of base_of work_of interferes
  for Q :: quirks
    and srv :: "cmd \<Rightarrow> 'db \<Rightarrow> resp \<times> 'db"
    and store_of :: "'db \<Rightarrow> store"
    and base_of :: "'db \<Rightarrow> txn \<Rightarrow> base"
    and work_of :: "'db \<Rightarrow> txn \<Rightarrow> work"
    and interferes :: "store \<Rightarrow> store \<Rightarrow> bool" +
  fixes live :: "'db \<Rightarrow> txn set"
  assumes fresh_txn: "srv CNewTxn db = (RTxn t, db') \<Longrightarrow> t \<notin> live db \<and> t \<in> live db'"
    and live_mono: "srv c db = (r, db') \<Longrightarrow> live db \<subseteq> live db'"
    and isolation: "srv c db = (r, db') \<Longrightarrow> t \<in> live db \<Longrightarrow> \<not> touches c t \<Longrightarrow>
      base_of db' t = base_of db t \<and> work_of db' t = work_of db t"

text \<open>What a scope does once its body has returned.\<close>

definition afterBody :: "string \<Rightarrow> txnScope \<Rightarrow> (perr + 'a) \<Rightarrow> 'a io" where
  "afterBody operation t r =
     (case r of
        Inl e \<Rightarrow> pbind (finishTxn t False) (\<lambda>_. Ret (Inl e))
      | Inr x \<Rightarrow> pbind (commitTxn t operation) (\<lambda>cr. case cr of
            Inl e \<Rightarrow> pbind (finishTxn t False) (\<lambda>_. Ret (Inl e))
          | Inr _ \<Rightarrow> pbind (finishTxn t True) (\<lambda>_. Ret (Inr x))))"

lemma withTxn_Cmd: "withTxn E operation body =
    Cmd CNewTxn (\<lambda>r. let t = beginTxn E (case r of RTxn t \<Rightarrow> t | _ \<Rightarrow> 0) in pbind (body t) (afterBody operation t))"
  by (simp add: withTxn_def newTxnP_def afterBody_def [abs_def] Let_def)

lemma afterBody_Inl: "afterBody operation t (Inl e) = Cmd (CAbort (ts_txn t)) (\<lambda>_. Ret (Inl e))"
  by (simp add: afterBody_def finishTxn_def abortP_def)

lemma afterBody_Inr: "afterBody operation t (Inr x) = Cmd (CCommit (ts_txn t)) (\<lambda>r.
    case r of ROk \<Rightarrow> Ret (Inr x) | _ \<Rightarrow> afterBody operation t (Inl (classifyCommitError operation (wrongKind r))))"
  by (auto simp: afterBody_def commitTxn_def commitP_def finishTxn_def split: resp.splits)

lemma afterBody_running [simp]: "pbind q (afterBody operation t) \<noteq> Ret y"
proof (cases q)
  case (Ret r)
  then show ?thesis by (cases r) (simp_all add: afterBody_Inl afterBody_Inr)
qed simp

lemma afterBody_not_Ret [simp]: "afterBody operation t r \<noteq> Ret y"
  using afterBody_running [of "Ret r"] by simp

datatype 'a phase = Start | Body txn "'a io" | Done

fun phase_txn :: "'a phase \<Rightarrow> txn option" where
  "phase_txn (Body t q) = Some t"
| "phase_txn _ = None"

type_synonym 'a scope = "string \<times> (txnScope \<Rightarrow> 'a io)"

definition scopeP :: "env \<Rightarrow> 'a scope \<Rightarrow> 'a io" where
  "scopeP E sc = withTxn E (fst sc) (snd sc)"

context shared_aerospike
begin

text \<open>One scope after the other, with other clients acting in between.\<close>

fun serial :: "env \<Rightarrow> 'a scope list \<Rightarrow> store \<Rightarrow> (nat \<times> 'a) list \<Rightarrow> store \<Rightarrow> bool" where
  "serial E scs s [] s' \<longleftrightarrow> interferes s s'"
| "serial E scs s ((i, x) # log) s' \<longleftrightarrow>
     (\<exists>t s0 s1. interferes s s0 \<and> prun Q (snd (scs ! i) (beginTxn E t)) s0 = (Inr x, s1) \<and> serial E scs s1 log s')"

lemma serial_interferes: "serial E scs s log s' \<Longrightarrow> interferes s' s'' \<Longrightarrow> serial E scs s log s''"
  by (induction E scs s log s' rule: serial.induct) (auto intro: interferes_trans)

lemma serial_snoc:
  "serial E scs s log s' \<Longrightarrow> interferes s' s0 \<Longrightarrow> prun Q (snd (scs ! i) (beginTxn E t)) s0 = (Inr x, s1) \<Longrightarrow>
   interferes s1 s'' \<Longrightarrow> serial E scs s (log @ [(i, x)]) s''"
proof (induction E scs s log s' rule: serial.induct)
  case (1 E scs s s')
  then show ?case by (auto intro: interferes_trans)
next
  case (2 E scs s i x log s')
  then show ?case by fastforce
qed

text \<open>Where a client stands, and what is known of its transaction then.\<close>

fun stands :: "env \<Rightarrow> 'a scope \<Rightarrow> 'a phase \<Rightarrow> 'a io \<Rightarrow> 'db \<Rightarrow> bool" where
  "stands E sc Start p db \<longleftrightarrow> p = scopeP E sc"
| "stands E sc (Body t q) p db \<longleftrightarrow>
     p = pbind q (afterBody (fst sc) (beginTxn E t)) \<and> t \<in> live db \<and> txn_body t q \<and>
     ((\<exists>e. q = Ret (Inl e)) \<or>
      (\<forall>s0. consistent (base_of db t) s0 \<longrightarrow> prun Q (snd sc (beginTxn E t)) s0 = prun Q q (sees s0 (work_of db t))))"
| "stands E sc Done p db \<longleftrightarrow> (\<exists>x. p = Ret x)"

lemma stands_isolated:
  assumes "stands E sc ph p db" "srv c db = (r, db')" "\<And>t. phase_txn ph = Some t \<Longrightarrow> \<not> touches c t"
  shows "stands E sc ph p db'"
  using assms isolation [OF assms(2)] live_mono [OF assms(2)] by (cases ph) auto

text \<open>
  A step of a client: it goes on in its own transaction or in a fresh one. Either only others have changed
  the store and the client has not succeeded, or it has committed.
\<close>

definition goes_on :: "env \<Rightarrow> 'a scope \<Rightarrow> 'a phase \<Rightarrow> 'a phase \<Rightarrow> 'a io \<Rightarrow> 'db \<Rightarrow> 'db \<Rightarrow> bool" where
  "goes_on E sc ph ph' p db db' \<longleftrightarrow>
     stands E sc ph' p db' \<and> (\<forall>t. phase_txn ph' = Some t \<longrightarrow> phase_txn ph = Some t \<or> t \<notin> live db) \<and>
     ((interferes (store_of db) (store_of db') \<and> (\<forall>x. p \<noteq> Ret (Inr x)) \<and>
       ((\<exists>t e. ph = Body t (Ret (Inl e))) \<longrightarrow> ph' = Done)) \<or>
      (\<exists>t x s0 s1. ph = Body t (Ret (Inr x)) \<and> interferes (store_of db) s0 \<and>
         prun Q (snd sc (beginTxn E t)) s0 = (Inr x, s1) \<and> interferes s1 (store_of db') \<and>
         (p = Ret (Inr x) \<and> ph' = Done \<or> (\<forall>y. p \<noteq> Ret (Inr y)) \<and> (\<exists>e. ph' = Body t (Ret (Inl e))))))"

lemma start_step:
  assumes body: "\<And>t. txn_body t (snd sc (beginTxn E t))"
    and p: "stands E sc Start (Cmd c k) db" and srv: "srv c db = (r, db')"
  shows "(\<forall>t. \<not> touches c t) \<and> (\<exists>ph'. goes_on E sc Start ph' (k r) db db')"
proof -
  from p have c: "c = CNewTxn" and k: "k = (\<lambda>r. let t = beginTxn E (case r of RTxn t \<Rightarrow> t | _ \<Rightarrow> 0)
      in pbind (snd sc t) (afterBody (fst sc) t))"
    by (simp_all add: scopeP_def withTxn_Cmd)
  obtain t where t: "r = RTxn t" "base_of db' t = []" "work_of db' t = Map.empty" "interferes (store_of db) (store_of db')"
    using new_txn [OF srv [unfolded c]] by blast
  then have f: "t \<notin> live db" "t \<in> live db'" using fresh_txn srv c by auto
  have "k r \<noteq> Ret (Inr x)" for x
    using t(1) k by (simp add: Let_def)
  then have "goes_on E sc Start (Body t (snd sc (beginTxn E t))) (k r) db db'"
    using t f k body by (auto simp: goes_on_def sees_def Let_def)
  then show ?thesis using c by (auto simp: touches_def)
qed

end

context shared_aerospike
begin

lemma body_step:
  assumes p: "stands E sc (Body t (Cmd c' k')) (Cmd c k) db" and srv: "srv c db = (r, db')"
  shows "cmd_txn c = Some t \<and> single c \<and> (\<exists>ph'. goes_on E sc (Body t (Cmd c' k')) ph' (k r) db db')"
proof -
  from p have c: "c' = c" "k = (\<lambda>r. pbind (k' r) (afterBody (fst sc) (beginTxn E t)))" "t \<in> live db"
    and tb: "single c" "cmd_txn c = Some t" "txn_body t (k' r)" "\<And>e. \<not> definite e \<Longrightarrow> \<exists>x. k' (RErr e) = Ret (Inl x)"
    and replay: "\<And>s0. consistent (base_of db t) s0 \<Longrightarrow> prun Q (snd sc (beginTxn E t)) s0 = prun Q (Cmd c k') (sees s0 (work_of db t))"
    by auto
  obtain s where s: "interferes (store_of db) s" "interferes s (store_of db')"
    and cases: "fault r \<or> (r = fst (exec_rec Q c (sees s (work_of db t) (cmd_key c)))
           \<and> base_of db' t = txn_base c s (base_of db t) (work_of db t) \<and> work_of db' t = txn_work Q c s (work_of db t))"
    using txn_command [OF tb(1,2) srv] by blast
  have "(\<exists>e. k' r = Ret (Inl e)) \<or>
      (\<forall>s0. consistent (base_of db' t) s0 \<longrightarrow> prun Q (snd sc (beginTxn E t)) s0 = prun Q (k' r) (sees s0 (work_of db' t)))"
    using cases
  proof
    assume "fault r"
    then show ?thesis using tb(4) by (auto simp: fault_def)
  next
    assume step: "r = fst (exec_rec Q c (sees s (work_of db t) (cmd_key c)))
        \<and> base_of db' t = txn_base c s (base_of db t) (work_of db t) \<and> work_of db' t = txn_work Q c s (work_of db t)"
    have "prun Q (snd sc (beginTxn E t)) s0 = prun Q (k' r) (sees s0 (work_of db' t))" if con: "consistent (base_of db' t) s0" for s0
    proof -
      have "exec Q c (sees s0 (work_of db t)) = (r, sees s0 (work_of db' t))"
        using txn_step_replay [OF tb(1)] con step by metis
      moreover have "consistent (base_of db t) s0" using con step consistent_txn_base by metis
      ultimately show ?thesis using replay by simp
    qed
    then show ?thesis by blast
  qed
  then have "goes_on E sc (Body t (Cmd c' k')) (Body t (k' r)) (k r) db db'"
    using c tb(3) live_mono [OF srv] interferes_trans [OF s] by (auto simp: goes_on_def)
  then show ?thesis using tb by blast
qed

lemma abort_step:
  assumes p: "stands E sc (Body t (Ret (Inl e))) (Cmd c k) db" and srv: "srv c db = (r, db')"
  shows "c = CAbort t \<and> goes_on E sc (Body t (Ret (Inl e))) Done (k r) db db'"
  using assms abort by (auto simp: afterBody_Inl goes_on_def)

lemma commit_step:
  assumes p: "stands E sc (Body t (Ret (Inr x))) (Cmd c k) db" and srv: "srv c db = (r, db')"
  shows "c = CCommit t \<and> (\<exists>ph'. goes_on E sc (Body t (Ret (Inr x))) ph' (k r) db db')"
proof -
  let ?after = "afterBody (fst sc) (beginTxn E t)"
  from p have c: "c = CCommit t" "t \<in> live db"
    and k: "k = (\<lambda>r. case r of ROk \<Rightarrow> Ret (Inr x) | _ \<Rightarrow> ?after (Inl (classifyCommitError (fst sc) (wrongKind r))))"
    and pure: "\<And>s0. consistent (base_of db t) s0 \<Longrightarrow> prun Q (snd sc (beginTxn E t)) s0 = (Inr x, sees s0 (work_of db t))"
    by (simp_all add: afterBody_Inr)
  show ?thesis
  proof (cases "r = ROk")
    case True
    obtain s0 where s0: "interferes (store_of db) s0" "consistent (base_of db t) s0" "interferes (sees s0 (work_of db t)) (store_of db')"
      using commit_ok srv c(1) True by metis
    have "goes_on E sc (Body t (Ret (Inr x))) Done (k r) db db'"
      using s0 pure [OF s0(2)] True k by (auto simp: goes_on_def)
    then show ?thesis using c(1) by blast
  next
    case False
    then obtain e where e: "r = RErr e" using commit_resp srv c(1) by blast
    let ?q = "Ret (Inl (classifyCommitError (fst sc) e))"
    have kr: "k r = pbind ?q ?after" using e k by simp
    have st: "stands E sc (Body t ?q) (k r) db'" using c(2) live_mono [OF srv] kr by auto
    from commit_err [OF srv [unfolded c(1)] False] have "goes_on E sc (Body t (Ret (Inr x))) (Body t ?q) (k r) db db'"
    proof
      assume "interferes (store_of db) (store_of db')"
      with st show ?thesis unfolding goes_on_def kr by auto
    next
      assume "(\<exists>e. r = RErr e \<and> \<not> isTxnConflict e \<and> \<not> isFilteredOut e) \<and>
        (\<exists>s. interferes (store_of db) s \<and> consistent (base_of db t) s \<and> interferes (sees s (work_of db t)) (store_of db'))"
      then obtain s0 where "interferes (store_of db) s0" "consistent (base_of db t) s0" "interferes (sees s0 (work_of db t)) (store_of db')"
        by blast
      with st pure [of s0] show ?thesis unfolding goes_on_def kr by auto
    qed
    then show ?thesis using c(1) by blast
  qed
qed

text \<open>Together: a client's step touches at most its own transaction.\<close>

lemma client_step:
  assumes "\<And>t. txn_body t (snd sc (beginTxn E t))" "stands E sc ph (Cmd c k) db" "srv c db = (r, db')"
  shows "(\<forall>t. touches c t \<longrightarrow> phase_txn ph = Some t) \<and> (\<exists>ph'. goes_on E sc ph ph' (k r) db db')"
proof (cases ph)
  case Start
  then show ?thesis using start_step assms by blast
next
  case (Body t q)
  show ?thesis
  proof (cases q)
    case (Ret x)
    have "(c = CAbort t \<or> c = CCommit t) \<and> (\<exists>ph'. goes_on E sc ph ph' (k r) db db')"
    proof (cases x)
      case (Inl e)
      have "stands E sc (Body t (Ret (Inl e))) (Cmd c k) db" using assms(2) by (simp only: Body Ret Inl)
      from abort_step [OF this assms(3)] show ?thesis unfolding Body Ret Inl by blast
    next
      case (Inr y)
      have "stands E sc (Body t (Ret (Inr y))) (Cmd c k) db" using assms(2) by (simp only: Body Ret Inr)
      from commit_step [OF this assms(3)] show ?thesis unfolding Body Ret Inr by blast
    qed
    then show ?thesis using Body by (auto simp: touches_def)
  next
    case (Cmd c' k')
    then have "cmd_txn c = Some t \<and> single c \<and> (\<exists>ph'. goes_on E sc ph ph' (k r) db db')"
      using body_step assms(2,3) Body by blast
    moreover from this have "touches c t' \<Longrightarrow> t' = t" for t' by (cases c) (auto simp: touches_def)
    ultimately show ?thesis using Body by auto
  qed
next
  case Done
  then show ?thesis using assms(2) by simp
qed

end

context shared_aerospike
begin

definition serialized :: "env \<Rightarrow> 'a scope list \<Rightarrow> store \<Rightarrow> 'a phase list \<Rightarrow> (nat \<times> 'a) list \<Rightarrow> 'a io list \<times> 'db \<Rightarrow> bool" where
  "serialized E scs s0 phs log x \<longleftrightarrow>
     length phs = length scs \<and> length (fst x) = length scs \<and>
     (\<forall>i < length scs. stands E (scs ! i) (phs ! i) (fst x ! i) (snd x)) \<and>
     (\<forall>i < length scs. \<forall>j < length scs. i \<noteq> j \<longrightarrow> phase_txn (phs ! i) \<noteq> None \<longrightarrow> phase_txn (phs ! i) \<noteq> phase_txn (phs ! j)) \<and>
     serial E scs s0 log (store_of (snd x)) \<and> distinct (map fst log) \<and>
     (\<forall>i < length scs. \<forall>y. fst x ! i = Ret (Inr y) \<longrightarrow> (i, y) \<in> set log) \<and>
     (\<forall>i \<in> fst ` set log. i < length scs \<and> (phs ! i = Done \<or> (\<exists>t e. phs ! i = Body t (Ret (Inl e)))))"

lemma serialized_init: "serialized E scs (store_of db) (map (\<lambda>_. Start) scs) [] (map (scopeP E) scs, db)"
  by (auto simp: serialized_def interferes_refl scopeP_def withTxn_Cmd)

lemma phase_txn_live: "stands E sc ph p db \<Longrightarrow> phase_txn ph = Some t \<Longrightarrow> t \<in> live db"
  by (cases ph) auto

text \<open>Clients that are apart stay apart: a transaction that a step begins is not one of those under way.\<close>

lemma apart_step:
  assumes st: "\<And>j. j < n \<Longrightarrow> stands E (scs ! j) (phs ! j) (ps ! j) db" and n: "i < n" "length phs = n"
    and apart: "\<And>j l. j < n \<Longrightarrow> l < n \<Longrightarrow> j \<noteq> l \<Longrightarrow> phase_txn (phs ! j) \<noteq> None \<Longrightarrow> phase_txn (phs ! j) \<noteq> phase_txn (phs ! l)"
    and go: "goes_on E sc (phs ! i) ph' p db db'"
    and jl: "j < n" "l < n" "j \<noteq> l" "phase_txn (phs[i := ph'] ! j) \<noteq> None"
  shows "phase_txn (phs[i := ph'] ! j) \<noteq> phase_txn (phs[i := ph'] ! l)"
proof -
  have new: "phase_txn ph' \<noteq> phase_txn (phs ! m)" if m: "m < n" "m \<noteq> i" "phase_txn ph' \<noteq> None" for m
  proof
    assume eq: "phase_txn ph' = phase_txn (phs ! m)"
    then obtain t where t: "phase_txn ph' = Some t" "phase_txn (phs ! m) = Some t" using m(3) by auto
    then have "t \<in> live db" using phase_txn_live [OF st [OF m(1)]] by blast
    then have "phase_txn (phs ! i) = Some t" using go t(1) by (auto simp: goes_on_def)
    then show False using apart [OF n(1) m(1)] m(2) t(2) by auto
  qed
  show ?thesis
  proof (cases "j = i")
    case True
    then show ?thesis using new [of l] jl n by auto
  next
    case False
    then show ?thesis using new [of j] apart [of j l] jl n by (cases "l = i") auto
  qed
qed

lemma serialized_step:
  assumes inv: "serialized E scs s0 phs log (ps, db)" and bodies: "\<And>sc t. sc \<in> set scs \<Longrightarrow> txn_body t (snd sc (beginTxn E t))"
    and i: "i < length ps" "ps ! i = Cmd c k" "srv c db = (r, db')"
  shows "\<exists>phs' log'. serialized E scs s0 phs' log' (ps[i := k r], db')"
proof -
  let ?n = "length scs"
  have len: "length phs = ?n" "length ps = ?n" and n: "i < ?n"
    and st: "\<And>j. j < ?n \<Longrightarrow> stands E (scs ! j) (phs ! j) (ps ! j) db"
    and apart: "\<And>j l. j < ?n \<Longrightarrow> l < ?n \<Longrightarrow> j \<noteq> l \<Longrightarrow> phase_txn (phs ! j) \<noteq> None \<Longrightarrow> phase_txn (phs ! j) \<noteq> phase_txn (phs ! l)"
    and ser: "serial E scs s0 log (store_of db)" "distinct (map fst log)"
    and told: "\<And>j y. j < ?n \<Longrightarrow> ps ! j = Ret (Inr y) \<Longrightarrow> (j, y) \<in> set log"
    using inv i(1) by (simp_all add: serialized_def)
  have logged: "j < ?n \<and> (phs ! j = Done \<or> (\<exists>t e. phs ! j = Body t (Ret (Inl e))))" if "j \<in> fst ` set log" for j
    using inv that unfolding serialized_def by blast
  obtain ph' where own: "\<And>t. touches c t \<Longrightarrow> phase_txn (phs ! i) = Some t" and go: "goes_on E (scs ! i) (phs ! i) ph' (k r) db db'"
    using client_step [of "scs ! i" E "phs ! i" c k db r db'] st [OF n] i bodies n by auto
  let ?phs = "phs[i := ph']" and ?ps = "ps[i := k r]"
  have st': "stands E (scs ! j) (?phs ! j) (?ps ! j) db'" if j: "j < ?n" for j
  proof (cases "j = i")
    case True
    then show ?thesis using go n len by (simp add: goes_on_def)
  next
    case False
    have "\<not> touches c t" if "phase_txn (phs ! j) = Some t" for t
      using own [of t] apart [OF j n False] that by auto
    then show ?thesis using stands_isolated [OF st [OF j] i(3)] False by simp
  qed
  have apart': "phase_txn (?phs ! j) \<noteq> phase_txn (?phs ! l)"
    if "j < ?n" "l < ?n" "j \<noteq> l" "phase_txn (?phs ! j) \<noteq> None" for j l
    using apart_step [of ?n E scs phs ps db i, OF st n len(1) apart go that] .
  from go consider (same) "interferes (store_of db) (store_of db')" "\<And>x. k r \<noteq> Ret (Inr x)"
      "(\<exists>t e. phs ! i = Body t (Ret (Inl e))) \<longrightarrow> ph' = Done"
    | (commit) t x s2 s3 where "phs ! i = Body t (Ret (Inr x))" "interferes (store_of db) s2"
      "prun Q (snd (scs ! i) (beginTxn E t)) s2 = (Inr x, s3)" "interferes s3 (store_of db')"
      "k r = Ret (Inr x) \<and> ph' = Done \<or> (\<forall>y. k r \<noteq> Ret (Inr y)) \<and> (\<exists>e. ph' = Body t (Ret (Inl e)))"
    unfolding goes_on_def by blast
  then show ?thesis
  proof cases
    case same
    have "phs ! i \<noteq> Done" using st [OF n] i(2) by auto
    then have logged': "j < ?n \<and> (?phs ! j = Done \<or> (\<exists>t e. ?phs ! j = Body t (Ret (Inl e))))" if "j \<in> fst ` set log" for j
      using logged [OF that] same(3) len by (cases "j = i") auto
    have told': "(j, y) \<in> set log" if "j < ?n" "?ps ! j = Ret (Inr y)" for j y
      using that told [of j y] same(2) len by (cases "j = i") auto
    have "serialized E scs s0 ?phs log (?ps, db')"
      unfolding serialized_def using len st' apart' serial_interferes [OF ser(1) same(1)] ser(2) told' logged' by simp
    then show ?thesis by blast
  next
    case commit
    have new: "i \<notin> fst ` set log" using logged [of i] commit(1) by auto
    have logged': "j < ?n \<and> (?phs ! j = Done \<or> (\<exists>t e. ?phs ! j = Body t (Ret (Inl e))))" if "j \<in> fst ` set (log @ [(i, x)])" for j
      using that logged [of j] commit(5) len n by (cases "j = i") auto
    have told': "(j, y) \<in> set (log @ [(i, x)])" if "j < ?n" "?ps ! j = Ret (Inr y)" for j y
      using that told [of j y] commit(5) len by (cases "j = i") auto
    have "distinct (map fst (log @ [(i, x)]))" using ser(2) new by simp
    with serial_snoc [OF ser(1) commit(2,3,4)] have "serialized E scs s0 ?phs (log @ [(i, x)]) (?ps, db')"
      unfolding serialized_def using len st' apart' told' logged' by (simp del: set_append distinct_append)
    then show ?thesis by blast
  qed
qed

theorem serializable:
  assumes reach: "(istep srv)\<^sup>*\<^sup>* (map (scopeP E) scs, db) (ps, db')"
    and bodies: "\<And>sc t. sc \<in> set scs \<Longrightarrow> txn_body t (snd sc (beginTxn E t))"
  obtains log where "serial E scs (store_of db) log (store_of db')" "distinct (map fst log)" "\<forall>i \<in> fst ` set log. i < length scs"
    "\<And>i x. i < length ps \<Longrightarrow> ps ! i = Ret (Inr x) \<Longrightarrow> (i, x) \<in> set log"
proof -
  have "\<exists>phs log. serialized E scs (store_of db) phs log (ps, db')"
  proof (rule isteps_invariant [OF reach])
    show "\<exists>phs log. serialized E scs (store_of db) phs log (map (scopeP E) scs, db)"
      using serialized_init by blast
  next
    fix x y assume "istep srv x y" and inv: "\<exists>phs log. serialized E scs (store_of db) phs log x"
    from this(1) show "\<exists>phs log. serialized E scs (store_of db) phs log y"
      using inv serialized_step [OF _ bodies] by (cases rule: istep.cases) blast
  qed
  then show ?thesis using that unfolding serialized_def by force
qed

end

interpretation shared: shared_aerospike Q "mem_server Q" m_store m_base m_work "(=)" "\<lambda>m. {..<m_next m}" for Q
proof
  fix t db db'
  assume "mem_server Q CNewTxn db = (RTxn t, db')"
  then show "t \<notin> {..<m_next db} \<and> t \<in> {..<m_next db'}" by auto
next
  fix c db r db'
  assume s: "mem_server Q c db = (r, db')"
  then show "{..<m_next db} \<subseteq> {..<m_next db'}"
    by (cases c) (auto split: option.splits prod.splits if_splits)
  fix t assume "t \<in> {..<m_next db}" "\<not> touches c t"
  with s show "m_base db' t = m_base db t \<and> m_work db' t = m_work db t"
    by (cases c) (auto simp: touches_def split: option.splits prod.splits if_splits)
qed

end
