(* ===== verification/Frame.thy ===== *)
theory Frame
  imports Serial
begin

text \<open>
  Which records a program can write, read off its commands, and the frame rule: every other record is as
  before. The records of one logical set are \<open>setOf\<close>, so that most frames are by set.
\<close>

named_theorems frame_intros

definition setOf :: "env \<Rightarrow> string \<Rightarrow> askey set" where
  "setOf E st = range (newKey E st)"

lemma newKey_setOf [simp]: "newKey E st u \<in> setOf E st' \<longleftrightarrow> st = st'"
  by (auto simp: setOf_def)

primrec writes_in :: "askey set \<Rightarrow> 'a prog \<Rightarrow> bool" where
  "writes_in K (Ret x) \<longleftrightarrow> True"
| "writes_in K (Cmd c k) \<longleftrightarrow> (is_read c \<or> \<not> single c \<or> cmd_key c \<in> K) \<and> (\<forall>r. writes_in K (k r))"

lemma exec_frame: "is_read c \<or> \<not> single c \<or> cmd_key c \<noteq> k \<Longrightarrow> snd (exec Q c s) k = s k"
proof (cases "single c")
  case True
  assume "is_read c \<or> \<not> single c \<or> cmd_key c \<noteq> k"
  then show ?thesis
    using True exec_rec_read [of c Q "s (cmd_key c)"] by (auto simp: exec_single split: prod.splits)
next
  case False
  then show ?thesis by (cases c) simp_all
qed

lemma prun_frame: "writes_in K p \<Longrightarrow> prun Q p s = (x, s') \<Longrightarrow> k \<notin> K \<Longrightarrow> s' k = s k"
proof (induction p arbitrary: s)
  case (Cmd c g)
  obtain r s1 where e: "exec Q c s = (r, s1)" by fastforce
  have "s1 k = s k" using exec_frame [of c k Q s] Cmd.prems e by auto
  moreover have "s' k = s1 k" using Cmd e by auto
  ultimately show ?case by simp
qed simp

lemma writes_in_pbind [frame_intros]: "writes_in K p \<Longrightarrow> (\<And>x. writes_in K (f x)) \<Longrightarrow> writes_in K (pbind p f)"
  by (induction p) auto

lemma writes_in_tryP [frame_intros]: "writes_in K p \<Longrightarrow> (\<And>x. writes_in K (f x)) \<Longrightarrow> writes_in K (tryP p f)"
  by (auto simp: tryP_def intro!: writes_in_pbind split: sum.splits)

lemma writes_in_cmds [frame_intros]:
  "writes_in K (getP pol k bs)" "writes_in K (existsP pol k)" "k \<in> K \<Longrightarrow> writes_in K (putBinsP wpol k vs)"
  "k \<in> K \<or> \<not> list_ex op_writes ops \<Longrightarrow> writes_in K (operateP wpol k ops)" "k \<in> K \<Longrightarrow> writes_in K (deleteP wpol k)"
  "writes_in K (batchGetP ks bs)" "writes_in K (scanAllP ns st)" "writes_in K (Ret x)"
  by (auto simp: cmd_prog_defs)

lemma writes_in_mono: "writes_in K p \<Longrightarrow> K \<subseteq> K' \<Longrightarrow> writes_in K' p"
  by (induction p) auto

text \<open>Success of a sequence, split at its first part.\<close>

lemma prun_tryP_ok: "prun Q (tryP p f) s = (Inr x, s') \<longleftrightarrow> (\<exists>y s1. prun Q p s = (Inr y, s1) \<and> prun Q (f y) s1 = (Inr x, s'))"
  by (auto simp: prun_tryP split: sum.splits prod.splits)

lemma prun_Ret_ok [simp]: "prun Q (Ret y) s = (Inr x, s') \<longleftrightarrow> y = Inr x \<and> s' = s"
  by auto

text \<open>The bins a put leaves.\<close>

lemma put_bins_get: "distinct (map fst bs) \<Longrightarrow> (b, v) \<in> set bs \<Longrightarrow> put_bins bs r b = put_bin v"
proof (induction bs arbitrary: r)
  case (Cons x bs)
  obtain b' v' where x: "x = (b', v')" by (cases x)
  show ?case
  proof (cases "(b, v) \<in> set bs")
    case True
    with Cons x show ?thesis by simp
  next
    case False
    with Cons.prems x have "b = b'" "v = v'" "b \<notin> fst ` set bs" by auto
    then show ?thesis by (simp add: x put_bins_notin)
  qed
qed simp

text \<open>A map put on a record.\<close>

lemma apply_put_ok:
  "apply_ops [MapPutOp b mk v] r = Inr (res, r') \<longleftrightarrow>
   (\<forall>x. r b \<noteq> Some (BVal x)) \<and> r' = r(b \<mapsto> BMap (omap_put mk (norm v) (the_map (r b)))) \<and>
   res = [(b, GInt (of_nat (length (omap_put mk (norm v) (the_map (r b))))))]"
  by (auto simp: map_write_def the_map_def Let_def split: option.splits binval.splits)

lemma prun_operate_ok:
  assumes "wp_RecordExistsAction pol = UPDATE" "wp_FilterExpression pol = None" "list_ex op_creates ops"
  shows "prun Q (pbind (operateP pol k ops) g) s =
    (case apply_ops ops (old_bins (s k)) of
       Inl c \<Rightarrow> prun Q (g (Inl (AsError [c]))) s
     | Inr (res, r) \<Rightarrow> prun Q (g (Inr (op_record Q k res))) (s(k \<mapsto> r)))"
  using assms by (simp add: prog_simps)

text \<open>Reading a key range of a map bin, and removing entries from it, with any policy that neither filters nor replaces.\<close>

lemma prun_map_get:
  assumes "wp_RecordExistsAction pol = UPDATE" "wp_FilterExpression pol = None" "map_ok (old_bins (s k) b)"
  shows "prun Q (pbind (operateP pol k [MapGetByKeyRangeOp b lo hi rt]) g) s =
    (if s k = None then prun Q (g (Inl (AsError [KEY_NOT_FOUND_ERROR]))) s
     else if old_bins (s k) b = None then prun Q (g (Inr (op_record Q k []))) s
     else prun Q (g (Inr (op_record Q k [(b, ret_value rt (omap_range lo hi (the_map (old_bins (s k) b))))]))) s)"
  using assms
  by (cases "s k") (auto simp: prog_simps op_absent_def map_access_def fun_upd_idem split: option.splits binval.splits)

definition dropEntries :: "askey \<Rightarrow> string \<Rightarrow> (mkey \<Rightarrow> bool) \<Rightarrow> store \<Rightarrow> store" where
  "dropEntries k b P s =
     (if s k = None \<or> old_bins (s k) b = None then s
      else s(k \<mapsto> (old_bins (s k))(b \<mapsto> BMap (filter (\<lambda>p. \<not> P (fst p)) (the_map (old_bins (s k) b))))))"

lemma dropEntries_other [simp]: "k' \<noteq> k \<Longrightarrow> dropEntries k b P s k' = s k'"
  by (simp add: dropEntries_def)

lemma dropEntries_map:
  "the_map (old_bins (dropEntries k b P s k) b) = filter (\<lambda>p. \<not> P (fst p)) (the_map (old_bins (s k) b))"
  "map_ok (old_bins (s k) b) \<Longrightarrow> map_ok (old_bins (dropEntries k b P s k) b)"
  by (auto simp: dropEntries_def omap_filter_ok omap_ok_the_map)

lemma prun_map_drop:
  assumes "wp_RecordExistsAction pol = UPDATE" "wp_FilterExpression pol = None" "map_ok (old_bins (s k) b)"
    and "opn = MapRemoveByKeyOp b mk RetNone \<and> P = (\<lambda>x. x = mk) \<or> opn = MapRemoveByKeyRangeOp b lo hi RetNone \<and> P = in_range lo hi"
    and "g (Inl (AsError [KEY_NOT_FOUND_ERROR])) = p" "\<And>rec. g (Inr rec) = p"
  shows "prun Q (pbind (operateP pol k [opn]) g) s = prun Q p (dropEntries k b P s)"
  using assms
  by (cases "s k")
    (auto simp: prog_simps op_absent_def map_access_def fun_upd_idem dropEntries_def omap_del_def omap_rdel_def
      split: option.splits binval.splits)

end
