(* ===== verification/HistoryProps.thy ===== *)
theory HistoryProps
  imports HistoryStore BucketedQueue Frame
begin

text \<open>
  The properties of \<open>HistoryStore\<close>: the sort keys of the branch index, what an append stores, and what
  reading a branch returns.
\<close>

section \<open>Sort keys\<close>

lemma length_historyNodeSortKey [simp]: "length (historyNodeSortKey n x) = 16"
  by (simp add: historyNodeSortKey_def)

lemma decode_historyNodeSortKey: "decodeHistoryNodeSortKey (historyNodeSortKey n x) = Some (n, x)"
  by (simp add: decodeHistoryNodeSortKey_def historyNodeSortKey_def)

lemma historyNodeSortKey_inject [simp]: "historyNodeSortKey n x = historyNodeSortKey n' x' \<longleftrightarrow> n = n' \<and> x = x'"
  using decode_historyNodeSortKey by (metis option.inject prod.inject)

text \<open>The complement of a transaction id reverses the order over the whole range of the type.\<close>

lemma uint_rev64: "uint (MaxInt64 - x) = 9223372036854775807 - sint (x :: int64)"
proof -
  have "MaxInt64 - x = of_int (9223372036854775807 - sint x)" by simp
  also have "uint \<dots> = (9223372036854775807 - sint x) mod 2 ^ 64" by (simp only: uint_word_of_int) simp
  also have "\<dots> = 9223372036854775807 - sint x" using sint_range64 [of x] by (intro mod_pos_pos_trivial) simp_all
  finally show ?thesis .
qed

lemma rev64_less: "MaxInt64 - x < MaxInt64 - y \<longleftrightarrow> sint (y :: int64) < sint x"
  by (simp add: word_less_def uint_rev64)

lemma historyNodeSortKey_less:
  assumes "0 \<le> sint n" "0 \<le> sint n'"
  shows "historyNodeSortKey n x < historyNodeSortKey n' x' \<longleftrightarrow> sint n < sint n' \<or> n = n' \<and> sint x' < sint x"
  using assms by (simp add: historyNodeSortKey_def PutUint64_append_less uint_less_sint64 rev64_less)

section \<open>Appending\<close>

definition nodeKeyOf :: "env \<Rightarrow> append_req \<Rightarrow> askey" where
  "nodeKeyOf E e = historyNodeKey E (br_treeID (ah_BranchInfo e)) (br_branchID (ah_BranchInfo e)) (ah_NodeID e) (ah_TransactionID e)"

definition branchKeyOf :: "env \<Rightarrow> append_req \<Rightarrow> askey" where
  "branchKeyOf E e = historyBranchKey E (br_treeID (ah_BranchInfo e)) (br_branchID (ah_BranchInfo e))"

definition sortKeyOf :: "append_req \<Rightarrow> mkey" where
  "sortKeyOf e = KBytes (historyNodeSortKey (ah_NodeID e) (ah_TransactionID e))"

text \<open>An event batch in the store: its payload, its entry in the branch index, and its branch on the tree.\<close>

definition eventStored :: "env \<Rightarrow> append_req \<Rightarrow> store \<Rightarrow> bool" where
  "eventStored E e s \<longleftrightarrow>
     (\<exists>r. s (nodeKeyOf E e) = Some r \<and> bin_blob E ''data'' ''enc'' r = Some (ah_Events e)) \<and>
     entries (old_bins (s (branchKeyOf E e)) ''idx'') (sortKeyOf e) = Some (GInt (ah_PrevTransactionID e)) \<and>
     (ah_IsNewBranch e \<longrightarrow> entries (old_bins (s (historyTreeKey E (br_treeID (ah_BranchInfo e)))) ''br'') (KStr (br_branchID (ah_BranchInfo e))) \<noteq> None)"

lemma nodeKeyOf_eq: "nodeKeyOf E e = nodeKeyOf E e'"
  if "branchKeyOf E e = branchKeyOf E e'" "sortKeyOf e = sortKeyOf e'"
proof -
  have j: "joinColon [a, b, c, d] = joinColon [joinColon [a, b], c, d]" for a b c d
    by (simp add: joinColon_def)
  show ?thesis using that by (simp add: nodeKeyOf_def branchKeyOf_def sortKeyOf_def historyNodeKey_def historyBranchKey_def j)
qed

lemma history_keys [simp]:
  "nodeKeyOf E e \<noteq> branchKeyOf E e'" "branchKeyOf E e' \<noteq> nodeKeyOf E e"
  "nodeKeyOf E e \<noteq> historyTreeKey E tr" "historyTreeKey E tr \<noteq> nodeKeyOf E e"
  "branchKeyOf E e \<noteq> historyTreeKey E tr" "historyTreeKey E tr \<noteq> branchKeyOf E e"
  by (simp_all add: nodeKeyOf_def branchKeyOf_def historyNodeKey_def historyBranchKey_def historyTreeKey_def)

definition indexPut :: "append_req \<Rightarrow> bins \<Rightarrow> bins" where
  "indexPut e r = r(''idx'' \<mapsto> BMap (omap_put (sortKeyOf e) (GInt (ah_PrevTransactionID e)) (the_map (r ''idx''))))"

definition treePut :: "env \<Rightarrow> append_req \<Rightarrow> bins \<Rightarrow> bins" where
  "treePut E e r = r(''tree_id'' \<mapsto> BVal (GString (br_treeID (ah_BranchInfo e))),
     ''br'' \<mapsto> BMap (omap_put (KStr (br_branchID (ah_BranchInfo e))) (blobValue E (ah_TreeInfo e)) (the_map (r ''br''))))"

definition appended :: "env \<Rightarrow> append_req \<Rightarrow> store \<Rightarrow> store" where
  "appended E e s =
     (let s1 = s(nodeKeyOf E e \<mapsto> put_bins (nodeBins E e) (old_bins (s (nodeKeyOf E e))),
                 branchKeyOf E e \<mapsto> indexPut e (old_bins (s (branchKeyOf E e))));
          tr = historyTreeKey E (br_treeID (ah_BranchInfo e))
      in if ah_IsNewBranch e then s1(tr \<mapsto> treePut E e (old_bins (s tr))) else s1)"

lemma appendHistoryNodesIn_ok:
  assumes "prun Q (appendHistoryNodesIn E (beginTxn E' t) e) s = (Inr x, s')"
  shows "s' = appended E e s"
  using assms
  by (auto simp: appendHistoryNodesIn_def Let_def nodeKeyOf_def [symmetric] branchKeyOf_def [symmetric] sortKeyOf_def [symmetric] treeOps_def
      prun_put prun_operate_ok apply_put_ok appended_def indexPut_def treePut_def map_write_def the_map_def
      split: sum.splits prod.splits if_splits option.splits binval.splits)

lemma old_bins_upd [simp]: "old_bins ((s(k \<mapsto> r)) k') = (if k' = k then r else old_bins (s k'))"
  by simp

lemma eventStored_appended: "temporal_api E \<Longrightarrow> eventStored E e (appended E e s)"
  by (auto simp: eventStored_def appended_def Let_def nodeBins_def indexPut_def treePut_def map_of_omap_put bin_blob_def
      temporal_api.NewDataBlob_String)

lemma eventStored_keeps:
  assumes "eventStored E e' s" "nodeKeyOf E e' \<noteq> nodeKeyOf E e"
  shows "eventStored E e' (appended E e s)"
proof -
  have idx: "entries (indexPut e (old_bins (s (branchKeyOf E e))) ''idx'') (sortKeyOf e') = Some (GInt (ah_PrevTransactionID e'))"
    if "branchKeyOf E e' = branchKeyOf E e"
    using assms nodeKeyOf_eq [of E e' e] that by (auto simp: indexPut_def map_of_omap_put eventStored_def entries_def)
  have tree: "entries (treePut E e r ''br'') mk \<noteq> None" if "entries (r ''br'') mk \<noteq> None" for r mk
    using that by (auto simp: treePut_def map_of_omap_put entries_def)
  show ?thesis
    using assms idx tree [of "old_bins (s (historyTreeKey E (br_treeID (ah_BranchInfo e))))" "KStr (br_branchID (ah_BranchInfo e'))"]
    by (auto simp: eventStored_def appended_def Let_def)
qed

text \<open>
  The frame of an append, inside the records of the history as well: outside the node and branch index of an
  appended event, and the tree of a new branch, no record changes; in those records, no other index entry,
  no other branch of the tree and no other bin does.
\<close>

definition eventSets :: "env \<Rightarrow> askey set" where
  "eventSets E = setOf E ''hnode'' \<union> setOf E ''hbranch'' \<union> setOf E ''htree''"

definition eventKeys :: "env \<Rightarrow> append_req list \<Rightarrow> askey set" where
  "eventKeys E es = nodeKeyOf E ` set es \<union> branchKeyOf E ` set es \<union>
     {historyTreeKey E (br_treeID (ah_BranchInfo e)) |e. e \<in> set es \<and> ah_IsNewBranch e}"

definition eventsFramed :: "env \<Rightarrow> append_req list \<Rightarrow> store \<Rightarrow> store \<Rightarrow> bool" where
  "eventsFramed E es s0 s1 \<longleftrightarrow>
     (\<forall>k \<in> eventSets E. k \<notin> eventKeys E es \<longrightarrow> s1 k = s0 k) \<and>
     (\<forall>k \<in> setOf E ''hnode''. \<forall>b. b \<notin> {''node_id'', ''txn_id'', ''prev_txn'', ''data'', ''enc''} \<longrightarrow> binOf s1 k b = binOf s0 k b) \<and>
     (\<forall>k \<in> setOf E ''hbranch''. \<forall>b. b \<noteq> ''idx'' \<longrightarrow> binOf s1 k b = binOf s0 k b) \<and>
     (\<forall>k \<in> setOf E ''hbranch''. \<forall>mk. (\<forall>e \<in> set es. branchKeyOf E e = k \<longrightarrow> sortKeyOf e \<noteq> mk) \<longrightarrow>
        entries (binOf s1 k ''idx'') mk = entries (binOf s0 k ''idx'') mk) \<and>
     (\<forall>k \<in> setOf E ''htree''. \<forall>b. b \<notin> {''br'', ''tree_id''} \<longrightarrow> binOf s1 k b = binOf s0 k b) \<and>
     (\<forall>k \<in> setOf E ''htree''. \<forall>mk. (\<forall>e \<in> set es. ah_IsNewBranch e \<longrightarrow> historyTreeKey E (br_treeID (ah_BranchInfo e)) = k \<longrightarrow>
          KStr (br_branchID (ah_BranchInfo e)) \<noteq> mk) \<longrightarrow>
        entries (binOf s1 k ''br'') mk = entries (binOf s0 k ''br'') mk)"

lemma event_keys [simp]: "nodeKeyOf E e \<in> eventSets E" "branchKeyOf E e \<in> eventSets E" "historyTreeKey E tr \<in> eventSets E"
  by (simp_all add: eventSets_def nodeKeyOf_def branchKeyOf_def historyNodeKey_def historyBranchKey_def historyTreeKey_def)

lemma historyTreeKey_inject [simp]: "historyTreeKey E a = historyTreeKey E b \<longleftrightarrow> a = b"
  by (simp add: historyTreeKey_def)

lemma appended_other: "k \<notin> eventKeys E [e] \<Longrightarrow> appended E e s k = s k"
  by (auto simp: eventKeys_def appended_def Let_def)

lemma history_sets [simp]:
  "k \<in> setOf E ''hnode'' \<Longrightarrow> k \<noteq> branchKeyOf E e" "k \<in> setOf E ''hnode'' \<Longrightarrow> k \<noteq> historyTreeKey E tr"
  "k \<in> setOf E ''hbranch'' \<Longrightarrow> k \<noteq> nodeKeyOf E e" "k \<in> setOf E ''hbranch'' \<Longrightarrow> k \<noteq> historyTreeKey E tr"
  "k \<in> setOf E ''htree'' \<Longrightarrow> k \<noteq> nodeKeyOf E e" "k \<in> setOf E ''htree'' \<Longrightarrow> k \<noteq> branchKeyOf E e"
  by (auto simp: setOf_def nodeKeyOf_def branchKeyOf_def historyNodeKey_def historyBranchKey_def historyTreeKey_def)

lemma eventsFramed_appended: "eventsFramed E [e] s (appended E e s)"
  unfolding eventsFramed_def
proof (intro conjI ballI allI impI)
  show "appended E e s k = s k" if "k \<notin> eventKeys E [e]" for k using that by (rule appended_other)
  show "binOf (appended E e s) k b = binOf s k b"
    if "k \<in> setOf E ''hnode''" "b \<notin> {''node_id'', ''txn_id'', ''prev_txn'', ''data'', ''enc''}" for k b
    using that by (auto simp: appended_def Let_def binOf_def nodeBins_def)
  show "binOf (appended E e s) k b = binOf s k b" if "k \<in> setOf E ''hbranch''" "b \<noteq> ''idx''" for k b
    using that by (auto simp: appended_def Let_def binOf_def indexPut_def)
  show "entries (binOf (appended E e s) k ''idx'') mk = entries (binOf s k ''idx'') mk"
    if "k \<in> setOf E ''hbranch''" "\<forall>e' \<in> set [e]. branchKeyOf E e' = k \<longrightarrow> sortKeyOf e' \<noteq> mk" for k mk
    using that by (auto simp: appended_def Let_def binOf_def indexPut_def map_of_omap_put entries_def)
  show "binOf (appended E e s) k b = binOf s k b" if "k \<in> setOf E ''htree''" "b \<notin> {''br'', ''tree_id''}" for k b
    using that by (auto simp: appended_def Let_def binOf_def treePut_def)
  show "entries (binOf (appended E e s) k ''br'') mk = entries (binOf s k ''br'') mk"
    if "k \<in> setOf E ''htree''" "\<forall>e' \<in> set [e]. ah_IsNewBranch e' \<longrightarrow> historyTreeKey E (br_treeID (ah_BranchInfo e')) = k \<longrightarrow>
      KStr (br_branchID (ah_BranchInfo e')) \<noteq> mk" for k mk
    using that by (auto simp: appended_def Let_def binOf_def treePut_def map_of_omap_put entries_def)
qed

lemma eventsFramed_refl [simp]: "eventsFramed E [] s s"
  by (simp add: eventsFramed_def)

lemma eventsFramed_trans:
  assumes a: "eventsFramed E es s0 s1" and b: "eventsFramed E fs s1 s2"
  shows "eventsFramed E (es @ fs) s0 s2"
proof -
  have "eventKeys E (es @ fs) = eventKeys E es \<union> eventKeys E fs" by (auto simp: eventKeys_def)
  with a b show ?thesis unfolding eventsFramed_def by simp
qed

lemma eventsFramed_cong:
  assumes "eventsFramed E es s0 s1" "\<And>k. k \<in> eventSets E \<Longrightarrow> s0' k = s0 k"
  shows "eventsFramed E es s0' s1"
proof -
  have "binOf s0' k = binOf s0 k" if "k \<in> eventSets E" for k using assms(2) [OF that] by (simp add: binOf_def fun_eq_iff)
  then have "k \<in> setOf E ''hnode'' \<or> k \<in> setOf E ''hbranch'' \<or> k \<in> setOf E ''htree'' \<Longrightarrow> binOf s0' k = binOf s0 k" for k
    by (auto simp: eventSets_def)
  with assms show ?thesis unfolding eventsFramed_def by simp
qed

section \<open>Branches\<close>

text \<open>
  The content of a branch: its nodes in the order of the tree, by node id and, for one node id, the latest
  transaction first.
\<close>

definition nodeKey :: "env \<Rightarrow> string \<Rightarrow> string \<Rightarrow> hist_node \<Rightarrow> askey" where
  "nodeKey E tr br nd = historyNodeKey E tr br (hn_NodeID nd) (hn_TransactionID nd)"

definition sameNode :: "hist_node \<Rightarrow> hist_node \<Rightarrow> bool" where
  "sameNode a b \<longleftrightarrow> hn_NodeID a = hn_NodeID b \<and> hn_TransactionID a = hn_TransactionID b"

definition nodeLess :: "hist_node \<Rightarrow> hist_node \<Rightarrow> bool" where
  "nodeLess a b \<longleftrightarrow> sint (hn_NodeID a) < sint (hn_NodeID b) \<or>
     hn_NodeID a = hn_NodeID b \<and> sint (hn_TransactionID b) < sint (hn_TransactionID a)"

definition nodeSort :: "hist_node \<Rightarrow> bytes" where
  "nodeSort nd = historyNodeSortKey (hn_NodeID nd) (hn_TransactionID nd)"

definition indexEntry :: "hist_node \<Rightarrow> mkey \<times> gval" where
  "indexEntry nd = (KBytes (nodeSort nd), GInt (hn_PrevTransactionID nd))"

definition nodesOk :: "hist_node list \<Rightarrow> bool" where
  "nodesOk ns \<longleftrightarrow> sorted_wrt nodeLess ns \<and> (\<forall>nd \<in> set ns. 0 \<le> sint (hn_NodeID nd) \<and> hn_Events nd \<noteq> None)"

definition branchIndex :: "env \<Rightarrow> string \<Rightarrow> string \<Rightarrow> store \<Rightarrow> binval option" where
  "branchIndex E tr br s = binOf s (historyBranchKey E tr br) ''idx''"

definition branchRep :: "env \<Rightarrow> string \<Rightarrow> string \<Rightarrow> store \<Rightarrow> hist_node list \<Rightarrow> bool" where
  "branchRep E tr br s ns \<longleftrightarrow>
     nodesOk ns \<and> map_ok (branchIndex E tr br s) \<and> the_map (branchIndex E tr br s) = map indexEntry ns \<and>
     (\<forall>nd \<in> set ns. \<exists>r. s (nodeKey E tr br nd) = Some r \<and> bin_blob E ''data'' ''enc'' r = hn_Events nd) \<and>
     (\<forall>n x. s (historyNodeKey E tr br n x) \<noteq> None \<longrightarrow> (\<exists>nd \<in> set ns. hn_NodeID nd = n \<and> hn_TransactionID nd = x))"

lemma nodeSort_less: "0 \<le> sint (hn_NodeID a) \<Longrightarrow> 0 \<le> sint (hn_NodeID b) \<Longrightarrow> nodeSort a < nodeSort b \<longleftrightarrow> nodeLess a b"
  by (auto simp: nodeSort_def nodeLess_def historyNodeSortKey_less)

lemma nodeSort_eq: "nodeSort a = nodeSort b \<longleftrightarrow> sameNode a b"
  by (simp add: nodeSort_def sameNode_def)

lemma historyNodeKey_same [simp]: "historyNodeKey E tr br n x = historyNodeKey E tr br' n' x' \<longleftrightarrow> br = br' \<and> n = n' \<and> x = x'"
proof -
  have "joinColon [tr, br, dec_int (sint n), dec_int (sint x)] = joinColon [tr, br', dec_int (sint n'), dec_int (sint x')]
      \<longleftrightarrow> br = br' \<and> n = n' \<and> x = x'"
    using joinColon_last [of "dec_int (sint x)" "dec_int (sint x')" "[tr, br, dec_int (sint n)]" "[tr, br', dec_int (sint n')]"]
      joinColon_last [of "dec_int (sint n)" "dec_int (sint n')" "[tr, br]" "[tr, br']"]
    by (auto simp: sint_inject64 joinColon_Cons)
  then show ?thesis by (simp add: historyNodeKey_def)
qed

lemma historyBranchKey_same [simp]: "historyBranchKey E tr br = historyBranchKey E tr br' \<longleftrightarrow> br = br'"
  by (simp add: historyBranchKey_def joinColon_Cons)

lemma omap_ok_nodes: "nodesOk ns \<Longrightarrow> omap_ok (map indexEntry ns)"
  by (induction ns) (auto simp: nodesOk_def omap_ok_Cons indexEntry_def nodeSort_less)

fun nodePut :: "hist_node \<Rightarrow> hist_node list \<Rightarrow> hist_node list" where
  "nodePut nd [] = [nd]"
| "nodePut nd (x # xs) = (if nodeLess x nd then x # nodePut nd xs else if sameNode nd x then nd # xs else nd # x # xs)"

lemma omap_put_nodes:
  assumes "nodesOk ns" "0 \<le> sint (hn_NodeID nd)"
  shows "omap_put (KBytes (nodeSort nd)) (GInt (hn_PrevTransactionID nd)) (map indexEntry ns) = map indexEntry (nodePut nd ns)"
  using assms by (induction ns) (auto simp: nodesOk_def indexEntry_def nodeSort_less nodeSort_eq)

lemma set_nodePut: "sorted_wrt nodeLess ns \<Longrightarrow> set (nodePut nd ns) = insert nd {x \<in> set ns. \<not> sameNode nd x}"
proof (induction ns)
  case (Cons x xs)
  then show ?case by (auto simp: nodeLess_def sameNode_def)
qed simp

lemma nodeLess_trans: "nodeLess a b \<Longrightarrow> nodeLess b c \<Longrightarrow> nodeLess a c"
  by (auto simp: nodeLess_def)

lemma nodeLess_linear: "\<not> nodeLess a b \<Longrightarrow> \<not> sameNode b a \<Longrightarrow> nodeLess b a"
  unfolding nodeLess_def sameNode_def by (metis linorder_less_linear sint_inject64)

lemma nodeLess_same: "sameNode a b \<Longrightarrow> nodeLess a c \<longleftrightarrow> nodeLess b c"
  by (simp add: nodeLess_def sameNode_def)

lemma sorted_nodePut: "sorted_wrt nodeLess ns \<Longrightarrow> sorted_wrt nodeLess (nodePut nd ns)"
proof (induction ns)
  case (Cons x xs)
  then have IH: "sorted_wrt nodeLess (nodePut nd xs)" and x: "\<forall>y \<in> set xs. nodeLess x y" and xs: "sorted_wrt nodeLess xs" by auto
  show ?case
  proof (cases "nodeLess x nd")
    case True
    with IH x set_nodePut [OF xs, of nd] show ?thesis by auto
  next
    case False
    show ?thesis
    proof (cases "sameNode nd x")
      case True
      with False x xs nodeLess_same [OF True] show ?thesis by simp
    next
      case diff: False
      with False have "nodeLess nd x" by (rule nodeLess_linear)
      with False diff x xs nodeLess_trans show ?thesis by auto
    qed
  qed
qed simp

lemma nodesOk_nodePut: "nodesOk ns \<Longrightarrow> 0 \<le> sint (hn_NodeID nd) \<Longrightarrow> hn_Events nd \<noteq> None \<Longrightarrow> nodesOk (nodePut nd ns)"
  by (auto simp: nodesOk_def sorted_nodePut set_nodePut)

lemma branchRep_cong:
  assumes "\<And>n x. s' (historyNodeKey E tr br n x) = s (historyNodeKey E tr br n x)"
    and "s' (historyBranchKey E tr br) = s (historyBranchKey E tr br)"
  shows "branchRep E tr br s' ns \<longleftrightarrow> branchRep E tr br s ns"
  using assms by (simp add: branchRep_def branchIndex_def binOf_def nodeKey_def)

definition nodeOf :: "append_req \<Rightarrow> hist_node" where
  "nodeOf e = \<lparr>hn_NodeID = ah_NodeID e, hn_TransactionID = ah_TransactionID e, hn_PrevTransactionID = ah_PrevTransactionID e,
     hn_Events = Some (ah_Events e)\<rparr>"

lemma nodeOf_simps [simp]:
  "hn_NodeID (nodeOf e) = ah_NodeID e" "hn_TransactionID (nodeOf e) = ah_TransactionID e"
  "hn_PrevTransactionID (nodeOf e) = ah_PrevTransactionID e" "hn_Events (nodeOf e) = Some (ah_Events e)"
  "KBytes (nodeSort (nodeOf e)) = sortKeyOf e"
  by (simp_all add: nodeOf_def nodeSort_def sortKeyOf_def)

lemma branchRep_appended:
  assumes api: "temporal_api E" and rep: "branchRep E tr br s ns" and n: "0 \<le> sint (ah_NodeID e)"
    and e: "ah_BranchInfo e = \<lparr>br_treeID = tr, br_branchID = br\<rparr>"
  shows "branchRep E tr br (appended E e s) (nodePut (nodeOf e) ns)"
proof -
  let ?s = "appended E e s"
  note r = rep [unfolded branchRep_def]
  have keys: "nodeKeyOf E e = historyNodeKey E tr br (ah_NodeID e) (ah_TransactionID e)" "branchKeyOf E e = historyBranchKey E tr br"
    using e by (simp_all add: nodeKeyOf_def branchKeyOf_def)
  have dk: "historyNodeKey E tr br a b \<noteq> historyTreeKey E tr'" "historyNodeKey E tr br a b \<noteq> historyBranchKey E tr br"
    "historyBranchKey E tr br \<noteq> historyTreeKey E tr'" for a b tr'
    by (simp_all add: historyNodeKey_def historyBranchKey_def historyTreeKey_def)
  have idx: "branchIndex E tr br ?s = Some (BMap (map indexEntry (nodePut (nodeOf e) ns)))"
    using r omap_put_nodes [of ns "nodeOf e"] n dk
    by (simp add: branchIndex_def binOf_def appended_def Let_def keys indexPut_def not_sym [OF dk(2)])
  have node: "?s (historyNodeKey E tr br a b) = (if a = ah_NodeID e \<and> b = ah_TransactionID e
      then Some (put_bins (nodeBins E e) (old_bins (s (historyNodeKey E tr br a b)))) else s (historyNodeKey E tr br a b))" for a b
    by (auto simp: appended_def Let_def keys dk)
  have blob: "bin_blob E ''data'' ''enc'' (put_bins (nodeBins E e) r0) = Some (ah_Events e)" for r0
    by (simp add: nodeBins_def bin_blob_def temporal_api.NewDataBlob_String [OF api])
  have mem: "set (nodePut (nodeOf e) ns) = insert (nodeOf e) {x \<in> set ns. \<not> sameNode (nodeOf e) x}"
    using r by (intro set_nodePut) (simp add: nodesOk_def)
  have ok: "nodesOk (nodePut (nodeOf e) ns)" using r n by (simp add: nodesOk_nodePut)
  have present: "\<exists>r. ?s (nodeKey E tr br nd) = Some r \<and> bin_blob E ''data'' ''enc'' r = hn_Events nd"
    if "nd \<in> set (nodePut (nodeOf e) ns)" for nd
    using that r mem by (auto simp: nodeKey_def node blob sameNode_def)
  have indexed: "\<exists>nd \<in> set (nodePut (nodeOf e) ns). hn_NodeID nd = a \<and> hn_TransactionID nd = b"
    if "?s (historyNodeKey E tr br a b) \<noteq> None" for a b
  proof (cases "a = ah_NodeID e \<and> b = ah_TransactionID e")
    case True
    then show ?thesis using mem by auto
  next
    case False
    then have "s (historyNodeKey E tr br a b) \<noteq> None" using that node [of a b] by auto
    then obtain nd where "nd \<in> set ns" "hn_NodeID nd = a" "hn_TransactionID nd = b" using r by blast
    with False show ?thesis using mem by (auto simp: sameNode_def)
  qed
  show ?thesis
    unfolding branchRep_def idx using ok present indexed omap_ok_nodes [OF ok] by simp
qed

lemma prun_appendHistoryNodesIn:
  assumes "map_ok (binOf s (branchKeyOf E e) ''idx'')"
    and "ah_IsNewBranch e \<Longrightarrow> map_ok (binOf s (historyTreeKey E (br_treeID (ah_BranchInfo e))) ''br'')"
  shows "prun Q (appendHistoryNodesIn E (beginTxn E' t) e) s = (Inr (), appended E e s)"
  using assms
  by (auto simp: appendHistoryNodesIn_def Let_def nodeKeyOf_def [symmetric] branchKeyOf_def [symmetric] sortKeyOf_def [symmetric] treeOps_def
      prun_put prun_operate_ok binOf_def map_write_ok appended_def indexPut_def treePut_def)

lemma txn_body_appendHistoryNodesIn [txn_intros]: "txn_body t (appendHistoryNodesIn E (beginTxn E' t) e)"
  by (auto simp: appendHistoryNodesIn_def Let_def intro!: txn_intros split: sum.splits)

text \<open>
  C18. \<^verbatim>\<open>AppendHistoryNodes\<close> implements the branch: when it succeeds there was one instant at which the branch went
  from its nodes to its nodes with the appended one, in tree order, replacing the node of the same id and
  transaction; index entry and payload appear together and every index entry has its payload before and
  after. A new branch is entered in its tree with the tree info of the request; otherwise the tree record
  is untouched. Nothing else changes: no other record, no other entry of the branch index, no other branch
  of the tree and no other bin of the records written.
\<close>

theorem AppendHistoryNodes_refines:
  assumes srv: "aerospike Q srv store_of base_of work_of R" and api: "temporal_api E"
    and run: "run srv (AppendHistoryNodes E e) db = (Inr (), db')"
    and branch: "ah_BranchInfo e = \<lparr>br_treeID = tr, br_branchID = br\<rparr>" "0 \<le> sint (ah_NodeID e)"
  shows "\<exists>s0 s1. R (store_of db) s0 \<and> R s1 (store_of db') \<and>
    (\<forall>ns. branchRep E tr br s0 ns \<longrightarrow> branchRep E tr br s1 (nodePut (nodeOf e) ns)) \<and> eventStored E e s1 \<and>
    (if ah_IsNewBranch e
     then entries (binOf s1 (historyTreeKey E tr) ''br'') (KStr br) = Some (blobValue E (ah_TreeInfo e)) \<and>
       binOf s1 (historyTreeKey E tr) ''tree_id'' = Some (BVal (GString tr))
     else s1 (historyTreeKey E tr) = s0 (historyTreeKey E tr)) \<and>
    eventsFramed E [e] s0 s1 \<and> (\<forall>k. k \<notin> eventKeys E [e] \<longrightarrow> s1 k = s0 k)"
proof -
  from aerospike.withTxn_ok [OF srv _ run [unfolded AppendHistoryNodes_def]]
  obtain t s0 s1 where s: "R (store_of db) s0" "prun Q (appendHistoryNodesIn E (beginTxn E t) e) s0 = (Inr (), s1)" "R s1 (store_of db')"
    using txn_body_appendHistoryNodesIn by blast
  have s1: "s1 = appended E e s0" by (rule appendHistoryNodesIn_ok [OF s(2)])
  have "if ah_IsNewBranch e
     then entries (binOf s1 (historyTreeKey E tr) ''br'') (KStr br) = Some (blobValue E (ah_TreeInfo e)) \<and>
       binOf s1 (historyTreeKey E tr) ''tree_id'' = Some (BVal (GString tr))
     else s1 (historyTreeKey E tr) = s0 (historyTreeKey E tr)"
    by (simp add: s1 appended_def Let_def binOf_def treePut_def branch(1) map_of_omap_put entries_def)
  then show ?thesis
    using s(1,3) branchRep_appended [OF api _ branch(2,1)] eventStored_appended [OF api] eventsFramed_appended appended_other s1 by blast
qed

abbreviation "sampleBranch \<equiv> \<lparr>br_treeID = ''t'', br_branchID = ''b''\<rparr>"
abbreviation "sampleEvent n \<equiv> \<lparr>ah_BranchInfo = sampleBranch, ah_NodeID = n, ah_TransactionID = 10, ah_PrevTransactionID = 9,
  ah_Events = \<lparr>blob_data = [1], blob_enc = 1\<rparr>, ah_IsNewBranch = True, ah_TreeInfo = None\<rparr>"

lemma AppendHistoryNodes_total:
  assumes srv: "quiet_aerospike Q srv store_of base_of work_of"
    and idx: "map_ok (binOf (store_of db) (branchKeyOf E e) ''idx'')"
    and tree: "ah_IsNewBranch e \<Longrightarrow> map_ok (binOf (store_of db) (historyTreeKey E (br_treeID (ah_BranchInfo e))) ''br'')"
  shows "\<exists>db'. run srv (AppendHistoryNodes E e) db = (Inr (), db') \<and> store_of db' = appended E e (store_of db)"
proof -
  obtain y db' where y: "run srv (AppendHistoryNodes E e) db = (y, db')" by fastforce
  from quiet_aerospike.withTxn_quiet [OF srv _ y [unfolded AppendHistoryNodes_def]]
  obtain t s1 where "prun Q (appendHistoryNodesIn E (beginTxn E t) e) (store_of db) = (y, s1)"
    "store_of db' = (case y of Inl _ \<Rightarrow> store_of db | Inr _ \<Rightarrow> s1)"
    using txn_body_appendHistoryNodesIn by blast
  with prun_appendHistoryNodesIn [OF idx tree] y show ?thesis by auto
qed

lemma branchRep_empty: "(\<And>n x. s (historyNodeKey E tr br n x) = None) \<Longrightarrow> s (historyBranchKey E tr br) = None \<Longrightarrow> branchRep E tr br s []"
  by (simp add: branchRep_def nodesOk_def branchIndex_def binOf_def)

theorem AppendHistoryNodes_refines_witness:
  "\<exists>s1. branchRep sample_env ''t'' ''b'' s1 [nodeOf (sampleEvent 3)]"
proof -
  obtain db' where "run (mem_server sampleQuirks) (AppendHistoryNodes sample_env (sampleEvent 3)) (mem_init Map.empty) = (Inr (), db')"
    using AppendHistoryNodes_total [OF mem.quiet_aerospike_axioms, of "mem_init Map.empty" sample_env "sampleEvent 3" sampleQuirks]
    by (auto simp: mem_init_def binOf_def)
  from AppendHistoryNodes_refines [OF mem.aerospike_axioms sample.temporal_api_axioms this, of "''t''" "''b''"]
  obtain s0 s1 where "m_store (mem_init Map.empty) = s0" "\<forall>ns. branchRep sample_env ''t'' ''b'' s0 ns \<longrightarrow> branchRep sample_env ''t'' ''b'' s1 (nodePut (nodeOf (sampleEvent 3)) ns)"
    by auto
  moreover have "branchRep sample_env ''t'' ''b'' Map.empty []" by (rule branchRep_empty) simp_all
  ultimately show ?thesis by (force simp: mem_init_def)
qed

section \<open>Deleting\<close>

lemma sortKey_bounds:
  assumes "0 \<le> sint a" "0 \<le> sint (hn_NodeID nd)"
  shows "historyNodeSortKey a MaxInt64 \<le> nodeSort nd \<longleftrightarrow> sint a \<le> sint (hn_NodeID nd)"
    "nodeSort nd < historyNodeSortKey a MaxInt64 \<longleftrightarrow> sint (hn_NodeID nd) < sint a"
proof -
  have "\<not> (9223372036854775807 :: int) < sint (hn_TransactionID nd)" using sint_range64(2) [of "hn_TransactionID nd"] by simp
  then have "nodeSort nd < historyNodeSortKey a MaxInt64 \<longleftrightarrow> sint (hn_NodeID nd) < sint a"
    using assms by (simp add: nodeSort_def historyNodeSortKey_less)
  then show "nodeSort nd < historyNodeSortKey a MaxInt64 \<longleftrightarrow> sint (hn_NodeID nd) < sint a"
    "historyNodeSortKey a MaxInt64 \<le> nodeSort nd \<longleftrightarrow> sint a \<le> sint (hn_NodeID nd)"
    by (auto simp: not_less [symmetric])
qed

lemma prun_deleteNodes:
  "prun Q (deleteNodes E (beginTxn E' t) tr br (map nodeSort ds)) s = (Inr (), \<lambda>k. if k \<in> nodeKey E tr br ` set ds then None else s k)"
proof (induction ds arbitrary: s)
  case (Cons d ds)
  let ?s = "s(nodeKey E tr br d := None)"
  have "prun Q (deleteNodes E (beginTxn E' t) tr br (map nodeSort (d # ds))) s = prun Q (deleteNodes E (beginTxn E' t) tr br (map nodeSort ds)) ?s"
    by (auto simp: nodeSort_def decode_historyNodeSortKey prun_delete nodeKey_def fun_upd_idem split: option.splits)
  then show ?case using Cons.IH [of ?s] by (auto simp: fun_eq_iff)
qed simp

text \<open>The records of a branch.\<close>

definition branchKeys :: "env \<Rightarrow> string \<Rightarrow> string \<Rightarrow> askey set" where
  "branchKeys E tr br = insert (historyBranchKey E tr br) (range (\<lambda>(n, x). historyNodeKey E tr br n x))"

definition deleted :: "env \<Rightarrow> string \<Rightarrow> string \<Rightarrow> (hist_node \<Rightarrow> bool) \<Rightarrow> (mkey \<Rightarrow> bool) \<Rightarrow> hist_node list \<Rightarrow> store \<Rightarrow> store" where
  "deleted E tr br D P ns s =
     dropEntries (historyBranchKey E tr br) ''idx'' P (\<lambda>k. if k \<in> nodeKey E tr br ` set (filter D ns) then None else s k)"

lemma nodeKey_not_branch [simp]: "nodeKey E tr br nd \<noteq> historyBranchKey E tr' br'" "historyBranchKey E tr' br' \<noteq> nodeKey E tr br nd"
  by (simp_all add: nodeKey_def historyNodeKey_def historyBranchKey_def)

lemma branchRep_deleted:
  assumes rep: "branchRep E tr br s ns"
    and P: "\<And>nd. nd \<in> set ns \<Longrightarrow> P (KBytes (nodeSort nd)) \<longleftrightarrow> D nd"
  shows "branchRep E tr br (deleted E tr br D P ns s) (filter (\<lambda>nd. \<not> D nd) ns)"
    "k \<notin> branchKeys E tr br \<Longrightarrow> deleted E tr br D P ns s k = s k"
proof -
  let ?s = "deleted E tr br D P ns s" and ?k = "historyBranchKey E tr br"
  note r = rep [unfolded branchRep_def]
  have b: "s ?k = (if ?k \<in> nodeKey E tr br ` set (filter D ns) then None else s ?k)" by auto
  have idx: "map_ok (branchIndex E tr br ?s)" "the_map (branchIndex E tr br ?s) = map indexEntry (filter (\<lambda>nd. \<not> D nd) ns)"
  proof -
    have f: "filter (\<lambda>p. \<not> P (fst p)) (map indexEntry ns) = map indexEntry (filter (\<lambda>nd. \<not> D nd) ns)"
      unfolding filter_map using P by (auto simp: indexEntry_def o_def intro!: arg_cong [of _ _ "map indexEntry"] filter_cong)
    show "map_ok (branchIndex E tr br ?s)" "the_map (branchIndex E tr br ?s) = map indexEntry (filter (\<lambda>nd. \<not> D nd) ns)"
      using r f b unfolding branchIndex_def binOf_def deleted_def by (simp_all add: dropEntries_map)
  qed
  have dk: "historyNodeKey E tr br n x \<noteq> ?k" for n x by (simp add: historyNodeKey_def historyBranchKey_def)
  have node: "?s (historyNodeKey E tr br n x) =
      (if \<exists>nd \<in> set ns. D nd \<and> hn_NodeID nd = n \<and> hn_TransactionID nd = x then None else s (historyNodeKey E tr br n x))" for n x
    using dk by (auto simp: deleted_def nodeKey_def)
  have uniq: "a = b" if "a \<in> set ns" "b \<in> set ns" "sameNode a b" for a b
  proof -
    have "nodeSort a = nodeSort b" using that(3) by (simp add: nodeSort_eq)
    moreover have "distinct (map (fst \<circ> indexEntry) ns)" using omap_ok_distinct [OF omap_ok_nodes] r by force
    ultimately show "a = b" using that(1,2) by (auto simp: indexEntry_def distinct_map inj_on_def o_def)
  qed
  have "nodesOk (filter (\<lambda>nd. \<not> D nd) ns)" using r by (auto simp: nodesOk_def sorted_wrt_filter)
  moreover have "\<exists>r. ?s (nodeKey E tr br nd) = Some r \<and> bin_blob E ''data'' ''enc'' r = hn_Events nd" if "nd \<in> set (filter (\<lambda>nd. \<not> D nd) ns)" for nd
    using r that uniq by (auto simp: nodeKey_def node sameNode_def)
  moreover have "\<exists>nd \<in> set (filter (\<lambda>nd. \<not> D nd) ns). hn_NodeID nd = n \<and> hn_TransactionID nd = x" if "?s (historyNodeKey E tr br n x) \<noteq> None" for n x
  proof -
    have "s (historyNodeKey E tr br n x) \<noteq> None" "\<not> (\<exists>nd \<in> set ns. D nd \<and> hn_NodeID nd = n \<and> hn_TransactionID nd = x)"
      using that node [of n x] by (auto split: if_splits)
    moreover from this(1) obtain nd where "nd \<in> set ns" "hn_NodeID nd = n" "hn_TransactionID nd = x" using r by blast
    ultimately show ?thesis by auto
  qed
  ultimately show "branchRep E tr br ?s (filter (\<lambda>nd. \<not> D nd) ns)" using idx unfolding branchRep_def by blast
  show "?s k = s k" if "k \<notin> branchKeys E tr br" for k
    using that by (auto simp: deleted_def branchKeys_def nodeKey_def)
qed

definition beforeNode :: "int64 \<Rightarrow> hist_node list \<Rightarrow> hist_node list" where
  "beforeNode begn ns = filter (\<lambda>nd. sint (hn_NodeID nd) < sint begn) ns"

lemma deleteBranchNodesFrom_run:
  assumes rep: "branchRep E tr br s ns" and beg: "0 \<le> sint begn"
  shows "\<exists>s'. prun Q (deleteBranchNodesFrom E (beginTxn E' t) tr br begn) s = (Inr (), s') \<and>
    branchRep E tr br s' (beforeNode begn ns) \<and> (\<forall>k. k \<notin> branchKeys E tr br \<longrightarrow> s' k = s k)"
proof (cases "s (historyBranchKey E tr br)")
  case None
  then have "ns = []" using rep by (simp add: branchRep_def branchIndex_def binOf_def)
  with None rep show ?thesis by (simp add: deleteBranchNodesFrom_def Let_def prun_map_get beforeNode_def)
next
  case (Some r)
  let ?D = "\<lambda>nd. sint begn \<le> sint (hn_NodeID nd)" and ?lo = "KBytes (historyNodeSortKey begn MaxInt64)" and ?k = "historyBranchKey E tr br"
  note rp = rep [unfolded branchRep_def branchIndex_def binOf_def]
  have nn: "0 \<le> sint (hn_NodeID nd)" if "nd \<in> set ns" for nd using rp that by (simp add: nodesOk_def)
  have P: "in_range ?lo None (KBytes (nodeSort nd)) \<longleftrightarrow> ?D nd" if "nd \<in> set ns" for nd
    using sortKey_bounds(1) [OF beg nn [OF that]] by (simp add: in_range_def)
  have rng: "omap_range ?lo None (map indexEntry ns) = map indexEntry (filter ?D ns)"
    unfolding omap_range_def filter_map using P by (auto simp: indexEntry_def o_def intro!: arg_cong [of _ _ "map indexEntry"] filter_cong)
  have keys: "List.map_filter (asBytes \<circ> (\<lambda>p. read_key (fst p)) \<circ> indexEntry) xs = map nodeSort xs" for xs
    by (induction xs) (simp_all add: List.map_filter_simps indexEntry_def)
  have list: "mapKeyList (op_record Q ?k [(''idx'', ret_value RetKey (omap_range ?lo None (the_map (old_bins (s ?k) ''idx''))))]) ''idx'' = map nodeSort (filter ?D ns)"
    using rp keys [of "filter ?D ns"] by (simp add: mapKeyList_def rng map_filter_map o_def)
  have none: "old_bins (s ?k) ''idx'' = None \<Longrightarrow> ns = []" using rp by simp
  let ?s1 = "\<lambda>k. if k \<in> nodeKey E tr br ` set (filter ?D ns) then None else s k"
  have s1k: "?s1 ?k = s ?k" by auto
  have "prun Q (deleteBranchNodesFrom E (beginTxn E' t) tr br begn) s = (Inr (), deleted E tr br ?D (in_range ?lo None) ns s)"
  proof -
    have dropE: "prun Q (pbind (operateP (ts_write (beginTxn E' t)) ?k [MapRemoveByKeyRangeOp ''idx'' ?lo None RetNone]) g) ?s1 =
        prun Q p (dropEntries ?k ''idx'' (in_range ?lo None) ?s1)"
      if "g (Inl (AsError [KEY_NOT_FOUND_ERROR])) = p" "\<And>rec. g (Inr rec) = p" for g :: "goerr + as_record \<Rightarrow> unit io" and p
      using rp by (intro prun_map_drop that) (simp_all add: s1k del: if_image_distrib)
    have get: "prun Q (pbind (operateP (ts_write (beginTxn E' t)) ?k [MapGetByKeyRangeOp ''idx'' ?lo None RetKey]) g) s =
        prun Q (g (Inr (op_record Q ?k (if old_bins (s ?k) ''idx'' = None then [] else
          [(''idx'', ret_value RetKey (omap_range ?lo None (the_map (old_bins (s ?k) ''idx''))))])))) s" for g :: "goerr + as_record \<Rightarrow> unit io"
      using rp Some by (subst prun_map_get) auto
    have "mapKeyList (op_record Q ?k (if old_bins (s ?k) ''idx'' = None then [] else
          [(''idx'', ret_value RetKey (omap_range ?lo None (the_map (old_bins (s ?k) ''idx''))))])) ''idx'' = map nodeSort (filter ?D ns)"
      using list none by (auto simp: mapKeyList_def)
    then show ?thesis
      unfolding deleteBranchNodesFrom_def Let_def get sum.case
      by (simp only: prun_tryP prun_deleteNodes prod.case sum.case) (subst dropE [of _ "Ret (Inr ())"], simp_all add: deleted_def)
  qed
  moreover have "filter (\<lambda>nd. \<not> ?D nd) ns = beforeNode begn ns" by (simp add: beforeNode_def not_le)
  moreover note branchRep_deleted [where D = ?D and P = "in_range ?lo None", OF rep P]
  ultimately show ?thesis by auto
qed

lemma branchKeys_disjoint: "br \<noteq> br' \<Longrightarrow> k \<in> branchKeys E tr br \<Longrightarrow> k \<notin> branchKeys E tr br'"
  by (auto simp: branchKeys_def) (auto simp: historyNodeKey_def historyBranchKey_def)

lemma branchRep_frame: "(\<And>k. k \<in> branchKeys E tr br \<Longrightarrow> s' k = s k) \<Longrightarrow> branchRep E tr br s' ns \<longleftrightarrow> branchRep E tr br s ns"
  by (rule branchRep_cong) (auto simp: branchKeys_def)

lemma deleteRanges_run:
  assumes "distinct (map fst ranges)" "\<And>br begn. (br, begn) \<in> set ranges \<Longrightarrow> 0 \<le> sint begn \<and> branchRep E tr br s (fam br)"
  shows "\<exists>s'. prun Q (deleteRanges E (beginTxn E' t) tr ranges) s = (Inr (), s') \<and>
    (\<forall>(br, begn) \<in> set ranges. branchRep E tr br s' (beforeNode begn (fam br))) \<and>
    (\<forall>k. (\<forall>br \<in> fst ` set ranges. k \<notin> branchKeys E tr br) \<longrightarrow> s' k = s k)"
  using assms
proof (induction ranges arbitrary: s)
  case (Cons x ranges)
  obtain br begn where x: "x = (br, begn)" by (cases x)
  obtain s1 where s1: "prun Q (deleteBranchNodesFrom E (beginTxn E' t) tr br begn) s = (Inr (), s1)"
    "branchRep E tr br s1 (beforeNode begn (fam br))" "\<And>k. k \<notin> branchKeys E tr br \<Longrightarrow> s1 k = s k"
    using deleteBranchNodesFrom_run [of E tr br s "fam br" begn Q E' t] Cons.prems(2) [of br begn] by (auto simp: x)
  have other: "br' \<noteq> br" if "(br', b') \<in> set ranges" for br' b' using Cons.prems(1) that by (force simp: x)
  have keep: "0 \<le> sint b' \<and> branchRep E tr br' s1 (fam br')" if "(br', b') \<in> set ranges" for br' b'
    using Cons.prems(2) [of br' b'] that s1(3) branchKeys_disjoint [OF other [OF that]] branchRep_frame [of E tr br' s1 s] by auto
  obtain s2 where s2: "prun Q (deleteRanges E (beginTxn E' t) tr ranges) s1 = (Inr (), s2)"
    "\<forall>(br, begn) \<in> set ranges. branchRep E tr br s2 (beforeNode begn (fam br))"
    "\<And>k. (\<forall>br \<in> fst ` set ranges. k \<notin> branchKeys E tr br) \<Longrightarrow> s2 k = s1 k"
    using Cons.IH [of s1] keep Cons.prems(1) by auto
  have "branchRep E tr br s2 (beforeNode begn (fam br))"
    using s1(2) s2(3) branchKeys_disjoint other branchRep_frame [of E tr br s2 s1] by (metis imageE prod.collapse)
  with s1 s2 show ?case by (auto simp: x prun_tryP)
qed simp

lemma txn_body_deleteNodes [txn_intros]: "txn_body t (deleteNodes E (beginTxn E' t) tr br raws)"
  by (induction raws) (auto intro!: txn_intros split: sum.splits option.splits)

lemma txn_body_deleteBranchNodesFrom [txn_intros]: "txn_body t (deleteBranchNodesFrom E (beginTxn E' t) tr br n)"
  by (auto simp: deleteBranchNodesFrom_def Let_def intro!: txn_intros split: sum.splits)

lemma txn_body_deleteRanges [txn_intros]: "txn_body t (deleteRanges E (beginTxn E' t) tr rs)"
  by (induction rs) (auto intro!: txn_intros)

definition treeBin :: "env \<Rightarrow> string \<Rightarrow> store \<Rightarrow> binval option" where
  "treeBin E tr s = binOf s (historyTreeKey E tr) ''br''"

definition deleteBody :: "env \<Rightarrow> branch_info \<Rightarrow> (string \<times> int64) list \<Rightarrow> txnScope \<Rightarrow> unit io" where
  "deleteBody E branch ranges t =
     pbind (operateP (ts_write t) (historyTreeKey E (br_treeID branch)) [MapRemoveByKeyOp ''br'' (KStr (br_branchID branch)) RetNone]) (\<lambda>r. case r of
        Inl err \<Rightarrow> if \<not> isNotFound err then Ret (Inl (convertError ''DeleteHistoryBranch'' err)) else deleteRanges E t (br_treeID branch) ranges
      | Inr _ \<Rightarrow> deleteRanges E t (br_treeID branch) ranges)"

lemma DeleteHistoryBranch_scope: "DeleteHistoryBranch E branch ranges = withTxn E ''DeleteHistoryBranch'' (deleteBody E branch ranges)"
  by (simp add: DeleteHistoryBranch_def deleteBody_def [abs_def])

lemma txn_body_deleteBody: "txn_body t (deleteBody E branch ranges (beginTxn E t))"
  by (auto simp: deleteBody_def intro!: txn_intros split: sum.splits)

definition rangesOk :: "(string \<times> int64) list \<Rightarrow> bool" where
  "rangesOk ranges \<longleftrightarrow> distinct (map fst ranges) \<and> (\<forall>(br, begn) \<in> set ranges. 0 \<le> sint begn)"

definition branchesHold :: "env \<Rightarrow> string \<Rightarrow> store \<Rightarrow> string list \<Rightarrow> (string \<Rightarrow> hist_node list) \<Rightarrow> bool" where
  "branchesHold E tr s brs fam \<longleftrightarrow> map_ok (treeBin E tr s) \<and> (\<forall>br \<in> set brs. branchRep E tr br s (fam br))"

definition branchesCut :: "env \<Rightarrow> branch_info \<Rightarrow> (string \<times> int64) list \<Rightarrow> (string \<Rightarrow> hist_node list) \<Rightarrow> store \<Rightarrow> store \<Rightarrow> bool" where
  "branchesCut E branch ranges fam s s' \<longleftrightarrow>
     (\<forall>(br, begn) \<in> set ranges. branchRep E (br_treeID branch) br s' (beforeNode begn (fam br))) \<and>
     entries (treeBin E (br_treeID branch) s') = (entries (treeBin E (br_treeID branch) s))(KStr (br_branchID branch) := None) \<and>
     (\<forall>k. k \<noteq> historyTreeKey E (br_treeID branch) \<longrightarrow> (\<forall>br \<in> fst ` set ranges. k \<notin> branchKeys E (br_treeID branch) br) \<longrightarrow> s' k = s k)"

lemma deleteBody_run:
  assumes ok: "rangesOk ranges" and hold: "branchesHold E (br_treeID branch) s (map fst ranges) fam"
  shows "\<exists>s'. prun Q (deleteBody E branch ranges (beginTxn E' t)) s = (Inr (), s') \<and> branchesCut E branch ranges fam s s'"
proof -
  let ?tr = "br_treeID branch" and ?k = "historyTreeKey E (br_treeID branch)" and ?mk = "KStr (br_branchID branch)"
  let ?s1 = "dropEntries ?k ''br'' (\<lambda>x. x = ?mk) s"
  have m: "map_ok (old_bins (s ?k) ''br'')" using hold by (simp add: branchesHold_def treeBin_def binOf_def)
  have "prun Q (deleteBody E branch ranges (beginTxn E' t)) s = prun Q (deleteRanges E (beginTxn E' t) ?tr ranges) ?s1"
    unfolding deleteBody_def by (rule prun_map_drop) (use m in simp_all)
  moreover have tk: "k \<noteq> ?k" if "k \<in> branchKeys E ?tr br" for k br
    using that by (auto simp: branchKeys_def historyNodeKey_def historyBranchKey_def historyTreeKey_def)
  then have "0 \<le> sint begn \<and> branchRep E ?tr br ?s1 (fam br)" if "(br, begn) \<in> set ranges" for br begn
    using that ok hold branchRep_frame [of E ?tr br ?s1 s] by (force simp: rangesOk_def branchesHold_def)
  then obtain s' where s': "prun Q (deleteRanges E (beginTxn E' t) ?tr ranges) ?s1 = (Inr (), s')"
    "\<forall>(br, begn) \<in> set ranges. branchRep E ?tr br s' (beforeNode begn (fam br))"
    "\<forall>k. (\<forall>br \<in> fst ` set ranges. k \<notin> branchKeys E ?tr br) \<longrightarrow> s' k = ?s1 k"
    using deleteRanges_run [of ranges E ?tr ?s1 fam Q E' t] ok by (auto simp: rangesOk_def)
  moreover have "s' ?k = ?s1 ?k" using s'(3) tk by blast
  then have "entries (treeBin E ?tr s') = (entries (treeBin E ?tr s))(?mk := None)"
    by (simp add: treeBin_def binOf_def entries_def dropEntries_map fun_eq_iff map_of_filter_fst [where P = "\<lambda>x. x \<noteq> ?mk"])
  ultimately show ?thesis by (auto simp: branchesCut_def)
qed

text \<open>
  C19. \<^verbatim>\<open>DeleteHistoryBranch\<close> removes, at one instant, exactly the nodes at or behind the begin node of every
  range it is given, index entries and payloads together, and the branch from its tree; what is before
  the begin nodes, the other branches and all other records stay.
\<close>

theorem DeleteHistoryBranch_refines:
  assumes srv: "aerospike Q srv store_of base_of work_of R" and ok: "rangesOk ranges"
    and run: "run srv (DeleteHistoryBranch E branch ranges) db = (Inr (), db')"
  shows "\<exists>s0 s1. R (store_of db) s0 \<and> R s1 (store_of db') \<and>
    (\<forall>fam. branchesHold E (br_treeID branch) s0 (map fst ranges) fam \<longrightarrow> branchesCut E branch ranges fam s0 s1)"
proof -
  from aerospike.withTxn_ok [OF srv txn_body_deleteBody run [unfolded DeleteHistoryBranch_scope]]
  obtain t s0 s1 where s: "R (store_of db) s0" "prun Q (deleteBody E branch ranges (beginTxn E t)) s0 = (Inr (), s1)" "R s1 (store_of db')"
    by blast
  have "branchesCut E branch ranges fam s0 s1" if "branchesHold E (br_treeID branch) s0 (map fst ranges) fam" for fam
    using deleteBody_run [OF ok that, of Q E t] s(2) by auto
  with s show ?thesis by blast
qed

definition sampleHistory :: store where
  "sampleHistory = appended sample_env (sampleEvent 5) (appended sample_env (sampleEvent 3) Map.empty)"

lemma sampleHistory_rep: "branchRep sample_env ''t'' ''b'' sampleHistory [nodeOf (sampleEvent 3), nodeOf (sampleEvent 5)]"
proof -
  have "branchRep sample_env ''t'' ''b'' Map.empty []" by (rule branchRep_empty) simp_all
  from branchRep_appended [OF sample.temporal_api_axioms branchRep_appended [OF sample.temporal_api_axioms this]]
  have "branchRep sample_env ''t'' ''b'' sampleHistory (nodePut (nodeOf (sampleEvent 5)) (nodePut (nodeOf (sampleEvent 3)) []))"
    unfolding sampleHistory_def by simp
  then show ?thesis by (simp add: nodeLess_def)
qed

lemma sampleHistory_hold: "branchesHold sample_env ''t'' sampleHistory [''b''] (\<lambda>_. [nodeOf (sampleEvent 3), nodeOf (sampleEvent 5)])"
proof -
  have "treeBin sample_env ''t'' sampleHistory = Some (BMap [(KStr ''b'', blobValue sample_env None)])"
    by (simp add: sampleHistory_def appended_def treeBin_def binOf_def treePut_def)
  then show ?thesis using sampleHistory_rep by (simp add: branchesHold_def omap_ok_Cons)
qed

theorem DeleteHistoryBranch_refines_witness:
  "\<exists>s1. branchRep sample_env ''t'' ''b'' s1 [nodeOf (sampleEvent 3)]"
proof -
  have ok: "rangesOk [(''b'', 4)]" by (simp add: rangesOk_def)
  obtain y db' where y: "run (mem_server sampleQuirks) (DeleteHistoryBranch sample_env sampleBranch [(''b'', 4)]) (mem_init sampleHistory) = (y, db')"
    by fastforce
  from mem.withTxn_quiet [OF txn_body_deleteBody y [unfolded DeleteHistoryBranch_scope]]
  obtain t s1 where "prun sampleQuirks (deleteBody sample_env sampleBranch [(''b'', 4)] (beginTxn sample_env t)) sampleHistory = (y, s1)"
    by (auto simp: mem_init_def)
  then have "y = Inr ()"
    using deleteBody_run [OF ok, of sample_env sampleBranch sampleHistory "\<lambda>_. [nodeOf (sampleEvent 3), nodeOf (sampleEvent 5)]" sampleQuirks sample_env t]
      sampleHistory_hold by auto
  from DeleteHistoryBranch_refines [OF mem.aerospike_axioms ok y [unfolded this]] sampleHistory_hold
  obtain s1 where "branchesCut sample_env sampleBranch [(''b'', 4)] (\<lambda>_. [nodeOf (sampleEvent 3), nodeOf (sampleEvent 5)]) sampleHistory s1"
    by (auto simp: mem_init_def)
  then show ?thesis by (auto simp: branchesCut_def beforeNode_def)
qed

end
