(* ===== verification/HistoryRead.thy ===== *)
theory HistoryRead
  imports HistoryProps
begin

text \<open>
  \<^verbatim>\<open>ReadHistoryBranch\<close>: a page of a branch is the stretch of its nodes behind the token, forwards or backwards,
  with the payloads it fetched in one batch put to the right nodes.
\<close>

section \<open>The loops\<close>

lemma compareLoop_less: "length a = length b \<Longrightarrow> 0 < compareLoop a b \<longleftrightarrow> b < a"
  by (induction a b rule: compareLoop.induct) auto

lemma compareLoop_greater: "length a = length b \<Longrightarrow> compareLoop a b < 0 \<longleftrightarrow> a < b"
  by (induction a b rule: compareLoop.induct) auto

lemma compareSortKeys_less:
  "length a = length b \<Longrightarrow> 0 < compareSortKeys a b reverse \<longleftrightarrow> (if reverse then a < b else b < a)"
  by (simp add: compareSortKeys_def Let_def compareLoop_less compareLoop_greater)

lemma reverseLoop_nth:
  "j < length xs \<Longrightarrow> length (reverseLoop i j xs) = length xs \<and>
   (\<forall>k < length xs. reverseLoop i j xs ! k = (if i \<le> k \<and> k \<le> j then xs ! (i + j - k) else xs ! k))"
proof (induction i j xs rule: reverseLoop.induct)
  case (1 i j xs)
  let ?ys = "xs[i := xs ! j, j := xs ! i]"
  show ?case
  proof (cases "i < j")
    case False
    then have "i + j - k = k" if "i \<le> k" "k \<le> j" for k using that by linarith
    with False show ?thesis by (subst (1 2) reverseLoop.simps) auto
  next
    case True
    with 1 have IH: "length (reverseLoop (i + 1) (j - 1) ?ys) = length ?ys"
      "\<And>k. k < length ?ys \<Longrightarrow> reverseLoop (i + 1) (j - 1) ?ys ! k = (if i + 1 \<le> k \<and> k \<le> j - 1 then ?ys ! (i + 1 + (j - 1) - k) else ?ys ! k)"
      by auto
    have step: "reverseLoop i j xs = reverseLoop (i + 1) (j - 1) ?ys" using True by (subst reverseLoop.simps) simp
    have "reverseLoop i j xs ! k = (if i \<le> k \<and> k \<le> j then xs ! (i + j - k) else xs ! k)" if "k < length xs" for k
    proof -
      consider "k = i" | "k = j" | "i < k \<and> k < j" | "k < i \<or> j < k" by linarith
      then show ?thesis
      proof cases
        case 3
        then have "i + 1 + (j - 1) - k = i + j - k" "i + j - k \<noteq> i" "i + j - k \<noteq> j" "i + j - k < length xs" "i + 1 \<le> k \<and> k \<le> j - 1"
          using "1.prems" by linarith+
        then show ?thesis using that IH(2) [of k] 3 unfolding step by simp
      next
        case 1
        then show ?thesis using True "1.prems" that IH(2) [of k] unfolding step by simp
      next
        case 2
        then have "\<not> k \<le> j - 1" using True by linarith
        then show ?thesis using True 2 "1.prems" that IH(2) [of k] unfolding step by simp
      next
        case 4
        then have "\<not> (i + 1 \<le> k \<and> k \<le> j - 1)" "\<not> (i \<le> k \<and> k \<le> j)" "k \<noteq> i" "k \<noteq> j" using True by linarith+
        then show ?thesis using that IH(2) [of k] unfolding step by (simp only: length_list_update if_False nth_list_update_neq)
      qed
    qed
    then show ?thesis using IH(1) step by simp
  qed
qed

lemma reverseLoop_rev: "reverseLoop 0 (length xs - 1) xs = rev xs"
proof (cases "xs = []")
  case True
  then show ?thesis by (simp add: reverseLoop.simps)
next
  case False
  then have "length xs - 1 < length xs" by simp
  from reverseLoop_nth [OF this, of 0] show ?thesis
    by (intro nth_equalityI) (auto simp: rev_nth)
qed

text \<open>What a forward and a backward range read give, in the order of the response.\<close>

lemma upt_first: "[m ..< m + length (x # xs)] = m # [Suc m ..< Suc m + length xs]"
  by (subst upt_conv_Cons) simp_all

definition pairEntry :: "hist_node \<Rightarrow> gval \<times> gval" where
  "pairEntry nd = (GByteArray (nodeSort nd), GInt (hn_PrevTransactionID nd))"

lemma pairEntry_simps [simp]: "fst (pairEntry nd) = GByteArray (nodeSort nd)" "snd (pairEntry nd) = GInt (hn_PrevTransactionID nd)"
  by (simp_all add: pairEntry_def)

definition behind :: "bytes \<Rightarrow> bool \<Rightarrow> hist_node \<Rightarrow> bool" where
  "behind token reverse nd \<longleftrightarrow> token = [] \<or> (if reverse then nodeSort nd < token else token < nodeSort nd)"

lemma length_nodeSort [simp]: "length (nodeSort nd) = 16"
  by (simp add: nodeSort_def)

definition ordered :: "bool \<Rightarrow> hist_node list \<Rightarrow> bool" where
  "ordered reverse ns \<longleftrightarrow> sorted_wrt (\<lambda>a b. if reverse then nodeSort b < nodeSort a else nodeSort a < nodeSort b) ns"

lemma resumeLoop_filter:
  assumes "length token = 16" "ordered reverse ns"
  shows "\<exists>m. resumeLoop token reverse i (map pairEntry ns) = i + m \<and> drop m ns = filter (behind token reverse) ns"
  using assms
proof (induction ns arbitrary: i)
  case (Cons nd ns)
  have t: "token \<noteq> []" using Cons.prems(1) by auto
  show ?case
  proof (cases "behind token reverse nd")
    case True
    then have "0 < compareSortKeys (nodeSort nd) token reverse" using Cons.prems(1) t by (simp add: compareSortKeys_less behind_def)
    moreover have "\<forall>x \<in> set ns. behind token reverse x"
      using True Cons.prems(2) t by (cases reverse) (auto simp: ordered_def behind_def)
    ultimately show ?thesis using True by (intro exI [of _ 0]) simp
  next
    case False
    then have "\<not> 0 < compareSortKeys (nodeSort nd) token reverse" using Cons.prems(1) t by (simp add: compareSortKeys_less behind_def)
    moreover obtain m where "resumeLoop token reverse (i + 1) (map pairEntry ns) = i + 1 + m" "drop m ns = filter (behind token reverse) ns"
      using Cons.IH [of "i + 1"] Cons.prems by (auto simp: ordered_def)
    ultimately show ?thesis using False by (intro exI [of _ "Suc m"]) simp
  qed
qed simp

lemma resumeAt_drop:
  assumes "token = [] \<or> length token = 16" "ordered reverse ns"
  shows "drop (resumeAt token reverse (map pairEntry ns)) (map pairEntry ns) = map pairEntry (filter (behind token reverse) ns)"
  using assms resumeLoop_filter [of token reverse ns 0] by (cases "token = []") (auto simp: resumeAt_def behind_def drop_map)

definition cutNodes :: "int \<Rightarrow> hist_node list \<Rightarrow> hist_node list" where
  "cutNodes pageSize ns = (if 0 < pageSize then take (nat pageSize) ns else ns)"

definition cutToken :: "int \<Rightarrow> hist_node list \<Rightarrow> bytes" where
  "cutToken pageSize ns = (if 0 < pageSize \<and> pageSize < int (length ns) then nodeSort (ns ! (nat pageSize - 1)) else [])"

lemma cutPage_nodes: "cutPage pageSize (map pairEntry ns) = (map pairEntry (cutNodes pageSize ns), cutToken pageSize ns)"
proof (cases "0 < pageSize \<and> pageSize < int (length ns)")
  case True
  then have "nat pageSize - 1 < length ns" "take (nat pageSize) ns \<noteq> []" "length (take (nat pageSize) ns) = nat pageSize" by auto
  then have "last (take (nat pageSize) ns) = ns ! (nat pageSize - 1)" by (simp add: last_conv_nth)
  moreover have "last (map pairEntry (take (nat pageSize) ns)) = pairEntry (last (take (nat pageSize) ns))"
    using \<open>take (nat pageSize) ns \<noteq> []\<close> by (simp add: last_map)
  ultimately show ?thesis using True by (simp add: cutPage_def Let_def cutNodes_def cutToken_def take_map)
next
  case False
  then show ?thesis by (auto simp: cutPage_def cutNodes_def cutToken_def)
qed

abbreviation strip :: "hist_node \<Rightarrow> hist_node" where
  "strip nd \<equiv> nd\<lparr>hn_Events := None\<rparr>"

lemma collectNodes_map:
  "collectNodes E tr br metadataOnly (map pairEntry ns) nodes toFetch =
   (nodes @ map strip ns, toFetch @ (if metadataOnly then [] else zip [length nodes ..< length nodes + length ns] (map (nodeKey E tr br) ns)))"
proof (induction ns arbitrary: nodes toFetch)
  case (Cons nd ns)
  have st: "\<lparr>hn_NodeID = hn_NodeID nd, hn_TransactionID = hn_TransactionID nd, hn_PrevTransactionID = hn_PrevTransactionID nd,
      hn_Events = None\<rparr> = strip nd"
    by simp
  show ?case
    unfolding upt_first using Cons.IH [of "nodes @ [strip nd]"]
    by (simp del: upt_Suc add: nodeSort_def decode_historyNodeSortKey nodeKey_def Let_def st)
qed simp

lemma fillEvents_map:
  assumes "\<And>nd. nd \<in> set ns \<Longrightarrow> \<exists>r. s (nodeKey E tr br nd) = Some r \<and> bin_blob E ''data'' ''enc'' r = hn_Events nd"
  shows "fillEvents E (zip [length pre ..< length pre + length ns] (map (nodeKey E tr br) ns))
    (map (\<lambda>k. map_option (read_bins Q k [''data'', ''enc'']) (s k)) (map (nodeKey E tr br) ns)) (pre @ map strip ns) = pre @ ns"
  using assms
proof (induction ns arbitrary: pre)
  case (Cons nd ns)
  obtain r where r: "s (nodeKey E tr br nd) = Some r" "bin_blob E ''data'' ''enc'' r = hn_Events nd" using Cons.prems by auto
  show ?case
    unfolding upt_first using Cons.IH [of "pre @ [nd]"] Cons.prems r by (simp del: upt_Suc add: nth_append list_update_append)
qed simp

section \<open>Pages\<close>

definition selectNodes :: "read_branch_req \<Rightarrow> hist_node list \<Rightarrow> hist_node list" where
  "selectNodes req ns =
     (let sel = filter (\<lambda>nd. sint (rb_MinNodeID req) \<le> sint (hn_NodeID nd) \<and> sint (hn_NodeID nd) < sint (rb_MaxNodeID req)) ns
      in filter (behind (rb_NextPageToken req) (rb_ReverseOrder req)) (if rb_ReverseOrder req then rev sel else sel))"

definition readResult :: "read_branch_req \<Rightarrow> hist_node list \<Rightarrow> read_branch_resp" where
  "readResult req ns =
     (let rest = selectNodes req ns; page = cutNodes (rb_PageSize req) rest
      in \<lparr>rr_Nodes = (if rb_MetadataOnly req then map strip page else page), rr_NextPageToken = cutToken (rb_PageSize req) rest\<rparr>)"

definition readOk :: "read_branch_req \<Rightarrow> bool" where
  "readOk req \<longleftrightarrow> 0 \<le> sint (rb_MinNodeID req) \<and> 0 \<le> sint (rb_MaxNodeID req) \<and>
     (rb_NextPageToken req = [] \<or> length (rb_NextPageToken req) = 16)"

lemma plain_case [txn_intros]:
  "(\<And>x. plain_prog (f x)) \<Longrightarrow> (\<And>y. plain_prog (g y)) \<Longrightarrow> plain_prog (case z of Inl x \<Rightarrow> f x | Inr y \<Rightarrow> g y)"
  "(\<And>x y. plain_prog (h x y)) \<Longrightarrow> plain_prog (case w of (x, y) \<Rightarrow> h x y)"
  "(b \<Longrightarrow> plain_prog p) \<Longrightarrow> (\<not> b \<Longrightarrow> plain_prog q) \<Longrightarrow> plain_prog (if b then p else q)" "plain_prog (Ret x)"
  by (simp_all split: sum.splits prod.splits)

lemma plain_ReadHistoryBranch: "plain_prog (ReadHistoryBranch E req)"
  unfolding ReadHistoryBranch_def Let_def by (intro plain_pbind plain_case plain_cmds policy_simps)

lemma ordered_nodes:
  assumes "nodesOk ns"
  shows "ordered reverse (if reverse then rev ns else ns)"
proof -
  have "sorted_wrt (\<lambda>a b. nodeSort a < nodeSort b) ns"
    using assms unfolding nodesOk_def by (auto simp: nodeSort_less intro: sorted_wrt_mono_rel [of ns nodeLess])
  then show ?thesis by (simp add: ordered_def sorted_wrt_rev)
qed

lemma nodesOk_filter: "nodesOk ns \<Longrightarrow> nodesOk (filter P ns)"
  by (auto simp: nodesOk_def sorted_wrt_filter)

lemma prun_ReadHistoryBranch:
  assumes branch: "ParseHistoryBranchInfo E (rb_BranchToken req) = Inr branch"
    and rep: "branchRep E (br_treeID branch) (rb_BranchID req) s ns" and ok: "readOk req"
  shows "prun Q (ReadHistoryBranch E req) s = (Inr (readResult req ns), s)"
proof -
  let ?tr = "br_treeID branch" and ?br = "rb_BranchID req" and ?token = "rb_NextPageToken req" and ?rv = "rb_ReverseOrder req"
  let ?k = "historyBranchKey E ?tr ?br"
  let ?lo = "KBytes (historyNodeSortKey (rb_MinNodeID req) MaxInt64)" and ?hi = "KBytes (historyNodeSortKey (rb_MaxNodeID req) MaxInt64)"
  let ?in = "\<lambda>nd. sint (rb_MinNodeID req) \<le> sint (hn_NodeID nd) \<and> sint (hn_NodeID nd) < sint (rb_MaxNodeID req)"
  let ?sel = "filter ?in ns" and ?rest = "selectNodes req ns"
  note rp = rep [unfolded branchRep_def branchIndex_def binOf_def]
  have nn: "0 \<le> sint (hn_NodeID nd)" if "nd \<in> set ns" for nd using rp that by (simp add: nodesOk_def)
  have P: "in_range ?lo (Some ?hi) (KBytes (nodeSort nd)) \<longleftrightarrow> ?in nd" if "nd \<in> set ns" for nd
    using ok sortKey_bounds [OF _ nn [OF that]] by (simp add: in_range_def readOk_def)
  have "omap_range ?lo (Some ?hi) (map indexEntry ns) = map indexEntry ?sel"
    unfolding omap_range_def filter_map using P by (auto simp: indexEntry_def o_def intro!: arg_cong [of _ _ "map indexEntry"] filter_cong)
  moreover have "map_pairs (map indexEntry xs) = map pairEntry xs" for xs by (simp add: map_pairs_def indexEntry_def pairEntry_def)
  ultimately have pairs: "recordMapPairs (op_record Q ?k [(''idx'', ret_value RetKeyValue (omap_range ?lo (Some ?hi) (the_map (old_bins (s ?k) ''idx''))))]) ''idx''
      = map pairEntry ?sel"
    using rp by (simp add: recordMapPairs_def)
  have none: "recordMapPairs (op_record Q ?k []) ''idx'' = []" by (simp add: recordMapPairs_def)
  have empty: "readResult req ns = emptyBranch" if "?sel = []"
    using that by (simp add: readResult_def selectNodes_def Let_def cutNodes_def cutToken_def emptyBranch_def)
  have absent: "ns = []" if "s ?k = None \<or> old_bins (s ?k) ''idx'' = None" using that rp by auto
  have rest: "?rest = filter (behind ?token ?rv) (if ?rv then rev ?sel else ?sel)" by (simp add: selectNodes_def Let_def)
  have turned: "(if ?rv then reverseLoop 0 (length (map pairEntry ?sel) - 1) (map pairEntry ?sel) else map pairEntry ?sel) = map pairEntry (if ?rv then rev ?sel else ?sel)"
    by (simp only: reverseLoop_rev rev_map) simp
  have resume: "drop (resumeAt ?token ?rv (map pairEntry (if ?rv then rev ?sel else ?sel))) (map pairEntry (if ?rv then rev ?sel else ?sel)) = map pairEntry ?rest"
    unfolding rest using ok rp by (intro resumeAt_drop ordered_nodes nodesOk_filter) (auto simp: readOk_def)
  have mem: "nd \<in> set ns" if "nd \<in> set (cutNodes (rb_PageSize req) ?rest)" for nd
    using that unfolding cutNodes_def rest by (auto split: if_splits dest: in_set_takeD)
  let ?page = "cutNodes (rb_PageSize req) ?rest"
  have payload: "\<exists>r. s (nodeKey E ?tr ?br nd) = Some r \<and> bin_blob E ''data'' ''enc'' r = hn_Events nd" if "nd \<in> set ?page" for nd
    using rp mem [OF that] by blast
  have fill: "fillEvents E (zip [0 ..< length ?page] (map (nodeKey E ?tr ?br) ?page))
      (map (\<lambda>k. map_option (read_bins Q k [''data'', ''enc'']) (s k)) (map (nodeKey E ?tr ?br) ?page)) (map strip ?page) = ?page"
    using fillEvents_map [of ?page s E ?tr ?br "[]" Q, OF payload] by (simp only: list.size append_Nil add_0)
  have fetch: "map snd (zip [0 ..< length ?page] (map (nodeKey E ?tr ?br) ?page)) = map (nodeKey E ?tr ?br) ?page" by simp
  show ?thesis
  proof (cases "s ?k = None \<or> old_bins (s ?k) ''idx'' = None \<or> ?sel = []")
    case True
    then have "?sel = []" using absent by auto
    then show ?thesis
      unfolding ReadHistoryBranch_def Let_def branch sum.case using rp empty pairs
      by (subst prun_map_get) (simp_all add: none)
  next
    case False
    have "prun Q (ReadHistoryBranch E req) s =
        prun Q (case collectNodes E ?tr ?br (rb_MetadataOnly req) (map pairEntry ?page) [] [] of (nodes, toFetch) \<Rightarrow>
          if toFetch \<noteq> [] then
            pbind (batchGetP (map snd toFetch) [''data'', ''enc'']) (\<lambda>r. case r of
               Inl err \<Rightarrow> Ret (Inl (convertError ''ReadHistoryBranch'' err))
             | Inr records \<Rightarrow> Ret (Inr \<lparr>rr_Nodes = fillEvents E toFetch records nodes, rr_NextPageToken = cutToken (rb_PageSize req) ?rest\<rparr>))
          else Ret (Inr \<lparr>rr_Nodes = nodes, rr_NextPageToken = cutToken (rb_PageSize req) ?rest\<rparr>)) s"
    proof -
      have get: "prun Q (pbind (operateP (writePolicy E) ?k [MapGetByKeyRangeOp ''idx'' ?lo (Some ?hi) RetKeyValue]) g) s =
          prun Q (g (Inr (op_record Q ?k [(''idx'', ret_value RetKeyValue (omap_range ?lo (Some ?hi) (the_map (old_bins (s ?k) ''idx''))))]))) s"
        for g :: "goerr + as_record \<Rightarrow> read_branch_resp io"
        using rp False by (subst prun_map_get) auto
      have "(map pairEntry ?sel = []) = False" using False by simp
      then show ?thesis
        unfolding ReadHistoryBranch_def Let_def branch sum.case get pairs turned resume cutPage_nodes prod.case by (simp only: if_False)
    qed
    then show ?thesis
      by (cases "rb_MetadataOnly req \<or> ?page = []")
        (auto simp: collectNodes_map readResult_def Let_def prun_batchGet fill simp del: upt_Suc map_map)
  qed
qed

lemma ReadHistoryBranch_run:
  assumes "quiet_aerospike Q srv store_of base_of work_of" "ParseHistoryBranchInfo E (rb_BranchToken req) = Inr branch"
    "branchRep E (br_treeID branch) (rb_BranchID req) (store_of db) ns" "readOk req"
  shows "\<exists>db'. run srv (ReadHistoryBranch E req) db = (Inr (readResult req ns), db') \<and> store_of db' = store_of db"
  using quiet_aerospike.quiet_plain_run [OF assms(1) plain_ReadHistoryBranch prun_ReadHistoryBranch [OF assms(2-4)]] .

text \<open>
  C20. \<^verbatim>\<open>ReadHistoryBranch\<close> returns exactly the nodes of the branch with an id in the requested range that lie behind
  the token, in tree order or, reversed, from its end, cut to the page size, each with its own events unless
  only metadata was asked for; a token comes with the page iff the page size cut something off, and it is
  the sort key of the last node returned. Nothing is written.
\<close>

theorem ReadHistoryBranch_page:
  assumes "quiet_aerospike Q srv store_of base_of work_of" "ParseHistoryBranchInfo E (rb_BranchToken req) = Inr branch"
    "branchRep E (br_treeID branch) (rb_BranchID req) (store_of db) ns" "readOk req"
  shows "\<exists>db'. run srv (ReadHistoryBranch E req) db = (Inr (readResult req ns), db') \<and> store_of db' = store_of db"
  using assms by (rule ReadHistoryBranch_run)

abbreviation "sampleRead rv \<equiv> \<lparr>rb_BranchToken = [116], rb_BranchID = ''b'', rb_MinNodeID = 1, rb_MaxNodeID = 9, rb_PageSize = 1,
  rb_NextPageToken = [], rb_ReverseOrder = rv, rb_MetadataOnly = False\<rparr>"

lemma sampleRead_branch: "ParseHistoryBranchInfo sample_env [116] = Inr sampleBranch"
proof -
  have "char_of (unat (116 :: 8 word)) = CHR ''t''" by code_simp
  then show ?thesis by (simp add: sample_env_def)
qed

theorem ReadHistoryBranch_page_witness:
  "\<exists>db'. run (mem_server sampleQuirks) (ReadHistoryBranch sample_env (sampleRead True)) (mem_init sampleHistory) =
     (Inr \<lparr>rr_Nodes = [nodeOf (sampleEvent 5)], rr_NextPageToken = nodeSort (nodeOf (sampleEvent 5))\<rparr>, db')"
  using ReadHistoryBranch_page [OF mem.quiet_aerospike_axioms, where E = sample_env and req = "sampleRead True" and branch = sampleBranch
      and db = "mem_init sampleHistory" and ns = "[nodeOf (sampleEvent 3), nodeOf (sampleEvent 5)]" and Q = sampleQuirks]
    sampleRead_branch sampleHistory_rep
  by (auto simp: readOk_def mem_init_def readResult_def selectNodes_def behind_def cutNodes_def cutToken_def)

text \<open>
  C21. What \<^verbatim>\<open>AppendHistoryNodes\<close> wrote is what \<^verbatim>\<open>ReadHistoryBranch\<close> returns: on a quiet server the append succeeds on
  every well-formed branch, and a read of the branch that follows returns the page of the old nodes with
  the new one in its place.
\<close>

theorem history_append_read:
  assumes srv: "quiet_aerospike Q srv store_of base_of work_of" and api: "temporal_api E"
    and branch: "ParseHistoryBranchInfo E (rb_BranchToken req) = Inr branch" "ah_BranchInfo e = branch" "br_branchID branch = rb_BranchID req"
    and rep: "branchRep E (br_treeID branch) (br_branchID branch) (store_of db) ns" "map_ok (treeBin E (br_treeID branch) (store_of db))"
    and ok: "readOk req" "0 \<le> sint (ah_NodeID e)"
  shows "\<exists>db1 db2. run srv (AppendHistoryNodes E e) db = (Inr (), db1) \<and>
    run srv (ReadHistoryBranch E req) db1 = (Inr (readResult req (nodePut (nodeOf e) ns)), db2)"
proof -
  have idx: "map_ok (binOf (store_of db) (branchKeyOf E e) ''idx'')"
    using rep(1) branch(2) by (simp add: branchRep_def branchIndex_def branchKeyOf_def)
  obtain db1 where db1: "run srv (AppendHistoryNodes E e) db = (Inr (), db1)" "store_of db1 = appended E e (store_of db)"
    using AppendHistoryNodes_total [OF srv idx] rep(2) branch(2) by (auto simp: treeBin_def)
  have "ah_BranchInfo e = \<lparr>br_treeID = br_treeID branch, br_branchID = br_branchID branch\<rparr>" using branch(2) by simp
  from branchRep_appended [OF api rep(1) ok(2) this] have "branchRep E (br_treeID branch) (rb_BranchID req) (store_of db1) (nodePut (nodeOf e) ns)"
    by (simp add: db1(2) branch(3))
  from ReadHistoryBranch_run [OF srv branch(1) this ok(1)] db1(1) show ?thesis by blast
qed

theorem history_append_read_witness:
  "\<exists>db1 db2. run (mem_server sampleQuirks) (AppendHistoryNodes sample_env (sampleEvent 7)) (mem_init sampleHistory) = (Inr (), db1) \<and>
     run (mem_server sampleQuirks) (ReadHistoryBranch sample_env (sampleRead True)) db1 =
       (Inr \<lparr>rr_Nodes = [nodeOf (sampleEvent 7)], rr_NextPageToken = nodeSort (nodeOf (sampleEvent 7))\<rparr>, db2)"
  using history_append_read [OF mem.quiet_aerospike_axioms sample.temporal_api_axioms, where req = "sampleRead True" and branch = sampleBranch
      and e = "sampleEvent 7" and db = "mem_init sampleHistory" and ns = "[nodeOf (sampleEvent 3), nodeOf (sampleEvent 5)]" and Q = sampleQuirks]
    sampleRead_branch sampleHistory_rep sampleHistory_hold
  by (auto simp: readOk_def mem_init_def branchesHold_def nodeLess_def readResult_def selectNodes_def behind_def cutNodes_def cutToken_def)

end
