(* ===== verification/ExecutionStore.thy ===== *)
theory ExecutionStore
  imports HistoryStore HistoryTasks
begin

text \<open>
  \<^verbatim>\<open>execution_store.go\<close>: workflow executions. Every write runs in one transaction that reads the shard lease,
  checks and moves the current-run pointer, checks the optimistic lock of the execution record and then
  writes mutable state, tasks and history events. This theory holds the operations.
\<close>

section \<open>Requests\<close>

text \<open>
  \<^verbatim>\<open>InternalWorkflowSnapshot\<close> and \<^verbatim>\<open>InternalWorkflowMutation\<close>: the part the record encoding reads is
  \<open>snapshot\<close> and \<open>mutation\<close> of \<open>MutableState\<close>; the rest is here. \<^verbatim>\<open>ExecutionState\<close> is never nil: the
  store dereferences it before anything else.
\<close>

record workflow_snapshot = snapshot +
  wn_NamespaceID :: string
  wn_WorkflowID :: string
  wn_RunID :: string
  wn_ExecutionState :: wf_state
  wn_LastWriteVersion :: int64
  wn_Condition :: int64
  wn_Tasks :: "(category \<times> hist_task list) list"

record workflow_mutation = mutation +
  wm_NamespaceID :: string
  wm_WorkflowID :: string
  wm_RunID :: string
  wm_ExecutionState :: wf_state
  wm_LastWriteVersion :: int64
  wm_Condition :: int64
  wm_Tasks :: "(category \<times> hist_task list) list"

datatype create_mode = CreateWorkflowModeBrandNew | CreateWorkflowModeUpdateCurrent | CreateWorkflowModeBypassCurrent | CreateWorkflowModeOther int
datatype update_mode = UpdateWorkflowModeUpdateCurrent | UpdateWorkflowModeBypassCurrent | UpdateWorkflowModeIgnoreCurrent | UpdateWorkflowModeOther int
datatype resolve_mode = ConflictResolveWorkflowModeUpdateCurrent | ConflictResolveWorkflowModeBypassCurrent | ConflictResolveWorkflowModeOther int

record create_req =
  cw_ShardID :: int32
  cw_RangeID :: int64
  cw_ArchetypeID :: int
  cw_Mode :: create_mode
  cw_PreviousRunID :: string
  cw_PreviousLastWriteVersion :: int64
  cw_NewWorkflowSnapshot :: workflow_snapshot
  cw_NewWorkflowNewEvents :: "append_req list"

record update_req =
  uw_ShardID :: int32
  uw_RangeID :: int64
  uw_ArchetypeID :: int
  uw_Mode :: update_mode
  uw_UpdateWorkflowMutation :: workflow_mutation
  uw_NewWorkflowSnapshot :: "workflow_snapshot option"
  uw_UpdateWorkflowNewEvents :: "append_req list"
  uw_NewWorkflowNewEvents :: "append_req list"

record resolve_req =
  cr_ShardID :: int32
  cr_RangeID :: int64
  cr_ArchetypeID :: int
  cr_Mode :: resolve_mode
  cr_ResetWorkflowSnapshot :: workflow_snapshot
  cr_NewWorkflowSnapshot :: "workflow_snapshot option"
  cr_CurrentWorkflowMutation :: "workflow_mutation option"
  cr_ResetWorkflowEventsNewEvents :: "append_req list"
  cr_NewWorkflowEventsNewEvents :: "append_req list"
  cr_CurrentWorkflowEventsNewEvents :: "append_req list"

section \<open>The current-run pointer\<close>

abbreviation "permanentRunID \<equiv> ''30000000-0000-f000-f000-000000000001''"

definition currentRecordDiscriminator :: "env \<Rightarrow> int \<Rightarrow> string" where
  "currentRecordDiscriminator E archetypeID =
     (if archetypeID = UnspecifiedArchetypeID E \<or> archetypeID = WorkflowArchetypeID E then permanentRunID
      else ''archetype-'' @ dec_int archetypeID)"

record currentExecution =
  cu_exists :: bool
  cu_runID :: string
  cu_lastWriteVersion :: int64
  cu_state :: "wf_state option"

definition noCurrent :: currentExecution where
  "noCurrent = \<lparr>cu_exists = False, cu_runID = '''', cu_lastWriteVersion = 0, cu_state = None\<rparr>"

definition currentOf :: "env \<Rightarrow> as_record \<Rightarrow> currentExecution" where
  "currentOf E rec =
     \<lparr>cu_exists = True, cu_runID = binString rec ''run_id'', cu_lastWriteVersion = binInt64 rec ''lwv'',
      cu_state = (case readBlob E rec ''state'' ''state_enc'' of
          None \<Rightarrow> None
        | Some blob \<Rightarrow> (case WorkflowExecutionStateFromBlob E blob of Inr state \<Rightarrow> Some state | Inl _ \<Rightarrow> None))\<rparr>"

definition readCurrent :: "env \<Rightarrow> txnScope \<Rightarrow> askey \<Rightarrow> currentExecution io" where
  "readCurrent E t key =
     pbind (getP (ts_read t) key []) (\<lambda>r. case r of
        Inl err \<Rightarrow> if isNotFound err then Ret (Inr noCurrent) else Ret (Inl (convertError ''readCurrentExecution'' err))
      | Inr rec \<Rightarrow> Ret (Inr (currentOf E rec)))"

definition emptyState :: wf_state where
  "emptyState = \<lparr>ws_requestIDs = [], ws_runID = '''', ws_state = 0, ws_status = 0, ws_startTime = None\<rparr>"

definition currentConflict :: "currentExecution \<Rightarrow> perr" where
  "currentConflict cur =
     (let state = (case cu_state cur of None \<Rightarrow> emptyState | Some s \<Rightarrow> s)
      in CurrentWorkflowConditionFailed
           \<lparr>cwf_requestIDs = ws_requestIDs state, cwf_runID = ws_runID state, cwf_state = ws_state state,
            cwf_status = ws_status state, cwf_lastWriteVersion = cu_lastWriteVersion cur,
            cwf_startTime = ws_startTime state\<rparr>)"

definition currentBins :: "env \<Rightarrow> string \<Rightarrow> blob \<Rightarrow> int64 \<Rightarrow> int32 \<Rightarrow> (string \<times> gval) list" where
  "currentBins E runID stateBlob lastWriteVersion state =
     [(''run_id'', GString runID),
      (''state'', GBytes (blob_data stateBlob)),
      (''state_enc'', GString (EncodingType_String E (blob_enc stateBlob))),
      (''lwv'', GInt64 lastWriteVersion),
      (''wf_state'', GInt (scast state))]"

text \<open>The put of the pointer, with the error return around it.\<close>

definition putCurrent :: "env \<Rightarrow> txnScope \<Rightarrow> string \<Rightarrow> askey \<Rightarrow> (string \<times> gval) list \<Rightarrow> unit io" where
  "putCurrent E t operation currentKey bs =
     pbind (putBinsP (ts_write t) currentKey bs) (\<lambda>w. case w of
        Inl err \<Rightarrow> Ret (Inl (convertError operation err))
      | Inr _ \<Rightarrow> Ret (Inr ()))"

definition snapshotPointer :: "env \<Rightarrow> workflow_snapshot \<Rightarrow> (string \<times> gval) list" where
  "snapshotPointer E w = currentBins E (wn_RunID w) (sn_ExecutionStateBlob w) (wn_LastWriteVersion w) (ws_state (wn_ExecutionState w))"

definition mutationPointer :: "env \<Rightarrow> workflow_mutation \<Rightarrow> (string \<times> gval) list" where
  "mutationPointer E w = currentBins E (wm_RunID w) (mu_ExecutionStateBlob w) (wm_LastWriteVersion w) (ws_state (wm_ExecutionState w))"

definition assertNotCurrent :: "env \<Rightarrow> txnScope \<Rightarrow> askey \<Rightarrow> string \<Rightarrow> workflow_mutation option \<Rightarrow> unit io" where
  "assertNotCurrent E t currentKey runID currentWorkflow =
     tryP (readCurrent E t currentKey) (\<lambda>cur.
       if \<not> cu_exists cur \<or> cu_runID cur \<noteq> runID then Ret (Inr ())
       else Ret (Inl (CurrentWorkflowConditionFailed
           \<lparr>cwf_requestIDs = [], cwf_runID = '''', cwf_state = 0, cwf_status = 0, cwf_lastWriteVersion = 0,
            cwf_startTime = (case currentWorkflow of None \<Rightarrow> None | Some w \<Rightarrow> ws_startTime (wm_ExecutionState w))\<rparr>)))"

section \<open>The execution record\<close>

definition assertExecutionCondition :: "env \<Rightarrow> txnScope \<Rightarrow> askey \<Rightarrow> int64 \<Rightarrow> int64 \<Rightarrow> string \<Rightarrow> unit io" where
  "assertExecutionCondition E t key dbRecordVersion condition runID =
     pbind (getP (ts_read t) key [''ver'', ''next_id'']) (\<lambda>r. case r of
        Inl err \<Rightarrow>
          if isNotFound err then Ret (Inl (ConditionFailed runID))
          else Ret (Inl (convertError ''assertExecutionCondition'' err))
      | Inr rec \<Rightarrow>
          let actualDBVersion = binInt64 rec ''ver''; actualNextEventID = binInt64 rec ''next_id'' in
          if dbRecordVersion = 0 then
            (if actualNextEventID \<noteq> condition then Ret (Inl (WorkflowConditionFailed actualNextEventID actualDBVersion)) else Ret (Inr ()))
          else if actualDBVersion \<noteq> dbRecordVersion - 1 then Ret (Inl (WorkflowConditionFailed actualNextEventID actualDBVersion))
          else Ret (Inr ()))"

definition recordExists :: "env \<Rightarrow> txnScope \<Rightarrow> askey \<Rightarrow> bool io" where
  "recordExists E t key =
     pbind (existsP (ts_read t) key) (\<lambda>r. case r of
        Inl err \<Rightarrow> Ret (Inl (convertError ''recordExists'' err))
      | Inr b \<Rightarrow> Ret (Inr b))"

definition writeSnapshot :: "env \<Rightarrow> txnScope \<Rightarrow> askey \<Rightarrow> workflow_snapshot \<Rightarrow> unit io" where
  "writeSnapshot E t key w =
     pbind (operateP (ts_write t) key (snapshotOps E (snapshot.truncate w))) (\<lambda>r. case r of
        Inl err \<Rightarrow> Ret (Inl (convertError ''writeSnapshot'' err))
      | Inr _ \<Rightarrow> Ret (Inr ()))"

definition applyMutation :: "env \<Rightarrow> txnScope \<Rightarrow> askey \<Rightarrow> workflow_mutation \<Rightarrow> unit io" where
  "applyMutation E t key w =
     pbind (operateP (ts_write t) key (mutationOps E (mutation.truncate w))) (\<lambda>r. case r of
        Inl err \<Rightarrow> Ret (Inl (convertError ''applyMutation'' err))
      | Inr _ \<Rightarrow> Ret (Inr ()))"

primrec appendEvents :: "env \<Rightarrow> txnScope \<Rightarrow> append_req list \<Rightarrow> unit io" where
  "appendEvents E t [] = Ret (Inr ())"
| "appendEvents E t (req # requests) = tryP (appendHistoryNodesIn E t req) (\<lambda>_. appendEvents E t requests)"

definition executionKeyOf :: "env \<Rightarrow> int32 \<Rightarrow> workflow_snapshot \<Rightarrow> askey" where
  "executionKeyOf E shardID w = executionKey E shardID (wn_NamespaceID w) (wn_WorkflowID w) (wn_RunID w)"

definition mutationKeyOf :: "env \<Rightarrow> int32 \<Rightarrow> workflow_mutation \<Rightarrow> askey" where
  "mutationKeyOf E shardID w = executionKey E shardID (wm_NamespaceID w) (wm_WorkflowID w) (wm_RunID w)"

text \<open>The tail shared by the three writers: a new run must not exist yet, then its snapshot and tasks.\<close>

definition createRun :: "env \<Rightarrow> txnScope \<Rightarrow> int32 \<Rightarrow> workflow_snapshot \<Rightarrow> unit io" where
  "createRun E t shardID w =
     tryP (recordExists E t (executionKeyOf E shardID w)) (\<lambda>present.
       if present then Ret (Inl (WorkflowConditionFailed 0 0))
       else tryP (writeSnapshot E t (executionKeyOf E shardID w) w) (\<lambda>_.
            writeTasks E t shardID (wn_Tasks w)))"

section \<open>Writing executions\<close>

definition createCurrent :: "env \<Rightarrow> txnScope \<Rightarrow> create_req \<Rightarrow> unit io" where
  "createCurrent E t request =
     (let newWorkflow = cw_NewWorkflowSnapshot request;
          currentKey = currentExecutionKey E (cw_ShardID request) (wn_NamespaceID newWorkflow) (wn_WorkflowID newWorkflow)
            (currentRecordDiscriminator E (cw_ArchetypeID request))
      in case cw_Mode request of
           CreateWorkflowModeBypassCurrent \<Rightarrow> Ret (Inr ())
         | CreateWorkflowModeUpdateCurrent \<Rightarrow>
             tryP (readCurrent E t currentKey) (\<lambda>cur.
               if \<not> cu_exists cur \<or> cu_runID cur \<noteq> cw_PreviousRunID request
                  \<or> cu_lastWriteVersion cur \<noteq> cw_PreviousLastWriteVersion request
                  \<or> (case cu_state cur of None \<Rightarrow> False | Some state \<Rightarrow> ws_state state \<noteq> WORKFLOW_EXECUTION_STATE_COMPLETED E)
               then Ret (Inl (currentConflict cur))
               else putCurrent E t ''CreateWorkflowExecution'' currentKey (snapshotPointer E newWorkflow))
         | CreateWorkflowModeBrandNew \<Rightarrow>
             tryP (readCurrent E t currentKey) (\<lambda>cur.
               if cu_exists cur then Ret (Inl (currentConflict cur))
               else putCurrent E t ''CreateWorkflowExecution'' currentKey (snapshotPointer E newWorkflow))
         | CreateWorkflowModeOther m \<Rightarrow> Ret (Inl (Internal ''CreateWorkflowExecution'')))"

definition CreateWorkflowExecution :: "env \<Rightarrow> create_req \<Rightarrow> unit io" where
  "CreateWorkflowExecution E request =
     (let newWorkflow = cw_NewWorkflowSnapshot request; shardID = cw_ShardID request in
      case ValidateCreateWorkflowStateStatus E (ws_state (wn_ExecutionState newWorkflow)) (ws_status (wn_ExecutionState newWorkflow)) of
        Some e \<Rightarrow> Ret (Inl e)
      | None \<Rightarrow>
          withTxn E ''CreateWorkflowExecution'' (\<lambda>t.
            tryP (assertShardOwnership E t shardID (cw_RangeID request)) (\<lambda>_.
            tryP (createCurrent E t request) (\<lambda>_.
            tryP (createRun E t shardID newWorkflow) (\<lambda>_.
            appendEvents E t (cw_NewWorkflowNewEvents request))))))"

definition updateCurrent :: "env \<Rightarrow> txnScope \<Rightarrow> update_req \<Rightarrow> unit io" where
  "updateCurrent E t request =
     (let updateWorkflow = uw_UpdateWorkflowMutation request;
          currentKey = currentExecutionKey E (uw_ShardID request) (wm_NamespaceID updateWorkflow) (wm_WorkflowID updateWorkflow)
            (currentRecordDiscriminator E (uw_ArchetypeID request))
      in case uw_Mode request of
           UpdateWorkflowModeIgnoreCurrent \<Rightarrow> Ret (Inr ())
         | UpdateWorkflowModeBypassCurrent \<Rightarrow> assertNotCurrent E t currentKey (wm_RunID updateWorkflow) (Some updateWorkflow)
         | UpdateWorkflowModeUpdateCurrent \<Rightarrow>
             tryP (readCurrent E t currentKey) (\<lambda>cur.
               if \<not> cu_exists cur \<or> cu_runID cur \<noteq> wm_RunID updateWorkflow then Ret (Inl (currentConflict cur))
               else (case uw_NewWorkflowSnapshot request of
                   Some newWorkflow \<Rightarrow>
                     if wm_NamespaceID updateWorkflow \<noteq> wn_NamespaceID newWorkflow then Ret (Inl (Internal ''UpdateWorkflowExecution''))
                     else putCurrent E t ''UpdateWorkflowExecution'' currentKey (snapshotPointer E newWorkflow)
                 | None \<Rightarrow> putCurrent E t ''UpdateWorkflowExecution'' currentKey (mutationPointer E updateWorkflow)))
         | UpdateWorkflowModeOther m \<Rightarrow> Ret (Inl (Internal ''UpdateWorkflowExecution'')))"

definition mutateRun :: "env \<Rightarrow> txnScope \<Rightarrow> int32 \<Rightarrow> workflow_mutation \<Rightarrow> unit io" where
  "mutateRun E t shardID w =
     tryP (assertExecutionCondition E t (mutationKeyOf E shardID w) (mu_DBRecordVersion w) (wm_Condition w) (wm_RunID w)) (\<lambda>_.
     tryP (applyMutation E t (mutationKeyOf E shardID w) w) (\<lambda>_.
     writeTasks E t shardID (wm_Tasks w)))"

definition UpdateWorkflowExecution :: "env \<Rightarrow> update_req \<Rightarrow> unit io" where
  "UpdateWorkflowExecution E request =
     (let updateWorkflow = uw_UpdateWorkflowMutation request; shardID = uw_ShardID request in
      case ValidateUpdateWorkflowStateStatus E (ws_state (wm_ExecutionState updateWorkflow)) (ws_status (wm_ExecutionState updateWorkflow)) of
        Some e \<Rightarrow> Ret (Inl e)
      | None \<Rightarrow>
          withTxn E ''UpdateWorkflowExecution'' (\<lambda>t.
            tryP (assertShardOwnership E t shardID (uw_RangeID request)) (\<lambda>_.
            tryP (updateCurrent E t request) (\<lambda>_.
            tryP (mutateRun E t shardID updateWorkflow) (\<lambda>_.
            tryP (case uw_NewWorkflowSnapshot request of None \<Rightarrow> Ret (Inr ()) | Some newWorkflow \<Rightarrow> createRun E t shardID newWorkflow) (\<lambda>_.
            tryP (appendEvents E t (uw_UpdateWorkflowNewEvents request)) (\<lambda>_.
            appendEvents E t (uw_NewWorkflowNewEvents request))))))))"

definition resolveCurrent :: "env \<Rightarrow> txnScope \<Rightarrow> resolve_req \<Rightarrow> unit io" where
  "resolveCurrent E t request =
     (let resetWorkflow = cr_ResetWorkflowSnapshot request;
          currentKey = currentExecutionKey E (cr_ShardID request) (wn_NamespaceID resetWorkflow) (wn_WorkflowID resetWorkflow)
            (currentRecordDiscriminator E (cr_ArchetypeID request))
      in case cr_Mode request of
           ConflictResolveWorkflowModeBypassCurrent \<Rightarrow>
             assertNotCurrent E t currentKey (ws_runID (wn_ExecutionState resetWorkflow)) (cr_CurrentWorkflowMutation request)
         | ConflictResolveWorkflowModeUpdateCurrent \<Rightarrow>
             let pointTo = (case cr_NewWorkflowSnapshot request of Some newWorkflow \<Rightarrow> newWorkflow | None \<Rightarrow> resetWorkflow);
                 expectedRunID = (case cr_CurrentWorkflowMutation request of Some w \<Rightarrow> wm_RunID w | None \<Rightarrow> wn_RunID resetWorkflow)
             in tryP (readCurrent E t currentKey) (\<lambda>cur.
                  if \<not> cu_exists cur \<or> cu_runID cur \<noteq> expectedRunID then Ret (Inl (currentConflict cur))
                  else putCurrent E t ''ConflictResolveWorkflowExecution'' currentKey (snapshotPointer E pointTo))
         | ConflictResolveWorkflowModeOther m \<Rightarrow> Ret (Inl (Internal ''ConflictResolveWorkflowExecution'')))"

definition resetRun :: "env \<Rightarrow> txnScope \<Rightarrow> int32 \<Rightarrow> workflow_snapshot \<Rightarrow> unit io" where
  "resetRun E t shardID w =
     tryP (assertExecutionCondition E t (executionKeyOf E shardID w) (sn_DBRecordVersion w) (wn_Condition w) (wn_RunID w)) (\<lambda>_.
     tryP (writeSnapshot E t (executionKeyOf E shardID w) w) (\<lambda>_.
     writeTasks E t shardID (wn_Tasks w)))"

definition ConflictResolveWorkflowExecution :: "env \<Rightarrow> resolve_req \<Rightarrow> unit io" where
  "ConflictResolveWorkflowExecution E request =
     (let shardID = cr_ShardID request in
      withTxn E ''ConflictResolveWorkflowExecution'' (\<lambda>t.
        tryP (assertShardOwnership E t shardID (cr_RangeID request)) (\<lambda>_.
        tryP (resolveCurrent E t request) (\<lambda>_.
        tryP (resetRun E t shardID (cr_ResetWorkflowSnapshot request)) (\<lambda>_.
        tryP (case cr_CurrentWorkflowMutation request of None \<Rightarrow> Ret (Inr ()) | Some currentWorkflow \<Rightarrow> mutateRun E t shardID currentWorkflow) (\<lambda>_.
        tryP (case cr_NewWorkflowSnapshot request of None \<Rightarrow> Ret (Inr ()) | Some newWorkflow \<Rightarrow> createRun E t shardID newWorkflow) (\<lambda>_.
        tryP (appendEvents E t (cr_ResetWorkflowEventsNewEvents request)) (\<lambda>_.
        tryP (appendEvents E t (cr_NewWorkflowEventsNewEvents request)) (\<lambda>_.
        appendEvents E t (cr_CurrentWorkflowEventsNewEvents request))))))))))"

definition SetWorkflowExecution :: "env \<Rightarrow> int32 \<Rightarrow> int64 \<Rightarrow> workflow_snapshot \<Rightarrow> unit io" where
  "SetWorkflowExecution E shardID rangeID snapshot =
     withTxn E ''SetWorkflowExecution'' (\<lambda>t.
       tryP (assertShardOwnership E t shardID rangeID) (\<lambda>_. resetRun E t shardID snapshot))"

section \<open>Reading and deleting executions\<close>

definition GetWorkflowExecution :: "env \<Rightarrow> int32 \<Rightarrow> string \<Rightarrow> string \<Rightarrow> string \<Rightarrow> (mutable_state \<times> int64) io" where
  "GetWorkflowExecution E shardID namespaceID workflowID runID =
     pbind (getP (readPolicy E) (executionKey E shardID namespaceID workflowID runID) []) (\<lambda>r. case r of
        Inl err \<Rightarrow>
          if isNotFound err then Ret (Inl (NotFound ''workflow execution''))
          else Ret (Inl (convertError ''GetWorkflowExecution'' err))
      | Inr rec \<Rightarrow> let state = mutableStateFromRecord E rec in Ret (Inr (state, ms_DBRecordVersion state)))"

definition GetCurrentExecution :: "env \<Rightarrow> int32 \<Rightarrow> string \<Rightarrow> string \<Rightarrow> int \<Rightarrow> (string \<times> wf_state) io" where
  "GetCurrentExecution E shardID namespaceID workflowID archetypeID =
     pbind (getP (readPolicy E) (currentExecutionKey E shardID namespaceID workflowID (currentRecordDiscriminator E archetypeID)) []) (\<lambda>r. case r of
        Inl err \<Rightarrow>
          if isNotFound err then Ret (Inl (NotFound ''current workflow execution''))
          else Ret (Inl (convertError ''GetCurrentExecution'' err))
      | Inr rec \<Rightarrow> (case readBlob E rec ''state'' ''state_enc'' of
            None \<Rightarrow> Ret (Inl (Unavailable ''current execution record has no execution state''))
          | Some blob \<Rightarrow> (case WorkflowExecutionStateFromBlob E blob of
                Inl err \<Rightarrow> Ret (Inl (convertError ''GetCurrentExecution'' err))
              | Inr state \<Rightarrow> Ret (Inr (binString rec ''run_id'', state)))))"

definition DeleteWorkflowExecution :: "env \<Rightarrow> int32 \<Rightarrow> string \<Rightarrow> string \<Rightarrow> string \<Rightarrow> unit io" where
  "DeleteWorkflowExecution E shardID namespaceID workflowID runID =
     pbind (deleteP (deletePolicy E) (executionKey E shardID namespaceID workflowID runID)) (\<lambda>r. case r of
        Inl err \<Rightarrow> Ret (Inl (convertError ''DeleteWorkflowExecution'' err))
      | Inr _ \<Rightarrow> Ret (Inr ()))"

definition DeleteCurrentWorkflowExecution :: "env \<Rightarrow> int32 \<Rightarrow> string \<Rightarrow> string \<Rightarrow> int \<Rightarrow> string \<Rightarrow> unit io" where
  "DeleteCurrentWorkflowExecution E shardID namespaceID workflowID archetypeID runID =
     (let key = currentExecutionKey E shardID namespaceID workflowID (currentRecordDiscriminator E archetypeID);
          policy = (deletePolicy E)\<lparr>wp_FilterExpression := Some (ExpEqString ''run_id'' runID)\<rparr>
      in pbind (deleteP policy key) (\<lambda>r. case r of
           Inl err \<Rightarrow>
             if isFilteredOut err \<or> isNotFound err then Ret (Inr ())
             else Ret (Inl (convertError ''DeleteCurrentWorkflowExecution'' err))
         | Inr _ \<Rightarrow> Ret (Inr ())))"

end
