(* ===== verification/ExecutionParts.thy ===== *)
theory ExecutionParts
  imports ExecutionStore HistoryTasksProps HistoryRead
begin

text \<open>
  What the operations of \<open>ExecutionStore\<close> do to the store when they run alone, one lemma per part of a
  transaction; and that each is a transaction body.
\<close>

section \<open>Transaction bodies\<close>

lemma txn_body_readCurrent [txn_intros]: "txn_body t (readCurrent E (beginTxn E' t) k)"
  by (auto simp: readCurrent_def intro!: txn_intros split: sum.splits)

lemma txn_body_putCurrent [txn_intros]: "txn_body t (putCurrent E (beginTxn E' t) op k bs)"
  by (auto simp: putCurrent_def intro!: txn_intros split: sum.splits)

lemma txn_body_assertNotCurrent [txn_intros]: "txn_body t (assertNotCurrent E (beginTxn E' t) k r w)"
  by (auto simp: assertNotCurrent_def intro!: txn_intros)

lemma txn_body_assertExecutionCondition [txn_intros]: "txn_body t (assertExecutionCondition E (beginTxn E' t) k v c r)"
  by (auto simp: assertExecutionCondition_def Let_def intro!: txn_intros split: sum.splits)

lemma txn_body_recordExists [txn_intros]: "txn_body t (recordExists E (beginTxn E' t) k)"
  by (auto simp: recordExists_def intro!: txn_intros split: sum.splits)

lemma txn_body_writeSnapshot [txn_intros]: "txn_body t (writeSnapshot E (beginTxn E' t) k w)"
  by (auto simp: writeSnapshot_def intro!: txn_intros split: sum.splits)

lemma txn_body_applyMutation [txn_intros]: "txn_body t (applyMutation E (beginTxn E' t) k w)"
  by (auto simp: applyMutation_def intro!: txn_intros split: sum.splits)


lemma txn_body_appendEvents [txn_intros]: "txn_body t (appendEvents E (beginTxn E' t) es)"
  by (induction es) (auto intro!: txn_intros)

lemma txn_body_createRun [txn_intros]: "txn_body t (createRun E (beginTxn E' t) sh w)"
  by (auto simp: createRun_def intro!: txn_intros)

lemma txn_body_mutateRun [txn_intros]: "txn_body t (mutateRun E (beginTxn E' t) sh w)"
  by (auto simp: mutateRun_def intro!: txn_intros)

lemma txn_body_resetRun [txn_intros]: "txn_body t (resetRun E (beginTxn E' t) sh w)"
  by (auto simp: resetRun_def intro!: txn_intros)

lemma txn_body_createCurrent [txn_intros]: "txn_body t (createCurrent E (beginTxn E' t) req)"
  by (auto simp: createCurrent_def Let_def intro!: txn_intros split: create_mode.splits)

lemma txn_body_updateCurrent [txn_intros]: "txn_body t (updateCurrent E (beginTxn E' t) req)"
  by (auto simp: updateCurrent_def Let_def intro!: txn_intros split: update_mode.splits option.splits)

lemma txn_body_resolveCurrent [txn_intros]: "txn_body t (resolveCurrent E (beginTxn E' t) req)"
  by (auto simp: resolveCurrent_def Let_def intro!: txn_intros split: resolve_mode.splits option.splits)

section \<open>Which records the parts write\<close>

definition taskSets :: "env \<Rightarrow> askey set" where
  "taskSets E = setOf E ''htask'' \<union> setOf E ''htaskidx''"

lemma writeBuckets_in [frame_intros]: "writes_in (taskSets E) (writeBuckets E t sh cid gs)"
  by (induction gs)
    (auto simp: taskSets_def historyTaskKey_def historyTaskIndexKey_def intro!: frame_intros split: sum.splits)

lemma writeTasks_in [frame_intros]: "writes_in (taskSets E) (writeTasks E t sh cs)"
  by (induction cs) (auto intro!: frame_intros)

lemma appendHistoryNodesIn_in [frame_intros]: "writes_in (eventSets E) (appendHistoryNodesIn E t e)"
  by (auto simp: appendHistoryNodesIn_def Let_def eventSets_def historyNodeKey_def historyBranchKey_def historyTreeKey_def
      intro!: frame_intros split: sum.splits)

lemma appendEvents_in [frame_intros]: "writes_in (eventSets E) (appendEvents E t es)"
  by (induction es) (auto intro!: frame_intros)

section \<open>What the parts do\<close>

text \<open>The current-run pointer a record holds.\<close>

definition curOf :: "env \<Rightarrow> bins \<Rightarrow> currentExecution" where
  "curOf E r = currentOf E (binsRecord r)"

lemma currentOf_read: "currentOf E (read_bins Q k [] r) = curOf E r"
  by (simp add: curOf_def currentOf_def binString_def)

lemma prun_readCurrent: "prun Q (readCurrent E t k) s = (Inr (case s k of None \<Rightarrow> noCurrent | Some r \<Rightarrow> curOf E r), s)"
  by (simp add: readCurrent_def prog_simps currentOf_read split: option.splits)

lemma cu_exists_simps [simp]: "\<not> cu_exists noCurrent" "cu_exists (curOf E r)"
  by (simp_all add: noCurrent_def curOf_def currentOf_def)

lemma curOf_runID [simp]: "cu_runID (curOf E r) = bin_str ''run_id'' r" "cu_lastWriteVersion (curOf E r) = bin_int ''lwv'' r"
  by (simp_all add: curOf_def currentOf_def binString_def bin_str_def)

lemma prun_putCurrent: "prun Q (putCurrent E (beginTxn E' t) op k bs) s = (Inr (), s(k \<mapsto> put_bins bs (old_bins (s k))))"
  by (simp add: putCurrent_def prog_simps)

lemma prun_assertNotCurrent:
  "prun Q (assertNotCurrent E t k rid w) s = (Inr x, s') \<longleftrightarrow> s' = s \<and> (\<forall>r. s k = Some r \<longrightarrow> bin_str ''run_id'' r \<noteq> rid)"
  by (auto simp: assertNotCurrent_def prun_tryP prun_readCurrent split: option.splits)

text \<open>The optimistic lock of an execution record.\<close>

definition lockHolds :: "int64 \<Rightarrow> int64 \<Rightarrow> bins \<Rightarrow> bool" where
  "lockHolds dbRecordVersion condition r \<longleftrightarrow>
     (if dbRecordVersion = 0 then bin_int ''next_id'' r = condition else bin_int ''ver'' r = dbRecordVersion - 1)"

lemma prun_assertExecutionCondition:
  "prun Q (assertExecutionCondition E t k v c rid) s = (Inr x, s') \<longleftrightarrow> s' = s \<and> (\<exists>r. s k = Some r \<and> lockHolds v c r)"
  by (auto simp: assertExecutionCondition_def prog_simps lockHolds_def Let_def split: option.splits if_splits)

lemma prun_recordExists: "prun Q (recordExists E t k) s = (Inr (s k \<noteq> None), s)"
  by (simp add: recordExists_def prog_simps)

lemma creates_head: "list_ex op_creates (headOps E i st n v @ ops)"
  by (simp add: headOps_def)

lemma creates_snapshot: "list_ex op_creates (snapshotOps E w)"
  by (simp add: snapshotOps_def Let_def appendWholeMap_def collectionBins_def)

lemma creates_mutation: "list_ex op_creates (mutationOps E m)"
  unfolding mutationOps_groups append_assoc by (rule creates_head)

lemma prun_writeSnapshot:
  "prun Q (writeSnapshot E (beginTxn E' t) k w) s = (Inr (), s(k \<mapsto> snapshotBins E (snapshot.truncate w) (old_bins (s k))))"
proof -
  obtain res where "apply_ops (snapshotOps E (snapshot.truncate w)) (old_bins (s k)) = Inr (res, snapshotBins E (snapshot.truncate w) (old_bins (s k)))"
    using snapshot_effect unfolding effect_def by blast
  then show ?thesis by (simp add: writeSnapshot_def prun_operate_ok creates_snapshot)
qed

lemma prun_applyMutation:
  assumes "temporal_api E" "execOk r" "mutationOk (mutation.truncate w)" "s k = Some r"
  shows "\<exists>r'. prun Q (applyMutation E (beginTxn E' t) k w) s = (Inr (), s(k \<mapsto> r')) \<and> execOk r' \<and>
    sameState (stateOf E r') (applyDelta E (mutation.truncate w) (stateOf E r))"
proof -
  obtain r' where r': "effect (mutationOps E (mutation.truncate w)) r r'" "execOk r'" "sameState (stateOf E r') (applyDelta E (mutation.truncate w) (stateOf E r))"
    using mutation_state [OF assms(1-3)] by blast
  then obtain res where "apply_ops (mutationOps E (mutation.truncate w)) r = Inr (res, r')" unfolding effect_def by blast
  with assms(4) have "prun Q (applyMutation E (beginTxn E' t) k w) s = (Inr (), s(k \<mapsto> r'))"
    by (simp add: applyMutation_def prun_operate_ok creates_mutation)
  with r' show ?thesis by blast
qed

lemma applyMutation_frame:
  "prun Q (applyMutation E t k w) s = (x, s') \<Longrightarrow> k' \<noteq> k \<Longrightarrow> s' k' = s k'"
  by (rule prun_frame [where K = "{k}"]) (auto simp: applyMutation_def intro!: frame_intros split: sum.splits)

section \<open>Tasks and events of a write\<close>

text \<open>The tasks \<open>cs\<close> of a write have been put into their queues, and no other task record has changed.\<close>

definition tasksAdded :: "env \<Rightarrow> int32 \<Rightarrow> (category \<times> (task_key \<times> blob) list) list \<Rightarrow> store \<Rightarrow> store \<Rightarrow> bool" where
  "tasksAdded E sh cs s0 s1 \<longleftrightarrow> (\<forall>m. queuesHold E sh s0 (map fst cs) m \<longrightarrow>
     (\<forall>(cat, ts) \<in> set cs. histRep E sh cat s1 (histPut E cat ts (m cat)))) \<and>
     (\<forall>k \<in> taskSets E. (\<forall>cat \<in> fst ` set cs. k \<notin> histKeys E sh cat) \<longrightarrow> s1 k = s0 k)"

lemma histKeys_taskSets: "histKeys E sh cat \<subseteq> taskSets E"
  by (auto simp: histKeys_def taskSets_def historyTaskKey_def historyTaskIndexKey_def)

lemma histRep_taskSets: "(\<And>k. k \<in> taskSets E \<Longrightarrow> s' k = s k) \<Longrightarrow> histRep E sh cat s' m \<longleftrightarrow> histRep E sh cat s m"
  using histKeys_taskSets by (intro histRep_cong) blast

lemma tasksAdded_cong:
  assumes "tasksAdded E sh cs s0 s1" "\<And>k. k \<in> taskSets E \<Longrightarrow> s0' k = s0 k" "\<And>k. k \<in> taskSets E \<Longrightarrow> s1' k = s1 k"
  shows "tasksAdded E sh cs s0' s1'"
  using assms histRep_taskSets [OF assms(2)] histRep_taskSets [OF assms(3)] by (simp add: tasksAdded_def queuesHold_def)

lemma writeBuckets_queue: "writes_in (histKeys E sh cat) (writeBuckets E t sh (cat_id cat) gs)"
  by (induction gs) (auto simp: histKeys_def intro!: frame_intros split: sum.splits)

lemma writeTasks_queues: "writes_in (\<Union>cat \<in> fst ` set cs. histKeys E sh cat) (writeTasks E t sh (taskReq cs))"
proof (induction cs)
  case (Cons x cs)
  obtain cat ts where x: "x = (cat, ts)" by (cases x)
  have "writes_in (\<Union>cat \<in> fst ` set (x # cs). histKeys E sh cat) (writeBuckets E t sh (cat_id cat) gs)" for gs
    by (rule writes_in_mono [OF writeBuckets_queue [of E sh cat]]) (auto simp: x)
  moreover have "writes_in (\<Union>cat \<in> fst ` set (x # cs). histKeys E sh cat) (writeTasks E t sh (taskReq cs))"
    by (rule writes_in_mono [OF Cons]) auto
  ultimately show ?case by (auto simp: x taskReq_def intro!: frame_intros)
qed (simp add: taskReq_def)

lemma writeTasks_added:
  assumes "temporal_api E" "taskReqOk cs" "prun Q (writeTasks E (beginTxn E' t) sh (taskReq cs)) s0 = (x, s1)"
  shows "tasksAdded E sh cs s0 s1"
proof -
  have "\<forall>(cat, ts) \<in> set cs. histRep E sh cat s1 (histPut E cat ts (m cat))" if "queuesHold E sh s0 (map fst cs) m" for m
    using temporal_api.writeTasks_run [OF assms(1,2), of sh s0 m Q E' t] that assms(3) by (force simp: queuesHold_def)
  moreover have "s1 k = s0 k" if "\<forall>cat \<in> fst ` set cs. k \<notin> histKeys E sh cat" for k
    using prun_frame [OF writeTasks_queues assms(3)] that by blast
  ultimately show ?thesis by (simp add: tasksAdded_def)
qed

text \<open>The event batches of a write are stored.\<close>

definition eventsStored :: "env \<Rightarrow> append_req list \<Rightarrow> store \<Rightarrow> bool" where
  "eventsStored E es s \<longleftrightarrow> (\<forall>e \<in> set es. eventStored E e s)"

lemma appendEvents_keeps:
  "prun Q (appendEvents E (beginTxn E' t) es) s = (Inr (), s') \<Longrightarrow> eventStored E e s \<Longrightarrow> nodeKeyOf E e \<notin> nodeKeyOf E ` set es \<Longrightarrow>
   eventStored E e s'"
proof (induction es arbitrary: s)
  case (Cons e' es)
  then show ?case using eventStored_keeps appendHistoryNodesIn_ok by (fastforce simp: prun_tryP_ok)
qed simp

lemma appendEvents_stored:
  assumes "temporal_api E" "distinct (map (nodeKeyOf E) es)" "prun Q (appendEvents E (beginTxn E' t) es) s = (Inr (), s')"
  shows "eventsStored E es s'"
  using assms(2,3)
proof (induction es arbitrary: s)
  case (Cons e es)
  then obtain s1 where s1: "s1 = appended E e s" "prun Q (appendEvents E (beginTxn E' t) es) s1 = (Inr (), s')"
    by (auto simp: prun_tryP_ok dest: appendHistoryNodesIn_ok)
  then show ?case
    using Cons appendEvents_keeps [OF s1(2)] eventStored_appended [OF assms(1)] by (auto simp: eventsStored_def)
qed (simp add: eventsStored_def)

lemma appendEvents_framed: "prun Q (appendEvents E (beginTxn E' t) es) s = (Inr (), s') \<Longrightarrow> eventsFramed E es s s'"
proof (induction es arbitrary: s)
  case (Cons e es)
  then obtain s1 where s1: "s1 = appended E e s" "prun Q (appendEvents E (beginTxn E' t) es) s1 = (Inr (), s')"
    by (auto simp: prun_tryP_ok dest: appendHistoryNodesIn_ok)
  have "eventsFramed E [e] s s1" unfolding s1(1) by (rule eventsFramed_appended)
  from eventsFramed_trans [OF this Cons.IH [OF s1(2)]] show ?case by simp
qed simp

lemma prun_appendEvents_append:
  "prun Q (appendEvents E t (es @ es')) s = prun Q (tryP (appendEvents E t es) (\<lambda>_. appendEvents E t es')) s"
  by (induction es arbitrary: s) (simp_all add: prun_tryP split: sum.splits prod.splits)

lemma execution_keys [simp]:
  "executionKey E sh n w r \<notin> taskSets E" "executionKey E sh n w r \<notin> eventSets E"
  "currentExecutionKey E sh n w d \<notin> taskSets E" "currentExecutionKey E sh n w d \<notin> eventSets E"
  "shardKey E sh \<notin> taskSets E" "shardKey E sh \<notin> eventSets E"
  "executionKey E sh n w r \<noteq> currentExecutionKey E sh' n' w' d" "currentExecutionKey E sh' n' w' d \<noteq> executionKey E sh n w r"
  by (simp_all add: executionKey_def currentExecutionKey_def shardKey_def taskSets_def eventSets_def)

lemma taskSets_eventSets: "k \<in> taskSets E \<Longrightarrow> k \<notin> eventSets E"
  by (auto simp: taskSets_def eventSets_def setOf_def)

lemma eventsStored_cong: "(\<And>k. k \<in> eventSets E \<Longrightarrow> s' k = s k) \<Longrightarrow> eventsStored E es s' \<longleftrightarrow> eventsStored E es s"
  by (simp add: eventsStored_def eventStored_def)

lemmas writeTasks_frame = prun_frame [OF writeTasks_in]
lemmas appendEvents_frame = prun_frame [OF appendEvents_in]

section \<open>Runs\<close>

text \<open>A run is stored with the state \<open>st\<close>.\<close>

definition runHolds :: "env \<Rightarrow> askey \<Rightarrow> mutable_state \<Rightarrow> store \<Rightarrow> bool" where
  "runHolds E k st s \<longleftrightarrow> (\<exists>r. s k = Some r \<and> execOk r \<and> sameState (stateOf E r) st)"

text \<open>The current-run pointer names a run, with the blob of its execution state.\<close>

definition pointsAt :: "env \<Rightarrow> askey \<Rightarrow> string \<Rightarrow> blob \<Rightarrow> int64 \<Rightarrow> store \<Rightarrow> bool" where
  "pointsAt E k runID blob lwv s \<longleftrightarrow>
     (\<exists>r. s k = Some r \<and> bin_str ''run_id'' r = runID \<and> bin_blob E ''state'' ''state_enc'' r = Some blob \<and> bin_int ''lwv'' r = lwv)"

lemma currentBins_pointsAt:
  assumes "temporal_api E"
  shows "pointsAt E k runID blob lwv (s(k \<mapsto> put_bins (currentBins E runID blob lwv st) r))"
  by (simp add: pointsAt_def currentBins_def bin_str_def bin_blob_def bin_int_def temporal_api.NewDataBlob_String [OF assms])

lemma createRun_ok:
  assumes api: "temporal_api E" and req: "snapshotOk (snapshot.truncate w)" "wn_Tasks w = taskReq cs" "taskReqOk cs"
    and run: "prun Q (createRun E (beginTxn E' t) sh w) s0 = (Inr (), s1)"
  shows "s0 (executionKeyOf E sh w) = None \<and> runHolds E (executionKeyOf E sh w) (snapshotState E (snapshot.truncate w)) s1 \<and>
    tasksAdded E sh cs s0 s1 \<and> (\<forall>k. k \<noteq> executionKeyOf E sh w \<longrightarrow> k \<notin> taskSets E \<longrightarrow> s1 k = s0 k)"
proof -
  let ?k = "executionKeyOf E sh w" and ?r = "snapshotBins E (snapshot.truncate w) (old_bins (s0 (executionKeyOf E sh w)))"
  from run req(2) have none: "s0 ?k = None" and w: "prun Q (writeTasks E (beginTxn E' t) sh (taskReq cs)) (s0(?k \<mapsto> ?r)) = (Inr (), s1)"
    by (auto simp: createRun_def prun_tryP_ok prun_recordExists prun_writeSnapshot split: if_splits)
  have "s1 ?k = Some ?r" using writeTasks_frame [OF w, of ?k] by (simp add: executionKeyOf_def)
  then have "runHolds E ?k (snapshotState E (snapshot.truncate w)) s1"
    using execOk_snapshotBins snapshot_state [OF api req(1)] by (auto simp: runHolds_def)
  moreover have "tasksAdded E sh cs s0 s1"
    by (rule tasksAdded_cong [OF writeTasks_added [OF api req(3) w]]) (auto simp: executionKeyOf_def)
  ultimately show ?thesis using none writeTasks_frame [OF w] by auto
qed

text \<open>What a write under the optimistic lock does to its run: the lock held before, the state moved by the delta.\<close>

definition locked :: "askey \<Rightarrow> int64 \<Rightarrow> int64 \<Rightarrow> store \<Rightarrow> bool" where
  "locked k dbRecordVersion condition s \<longleftrightarrow> (\<exists>r. s k = Some r \<and> lockHolds dbRecordVersion condition r)"

definition runMutated :: "env \<Rightarrow> askey \<Rightarrow> mutation \<Rightarrow> store \<Rightarrow> store \<Rightarrow> bool" where
  "runMutated E k m s0 s1 \<longleftrightarrow> (\<forall>r. s0 k = Some r \<longrightarrow> execOk r \<longrightarrow> runHolds E k (applyDelta E m (stateOf E r)) s1)"

lemma mutateRun_ok:
  assumes api: "temporal_api E" and req: "mutationOk (mutation.truncate w)" "wm_Tasks w = taskReq cs" "taskReqOk cs"
    and run: "prun Q (mutateRun E (beginTxn E' t) sh w) s0 = (Inr (), s1)"
  shows "locked (mutationKeyOf E sh w) (mu_DBRecordVersion w) (wm_Condition w) s0 \<and>
    runMutated E (mutationKeyOf E sh w) (mutation.truncate w) s0 s1 \<and>
    tasksAdded E sh cs s0 s1 \<and> (\<forall>k. k \<noteq> mutationKeyOf E sh w \<longrightarrow> k \<notin> taskSets E \<longrightarrow> s1 k = s0 k)"
proof -
  let ?k = "mutationKeyOf E sh w"
  from run req(2) obtain sm where lock: "locked ?k (mu_DBRecordVersion w) (wm_Condition w) s0"
    and m: "prun Q (applyMutation E (beginTxn E' t) ?k w) s0 = (Inr (), sm)"
    and w: "prun Q (writeTasks E (beginTxn E' t) sh (taskReq cs)) sm = (Inr (), s1)"
    by (auto simp: mutateRun_def prun_tryP_ok prun_assertExecutionCondition locked_def)
  have other: "sm k = s0 k" if "k \<noteq> ?k" for k using applyMutation_frame [OF m that] .
  have "s1 ?k = sm ?k" using writeTasks_frame [OF w, of ?k] by (simp add: mutationKeyOf_def)
  then have "runMutated E ?k (mutation.truncate w) s0 s1"
    using prun_applyMutation [OF api _ req(1), of _ s0 ?k Q E' t] m by (fastforce simp: runMutated_def runHolds_def)
  moreover have "tasksAdded E sh cs s0 s1"
    by (rule tasksAdded_cong [OF writeTasks_added [OF api req(3) w]]) (auto intro!: other [symmetric] simp: mutationKeyOf_def)
  ultimately show ?thesis using lock other writeTasks_frame [OF w] by auto
qed

lemma resetRun_ok:
  assumes api: "temporal_api E" and req: "snapshotOk (snapshot.truncate w)" "wn_Tasks w = taskReq cs" "taskReqOk cs"
    and run: "prun Q (resetRun E (beginTxn E' t) sh w) s0 = (Inr (), s1)"
  shows "locked (executionKeyOf E sh w) (sn_DBRecordVersion w) (wn_Condition w) s0 \<and>
    runHolds E (executionKeyOf E sh w) (snapshotState E (snapshot.truncate w)) s1 \<and>
    tasksAdded E sh cs s0 s1 \<and> (\<forall>k. k \<noteq> executionKeyOf E sh w \<longrightarrow> k \<notin> taskSets E \<longrightarrow> s1 k = s0 k)"
proof -
  let ?k = "executionKeyOf E sh w" and ?r = "snapshotBins E (snapshot.truncate w) (old_bins (s0 (executionKeyOf E sh w)))"
  from run req(2) have lock: "locked ?k (sn_DBRecordVersion w) (wn_Condition w) s0"
    and w: "prun Q (writeTasks E (beginTxn E' t) sh (taskReq cs)) (s0(?k \<mapsto> ?r)) = (Inr (), s1)"
    by (auto simp: resetRun_def prun_tryP_ok prun_assertExecutionCondition prun_writeSnapshot locked_def)
  have "s1 ?k = Some ?r" using writeTasks_frame [OF w, of ?k] by (simp add: executionKeyOf_def)
  then have "runHolds E ?k (snapshotState E (snapshot.truncate w)) s1"
    using execOk_snapshotBins snapshot_state [OF api req(1)] by (auto simp: runHolds_def)
  moreover have "tasksAdded E sh cs s0 s1"
    by (rule tasksAdded_cong [OF writeTasks_added [OF api req(3) w]]) (auto simp: executionKeyOf_def)
  ultimately show ?thesis using lock writeTasks_frame [OF w] by auto
qed

section \<open>Conditions on the current-run pointer\<close>

definition createKey :: "env \<Rightarrow> create_req \<Rightarrow> askey" where
  "createKey E req = currentExecutionKey E (cw_ShardID req) (wn_NamespaceID (cw_NewWorkflowSnapshot req)) (wn_WorkflowID (cw_NewWorkflowSnapshot req))
     (currentRecordDiscriminator E (cw_ArchetypeID req))"

definition updateKey :: "env \<Rightarrow> update_req \<Rightarrow> askey" where
  "updateKey E req = currentExecutionKey E (uw_ShardID req) (wm_NamespaceID (uw_UpdateWorkflowMutation req)) (wm_WorkflowID (uw_UpdateWorkflowMutation req))
     (currentRecordDiscriminator E (uw_ArchetypeID req))"

definition resolveKey :: "env \<Rightarrow> resolve_req \<Rightarrow> askey" where
  "resolveKey E req = currentExecutionKey E (cr_ShardID req) (wn_NamespaceID (cr_ResetWorkflowSnapshot req)) (wn_WorkflowID (cr_ResetWorkflowSnapshot req))
     (currentRecordDiscriminator E (cr_ArchetypeID req))"

text \<open>A run counts as closed when its recorded state is \<^verbatim>\<open>COMPLETED\<close> or cannot be read.\<close>

definition closedRun :: "env \<Rightarrow> bins \<Rightarrow> bool" where
  "closedRun E r \<longleftrightarrow> (case cu_state (curOf E r) of None \<Rightarrow> True | Some st \<Rightarrow> ws_state st = WORKFLOW_EXECUTION_STATE_COMPLETED E)"

definition createAllowed :: "env \<Rightarrow> create_req \<Rightarrow> store \<Rightarrow> bool" where
  "createAllowed E req s \<longleftrightarrow>
     (case cw_Mode req of
        CreateWorkflowModeBypassCurrent \<Rightarrow> True
      | CreateWorkflowModeBrandNew \<Rightarrow> s (createKey E req) = None
      | CreateWorkflowModeUpdateCurrent \<Rightarrow> (\<exists>r. s (createKey E req) = Some r \<and> bin_str ''run_id'' r = cw_PreviousRunID req \<and>
          bin_int ''lwv'' r = cw_PreviousLastWriteVersion req \<and> closedRun E r)
      | CreateWorkflowModeOther m \<Rightarrow> False)"

definition updateAllowed :: "env \<Rightarrow> update_req \<Rightarrow> store \<Rightarrow> bool" where
  "updateAllowed E req s \<longleftrightarrow>
     (case uw_Mode req of
        UpdateWorkflowModeIgnoreCurrent \<Rightarrow> True
      | UpdateWorkflowModeBypassCurrent \<Rightarrow> \<forall>r. s (updateKey E req) = Some r \<longrightarrow> bin_str ''run_id'' r \<noteq> wm_RunID (uw_UpdateWorkflowMutation req)
      | UpdateWorkflowModeUpdateCurrent \<Rightarrow> (\<exists>r. s (updateKey E req) = Some r \<and> bin_str ''run_id'' r = wm_RunID (uw_UpdateWorkflowMutation req)) \<and>
          (\<forall>w. uw_NewWorkflowSnapshot req = Some w \<longrightarrow> wn_NamespaceID w = wm_NamespaceID (uw_UpdateWorkflowMutation req))
      | UpdateWorkflowModeOther m \<Rightarrow> False)"

text \<open>The run the pointer is expected to name, and the run it is moved to.\<close>

definition expectedRun :: "resolve_req \<Rightarrow> string" where
  "expectedRun req = (case cr_CurrentWorkflowMutation req of Some w \<Rightarrow> wm_RunID w | None \<Rightarrow> wn_RunID (cr_ResetWorkflowSnapshot req))"

definition pointTo :: "resolve_req \<Rightarrow> workflow_snapshot" where
  "pointTo req = (case cr_NewWorkflowSnapshot req of Some w \<Rightarrow> w | None \<Rightarrow> cr_ResetWorkflowSnapshot req)"

definition resolveAllowed :: "env \<Rightarrow> resolve_req \<Rightarrow> store \<Rightarrow> bool" where
  "resolveAllowed E req s \<longleftrightarrow>
     (case cr_Mode req of
        ConflictResolveWorkflowModeBypassCurrent \<Rightarrow>
          \<forall>r. s (resolveKey E req) = Some r \<longrightarrow> bin_str ''run_id'' r \<noteq> ws_runID (wn_ExecutionState (cr_ResetWorkflowSnapshot req))
      | ConflictResolveWorkflowModeUpdateCurrent \<Rightarrow> \<exists>r. s (resolveKey E req) = Some r \<and> bin_str ''run_id'' r = expectedRun req
      | ConflictResolveWorkflowModeOther m \<Rightarrow> False)"

definition snapshotPointsAt :: "env \<Rightarrow> askey \<Rightarrow> workflow_snapshot \<Rightarrow> store \<Rightarrow> bool" where
  "snapshotPointsAt E k w s \<longleftrightarrow> pointsAt E k (wn_RunID w) (sn_ExecutionStateBlob w) (wn_LastWriteVersion w) s"

definition mutationPointsAt :: "env \<Rightarrow> askey \<Rightarrow> workflow_mutation \<Rightarrow> store \<Rightarrow> bool" where
  "mutationPointsAt E k w s \<longleftrightarrow> pointsAt E k (wm_RunID w) (mu_ExecutionStateBlob w) (wm_LastWriteVersion w) s"

lemma pointers:
  assumes "temporal_api E"
  shows "snapshotPointsAt E k w (s(k \<mapsto> put_bins (snapshotPointer E w) r))" "mutationPointsAt E k m (s(k \<mapsto> put_bins (mutationPointer E m) r))"
  by (simp_all add: snapshotPointsAt_def mutationPointsAt_def snapshotPointer_def mutationPointer_def currentBins_pointsAt [OF assms])

lemma pointsAt_cong: "s' k = s k \<Longrightarrow> pointsAt E k a b c s' \<longleftrightarrow> pointsAt E k a b c s"
  by (simp add: pointsAt_def)

lemma createCurrent_ok:
  assumes api: "temporal_api E" and run: "prun Q (createCurrent E (beginTxn E' t) req) s0 = (Inr (), s1)"
  shows "createAllowed E req s0 \<and>
    (if cw_Mode req = CreateWorkflowModeBypassCurrent then s1 = s0
     else snapshotPointsAt E (createKey E req) (cw_NewWorkflowSnapshot req) s1) \<and> (\<forall>k. k \<noteq> createKey E req \<longrightarrow> s1 k = s0 k)"
  using run [unfolded createCurrent_def Let_def, folded createKey_def] pointers(1) [OF api]
  by (cases "cw_Mode req")
    (auto simp: prun_tryP_ok prun_readCurrent prun_putCurrent createAllowed_def closedRun_def
      split: option.splits if_splits)

lemma updateCurrent_ok:
  assumes api: "temporal_api E" and run: "prun Q (updateCurrent E (beginTxn E' t) req) s0 = (Inr (), s1)"
  shows "updateAllowed E req s0 \<and>
    (if uw_Mode req \<noteq> UpdateWorkflowModeUpdateCurrent then s1 = s0
     else case uw_NewWorkflowSnapshot req of
         Some w \<Rightarrow> snapshotPointsAt E (updateKey E req) w s1
       | None \<Rightarrow> mutationPointsAt E (updateKey E req) (uw_UpdateWorkflowMutation req) s1) \<and> (\<forall>k. k \<noteq> updateKey E req \<longrightarrow> s1 k = s0 k)"
  using run [unfolded updateCurrent_def Let_def, folded updateKey_def] pointers [OF api]
  by (cases "uw_Mode req")
    (auto simp: prun_tryP_ok prun_readCurrent prun_putCurrent prun_assertNotCurrent
      updateAllowed_def split: option.splits if_splits)

lemma resolveCurrent_ok:
  assumes api: "temporal_api E" and run: "prun Q (resolveCurrent E (beginTxn E' t) req) s0 = (Inr (), s1)"
  shows "resolveAllowed E req s0 \<and>
    (if cr_Mode req \<noteq> ConflictResolveWorkflowModeUpdateCurrent then s1 = s0
     else snapshotPointsAt E (resolveKey E req) (pointTo req) s1) \<and> (\<forall>k. k \<noteq> resolveKey E req \<longrightarrow> s1 k = s0 k)"
  using run [unfolded resolveCurrent_def Let_def, folded resolveKey_def] pointers(1) [OF api, of "resolveKey E req" "pointTo req"]
  by (cases "cr_Mode req")
    (auto simp: pointTo_def expectedRun_def [symmetric]
      prun_tryP_ok prun_readCurrent prun_putCurrent prun_assertNotCurrent resolveAllowed_def split: option.splits if_splits)

end
