(* ===== verification/ExecutionProps.thy ===== *)
theory ExecutionProps
  imports ExecutionParts
begin

text \<open>
  The properties of \<open>ExecutionStore\<close>: every successful write happened as a whole at one instant at which
  the shard lease, the current-run pointer and the optimistic lock were as the request demands; a failed
  write changed nothing; what was written is what is read.
\<close>

section \<open>Creating a run\<close>

definition createBody :: "env \<Rightarrow> create_req \<Rightarrow> txnScope \<Rightarrow> unit io" where
  "createBody E req t =
     tryP (createCurrent E t req) (\<lambda>_.
     tryP (createRun E t (cw_ShardID req) (cw_NewWorkflowSnapshot req)) (\<lambda>_.
     appendEvents E t (cw_NewWorkflowNewEvents req)))"

lemma txn_body_createBody [txn_intros]: "txn_body t (createBody E req (beginTxn E' t))"
  by (auto simp: createBody_def intro!: txn_intros)

definition createValid :: "env \<Rightarrow> create_req \<Rightarrow> bool" where
  "createValid E req \<longleftrightarrow> ValidateCreateWorkflowStateStatus E
     (ws_state (wn_ExecutionState (cw_NewWorkflowSnapshot req))) (ws_status (wn_ExecutionState (cw_NewWorkflowSnapshot req))) = None"

lemma CreateWorkflowExecution_fenced:
  "createValid E req \<Longrightarrow>
   CreateWorkflowExecution E req = fenced E ''CreateWorkflowExecution'' (cw_ShardID req) (cw_RangeID req) (createBody E req)"
  unfolding CreateWorkflowExecution_def Let_def createValid_def fenced_def createBody_def by simp

lemma CreateWorkflowExecution_valid:
  "run srv (CreateWorkflowExecution E req) db = (Inr x, db') \<Longrightarrow> createValid E req"
  by (auto simp: CreateWorkflowExecution_def Let_def createValid_def split: option.splits)

abbreviation "createRunKey E req \<equiv> executionKeyOf E (cw_ShardID req) (cw_NewWorkflowSnapshot req)"
abbreviation "createState E req \<equiv> snapshotState E (snapshot.truncate (cw_NewWorkflowSnapshot req))"

text \<open>The request: its blobs are present, its tasks are \<open>cs\<close> and its event batches are different nodes.\<close>

definition createReqOk :: "env \<Rightarrow> create_req \<Rightarrow> (category \<times> (task_key \<times> blob) list) list \<Rightarrow> bool" where
  "createReqOk E req cs \<longleftrightarrow> snapshotOk (snapshot.truncate (cw_NewWorkflowSnapshot req)) \<and> wn_Tasks (cw_NewWorkflowSnapshot req) = taskReq cs \<and>
     taskReqOk cs \<and> distinct (map (nodeKeyOf E) (cw_NewWorkflowNewEvents req))"

text \<open>What a create does to the store.\<close>

definition created :: "env \<Rightarrow> create_req \<Rightarrow> (category \<times> (task_key \<times> blob) list) list \<Rightarrow> store \<Rightarrow> store \<Rightarrow> bool" where
  "created E req cs s0 s1 \<longleftrightarrow>
     s0 (createRunKey E req) = None \<and> runHolds E (createRunKey E req) (createState E req) s1 \<and>
     (if cw_Mode req = CreateWorkflowModeBypassCurrent then s1 (createKey E req) = s0 (createKey E req)
      else snapshotPointsAt E (createKey E req) (cw_NewWorkflowSnapshot req) s1) \<and>
     tasksAdded E (cw_ShardID req) cs s0 s1 \<and>
     eventsStored E (cw_NewWorkflowNewEvents req) s1 \<and> eventsFramed E (cw_NewWorkflowNewEvents req) s0 s1 \<and>
     (\<forall>k. k \<notin> {createRunKey E req, createKey E req} \<union> taskSets E \<union> eventSets E \<longrightarrow> s1 k = s0 k)"

lemma runHolds_cong: "s' k = s k \<Longrightarrow> runHolds E k st s' \<longleftrightarrow> runHolds E k st s"
  by (simp add: runHolds_def)

lemma createBody_ok:
  assumes api: "temporal_api E" and req: "createReqOk E req cs"
    and run: "prun Q (createBody E req (beginTxn E' t)) s0 = (Inr (), s1)"
  shows "createAllowed E req s0 \<and> created E req cs s0 s1"
proof -
  let ?w = "cw_NewWorkflowSnapshot req" and ?sh = "cw_ShardID req" and ?ck = "createKey E req" and ?rk = "createRunKey E req"
  from run obtain sa sb where a: "prun Q (createCurrent E (beginTxn E' t) req) s0 = (Inr (), sa)"
    and b: "prun Q (createRun E (beginTxn E' t) ?sh ?w) sa = (Inr (), sb)"
    and c: "prun Q (appendEvents E (beginTxn E' t) (cw_NewWorkflowNewEvents req)) sb = (Inr (), s1)"
    by (auto simp: createBody_def prun_tryP_ok)
  have keys: "?rk \<noteq> ?ck" "?rk \<notin> eventSets E" "?rk \<notin> taskSets E" "?ck \<notin> taskSets E" "?ck \<notin> eventSets E"
    by (simp_all add: executionKeyOf_def createKey_def)
  note A = createCurrent_ok [OF api a] and C = appendEvents_frame [OF c]
  have B: "sa ?rk = None \<and> runHolds E ?rk (createState E req) sb \<and> tasksAdded E ?sh cs sa sb \<and> (\<forall>k. k \<noteq> ?rk \<longrightarrow> k \<notin> taskSets E \<longrightarrow> sb k = sa k)"
    using req by (intro createRun_ok [OF api _ _ _ b]) (simp_all add: createReqOk_def)
  have "s0 ?rk = None" using A B keys(1) by auto
  moreover have "runHolds E ?rk (createState E req) s1" using B runHolds_cong [of s1 ?rk sb] C keys by auto
  moreover have ck: "s1 ?ck = sa ?ck" using B C keys by auto
  then have "if cw_Mode req = CreateWorkflowModeBypassCurrent then s1 ?ck = s0 ?ck else snapshotPointsAt E ?ck ?w s1"
    using A pointsAt_cong [where k = ?ck and s = sa and s' = s1] by (simp add: snapshotPointsAt_def split: if_splits)
  moreover have "tasksAdded E ?sh cs s0 s1"
  proof (rule tasksAdded_cong [of E ?sh cs sa sb])
    show "tasksAdded E ?sh cs sa sb" using B by blast
    show "s0 k = sa k" if "k \<in> taskSets E" for k using A that keys(4) by metis
    show "s1 k = sb k" if "k \<in> taskSets E" for k by (rule C [OF taskSets_eventSets [OF that]])
  qed
  moreover have "eventsStored E (cw_NewWorkflowNewEvents req) s1"
    using req by (intro appendEvents_stored [OF api _ c]) (simp add: createReqOk_def)
  moreover have "eventsFramed E (cw_NewWorkflowNewEvents req) s0 s1"
  proof (rule eventsFramed_cong [OF appendEvents_framed [OF c]])
    show "s0 k = sb k" if "k \<in> eventSets E" for k
      using that A B keys taskSets_eventSets by metis
  qed
  moreover have "s1 k = s0 k" if "k \<notin> {?rk, ?ck} \<union> taskSets E \<union> eventSets E" for k using that A B C by auto
  ultimately show ?thesis using A unfolding created_def by blast
qed


section \<open>When a create succeeds, and how it fails\<close>

text \<open>The index maps of the history are maps.\<close>

definition historyOk :: "env \<Rightarrow> store \<Rightarrow> bool" where
  "historyOk E s \<longleftrightarrow> (\<forall>tr br. map_ok (binOf s (historyBranchKey E tr br) ''idx'')) \<and> (\<forall>tr. map_ok (binOf s (historyTreeKey E tr) ''br''))"

lemma history_set_keys [simp]:
  "historyBranchKey E tr br \<noteq> nodeKeyOf E e" "historyTreeKey E tr \<noteq> nodeKeyOf E e"
  "historyBranchKey E tr br \<noteq> historyTreeKey E tr'" "historyTreeKey E tr' \<noteq> historyBranchKey E tr br"
  by (simp_all add: nodeKeyOf_def historyNodeKey_def historyBranchKey_def historyTreeKey_def)

lemma historyOk_appended: "historyOk E s \<Longrightarrow> historyOk E (appended E e s)"
  by (auto simp: historyOk_def appended_def Let_def binOf_def indexPut_def treePut_def branchKeyOf_def omap_put_ok omap_ok_the_map)

lemma appendEvents_run: "historyOk E s \<Longrightarrow> \<exists>s'. prun Q (appendEvents E (beginTxn E' t) es) s = (Inr (), s')"
proof (induction es arbitrary: s)
  case (Cons e es)
  then have "prun Q (appendHistoryNodesIn E (beginTxn E' t) e) s = (Inr (), appended E e s)"
    by (intro prun_appendHistoryNodesIn) (simp_all add: historyOk_def branchKeyOf_def)
  with Cons.IH [OF historyOk_appended [OF Cons.prems]] show ?case by (simp add: prun_tryP)
qed simp

lemma historyOk_cong: "(\<And>k. k \<in> eventSets E \<Longrightarrow> s' k = s k) \<Longrightarrow> historyOk E s' \<longleftrightarrow> historyOk E s"
  by (simp add: historyOk_def binOf_def eventSets_def historyBranchKey_def historyTreeKey_def)

lemma queuesHold_cong: "(\<And>k. k \<in> taskSets E \<Longrightarrow> s' k = s k) \<Longrightarrow> queuesHold E sh s' cats m \<longleftrightarrow> queuesHold E sh s cats m"
  using histRep_taskSets [of E s' s] by (simp add: queuesHold_def)

lemma writeTasks_holds:
  assumes "temporal_api E" "taskReqOk cs" "queuesHold E sh s (map fst cs) m"
  shows "\<exists>s'. prun Q (writeTasks E (beginTxn E' t) sh (taskReq cs)) s = (Inr (), s')"
  using temporal_api.writeTasks_run [OF assms(1,2), of sh s m Q E' t] assms(3) by (force simp: queuesHold_def)

text \<open>The pointer part of a create: its error when the condition of the mode fails.\<close>

definition conflictOf :: "env \<Rightarrow> askey \<Rightarrow> store \<Rightarrow> perr" where
  "conflictOf E k s = currentConflict (case s k of None \<Rightarrow> noCurrent | Some r \<Rightarrow> curOf E r)"

lemma prun_createCurrent:
  "prun Q (createCurrent E (beginTxn E' t) req) s =
     (case cw_Mode req of
        CreateWorkflowModeOther m \<Rightarrow> (Inl (Internal ''CreateWorkflowExecution''), s)
      | CreateWorkflowModeBypassCurrent \<Rightarrow> (Inr (), s)
      | _ \<Rightarrow> if createAllowed E req s
           then (Inr (), s(createKey E req \<mapsto> put_bins (snapshotPointer E (cw_NewWorkflowSnapshot req)) (old_bins (s (createKey E req)))))
           else (Inl (conflictOf E (createKey E req) s), s))"
  unfolding createCurrent_def Let_def createKey_def [symmetric]
  by (auto simp: prun_tryP prun_readCurrent prun_putCurrent createAllowed_def closedRun_def conflictOf_def split: create_mode.splits option.splits)

lemma createBody_run:
  assumes api: "temporal_api E" and req: "createReqOk E req cs" and allowed: "createAllowed E req s" and new: "s (createRunKey E req) = None"
    and tasks: "queuesHold E (cw_ShardID req) s (map fst cs) m" and events: "historyOk E s"
  shows "\<exists>s'. prun Q (createBody E req (beginTxn E' t)) s = (Inr (), s')"
proof -
  let ?w = "cw_NewWorkflowSnapshot req" and ?sh = "cw_ShardID req" and ?ck = "createKey E req" and ?rk = "createRunKey E req"
  have keys: "?rk \<noteq> ?ck" "?ck \<notin> taskSets E" "?ck \<notin> eventSets E" "?rk \<notin> taskSets E" "?rk \<notin> eventSets E"
    by (simp_all add: executionKeyOf_def createKey_def)
  obtain sa where sa: "prun Q (createCurrent E (beginTxn E' t) req) s = (Inr (), sa)"
    using allowed unfolding prun_createCurrent by (cases "cw_Mode req") (auto simp: createAllowed_def)
  note A = createCurrent_ok [OF api sa]
  let ?sb = "sa(?rk \<mapsto> snapshotBins E (snapshot.truncate ?w) (old_bins (sa ?rk)))"
  have frame: "?sb k = s k" if "k \<noteq> ?ck" "k \<noteq> ?rk" for k using A that by simp
  have "queuesHold E ?sh ?sb (map fst cs) m" using tasks queuesHold_cong [of E ?sb s] frame keys by metis
  then obtain sc where sc: "prun Q (writeTasks E (beginTxn E' t) ?sh (taskReq cs)) ?sb = (Inr (), sc)"
    using writeTasks_holds [OF api] req unfolding createReqOk_def by blast
  have "sc k = s k" if "k \<in> eventSets E" for k
    using writeTasks_frame [OF sc] taskSets_eventSets frame keys that by metis
  then have "historyOk E sc" using events historyOk_cong [of E sc s] by blast
  then obtain s' where "prun Q (appendEvents E (beginTxn E' t) (cw_NewWorkflowNewEvents req)) sc = (Inr (), s')"
    using appendEvents_run by blast
  moreover have "sa ?rk = None" using A new keys by metis
  ultimately show ?thesis
    using sa sc req unfolding createReqOk_def
    by (auto simp: createBody_def createRun_def prun_tryP prun_recordExists prun_writeSnapshot)
qed

text \<open>The answer of a create, from the store it finds.\<close>

definition createOutcome :: "env \<Rightarrow> create_req \<Rightarrow> store \<Rightarrow> perr + unit" where
  "createOutcome E req s =
     (if leaseID E (cw_ShardID req) s = None then Inl (ShardOwnershipLost (cw_ShardID req) DiagMissing)
      else if leaseID E (cw_ShardID req) s \<noteq> Some (cw_RangeID req)
        then Inl (ShardOwnershipLost (cw_ShardID req) (DiagFound (the (leaseID E (cw_ShardID req) s)) ''''))
      else if \<not> createAllowed E req s
        then Inl (case cw_Mode req of CreateWorkflowModeOther m \<Rightarrow> Internal ''CreateWorkflowExecution'' | _ \<Rightarrow> conflictOf E (createKey E req) s)
      else if s (createRunKey E req) \<noteq> None then Inl (WorkflowConditionFailed 0 0)
      else Inr ())"

lemma createBody_err:
  "\<not> createAllowed E req s \<Longrightarrow> fst (prun Q (createBody E req (beginTxn E' t)) s) =
     Inl (case cw_Mode req of CreateWorkflowModeOther m \<Rightarrow> Internal ''CreateWorkflowExecution'' | _ \<Rightarrow> conflictOf E (createKey E req) s)"
  unfolding createBody_def prun_tryP prun_createCurrent by (cases "cw_Mode req") (auto simp: createAllowed_def)

lemma createBody_exists:
  assumes "createAllowed E req s" "s (createRunKey E req) = Some r"
  shows "fst (prun Q (createBody E req (beginTxn E' t)) s) = Inl (WorkflowConditionFailed 0 0)"
proof -
  have "createRunKey E req \<noteq> createKey E req" by (simp add: executionKeyOf_def createKey_def)
  then show ?thesis
    using assms unfolding createBody_def prun_tryP prun_createCurrent
    by (cases "cw_Mode req") (simp_all add: createRun_def prun_tryP prun_recordExists createAllowed_def)
qed

lemma createBody_outcome:
  assumes "temporal_api E" "createReqOk E req cs" "queuesHold E (cw_ShardID req) s (map fst cs) m" "historyOk E s"
    and "leaseID E (cw_ShardID req) s = Some (cw_RangeID req)"
  shows "fst (prun Q (createBody E req (beginTxn E' t)) s) = createOutcome E req s"
  using createBody_run [OF assms(1,2) _ _ assms(3,4), of Q E' t] createBody_err [of E req s Q E' t] createBody_exists [of E req s _ Q E' t] assms(5)
  by (fastforce simp: createOutcome_def)

lemma CreateWorkflowExecution_quiet:
  assumes srv: "quiet_aerospike Q srv store_of base_of work_of" and api: "temporal_api E"
    and req: "createReqOk E req cs" and valid: "createValid E req"
    and store: "queuesHold E (cw_ShardID req) (store_of db) (map fst cs) m" "historyOk E (store_of db)"
  shows "\<exists>db'. run srv (CreateWorkflowExecution E req) db = (createOutcome E req (store_of db), db') \<and>
    (createOutcome E req (store_of db) \<noteq> Inr () \<longrightarrow> store_of db' = store_of db) \<and>
    (createOutcome E req (store_of db) = Inr () \<longrightarrow> created E req cs (store_of db) (store_of db'))"
proof -
  let ?s = "store_of db"
  obtain y db' where y: "run srv (CreateWorkflowExecution E req) db = (y, db')" by fastforce
  note q = quiet_aerospike.fenced_quiet [OF srv txn_body_createBody y [unfolded CreateWorkflowExecution_fenced [OF valid]]]
  have "y = createOutcome E req ?s \<and> (y \<noteq> Inr () \<longrightarrow> store_of db' = ?s) \<and> (y = Inr () \<longrightarrow> created E req cs ?s (store_of db'))"
  proof (cases "leaseID E (cw_ShardID req) ?s = Some (cw_RangeID req)")
    case True
    with q obtain t s1 where s1: "prun Q (createBody E req (beginTxn E t)) ?s = (y, s1)" "store_of db' = (case y of Inl _ \<Rightarrow> ?s | Inr _ \<Rightarrow> s1)"
      by auto
    have "y = createOutcome E req ?s" using createBody_outcome [OF api req store True, of Q E t] s1(1) by simp
    moreover have "created E req cs ?s (store_of db')" if "y = Inr ()" using createBody_ok [OF api req] s1 that by auto
    ultimately show ?thesis using s1(2) by (auto split: sum.split)
  next
    case False
    with q show ?thesis by (auto simp: createOutcome_def split: option.splits if_splits)
  qed
  with y show ?thesis by metis
qed

text \<open>
  C23. With nobody interfering, the answer of \<^verbatim>\<open>CreateWorkflowExecution\<close> is determined by the store, guard by
  guard in the order of the code: a missing or foreign lease, the condition of the mode on the current-run
  pointer with the recorded run in the error, an existing run, and otherwise success. Whatever the error,
  nothing is left behind of the writes that preceded it.
\<close>

theorem CreateWorkflowExecution_outcome:
  assumes srv: "quiet_aerospike Q srv store_of base_of work_of" and api: "temporal_api E"
    and req: "createReqOk E req cs" and valid: "createValid E req"
    and store: "queuesHold E (cw_ShardID req) (store_of db) (map fst cs) m" "historyOk E (store_of db)"
  shows "\<exists>db'. run srv (CreateWorkflowExecution E req) db = (createOutcome E req (store_of db), db') \<and>
    (createOutcome E req (store_of db) \<noteq> Inr () \<longrightarrow> store_of db' = store_of db)"
  using CreateWorkflowExecution_quiet [OF assms] by blast

section \<open>Sample requests\<close>

definition sampleWorkflow :: workflow_snapshot where
  "sampleWorkflow = snapshot.extend sampleSnapshot
     \<lparr>wn_NamespaceID = ''n'', wn_WorkflowID = ''w'', wn_RunID = ''r'', wn_ExecutionState = emptyState, wn_LastWriteVersion = 3,
      wn_Condition = 5, wn_Tasks = taskReq sampleTasks\<rparr>"

definition sampleCreate :: "int64 \<Rightarrow> create_req" where
  "sampleCreate rid = \<lparr>cw_ShardID = 7, cw_RangeID = rid, cw_ArchetypeID = 0, cw_Mode = CreateWorkflowModeBrandNew, cw_PreviousRunID = '''',
     cw_PreviousLastWriteVersion = 0, cw_NewWorkflowSnapshot = sampleWorkflow, cw_NewWorkflowNewEvents = [sampleEvent 3]\<rparr>"

lemma sampleCreate_ok:
  "createReqOk sample_env (sampleCreate rid) sampleTasks" "createValid sample_env (sampleCreate rid)"
  "queuesHold sample_env (cw_ShardID (sampleCreate rid)) (sampleLease a) (map fst sampleTasks) (\<lambda>_. [])" "historyOk sample_env (sampleLease a)"
proof -
  show "createReqOk sample_env (sampleCreate rid) sampleTasks"
    by (simp add: createReqOk_def sampleCreate_def sampleWorkflow_def snapshot.defs sampleSnapshot_def snapshotOk_def taskReqOk_def keyValid_def)
  show "createValid sample_env (sampleCreate rid)" by (simp add: createValid_def sample_env_def)
  show "queuesHold sample_env (cw_ShardID (sampleCreate rid)) (sampleLease a) (map fst sampleTasks) (\<lambda>_. [])"
    by (simp add: queuesHold_def histRep_empty sampleLease_history sampleCreate_def)
  show "historyOk sample_env (sampleLease a)"
    by (simp add: historyOk_def binOf_def sampleLease_def shardKey_def historyBranchKey_def historyTreeKey_def)
qed

lemma sampleCreate_outcome:
  "createOutcome sample_env (sampleCreate 4) (sampleLease 4) = Inr ()"
  "createOutcome sample_env (sampleCreate 4) (sampleLease 9) = Inl (ShardOwnershipLost 7 (DiagFound 9 ''''))"
  by (simp_all add: createOutcome_def createAllowed_def sampleCreate_def createKey_def executionKeyOf_def leaseID_sampleLease sampleLease_def
      currentExecutionKey_def executionKey_def shardKey_def leaseID_def bin_int_def)


theorem CreateWorkflowExecution_outcome_witness:
  "\<exists>db'. run (mem_server sampleQuirks) (CreateWorkflowExecution sample_env (sampleCreate 4)) (mem_init (sampleLease 9)) =
     (Inl (ShardOwnershipLost 7 (DiagFound 9 '''')), db') \<and> m_store db' = sampleLease 9"
  using CreateWorkflowExecution_outcome [OF mem.quiet_aerospike_axioms sample.temporal_api_axioms sampleCreate_ok(1) [of 4] sampleCreate_ok(2),
      of "mem_init (sampleLease 9)" "\<lambda>_. []" sampleQuirks] sampleCreate_ok(3,4) sampleCreate_outcome(2) by (simp add: mem_init_def)

end
