(* ===== verification/ExecutionUpdate.thy ===== *)
theory ExecutionUpdate
  imports ExecutionProps
begin

text \<open>
  Updating, resolving and setting runs: the same kind of statements as for creating one, with the
  optimistic lock of the execution record.
\<close>

section \<open>Updating a run\<close>

definition updateBody :: "env \<Rightarrow> update_req \<Rightarrow> txnScope \<Rightarrow> unit io" where
  "updateBody E req t =
     tryP (updateCurrent E t req) (\<lambda>_.
     tryP (mutateRun E t (uw_ShardID req) (uw_UpdateWorkflowMutation req)) (\<lambda>_.
     tryP (case uw_NewWorkflowSnapshot req of None \<Rightarrow> Ret (Inr ()) | Some w \<Rightarrow> createRun E t (uw_ShardID req) w) (\<lambda>_.
     tryP (appendEvents E t (uw_UpdateWorkflowNewEvents req)) (\<lambda>_.
     appendEvents E t (uw_NewWorkflowNewEvents req)))))"

lemma txn_body_updateBody [txn_intros]: "txn_body t (updateBody E req (beginTxn E' t))"
  by (auto simp: updateBody_def intro!: txn_intros split: option.splits)

definition updateValid :: "env \<Rightarrow> update_req \<Rightarrow> bool" where
  "updateValid E req \<longleftrightarrow> ValidateUpdateWorkflowStateStatus E
     (ws_state (wm_ExecutionState (uw_UpdateWorkflowMutation req))) (ws_status (wm_ExecutionState (uw_UpdateWorkflowMutation req))) = None"

lemma UpdateWorkflowExecution_fenced:
  "updateValid E req \<Longrightarrow>
   UpdateWorkflowExecution E req = fenced E ''UpdateWorkflowExecution'' (uw_ShardID req) (uw_RangeID req) (updateBody E req)"
  unfolding UpdateWorkflowExecution_def Let_def updateValid_def fenced_def updateBody_def by simp

lemma UpdateWorkflowExecution_valid:
  "run srv (UpdateWorkflowExecution E req) db = (Inr x, db') \<Longrightarrow> updateValid E req"
  by (auto simp: UpdateWorkflowExecution_def Let_def updateValid_def split: option.splits)

abbreviation "updateRunKey E req \<equiv> mutationKeyOf E (uw_ShardID req) (uw_UpdateWorkflowMutation req)"

text \<open>A run that is created along with the write, if there is one.\<close>

definition newRunAdded :: "env \<Rightarrow> int32 \<Rightarrow> workflow_snapshot option \<Rightarrow> store \<Rightarrow> store \<Rightarrow> bool" where
  "newRunAdded E sh new s0 s1 \<longleftrightarrow>
     (\<forall>w. new = Some w \<longrightarrow> s0 (executionKeyOf E sh w) = None \<and> runHolds E (executionKeyOf E sh w) (snapshotState E (snapshot.truncate w)) s1)"

definition newRunOk :: "workflow_snapshot option \<Rightarrow> (category \<times> (task_key \<times> blob) list) list \<Rightarrow> bool" where
  "newRunOk new cs \<longleftrightarrow> taskReqOk cs \<and>
     (case new of None \<Rightarrow> cs = [] | Some w \<Rightarrow> snapshotOk (snapshot.truncate w) \<and> wn_Tasks w = taskReq cs)"

definition newRunKeys :: "env \<Rightarrow> int32 \<Rightarrow> workflow_snapshot option \<Rightarrow> askey set" where
  "newRunKeys E sh new = executionKeyOf E sh ` set_option new"

lemma tasksAdded_refl: "tasksAdded E sh [] s s"
  by (simp add: tasksAdded_def)

lemma newRun_ok:
  assumes api: "temporal_api E" and req: "newRunOk new cs"
    and run: "prun Q (case new of None \<Rightarrow> Ret (Inr ()) | Some w \<Rightarrow> createRun E (beginTxn E' t) sh w) s0 = (Inr (), s1)"
  shows "newRunAdded E sh new s0 s1 \<and> tasksAdded E sh cs s0 s1 \<and> (\<forall>k. k \<notin> newRunKeys E sh new \<longrightarrow> k \<notin> taskSets E \<longrightarrow> s1 k = s0 k)"
proof (cases new)
  case None
  then show ?thesis using req run by (simp add: newRunOk_def newRunAdded_def tasksAdded_refl)
next
  case (Some w)
  with req have "snapshotOk (snapshot.truncate w)" "wn_Tasks w = taskReq cs" "taskReqOk cs" by (simp_all add: newRunOk_def)
  from createRun_ok [OF api this] run Some show ?thesis by (simp add: newRunAdded_def newRunKeys_def)
qed

definition updateReqOk :: "env \<Rightarrow> update_req \<Rightarrow> (category \<times> (task_key \<times> blob) list) list \<Rightarrow> (category \<times> (task_key \<times> blob) list) list \<Rightarrow> bool" where
  "updateReqOk E req cs cs' \<longleftrightarrow> mutationOk (mutation.truncate (uw_UpdateWorkflowMutation req)) \<and>
     wm_Tasks (uw_UpdateWorkflowMutation req) = taskReq cs \<and> taskReqOk cs \<and> newRunOk (uw_NewWorkflowSnapshot req) cs' \<and>
     distinct (map (nodeKeyOf E) (uw_UpdateWorkflowNewEvents req @ uw_NewWorkflowNewEvents req))"

definition updated ::
  "env \<Rightarrow> update_req \<Rightarrow> (category \<times> (task_key \<times> blob) list) list \<Rightarrow> (category \<times> (task_key \<times> blob) list) list \<Rightarrow> store \<Rightarrow> store \<Rightarrow> bool" where
  "updated E req cs cs' s0 s1 \<longleftrightarrow>
     runMutated E (updateRunKey E req) (mutation.truncate (uw_UpdateWorkflowMutation req)) s0 s1 \<and>
     newRunAdded E (uw_ShardID req) (uw_NewWorkflowSnapshot req) s0 s1 \<and>
     (if uw_Mode req \<noteq> UpdateWorkflowModeUpdateCurrent then s1 (updateKey E req) = s0 (updateKey E req)
      else case uw_NewWorkflowSnapshot req of
          Some w \<Rightarrow> snapshotPointsAt E (updateKey E req) w s1
        | None \<Rightarrow> mutationPointsAt E (updateKey E req) (uw_UpdateWorkflowMutation req) s1) \<and>
     (tasksAdded E (uw_ShardID req) cs OO tasksAdded E (uw_ShardID req) cs') s0 s1 \<and>
     eventsStored E (uw_UpdateWorkflowNewEvents req @ uw_NewWorkflowNewEvents req) s1 \<and>
     eventsFramed E (uw_UpdateWorkflowNewEvents req @ uw_NewWorkflowNewEvents req) s0 s1 \<and>
     (\<forall>k. k \<notin> {updateRunKey E req, updateKey E req} \<union> newRunKeys E (uw_ShardID req) (uw_NewWorkflowSnapshot req) \<union> taskSets E \<union> eventSets E \<longrightarrow>
        s1 k = s0 k)"

lemma run_congs:
  "s0' k = s0 k \<Longrightarrow> locked k v c s0' \<longleftrightarrow> locked k v c s0"
  "s0' k = s0 k \<Longrightarrow> s1' k = s1 k \<Longrightarrow> runMutated E k m s0' s1' \<longleftrightarrow> runMutated E k m s0 s1"
  "(\<And>k. k \<in> newRunKeys E sh new \<Longrightarrow> s0' k = s0 k \<and> s1' k = s1 k) \<Longrightarrow> newRunAdded E sh new s0' s1' \<longleftrightarrow> newRunAdded E sh new s0 s1"
  by (auto simp: locked_def runMutated_def runHolds_def newRunAdded_def newRunKeys_def)

lemma applyMutation_present:
  "prun Q (mutateRun E (beginTxn E' t) sh w) s0 = (Inr (), s1) \<Longrightarrow> s1 (mutationKeyOf E sh w) \<noteq> None"
proof -
  assume "prun Q (mutateRun E (beginTxn E' t) sh w) s0 = (Inr (), s1)"
  then obtain sm where m: "prun Q (applyMutation E (beginTxn E' t) (mutationKeyOf E sh w) w) s0 = (Inr (), sm)"
    and w: "prun Q (writeTasks E (beginTxn E' t) sh (wm_Tasks w)) sm = (Inr (), s1)"
    by (auto simp: mutateRun_def prun_tryP_ok prun_assertExecutionCondition)
  have "sm (mutationKeyOf E sh w) \<noteq> None"
    using m by (auto simp: applyMutation_def prun_operate_ok creates_mutation split: sum.splits prod.splits)
  with writeTasks_frame [OF w, of "mutationKeyOf E sh w"] show ?thesis by (simp add: mutationKeyOf_def)
qed

lemma run_keys [simp]:
  "executionKeyOf E sh w \<notin> taskSets E" "executionKeyOf E sh w \<notin> eventSets E"
  "mutationKeyOf E sh m \<notin> taskSets E" "mutationKeyOf E sh m \<notin> eventSets E"
  "k \<in> newRunKeys E sh new \<Longrightarrow> k \<notin> taskSets E" "k \<in> newRunKeys E sh new \<Longrightarrow> k \<notin> eventSets E"
  by (auto simp: executionKeyOf_def mutationKeyOf_def newRunKeys_def)

lemma updateBody_ok:
  assumes api: "temporal_api E" and req: "updateReqOk E req cs cs'"
    and run: "prun Q (updateBody E req (beginTxn E' t)) s0 = (Inr (), s1)"
  shows "updateAllowed E req s0 \<and>
    locked (updateRunKey E req) (mu_DBRecordVersion (uw_UpdateWorkflowMutation req)) (wm_Condition (uw_UpdateWorkflowMutation req)) s0 \<and>
    updated E req cs cs' s0 s1"
proof -
  let ?w = "uw_UpdateWorkflowMutation req" and ?sh = "uw_ShardID req" and ?ck = "updateKey E req" and ?rk = "updateRunKey E req"
  let ?new = "uw_NewWorkflowSnapshot req" and ?nk = "newRunKeys E (uw_ShardID req) (uw_NewWorkflowSnapshot req)"
  let ?es = "uw_UpdateWorkflowNewEvents req @ uw_NewWorkflowNewEvents req"
  from run obtain sa sb sc where a: "prun Q (updateCurrent E (beginTxn E' t) req) s0 = (Inr (), sa)"
    and b: "prun Q (mutateRun E (beginTxn E' t) ?sh ?w) sa = (Inr (), sb)"
    and c: "prun Q (case ?new of None \<Rightarrow> Ret (Inr ()) | Some w \<Rightarrow> createRun E (beginTxn E' t) ?sh w) sb = (Inr (), sc)"
    and d: "prun Q (appendEvents E (beginTxn E' t) ?es) sc = (Inr (), s1)"
    by (auto simp: updateBody_def prun_tryP_ok prun_appendEvents_append)
  have ck: "?ck \<noteq> ?rk" "?ck \<notin> ?nk" "?ck \<notin> taskSets E" "?ck \<notin> eventSets E"
    by (auto simp: updateKey_def mutationKeyOf_def newRunKeys_def executionKeyOf_def)
  note A = updateCurrent_ok [OF api a] and D = appendEvents_frame [OF d]
  have B: "locked ?rk (mu_DBRecordVersion ?w) (wm_Condition ?w) sa \<and> runMutated E ?rk (mutation.truncate ?w) sa sb \<and>
      tasksAdded E ?sh cs sa sb \<and> (\<forall>k. k \<noteq> ?rk \<longrightarrow> k \<notin> taskSets E \<longrightarrow> sb k = sa k)"
    using req by (intro mutateRun_ok [OF api _ _ _ b]) (simp_all add: updateReqOk_def)
  have C: "newRunAdded E ?sh ?new sb sc \<and> tasksAdded E ?sh cs' sb sc \<and> (\<forall>k. k \<notin> ?nk \<longrightarrow> k \<notin> taskSets E \<longrightarrow> sc k = sb k)"
    using req by (intro newRun_ok [OF api _ c]) (simp add: updateReqOk_def)
  have T: "tasksAdded E ?sh cs sa sb" "tasksAdded E ?sh cs' sb sc" using B C by blast+
  have rk: "?rk \<notin> ?nk" using C applyMutation_present [OF b] by (auto simp: newRunAdded_def newRunKeys_def)
  have tk: "s0 k = sa k" "s1 k = sc k" if "k \<in> taskSets E" for k
    using that ck(3) A D [OF taskSets_eventSets [OF that]] by metis+
  have "sa ?rk = s0 ?rk" "s1 ?rk = sb ?rk" using A C D ck rk by auto
  then have "locked ?rk (mu_DBRecordVersion ?w) (wm_Condition ?w) s0" "runMutated E ?rk (mutation.truncate ?w) s0 s1"
    using B run_congs(1) [of sa ?rk s0] run_congs(2) [of s0 ?rk sa s1 sb] by auto
  moreover have "sb k = s0 k \<and> sc k = s1 k" if "k \<in> ?nk" for k using that A B D ck rk by (metis run_keys(5,6))
  then have "newRunAdded E ?sh ?new s0 s1" using C run_congs(3) [of E ?sh ?new sb s0 sc s1] by blast
  moreover have pk: "s1 ?ck = sa ?ck" using B C D ck by auto
  then have "if uw_Mode req \<noteq> UpdateWorkflowModeUpdateCurrent then s1 ?ck = s0 ?ck
      else case ?new of Some w \<Rightarrow> snapshotPointsAt E ?ck w s1 | None \<Rightarrow> mutationPointsAt E ?ck ?w s1"
    using A pointsAt_cong [where k = ?ck and s = sa and s' = s1]
    by (simp add: snapshotPointsAt_def mutationPointsAt_def split: if_splits option.splits)
  moreover have "tasksAdded E ?sh cs s0 sb" by (rule tasksAdded_cong [OF T(1) tk(1) refl])
  moreover have "tasksAdded E ?sh cs' sb s1" by (rule tasksAdded_cong [OF T(2) refl tk(2)])
  moreover have "eventsStored E ?es s1" using req by (intro appendEvents_stored [OF api _ d]) (simp add: updateReqOk_def)
  moreover have "s0 k = sc k" if "k \<in> eventSets E" for k
    using that A B C ck(4) run_keys(4,6) taskSets_eventSets by metis
  then have "eventsFramed E ?es s0 s1" by (rule eventsFramed_cong [OF appendEvents_framed [OF d]])
  moreover have "s1 k = s0 k" if "k \<notin> {?rk, ?ck} \<union> ?nk \<union> taskSets E \<union> eventSets E" for k using that A B C D by auto
  ultimately show ?thesis using A unfolding updated_def by blast
qed

text \<open>
  C24. \<^verbatim>\<open>UpdateWorkflowExecution\<close> is fenced, locked and atomic: when it succeeds there was one instant at which the
  lease carried the range id of the request, the pointer met the condition of the mode and the record
  carried the version (or the next event id) the caller read; at that instant the state of the run moved by
  exactly the delta of the mutation, a run that continues it appeared, the pointer, the tasks and the events
  moved along, and no other record changed.
\<close>

theorem UpdateWorkflowExecution_refines:
  assumes srv: "aerospike Q srv store_of base_of work_of R" and api: "temporal_api E" and req: "updateReqOk E req cs cs'"
    and run: "run srv (UpdateWorkflowExecution E req) db = (Inr (), db')"
  shows "\<exists>s0 s1. R (store_of db) s0 \<and> R s1 (store_of db') \<and>
    leaseID E (uw_ShardID req) s0 = Some (uw_RangeID req) \<and> updateAllowed E req s0 \<and>
    locked (updateRunKey E req) (mu_DBRecordVersion (uw_UpdateWorkflowMutation req)) (wm_Condition (uw_UpdateWorkflowMutation req)) s0 \<and>
    updated E req cs cs' s0 s1"
proof -
  note fen = UpdateWorkflowExecution_fenced [OF UpdateWorkflowExecution_valid [OF run]]
  from aerospike.fenced_ok [OF srv txn_body_updateBody run [unfolded fen]] updateBody_ok [OF api req]
  show ?thesis by blast
qed

section \<open>When an update succeeds, and how it fails\<close>

text \<open>The error of an update whose mode does not allow it.\<close>

definition updateRefusal :: "env \<Rightarrow> update_req \<Rightarrow> store \<Rightarrow> perr" where
  "updateRefusal E req s =
     (case uw_Mode req of
        UpdateWorkflowModeBypassCurrent \<Rightarrow> CurrentWorkflowConditionFailed
          \<lparr>cwf_requestIDs = [], cwf_runID = '''', cwf_state = 0, cwf_status = 0, cwf_lastWriteVersion = 0,
           cwf_startTime = ws_startTime (wm_ExecutionState (uw_UpdateWorkflowMutation req))\<rparr>
      | UpdateWorkflowModeUpdateCurrent \<Rightarrow>
          if \<exists>r. s (updateKey E req) = Some r \<and> bin_str ''run_id'' r = wm_RunID (uw_UpdateWorkflowMutation req)
          then Internal ''UpdateWorkflowExecution'' else conflictOf E (updateKey E req) s
      | _ \<Rightarrow> Internal ''UpdateWorkflowExecution'')"

lemma prun_updateCurrent:
  "if updateAllowed E req s then \<exists>s'. prun Q (updateCurrent E (beginTxn E' t) req) s = (Inr (), s')
   else prun Q (updateCurrent E (beginTxn E' t) req) s = (Inl (updateRefusal E req s), s)"
  unfolding updateCurrent_def Let_def updateKey_def [symmetric]
  by (cases "uw_Mode req")
    (auto simp: prun_tryP prun_readCurrent prun_putCurrent assertNotCurrent_def updateAllowed_def updateRefusal_def conflictOf_def split: option.splits)

text \<open>The error of a lock that does not hold.\<close>

definition lockRefusal :: "env \<Rightarrow> askey \<Rightarrow> string \<Rightarrow> store \<Rightarrow> perr" where
  "lockRefusal E k runID s = (case s k of None \<Rightarrow> ConditionFailed runID | Some r \<Rightarrow> WorkflowConditionFailed (bin_int ''next_id'' r) (bin_int ''ver'' r))"

lemma prun_lock:
  "prun Q (assertExecutionCondition E t k v c rid) s = (if locked k v c s then Inr () else Inl (lockRefusal E k rid s), s)"
  by (auto simp: assertExecutionCondition_def prog_simps lockHolds_def locked_def lockRefusal_def Let_def split: option.splits if_splits)

definition updateOutcome :: "env \<Rightarrow> update_req \<Rightarrow> store \<Rightarrow> perr + unit" where
  "updateOutcome E req s =
     (if leaseID E (uw_ShardID req) s = None then Inl (ShardOwnershipLost (uw_ShardID req) DiagMissing)
      else if leaseID E (uw_ShardID req) s \<noteq> Some (uw_RangeID req)
        then Inl (ShardOwnershipLost (uw_ShardID req) (DiagFound (the (leaseID E (uw_ShardID req) s)) ''''))
      else if \<not> updateAllowed E req s then Inl (updateRefusal E req s)
      else if \<not> locked (updateRunKey E req) (mu_DBRecordVersion (uw_UpdateWorkflowMutation req)) (wm_Condition (uw_UpdateWorkflowMutation req)) s
        then Inl (lockRefusal E (updateRunKey E req) (wm_RunID (uw_UpdateWorkflowMutation req)) s)
      else if \<exists>k \<in> newRunKeys E (uw_ShardID req) (uw_NewWorkflowSnapshot req). s k \<noteq> None \<or> k = updateRunKey E req
        then Inl (WorkflowConditionFailed 0 0)
      else Inr ())"

text \<open>The store the update finds: a well-formed record, queues that hold what the request's tasks go to, index maps.\<close>

definition updateStoreOk ::
  "env \<Rightarrow> update_req \<Rightarrow> (category \<times> (task_key \<times> blob) list) list \<Rightarrow> (category \<times> (task_key \<times> blob) list) list \<Rightarrow> store \<Rightarrow> bool" where
  "updateStoreOk E req cs cs' s \<longleftrightarrow>
     (\<forall>r. s (updateRunKey E req) = Some r \<longrightarrow> execOk r) \<and> historyOk E s \<and>
     (\<forall>cat \<in> set (map fst cs) \<union> set (map fst cs'). \<exists>m. histRep E (uw_ShardID req) cat s m) \<and>
     (\<forall>cat \<in> set (map fst cs). \<forall>cat' \<in> set (map fst cs'). cat_id cat = cat_id cat' \<longrightarrow> cat = cat')"

lemma queues_choose: "(\<forall>cat \<in> set cats. \<exists>m. histRep E sh cat s m) \<longleftrightarrow> (\<exists>m. queuesHold E sh s cats m)"
  using bchoice [of "set cats" "\<lambda>cat m. histRep E sh cat s m"] by (auto simp: queuesHold_def)

lemma tasksAdded_rep:
  assumes added: "tasksAdded E sh cs s0 s1" and holds: "queuesHold E sh s0 (map fst cs) m" "histRep E sh cat s0 m0"
    and ids: "\<And>c. c \<in> set (map fst cs) \<Longrightarrow> cat_id c = cat_id cat \<Longrightarrow> c = cat"
  shows "\<exists>m'. histRep E sh cat s1 m'"
proof (cases "cat \<in> set (map fst cs)")
  case True
  then show ?thesis using added holds(1) by (fastforce simp: tasksAdded_def)
next
  case False
  have "s1 k = s0 k" if k: "k \<in> histKeys E sh cat" for k
  proof -
    have "k \<in> taskSets E" using histKeys_taskSets k by blast
    moreover have "k \<notin> histKeys E sh c" if "c \<in> fst ` set cs" for c
      using that ids [of c] False k histKeys_disjoint [of cat c k E sh] by (metis list.set_map)
    ultimately show ?thesis using added holds(1) by (auto simp: tasksAdded_def)
  qed
  then show ?thesis using holds(2) histRep_cong [of E sh cat s1 s0] by blast
qed

lemma mutateRun_run:
  assumes api: "temporal_api E" and req: "mutationOk (mutation.truncate w)" "wm_Tasks w = taskReq cs" "taskReqOk cs"
    and lock: "locked (mutationKeyOf E sh w) (mu_DBRecordVersion w) (wm_Condition w) s"
    and rec: "\<And>r. s (mutationKeyOf E sh w) = Some r \<Longrightarrow> execOk r" and tasks: "queuesHold E sh s (map fst cs) m"
  shows "\<exists>s'. prun Q (mutateRun E (beginTxn E' t) sh w) s = (Inr (), s')"
proof -
  let ?k = "mutationKeyOf E sh w"
  obtain r where r: "s ?k = Some r" "execOk r" using lock rec by (auto simp: locked_def)
  obtain r' where r': "prun Q (applyMutation E (beginTxn E' t) ?k w) s = (Inr (), s(?k \<mapsto> r'))"
    using prun_applyMutation [where s = s and k = ?k, OF api r(2) req(1) r(1)] by blast
  have "queuesHold E sh (s(?k \<mapsto> r')) (map fst cs) m"
    using tasks queuesHold_cong [of E "s(?k \<mapsto> r')" s] run_keys(3) by (metis fun_upd_other)
  from writeTasks_holds [OF api req(3) this] r' lock req(2) show ?thesis
    by (auto simp: mutateRun_def prun_tryP prun_lock)
qed

lemma newRun_run:
  assumes api: "temporal_api E" and req: "newRunOk new cs" and none: "\<And>k. k \<in> newRunKeys E sh new \<Longrightarrow> s k = None"
    and tasks: "queuesHold E sh s (map fst cs) m"
  shows "\<exists>s'. prun Q (case new of None \<Rightarrow> Ret (Inr ()) | Some w \<Rightarrow> createRun E (beginTxn E' t) sh w) s = (Inr (), s')"
proof (cases new)
  case (Some w)
  let ?k = "executionKeyOf E sh w"
  let ?s = "s(?k \<mapsto> snapshotBins E (snapshot.truncate w) (old_bins (s ?k)))"
  have "queuesHold E sh ?s (map fst cs) m"
    using tasks queuesHold_cong [of E ?s s] run_keys(1) by (metis fun_upd_other)
  from writeTasks_holds [OF api _ this] req Some none show ?thesis
    by (auto simp: newRunOk_def newRunKeys_def createRun_def prun_tryP prun_recordExists prun_writeSnapshot)
qed simp

text \<open>An update with every guard passed goes through.\<close>

lemma updateBody_run:
  assumes api: "temporal_api E" and req: "updateReqOk E req cs cs'" and store: "updateStoreOk E req cs cs' s"
    and allowed: "updateAllowed E req s"
    and lock: "locked (updateRunKey E req) (mu_DBRecordVersion (uw_UpdateWorkflowMutation req)) (wm_Condition (uw_UpdateWorkflowMutation req)) s"
    and new: "\<And>k. k \<in> newRunKeys E (uw_ShardID req) (uw_NewWorkflowSnapshot req) \<Longrightarrow> s k = None \<and> k \<noteq> updateRunKey E req"
  shows "\<exists>s'. prun Q (updateBody E req (beginTxn E' t)) s = (Inr (), s')"
proof -
  let ?w = "uw_UpdateWorkflowMutation req" and ?sh = "uw_ShardID req" and ?ck = "updateKey E req" and ?rk = "updateRunKey E req"
  let ?new = "uw_NewWorkflowSnapshot req" and ?nk = "newRunKeys E (uw_ShardID req) (uw_NewWorkflowSnapshot req)"
  have ck: "?ck \<noteq> ?rk" "?ck \<notin> ?nk" "?ck \<notin> taskSets E" "?ck \<notin> eventSets E"
    by (auto simp: updateKey_def mutationKeyOf_def newRunKeys_def executionKeyOf_def)
  note rq = req [unfolded updateReqOk_def] and st = store [unfolded updateStoreOk_def]
  obtain sa where sa: "prun Q (updateCurrent E (beginTxn E' t) req) s = (Inr (), sa)"
    using prun_updateCurrent [of E req s Q E' t] allowed by auto
  then have A: "sa k = s k" if "k \<noteq> ?ck" for k using updateCurrent_ok [OF api sa] that by blast
  obtain m where m: "queuesHold E ?sh s (map fst cs) m" using st queues_choose [of "map fst cs"] by blast
  have ts: "sa k = s k" if "k \<in> taskSets E" for k using A [of k] that ck(3) by metis
  have ma: "queuesHold E ?sh sa (map fst cs) m" using m queuesHold_cong [of E sa s] ts by blast
  have "sa ?rk = s ?rk" using A ck(1) by metis
  then obtain sb where sb: "prun Q (mutateRun E (beginTxn E' t) ?sh ?w) sa = (Inr (), sb)"
    using mutateRun_run [where s = sa and w = ?w and sh = ?sh, OF api _ _ _ _ _ ma] rq st lock run_congs(1) [of sa ?rk s] by metis
  have B: "tasksAdded E ?sh cs sa sb" "\<And>k. k \<noteq> ?rk \<Longrightarrow> k \<notin> taskSets E \<Longrightarrow> sb k = sa k"
    using mutateRun_ok [OF api _ _ _ sb, of cs] rq by blast+
  have "\<exists>m'. histRep E ?sh cat sb m'" if cat: "cat \<in> set (map fst cs')" for cat
  proof -
    obtain m0 where "histRep E ?sh cat s m0" using st cat by blast
    then have "histRep E ?sh cat sa m0" using histRep_taskSets [of E sa s] ts by blast
    then show ?thesis using st cat by (intro tasksAdded_rep [OF B(1) ma]) blast+
  qed
  then obtain m' where m': "queuesHold E ?sh sb (map fst cs') m'" using queues_choose [of "map fst cs'" E ?sh sb] by blast
  have none: "sb k = None" if "k \<in> ?nk" for k using that A B(2) new ck(2) by (metis run_keys(5))
  obtain sc where sc: "prun Q (case ?new of None \<Rightarrow> Ret (Inr ()) | Some w \<Rightarrow> createRun E (beginTxn E' t) ?sh w) sb = (Inr (), sc)"
    using newRun_run [OF api _ none m'] rq by blast
  have "sc k = s k" if "k \<in> eventSets E" for k
  proof -
    have "k \<notin> ?nk" "k \<notin> taskSets E" "k \<noteq> ?rk" "k \<noteq> ?ck" using that ck(4) taskSets_eventSets run_keys(4,6) by blast+
    then show ?thesis using newRun_ok [OF api _ sc] rq A B(2) by metis
  qed
  then have "historyOk E sc" using st historyOk_cong [of E sc s] by blast
  from appendEvents_run [OF this, of Q E' t "uw_UpdateWorkflowNewEvents req @ uw_NewWorkflowNewEvents req"]
  obtain s' where "prun Q (appendEvents E (beginTxn E' t) (uw_UpdateWorkflowNewEvents req @ uw_NewWorkflowNewEvents req)) sc = (Inr (), s')" by blast
  with sa sb sc show ?thesis unfolding updateBody_def prun_appendEvents_append by (simp add: prun_tryP)
qed

text \<open>The guards in their order.\<close>

lemma updateBody_outcome:
  assumes api: "temporal_api E" and req: "updateReqOk E req cs cs'" and store: "updateStoreOk E req cs cs' s"
    and lease: "leaseID E (uw_ShardID req) s = Some (uw_RangeID req)"
  shows "fst (prun Q (updateBody E req (beginTxn E' t)) s) = updateOutcome E req s"
proof -
  let ?w = "uw_UpdateWorkflowMutation req" and ?sh = "uw_ShardID req" and ?ck = "updateKey E req" and ?rk = "updateRunKey E req"
  let ?lock = "locked ?rk (mu_DBRecordVersion ?w) (wm_Condition ?w)"
  let ?new = "uw_NewWorkflowSnapshot req" and ?nk = "newRunKeys E (uw_ShardID req) (uw_NewWorkflowSnapshot req)"
  note rq = req [unfolded updateReqOk_def] and st = store [unfolded updateStoreOk_def]
  consider "\<not> updateAllowed E req s" | "updateAllowed E req s" "\<not> ?lock s"
    | (taken) k where "updateAllowed E req s" "?lock s" "k \<in> ?nk" "s k \<noteq> None \<or> k = ?rk"
    | (free) "updateAllowed E req s" "?lock s" "\<forall>k \<in> ?nk. s k = None \<and> k \<noteq> ?rk" by blast
  then show ?thesis
  proof cases
    case 1
    then show ?thesis using prun_updateCurrent [of E req s Q E' t] lease by (simp add: updateBody_def updateOutcome_def prun_tryP)
  next
    case 2
    then obtain sa where sa: "prun Q (updateCurrent E (beginTxn E' t) req) s = (Inr (), sa)" using prun_updateCurrent [of E req s Q E' t] by auto
    moreover have "?ck \<noteq> ?rk" by (simp add: updateKey_def mutationKeyOf_def)
    then have "sa ?rk = s ?rk" using updateCurrent_ok [OF api sa] by metis
    ultimately show ?thesis using 2 lease run_congs(1) [of sa ?rk s]
      by (simp add: updateBody_def updateOutcome_def prun_tryP mutateRun_def prun_lock lockRefusal_def)
  next
    case taken
    then obtain sa where sa: "prun Q (updateCurrent E (beginTxn E' t) req) s = (Inr (), sa)" using prun_updateCurrent [of E req s Q E' t] by auto
    have ck: "?ck \<noteq> ?rk" "?ck \<notin> ?nk" "?ck \<notin> taskSets E" by (auto simp: updateKey_def mutationKeyOf_def newRunKeys_def executionKeyOf_def)
    have A: "sa k = s k" if "k \<noteq> ?ck" for k using updateCurrent_ok [OF api sa] that by blast
    obtain m where "queuesHold E ?sh s (map fst cs) m" using st queues_choose [of "map fst cs"] by blast
    then have ma: "queuesHold E ?sh sa (map fst cs) m" using queuesHold_cong [of E sa s] A ck(3) by metis
    have "sa ?rk = s ?rk" using A ck(1) by metis
    then obtain sb where sb: "prun Q (mutateRun E (beginTxn E' t) ?sh ?w) sa = (Inr (), sb)"
      using mutateRun_run [where s = sa and w = ?w and sh = ?sh, OF api _ _ _ _ _ ma] rq st taken(2) run_congs(1) [of sa ?rk s] by metis
    have B: "\<And>k. k \<noteq> ?rk \<Longrightarrow> k \<notin> taskSets E \<Longrightarrow> sb k = sa k" using mutateRun_ok [OF api _ _ _ sb, of cs] rq by blast
    obtain w where w: "?new = Some w" "k = executionKeyOf E ?sh w" using taken(3) by (auto simp: newRunKeys_def)
    have "sb k \<noteq> None" using taken(3,4) applyMutation_present [OF sb] B [of k] A [of k] ck(2) run_keys(5) by metis
    then have "prun Q (createRun E (beginTxn E' t) ?sh w) sb = (Inl (WorkflowConditionFailed 0 0), sb)"
      using w(2) by (simp add: createRun_def prun_tryP prun_recordExists)
    with sa sb w(1) show ?thesis using taken lease by (auto simp: updateBody_def updateOutcome_def prun_tryP)
  next
    case free
    then show ?thesis using updateBody_run [OF api req store, of Q E' t] lease by (fastforce simp: updateOutcome_def)
  qed
qed

lemma UpdateWorkflowExecution_quiet:
  assumes srv: "quiet_aerospike Q srv store_of base_of work_of" and api: "temporal_api E"
    and req: "updateReqOk E req cs cs'" and valid: "updateValid E req" and store: "updateStoreOk E req cs cs' (store_of db)"
  shows "\<exists>db'. run srv (UpdateWorkflowExecution E req) db = (updateOutcome E req (store_of db), db') \<and>
    (updateOutcome E req (store_of db) \<noteq> Inr () \<longrightarrow> store_of db' = store_of db) \<and>
    (updateOutcome E req (store_of db) = Inr () \<longrightarrow> updated E req cs cs' (store_of db) (store_of db'))"
proof -
  let ?s = "store_of db"
  obtain y db' where y: "run srv (UpdateWorkflowExecution E req) db = (y, db')" by fastforce
  note q = quiet_aerospike.fenced_quiet [OF srv txn_body_updateBody y [unfolded UpdateWorkflowExecution_fenced [OF valid]]]
  have "y = updateOutcome E req ?s \<and> (y \<noteq> Inr () \<longrightarrow> store_of db' = ?s) \<and> (y = Inr () \<longrightarrow> updated E req cs cs' ?s (store_of db'))"
  proof (cases "leaseID E (uw_ShardID req) ?s = Some (uw_RangeID req)")
    case True
    with q obtain t s1 where s1: "prun Q (updateBody E req (beginTxn E t)) ?s = (y, s1)" "store_of db' = (case y of Inl _ \<Rightarrow> ?s | Inr _ \<Rightarrow> s1)"
      by auto
    have "y = updateOutcome E req ?s" using updateBody_outcome [OF api req store True, of Q E t] s1(1) by simp
    moreover have "updated E req cs cs' ?s (store_of db')" if "y = Inr ()" using updateBody_ok [OF api req] s1 that by auto
    ultimately show ?thesis using s1(2) by (auto split: sum.split)
  next
    case False
    with q show ?thesis by (auto simp: updateOutcome_def split: option.splits if_splits)
  qed
  with y show ?thesis by metis
qed

text \<open>
  C25. With nobody interfering, the answer of \<^verbatim>\<open>UpdateWorkflowExecution\<close> is determined by the store, guard by
  guard in the order of the code: lease, pointer, optimistic lock with the recorded version and next event
  id in the error, the run to be created; and an error, however late, leaves the store untouched.
\<close>

theorem UpdateWorkflowExecution_outcome:
  assumes srv: "quiet_aerospike Q srv store_of base_of work_of" and api: "temporal_api E"
    and req: "updateReqOk E req cs cs'" and valid: "updateValid E req" and store: "updateStoreOk E req cs cs' (store_of db)"
  shows "\<exists>db'. run srv (UpdateWorkflowExecution E req) db = (updateOutcome E req (store_of db), db') \<and>
    (updateOutcome E req (store_of db) \<noteq> Inr () \<longrightarrow> store_of db' = store_of db)"
  using UpdateWorkflowExecution_quiet [OF assms] by blast

section \<open>A sample update\<close>

text \<open>Run \<open>q\<close> is continued as run \<open>r\<close>.\<close>

definition sampleMutated :: workflow_mutation where
  "sampleMutated = mutation.extend sampleMutation
     \<lparr>wm_NamespaceID = ''n'', wm_WorkflowID = ''w'', wm_RunID = ''q'', wm_ExecutionState = emptyState, wm_LastWriteVersion = 3,
      wm_Condition = 5, wm_Tasks = []\<rparr>"

definition sampleContinue :: update_req where
  "sampleContinue = \<lparr>uw_ShardID = 7, uw_RangeID = 4, uw_ArchetypeID = 0, uw_Mode = UpdateWorkflowModeUpdateCurrent,
     uw_UpdateWorkflowMutation = sampleMutated, uw_NewWorkflowSnapshot = Some sampleWorkflow,
     uw_UpdateWorkflowNewEvents = [sampleEvent 3], uw_NewWorkflowNewEvents = [sampleEvent 5]\<rparr>"

definition sampleRuns :: "int64 \<Rightarrow> store" where
  "sampleRuns ver = (sampleLease 4)(executionKey sample_env 7 ''n'' ''w'' ''q'' \<mapsto> [''ver'' \<mapsto> BVal (GInt ver)],
     updateKey sample_env sampleContinue \<mapsto> [''run_id'' \<mapsto> BVal (GString ''q'')])"

lemma sampleContinue_keys:
  "updateRunKey sample_env sampleContinue = executionKey sample_env 7 ''n'' ''w'' ''q''"
  "newRunKeys sample_env (uw_ShardID sampleContinue) (uw_NewWorkflowSnapshot sampleContinue) = {executionKey sample_env 7 ''n'' ''w'' ''r''}"
  "updateKey sample_env sampleContinue \<noteq> executionKey sample_env sh n w r"
  "executionKey sample_env 7 ''n'' ''w'' ''r'' \<noteq> executionKey sample_env 7 ''n'' ''w'' ''q''"
  "shardKey sample_env i \<noteq> executionKey sample_env sh n w r" "shardKey sample_env i \<noteq> updateKey sample_env sampleContinue"
  by (simp_all add: sampleContinue_def sampleMutated_def sampleWorkflow_def mutation.defs snapshot.defs mutationKeyOf_def newRunKeys_def executionKeyOf_def
      updateKey_def currentExecutionKey_def executionKey_def shardKey_def joinColon_def)

lemma sampleRuns_run:
  "sampleRuns v (executionKey sample_env 7 ''n'' ''w'' ''q'') = Some [''ver'' \<mapsto> BVal (GInt v)]"
  "sampleRuns v (executionKey sample_env 7 ''n'' ''w'' ''r'') = None"
  using sampleContinue_keys(3) [symmetric] sampleContinue_keys(4) sampleContinue_keys(5) [symmetric] by (simp_all add: sampleRuns_def sampleLease_def)

lemma sampleRuns_other:
  "k \<in> taskSets sample_env \<union> eventSets sample_env \<Longrightarrow> sampleRuns v k = sampleLease 4 k"
  by (auto simp: sampleRuns_def updateKey_def)

lemma sampleContinue_ok:
  "updateReqOk sample_env sampleContinue [] sampleTasks" "updateValid sample_env sampleContinue"
  "updateStoreOk sample_env sampleContinue [] sampleTasks (sampleRuns v)"
proof -
  have m: "mutation.truncate (mutation.extend m x) = m" for m :: mutation and x by (simp add: mutation.defs)
  have sn: "snapshot.truncate (snapshot.extend m x) = m" for m :: snapshot and x by (simp add: snapshot.defs)
  have ev: "nodeKeyOf sample_env (sampleEvent 3) \<noteq> nodeKeyOf sample_env (sampleEvent 5)" by (simp add: nodeKeyOf_def)
  show "updateReqOk sample_env sampleContinue [] sampleTasks"
    using ev
    by (simp add: updateReqOk_def sampleContinue_def sampleMutated_def sampleWorkflow_def m sn taskReq_def newRunOk_def
        sampleSnapshot_def snapshotOk_def sampleMutation_def mutationOk_def taskReqOk_def keyValid_def mutation.defs snapshot.defs)
  show "updateValid sample_env sampleContinue" by (simp add: updateValid_def sample_env_def)
  have "historyOk sample_env (sampleRuns v)"
    using sampleCreate_ok(4) historyOk_cong [of sample_env "sampleRuns v" "sampleLease 4"] sampleRuns_other by blast
  moreover have "execOk r" if "sampleRuns v (executionKey sample_env 7 ''n'' ''w'' ''q'') = Some r" for r
    using that by (auto simp: sampleRuns_run execOk_def bufferOk_def collectionBins_def)
  moreover have "histRep sample_env 7 sampleCat (sampleRuns v) []"
    using histRep_taskSets [of sample_env "sampleRuns v" "sampleLease 4"] sampleRuns_other sampleLease_history
    by (simp add: histRep_empty)
  ultimately show "updateStoreOk sample_env sampleContinue [] sampleTasks (sampleRuns v)"
    unfolding updateStoreOk_def sampleContinue_keys by (auto simp: sampleContinue_def)
qed

lemma sampleContinue_outcome:
  "updateOutcome sample_env sampleContinue (sampleRuns 1) = Inr ()"
  "updateOutcome sample_env sampleContinue (sampleRuns 8) = Inl (WorkflowConditionFailed 0 8)"
proof -
  have lease: "leaseID sample_env 7 (sampleRuns v) = Some 4" for v
    using sampleContinue_keys(5,6) by (simp add: leaseID_def sampleRuns_def sampleLease_def bin_int_def)
  have allowed: "updateAllowed sample_env sampleContinue (sampleRuns v)" for v
    by (simp add: updateAllowed_def sampleRuns_def) (simp add: bin_str_def sampleContinue_def sampleMutated_def sampleWorkflow_def mutation.defs snapshot.defs)
  have ver: "mu_DBRecordVersion sampleMutated = 2" by (simp add: sampleMutated_def sampleMutation_def mutation.defs)
  have req: "uw_ShardID sampleContinue = 7" "uw_RangeID sampleContinue = 4" "uw_UpdateWorkflowMutation sampleContinue = sampleMutated"
    by (simp_all add: sampleContinue_def)
  show "updateOutcome sample_env sampleContinue (sampleRuns 1) = Inr ()"
    "updateOutcome sample_env sampleContinue (sampleRuns 8) = Inl (WorkflowConditionFailed 0 8)"
    using allowed sampleContinue_keys(4) unfolding updateOutcome_def sampleContinue_keys(1,2) unfolding req
    by (simp_all add: lease locked_def sampleRuns_run ver lockHolds_def bin_int_def lockRefusal_def)
qed

theorem UpdateWorkflowExecution_refines_witness:
  "\<exists>s1. updated sample_env sampleContinue [] sampleTasks (sampleRuns 1) s1"
proof -
  obtain db' where "run (mem_server sampleQuirks) (UpdateWorkflowExecution sample_env sampleContinue) (mem_init (sampleRuns 1)) = (Inr (), db')"
    using UpdateWorkflowExecution_quiet [OF mem.quiet_aerospike_axioms sample.temporal_api_axioms sampleContinue_ok(1,2),
        of "mem_init (sampleRuns 1)" sampleQuirks] sampleContinue_ok(3) sampleContinue_outcome(1) by (auto simp: mem_init_def)
  from UpdateWorkflowExecution_refines [OF mem.aerospike_axioms sample.temporal_api_axioms sampleContinue_ok(1) this]
  show ?thesis by (auto simp: mem_init_def)
qed

theorem UpdateWorkflowExecution_outcome_witness:
  "\<exists>db'. run (mem_server sampleQuirks) (UpdateWorkflowExecution sample_env sampleContinue) (mem_init (sampleRuns 8)) =
     (Inl (WorkflowConditionFailed 0 8), db') \<and> m_store db' = sampleRuns 8"
  using UpdateWorkflowExecution_outcome [OF mem.quiet_aerospike_axioms sample.temporal_api_axioms sampleContinue_ok(1,2),
      of "mem_init (sampleRuns 8)" sampleQuirks] sampleContinue_ok(3) sampleContinue_outcome(2) by (simp add: mem_init_def)

end
