(* ===== verification/Exclusive.thy ===== *)
theory Exclusive
  imports Frame TaskDeletion
begin

text \<open>
  Races for something that only one transaction can take: if every scope that succeeds finds it available
  and leaves it taken, and other clients never give it back, then of all scopes started together at most
  one is told that it succeeded, whatever the interleaving of their commands.
\<close>

context shared_aerospike
begin

lemma serial_member:
  "serial E scs s log s' \<Longrightarrow> (i, x) \<in> set log \<Longrightarrow> \<exists>t s0 s1. prun Q (snd (scs ! i) (beginTxn E t)) s0 = (Inr x, s1)"
proof (induction log arbitrary: s)
  case (Cons p log)
  obtain j y where p: "p = (j, y)" by (cases p)
  with Cons.prems obtain t s0 s1 where "prun Q (snd (scs ! j) (beginTxn E t)) s0 = (Inr y, s1)" "serial E scs s1 log s'" by auto
  with Cons.IH [of s1] Cons.prems(2) p show ?case by (cases "(i, x) = (j, y)") auto
qed simp

lemma serial_taken:
  assumes takes: "\<And>i t s s' x. i < length scs \<Longrightarrow> prun Q (snd (scs ! i) (beginTxn E t)) s = (Inr x, s') \<Longrightarrow> avail s \<and> \<not> avail s'"
    and keep: "\<And>s s'. interferes s s' \<Longrightarrow> \<not> avail s \<Longrightarrow> \<not> avail s'"
    and log: "serial E scs s log s'" "\<forall>i \<in> fst ` set log. i < length scs" "\<not> avail s"
  shows "log = []"
proof (cases log)
  case (Cons p rest)
  then obtain i x where p: "log = (i, x) # rest" by (cases p) simp
  with log obtain t s0 s1 where "interferes s s0" "prun Q (snd (scs ! i) (beginTxn E t)) s0 = (Inr x, s1)" "i < length scs" by auto
  then show ?thesis using takes keep log(3) by blast
qed

lemma serial_one:
  assumes takes: "\<And>i t s s' x. i < length scs \<Longrightarrow> prun Q (snd (scs ! i) (beginTxn E t)) s = (Inr x, s') \<Longrightarrow> avail s \<and> \<not> avail s'"
    and keep: "\<And>s s'. interferes s s' \<Longrightarrow> \<not> avail s \<Longrightarrow> \<not> avail s'"
    and log: "serial E scs s log s'" "\<forall>i \<in> fst ` set log. i < length scs"
  shows "length log \<le> 1"
proof (cases log)
  case (Cons p rest)
  then obtain i x where p: "log = (i, x) # rest" by (cases p) simp
  with log obtain t s0 s1 where s: "prun Q (snd (scs ! i) (beginTxn E t)) s0 = (Inr x, s1)" "i < length scs" "serial E scs s1 rest s'" by auto
  have "\<not> avail s1" using takes [OF s(2,1)] by blast
  from serial_taken [where avail = avail, OF takes keep s(3) _ this] log(2) have "rest = []" by (auto simp: p)
  with p show ?thesis by simp
qed simp

text \<open>One that succeeded is the only one that was applied, at an instant between moves of the other clients.\<close>

lemma winner_only:
  assumes reach: "(istep srv)\<^sup>*\<^sup>* (map (scopeP E) scs, db) (ps, db')"
    and bodies: "\<And>sc t. sc \<in> set scs \<Longrightarrow> txn_body t (snd sc (beginTxn E t))"
    and takes: "\<And>i t s s' x. i < length scs \<Longrightarrow> prun Q (snd (scs ! i) (beginTxn E t)) s = (Inr x, s') \<Longrightarrow> avail s \<and> \<not> avail s'"
    and keep: "\<And>s s'. interferes s s' \<Longrightarrow> \<not> avail s \<Longrightarrow> \<not> avail s'"
    and win: "a < length ps" "ps ! a = Ret (Inr x)"
  shows "(\<forall>b y. b < length ps \<longrightarrow> ps ! b = Ret (Inr y) \<longrightarrow> a = b) \<and> a < length scs \<and>
    (\<exists>t s0 s1. interferes (store_of db) s0 \<and> prun Q (snd (scs ! a) (beginTxn E t)) s0 = (Inr x, s1) \<and> interferes s1 (store_of db'))"
proof -
  obtain log where log: "serial E scs (store_of db) log (store_of db')" "\<forall>i \<in> fst ` set log. i < length scs"
    and told: "\<And>i x. i < length ps \<Longrightarrow> ps ! i = Ret (Inr x) \<Longrightarrow> (i, x) \<in> set log"
    using serializable [OF reach bodies] by metis
  have "length log \<le> 1" by (rule serial_one [where avail = avail, OF takes keep log])
  with told [OF win] have one: "log = [(a, x)]" by (cases log) auto
  with log told show ?thesis by fastforce
qed

lemma exclusive:
  assumes reach: "(istep srv)\<^sup>*\<^sup>* (map (scopeP E) scs, db) (ps, db')"
    and bodies: "\<And>sc t. sc \<in> set scs \<Longrightarrow> txn_body t (snd sc (beginTxn E t))"
    and takes: "\<And>i t s s' x. i < length scs \<Longrightarrow> prun Q (snd (scs ! i) (beginTxn E t)) s = (Inr x, s') \<Longrightarrow> avail s \<and> \<not> avail s'"
    and keep: "\<And>s s'. interferes s s' \<Longrightarrow> \<not> avail s \<Longrightarrow> \<not> avail s'"
    and win: "a < length ps" "b < length ps" "ps ! a = Ret (Inr x)" "ps ! b = Ret (Inr y)"
  shows "a = b"
proof -
  have "(\<forall>b y. b < length ps \<longrightarrow> ps ! b = Ret (Inr y) \<longrightarrow> a = b) \<and> a < length scs \<and>
    (\<exists>t s0 s1. interferes (store_of db) s0 \<and> prun Q (snd (scs ! a) (beginTxn E t)) s0 = (Inr x, s1) \<and> interferes s1 (store_of db'))"
    by (rule winner_only [where avail = avail, OF reach bodies takes keep win(1,3)])
  with win(2,4) show ?thesis by blast
qed

end

text \<open>A fenced operation as a scope.\<close>

definition fenceBody :: "env \<Rightarrow> int32 \<Rightarrow> int64 \<Rightarrow> (txnScope \<Rightarrow> 'a io) \<Rightarrow> txnScope \<Rightarrow> 'a io" where
  "fenceBody E shardID rangeID rest t = tryP (assertShardOwnership E t shardID rangeID) (\<lambda>_. rest t)"

lemma fenced_scope: "fenced E operation i r rest = scopeP E (operation, fenceBody E i r rest)"
  by (simp add: fenced_def scopeP_def fenceBody_def [abs_def])

lemma txn_body_fenceBody [txn_intros]:
  "txn_body t (rest (beginTxn E t)) \<Longrightarrow> txn_body t (fenceBody E i r rest (beginTxn E t))"
  unfolding fenceBody_def by (intro txn_intros)

lemma prun_fenceBody_ok:
  "prun Q (fenceBody E i r rest t) s = (Inr x, s') \<longleftrightarrow> leaseID E i s = Some r \<and> prun Q (rest t) s = (Inr x, s')"
  by (simp add: fenceBody_def prun_fenced_ok)

text \<open>Two clients of a quiet server, one after the other: a schedule of the race.\<close>

lemma run_isteps2:
  assumes "run srv p db = (x, db1)" "run srv q db1 = (y, db2)"
  shows "(istep srv)\<^sup>*\<^sup>* ([p, q], db) ([Ret x, Ret y], db2)"
proof -
  have "(istep srv)\<^sup>*\<^sup>* ([p, q], db) ([p, q][0 := Ret x], db1)" by (rule run_isteps [OF _ _ assms(1)]) simp_all
  moreover have "(istep srv)\<^sup>*\<^sup>* ([Ret x, q], db1) ([Ret x, q][1 := Ret y], db2)" by (rule run_isteps [OF _ _ assms(2)]) simp_all
  ultimately show ?thesis by simp
qed

end
