(* ===== verification/ExecutionRace.thy ===== *)
theory ExecutionRace
  imports ExecutionUpdate Exclusive
begin

text \<open>
  Executions under concurrency: clients that race to start the same workflow, and clients that race to
  update the same run from the same version. The clients interleave command by command.
\<close>

section \<open>Starting a workflow once\<close>

abbreviation "createScope E req \<equiv> (''CreateWorkflowExecution'', fenceBody E (cw_ShardID req) (cw_RangeID req) (createBody E req))"

lemma createRun_in: "writes_in ({executionKeyOf E sh w} \<union> taskSets E) (createRun E t sh w)"
  by (auto simp: createRun_def recordExists_def writeSnapshot_def intro!: frame_intros writes_in_mono [OF writeTasks_in] split: sum.splits)

lemma createCurrent_pointer:
  assumes "prun Q (createBody E req (beginTxn E' t)) s0 = (Inr (), s1)" "cw_Mode req = CreateWorkflowModeBrandNew"
  shows "s0 (createKey E req) = None \<and> s1 (createKey E req) \<noteq> None"
proof -
  let ?k = "createKey E req"
  let ?sa = "s0(?k \<mapsto> put_bins (snapshotPointer E (cw_NewWorkflowSnapshot req)) (old_bins (s0 ?k)))"
  from assms obtain sb where a: "s0 ?k = None"
    and b: "prun Q (createRun E (beginTxn E' t) (cw_ShardID req) (cw_NewWorkflowSnapshot req)) ?sa = (Inr (), sb)"
    and c: "prun Q (appendEvents E (beginTxn E' t) (cw_NewWorkflowNewEvents req)) sb = (Inr (), s1)"
    by (auto simp: createBody_def prun_tryP_ok prun_createCurrent createAllowed_def split: if_splits)
  from prun_frame [OF createRun_in b, of ?k] appendEvents_frame [OF c, of ?k] a show ?thesis
    by (simp add: createKey_def executionKeyOf_def)
qed

text \<open>
  C26. A workflow is started once: of any number of clients that create a run of one workflow id as brand new,
  under every interleaving of their commands, with commands failing and other clients writing anything
  that does not remove the pointer, at most one is told that it succeeded.
\<close>

theorem CreateWorkflowExecution_one_winner:
  assumes srv: "shared_aerospike Q srv store_of base_of work_of R live"
    and reqs: "\<And>req. req \<in> set reqs \<Longrightarrow> createValid E req \<and> cw_Mode req = CreateWorkflowModeBrandNew \<and> createKey E req = ck"
    and keep: "\<And>s s'. R s s' \<Longrightarrow> s ck \<noteq> None \<Longrightarrow> s' ck \<noteq> None"
    and reach: "(istep srv)\<^sup>*\<^sup>* (map (CreateWorkflowExecution E) reqs, db) (ps, db')"
    and win: "a < length ps" "b < length ps" "ps ! a = Ret (Inr ())" "ps ! b = Ret (Inr ())"
  shows "a = b"
proof (rule shared_aerospike.exclusive [OF srv _ _ _ _ win, where avail = "\<lambda>s. s ck = None"])
  have "map (CreateWorkflowExecution E) reqs = map (scopeP E) (map (createScope E) reqs)"
    using reqs CreateWorkflowExecution_fenced by (simp add: fenced_scope)
  with reach show "(istep srv)\<^sup>*\<^sup>* (map (scopeP E) (map (createScope E) reqs), db) (ps, db')" by metis
  show "txn_body t (snd sc (beginTxn E t))" if "sc \<in> set (map (createScope E) reqs)" for sc t
    using that by (auto intro!: txn_intros)
  show "s ck = None \<and> \<not> s' ck = None"
    if "i < length (map (createScope E) reqs)" "prun Q (snd (map (createScope E) reqs ! i) (beginTxn E t)) s = (Inr x, s')" for i t s s' x
  proof -
    from that have "reqs ! i \<in> set reqs" by simp
    note r = reqs [OF this]
    then show ?thesis using createCurrent_pointer [of Q E "reqs ! i" E t s s'] that by (auto simp: prun_fenceBody_ok)
  qed
qed (use keep in blast)

section \<open>No lost update\<close>

lemma apply_op_other: "apply_op x r = Inr (v, r') \<Longrightarrow> b \<noteq> op_bin x \<Longrightarrow> r' b = r b"
  by (cases x) (auto simp: map_write_def map_access_def Let_def split: option.splits binval.splits gval.splits prod.splits)

lemma apply_ops_other: "apply_ops xs r = Inr (vs, r') \<Longrightarrow> b \<notin> op_bin ` set xs \<Longrightarrow> r' b = r b"
proof (induction xs r arbitrary: vs rule: apply_ops.induct)
  case (2 x xs r)
  then obtain v r1 vs' where "apply_op x r = Inr (v, r1)" "apply_ops xs r1 = Inr (vs', r')" by (auto split: sum.splits prod.splits)
  then show ?case using 2 apply_op_other by (metis image_insert insertCI list.simps(15))
qed simp

lemma mutation_version:
  assumes "apply_ops (mutationOps E m) r = Inr (vs, r')"
  shows "bin_int ''ver'' r' = mu_DBRecordVersion m"
proof -
  let ?rest = "checksumOps E (mu_Checksum m) @ concat (map groupOps (mutationGroups E m)) @ bufferOps E m"
  have "effect (mutationOps E m) r r'" using assms by (auto simp: effect_def)
  then obtain r1 vs' where r1: "apply_ops ?rest r1 = Inr (vs', r')" "r1 ''ver'' = Some (BVal (GInt (mu_DBRecordVersion m)))"
    by (auto simp: mutationOps_groups headOps_def) (auto simp: effect_def)
  have "''ver'' \<notin> op_bin ` set ?rest"
    by (auto simp: checksumOps_def groupOps_def mutationGroups_def bufferOps_def split: option.splits if_splits)
  from apply_ops_other [OF r1(1) this] r1(2) show ?thesis by (simp add: bin_int_def)
qed

text \<open>A mutation that went through leaves its own version, so the lock of the same version no longer holds.\<close>

lemma mutateRun_version:
  assumes "prun Q (mutateRun E (beginTxn E' t) sh w) s0 = (Inr (), s1)"
  shows "\<exists>r. s1 (mutationKeyOf E sh w) = Some r \<and> bin_int ''ver'' r = mu_DBRecordVersion w"
proof -
  from assms obtain sm where m: "prun Q (applyMutation E (beginTxn E' t) (mutationKeyOf E sh w) w) s0 = (Inr (), sm)"
    and w: "prun Q (writeTasks E (beginTxn E' t) sh (wm_Tasks w)) sm = (Inr (), s1)"
    by (auto simp: mutateRun_def prun_tryP_ok prun_assertExecutionCondition)
  have "\<exists>r. sm (mutationKeyOf E sh w) = Some r \<and> bin_int ''ver'' r = mu_DBRecordVersion w"
    using m mutation_version [of E "mutation.truncate w"]
    by (auto simp: applyMutation_def prun_operate_ok creates_mutation mutation.defs split: sum.splits prod.splits)
  with writeTasks_frame [OF w, of "mutationKeyOf E sh w"] show ?thesis by simp
qed

lemma updateBody_version:
  assumes "prun Q (updateBody E req (beginTxn E' t)) s0 = (Inr (), s1)"
  shows "locked (updateRunKey E req) (mu_DBRecordVersion (uw_UpdateWorkflowMutation req)) (wm_Condition (uw_UpdateWorkflowMutation req)) s0 \<and>
    (\<exists>r. s1 (updateRunKey E req) = Some r \<and> bin_int ''ver'' r = mu_DBRecordVersion (uw_UpdateWorkflowMutation req))"
proof -
  let ?w = "uw_UpdateWorkflowMutation req" and ?sh = "uw_ShardID req" and ?rk = "updateRunKey E req" and ?new = "uw_NewWorkflowSnapshot req"
  from assms obtain sa sb sc where a: "prun Q (updateCurrent E (beginTxn E' t) req) s0 = (Inr (), sa)"
    and b: "prun Q (mutateRun E (beginTxn E' t) ?sh ?w) sa = (Inr (), sb)"
    and c: "prun Q (case ?new of None \<Rightarrow> Ret (Inr ()) | Some w \<Rightarrow> createRun E (beginTxn E' t) ?sh w) sb = (Inr (), sc)"
    and d: "prun Q (appendEvents E (beginTxn E' t) (uw_UpdateWorkflowNewEvents req @ uw_NewWorkflowNewEvents req)) sc = (Inr (), s1)"
    by (auto simp: updateBody_def prun_tryP_ok prun_appendEvents_append)
  obtain r where r: "sb ?rk = Some r" "bin_int ''ver'' r = mu_DBRecordVersion ?w" using mutateRun_version [OF b] by blast
  have "writes_in {updateKey E req} (updateCurrent E (beginTxn E' t) req)"
    unfolding updateCurrent_def Let_def updateKey_def [symmetric]
    by (auto simp: readCurrent_def putCurrent_def assertNotCurrent_def intro!: frame_intros split: update_mode.splits option.splits sum.splits)
  then have "sa ?rk = s0 ?rk" using prun_frame [OF _ a, of _ ?rk] by (simp add: mutationKeyOf_def updateKey_def)
  moreover have "locked ?rk (mu_DBRecordVersion ?w) (wm_Condition ?w) sa"
    using b by (auto simp: mutateRun_def prun_tryP_ok prun_assertExecutionCondition locked_def)
  moreover have "sc ?rk = sb ?rk"
  proof (cases ?new)
    case (Some w)
    with c have none: "sb (executionKeyOf E ?sh w) = None" by (auto simp: createRun_def prun_tryP_ok prun_recordExists split: if_splits)
    have "?rk \<noteq> executionKeyOf E ?sh w" using none r(1) by (metis option.distinct(1))
    then show ?thesis using prun_frame [OF createRun_in, of Q E "beginTxn E' t" ?sh w sb "Inr ()" sc ?rk] c Some by simp
  qed (use c in simp)
  ultimately show ?thesis using appendEvents_frame [OF d, of ?rk] r run_congs(1) [of sa ?rk s0] by auto
qed

abbreviation "updateScope E req \<equiv> (''UpdateWorkflowExecution'', fenceBody E (uw_ShardID req) (uw_RangeID req) (updateBody E req))"

text \<open>The record version of a run.\<close>

definition runVersion :: "askey \<Rightarrow> store \<Rightarrow> int64 option" where
  "runVersion k s = map_option (bin_int ''ver'') (s k)"

lemma locked_version: "v \<noteq> 0 \<Longrightarrow> locked k v c s \<longleftrightarrow> runVersion k s = Some (v - 1)"
  by (auto simp: locked_def lockHolds_def runVersion_def)

text \<open>
  C27. No update is lost: of any number of clients that update one run from the same version, whatever they
  change and however their commands interleave, at most one is told that it succeeded; the others must
  read again. The clients may also continue the workflow as new runs, and other clients may write anything
  that does not set the version back.
\<close>

theorem UpdateWorkflowExecution_one_winner:
  assumes srv: "shared_aerospike Q srv store_of base_of work_of R live"
    and reqs: "\<And>req. req \<in> set reqs \<Longrightarrow> updateValid E req \<and> updateRunKey E req = rk \<and> mu_DBRecordVersion (uw_UpdateWorkflowMutation req) = v"
    and v: "v \<noteq> 0" and keep: "\<And>s s'. R s s' \<Longrightarrow> runVersion rk s \<noteq> Some (v - 1) \<Longrightarrow> runVersion rk s' \<noteq> Some (v - 1)"
    and reach: "(istep srv)\<^sup>*\<^sup>* (map (UpdateWorkflowExecution E) reqs, db) (ps, db')"
    and win: "a < length ps" "b < length ps" "ps ! a = Ret (Inr ())" "ps ! b = Ret (Inr ())"
  shows "a = b"
proof (rule shared_aerospike.exclusive [OF srv _ _ _ _ win, where avail = "\<lambda>s. runVersion rk s = Some (v - 1)"])
  have "map (UpdateWorkflowExecution E) reqs = map (scopeP E) (map (updateScope E) reqs)"
    using reqs UpdateWorkflowExecution_fenced by (simp add: fenced_scope)
  with reach show "(istep srv)\<^sup>*\<^sup>* (map (scopeP E) (map (updateScope E) reqs), db) (ps, db')" by metis
  show "txn_body t (snd sc (beginTxn E t))" if "sc \<in> set (map (updateScope E) reqs)" for sc t
    using that by (auto intro!: txn_intros)
  show "runVersion rk s = Some (v - 1) \<and> runVersion rk s' \<noteq> Some (v - 1)"
    if "i < length (map (updateScope E) reqs)" "prun Q (snd (map (updateScope E) reqs ! i) (beginTxn E t)) s = (Inr x, s')" for i t s s' x
  proof -
    from that have "reqs ! i \<in> set reqs" by simp
    note r = reqs [OF this]
    have "locked rk v (wm_Condition (uw_UpdateWorkflowMutation (reqs ! i))) s \<and> runVersion rk s' = Some v"
      using updateBody_version [of Q E "reqs ! i" E t s s'] that r by (auto simp: prun_fenceBody_ok runVersion_def)
    then show ?thesis using locked_version [OF v] by simp
  qed
qed (use keep in blast)

section \<open>Two clients\<close>

theorem CreateWorkflowExecution_one_winner_witness:
  "\<exists>x db'. (istep (mem_server sampleQuirks))\<^sup>*\<^sup>*
     (map (CreateWorkflowExecution sample_env) [sampleCreate 4, sampleCreate 4], mem_init (sampleLease 4)) ([Ret (Inr ()), Ret x], db') \<and> x \<noteq> Inr ()"
proof -
  let ?p = "CreateWorkflowExecution sample_env (sampleCreate 4)"
  obtain db1 where one: "run (mem_server sampleQuirks) ?p (mem_init (sampleLease 4)) = (Inr (), db1)"
    using CreateWorkflowExecution_quiet [OF mem.quiet_aerospike_axioms sample.temporal_api_axioms sampleCreate_ok(1) [of 4] sampleCreate_ok(2),
        of "mem_init (sampleLease 4)" "\<lambda>_. []" sampleQuirks] sampleCreate_ok(3,4) sampleCreate_outcome(1) by (auto simp: mem_init_def)
  obtain x db2 where "run (mem_server sampleQuirks) ?p db1 = (x, db2)" by fastforce
  with run_isteps2 [OF one this] have race: "(istep (mem_server sampleQuirks))\<^sup>*\<^sup>*
     (map (CreateWorkflowExecution sample_env) [sampleCreate 4, sampleCreate 4], mem_init (sampleLease 4)) ([Ret (Inr ()), Ret x], db2)" by simp
  have "createValid sample_env (sampleCreate 4) \<and> cw_Mode (sampleCreate 4) = CreateWorkflowModeBrandNew"
    using sampleCreate_ok(2) by (simp add: sampleCreate_def)
  then have "b = 0" if "b < 2" "[Ret (Inr ()), Ret x] ! b = Ret (Inr ())" for b :: nat
    using CreateWorkflowExecution_one_winner [OF shared.shared_aerospike_axioms _ _ race, of "createKey sample_env (sampleCreate 4)" b 0] that by simp
  from this [of 1] have "x \<noteq> Inr ()" by auto
  with race show ?thesis by blast
qed

theorem UpdateWorkflowExecution_one_winner_witness:
  "\<exists>x db'. (istep (mem_server sampleQuirks))\<^sup>*\<^sup>*
     (map (UpdateWorkflowExecution sample_env) [sampleContinue, sampleContinue], mem_init (sampleRuns 1)) ([Ret (Inr ()), Ret x], db') \<and> x \<noteq> Inr ()"
proof -
  let ?p = "UpdateWorkflowExecution sample_env sampleContinue"
  obtain db1 where one: "run (mem_server sampleQuirks) ?p (mem_init (sampleRuns 1)) = (Inr (), db1)"
    using UpdateWorkflowExecution_quiet [OF mem.quiet_aerospike_axioms sample.temporal_api_axioms sampleContinue_ok(1,2),
        of "mem_init (sampleRuns 1)" sampleQuirks] sampleContinue_ok(3) sampleContinue_outcome(1) by (auto simp: mem_init_def)
  obtain x db2 where "run (mem_server sampleQuirks) ?p db1 = (x, db2)" by fastforce
  with run_isteps2 [OF one this] have race: "(istep (mem_server sampleQuirks))\<^sup>*\<^sup>*
     (map (UpdateWorkflowExecution sample_env) [sampleContinue, sampleContinue], mem_init (sampleRuns 1)) ([Ret (Inr ()), Ret x], db2)" by simp
  have "mu_DBRecordVersion (uw_UpdateWorkflowMutation sampleContinue) = 2"
    by (simp add: sampleContinue_def sampleMutated_def sampleMutation_def mutation.defs)
  then have "b = 0" if "b < 2" "[Ret (Inr ()), Ret x] ! b = Ret (Inr ())" for b :: nat
    using UpdateWorkflowExecution_one_winner [OF shared.shared_aerospike_axioms _ _ _ race, of "updateRunKey sample_env sampleContinue" 2 b 0]
      sampleContinue_ok(2) that by simp
  from this [of 1] have "x \<noteq> Inr ()" by auto
  with race show ?thesis by blast
qed

end
