(* ===== verification/ExecutionRead.thy ===== *)
theory ExecutionRead
  imports ExecutionUpdate
begin

text \<open>Reading executions back, and deleting the current-run pointer.\<close>

lemma GetWorkflowExecution_run:
  assumes srv: "quiet_aerospike Q srv store_of base_of work_of"
  shows "\<exists>db'. run srv (GetWorkflowExecution E sh n w r) db =
    (case store_of db (executionKey E sh n w r) of
       None \<Rightarrow> Inl (NotFound ''workflow execution'')
     | Some b \<Rightarrow> Inr (stateOf E b, ms_DBRecordVersion (stateOf E b)), db') \<and> store_of db' = store_of db"
proof -
  have "plain_prog (GetWorkflowExecution E sh n w r)"
    by (auto simp: GetWorkflowExecution_def Let_def intro!: txn_intros split: sum.splits)
  moreover have "prun Q (GetWorkflowExecution E sh n w r) (store_of db) =
      (case store_of db (executionKey E sh n w r) of
         None \<Rightarrow> Inl (NotFound ''workflow execution'')
       | Some b \<Rightarrow> Inr (stateOf E b, ms_DBRecordVersion (stateOf E b)), store_of db)"
    by (auto simp: GetWorkflowExecution_def prog_simps stateOf_read Let_def split: option.splits)
  ultimately show ?thesis by (rule quiet_aerospike.quiet_plain_run [OF srv])
qed

lemma GetCurrentExecution_run:
  assumes srv: "quiet_aerospike Q srv store_of base_of work_of"
    and p: "pointsAt E (currentExecutionKey E sh n w (currentRecordDiscriminator E arch)) runID blob lwv (store_of db)"
    and st: "WorkflowExecutionStateFromBlob E blob = Inr state"
  shows "\<exists>db'. run srv (GetCurrentExecution E sh n w arch) db = (Inr (runID, state), db') \<and> store_of db' = store_of db"
proof -
  have "plain_prog (GetCurrentExecution E sh n w arch)"
    by (auto simp: GetCurrentExecution_def intro!: txn_intros split: sum.splits option.splits)
  moreover have "prun Q (GetCurrentExecution E sh n w arch) (store_of db) = (Inr (runID, state), store_of db)"
    using p st by (auto simp: GetCurrentExecution_def prog_simps pointsAt_def readBlob_def bin_blob_def binString_def bin_str_def split: option.splits)
  ultimately show ?thesis by (rule quiet_aerospike.quiet_plain_run [OF srv])
qed

text \<open>
  C28. What \<^verbatim>\<open>CreateWorkflowExecution\<close> wrote is what the readers return: after a create that reports success,
  \<^verbatim>\<open>GetWorkflowExecution\<close> returns exactly the state of the snapshot with its record version, and, unless the
  mode left the pointer alone, \<^verbatim>\<open>GetCurrentExecution\<close> returns the run and its execution state.
\<close>

theorem execution_create_get:
  assumes srv: "quiet_aerospike Q srv store_of base_of work_of" and api: "temporal_api E" and req: "createReqOk E req cs"
    and run: "run srv (CreateWorkflowExecution E req) db = (Inr (), db1)"
    and w: "w = cw_NewWorkflowSnapshot req"
  shows "\<exists>db2 db3 st. run srv (GetWorkflowExecution E (cw_ShardID req) (wn_NamespaceID w) (wn_WorkflowID w) (wn_RunID w)) db1 =
        (Inr (st, sn_DBRecordVersion w), db2) \<and> sameState st (createState E req) \<and>
    (cw_Mode req \<noteq> CreateWorkflowModeBypassCurrent \<longrightarrow>
      (\<forall>state. WorkflowExecutionStateFromBlob E (sn_ExecutionStateBlob w) = Inr state \<longrightarrow>
        run srv (GetCurrentExecution E (cw_ShardID req) (wn_NamespaceID w) (wn_WorkflowID w) (cw_ArchetypeID req)) db1 = (Inr (wn_RunID w, state), db3)))"
proof -
  note fen = CreateWorkflowExecution_fenced [OF CreateWorkflowExecution_valid [OF run]]
  from aerospike.fenced_ok [OF quiet_aerospike.axioms(1) [OF srv] txn_body_createBody run [unfolded fen]] createBody_ok [OF api req]
  have c: "created E req cs (store_of db) (store_of db1)" by blast
  then obtain r where r: "store_of db1 (createRunKey E req) = Some r" "sameState (stateOf E r) (createState E req)"
    by (auto simp: created_def runHolds_def)
  then have "ms_DBRecordVersion (stateOf E r) = sn_DBRecordVersion w"
    by (auto simp: sameState_def snapshotState_def w snapshot.defs dest: arg_cong [where f = ms_DBRecordVersion])
  with r obtain db2 where get: "run srv (GetWorkflowExecution E (cw_ShardID req) (wn_NamespaceID w) (wn_WorkflowID w) (wn_RunID w)) db1 =
      (Inr (stateOf E r, sn_DBRecordVersion w), db2)"
    using GetWorkflowExecution_run [OF srv, of E "cw_ShardID req" "wn_NamespaceID w" "wn_WorkflowID w" "wn_RunID w" db1]
    by (auto simp: executionKeyOf_def w)
  obtain y db3 where y: "run srv (GetCurrentExecution E (cw_ShardID req) (wn_NamespaceID w) (wn_WorkflowID w) (cw_ArchetypeID req)) db1 = (y, db3)"
    by fastforce
  have "y = Inr (wn_RunID w, state)"
    if "cw_Mode req \<noteq> CreateWorkflowModeBypassCurrent" "WorkflowExecutionStateFromBlob E (sn_ExecutionStateBlob w) = Inr state" for state
    using c that GetCurrentExecution_run [OF srv _ that(2), of "cw_ShardID req" "wn_NamespaceID w" "wn_WorkflowID w" "cw_ArchetypeID req" "wn_RunID w" "wn_LastWriteVersion w" db1] y
    by (auto simp: created_def snapshotPointsAt_def createKey_def w)
  with get y r(2) show ?thesis by blast
qed

theorem execution_create_get_witness:
  "\<exists>db1 db2 st. run (mem_server sampleQuirks) (GetWorkflowExecution sample_env 7 ''n'' ''w'' ''r'') db1 = (Inr (st, 1), db2) \<and>
     sameState st (snapshotState sample_env sampleSnapshot)"
proof -
  obtain db1 where c: "run (mem_server sampleQuirks) (CreateWorkflowExecution sample_env (sampleCreate 4)) (mem_init (sampleLease 4)) = (Inr (), db1)"
    using CreateWorkflowExecution_quiet [OF mem.quiet_aerospike_axioms sample.temporal_api_axioms sampleCreate_ok(1) [of 4] sampleCreate_ok(2),
        of "mem_init (sampleLease 4)" "\<lambda>_. []" sampleQuirks] sampleCreate_ok(3,4) sampleCreate_outcome(1) by (auto simp: mem_init_def)
  have "snapshot.truncate sampleWorkflow = sampleSnapshot" "cw_NewWorkflowSnapshot (sampleCreate 4) = sampleWorkflow" "cw_ShardID (sampleCreate 4) = 7"
    "wn_NamespaceID sampleWorkflow = ''n''" "wn_WorkflowID sampleWorkflow = ''w''" "wn_RunID sampleWorkflow = ''r''" "sn_DBRecordVersion sampleWorkflow = 1"
    by (simp_all add: sampleWorkflow_def sampleCreate_def snapshot.defs sampleSnapshot_def)
  with execution_create_get [OF mem.quiet_aerospike_axioms sample.temporal_api_axioms sampleCreate_ok(1) c refl] show ?thesis by metis
qed

section \<open>Deleting the pointer\<close>

text \<open>
  C29. \<^verbatim>\<open>DeleteCurrentWorkflowExecution\<close> removes the pointer only while it names the given run: whatever other
  clients do at the same time, a pointer that has moved to another run stays, and no other record changes.
\<close>

theorem DeleteCurrentWorkflowExecution_own_run:
  assumes srv: "aerospike Q srv store_of base_of work_of R"
    and run: "run srv (DeleteCurrentWorkflowExecution E sh n w arch runID) db = (Inr (), db')"
    and k: "k = currentExecutionKey E sh n w (currentRecordDiscriminator E arch)"
  shows "\<exists>s0. R (store_of db) s0 \<and>
    R (if \<exists>r. s0 k = Some r \<and> r ''run_id'' = Some (BVal (GString runID)) then s0(k := None) else s0) (store_of db')"
proof -
  let ?pol = "(deletePolicy E)\<lparr>wp_FilterExpression := Some (ExpEqString ''run_id'' runID)\<rparr>"
  obtain resp db1 where r: "srv (CDelete ?pol k) db = (resp, db1)" by fastforce
  have resp: "srv (CDelete ?pol k) db = (resp, db')" "\<not> fault resp"
    using run r unfolding DeleteCurrentWorkflowExecution_def Let_def k [symmetric] deleteP_def fault_def definite_def
    by (cases resp; force split: if_splits)+
  obtain s s' where s: "R (store_of db) s" "R s' (store_of db')" "(resp, s') = exec Q (CDelete ?pol k) s"
    using aerospike.plain_command [OF srv _ _ resp(1)] resp(2) by (auto simp: deletePolicy_def)
  then have "s' = (if \<exists>r. s k = Some r \<and> r ''run_id'' = Some (BVal (GString runID)) then s(k := None) else s)"
    by (auto simp: exec_single fun_upd_idem split: option.splits if_splits)
  with s show ?thesis by blast
qed

lemma mem_DeleteCurrent:
  fixes db :: mem shows "\<exists>db'. run (mem_server Q) (DeleteCurrentWorkflowExecution E sh n w arch runID) db = (Inr (), db')"
proof -
  have "plain_prog (DeleteCurrentWorkflowExecution E sh n w arch runID)"
    by (auto simp: DeleteCurrentWorkflowExecution_def Let_def deletePolicy_def intro!: txn_intros split: sum.splits)
  moreover have "\<exists>s'. prun Q (DeleteCurrentWorkflowExecution E sh n w arch runID) (m_store db) = (Inr (), s')"
    by (auto simp: DeleteCurrentWorkflowExecution_def Let_def prog_simps split: option.splits)
  ultimately show ?thesis using mem.quiet_plain_run by metis
qed

theorem DeleteCurrentWorkflowExecution_own_run_witness:
  "\<exists>db'. run (mem_server sampleQuirks) (DeleteCurrentWorkflowExecution sample_env 7 ''n'' ''w'' 0 ''r'') (mem_init (sampleRuns 1)) = (Inr (), db') \<and>
     m_store db' (updateKey sample_env sampleContinue) = Some [''run_id'' \<mapsto> BVal (GString ''q'')]"
proof -
  obtain db' where d: "run (mem_server sampleQuirks) (DeleteCurrentWorkflowExecution sample_env 7 ''n'' ''w'' 0 ''r'') (mem_init (sampleRuns 1)) = (Inr (), db')"
    using mem_DeleteCurrent by blast
  have k: "updateKey sample_env sampleContinue = currentExecutionKey sample_env 7 ''n'' ''w'' (currentRecordDiscriminator sample_env 0)"
    by (simp add: updateKey_def sampleContinue_def sampleMutated_def mutation.defs)
  have p: "sampleRuns 1 (updateKey sample_env sampleContinue) = Some [''run_id'' \<mapsto> BVal (GString ''q'')]" by (simp add: sampleRuns_def)
  have "m_store db' = sampleRuns 1"
    using DeleteCurrentWorkflowExecution_own_run [OF mem.aerospike_axioms d k] p by (auto simp: mem_init_def)
  with d p show ?thesis by auto
qed

end
