(* ===== verification/ExecutionResolve.thy ===== *)
theory ExecutionResolve
  imports ExecutionUpdate
begin

text \<open>
  Conflict resolution writes up to three runs and the pointer in one transaction: the run that is reset,
  the run that was current, and a run that continues the reset one. \<^verbatim>\<open>SetWorkflowExecution\<close> is the reset alone.
\<close>

definition resolveBody :: "env \<Rightarrow> resolve_req \<Rightarrow> txnScope \<Rightarrow> unit io" where
  "resolveBody E req t =
     tryP (resolveCurrent E t req) (\<lambda>_.
     tryP (resetRun E t (cr_ShardID req) (cr_ResetWorkflowSnapshot req)) (\<lambda>_.
     tryP (case cr_CurrentWorkflowMutation req of None \<Rightarrow> Ret (Inr ()) | Some w \<Rightarrow> mutateRun E t (cr_ShardID req) w) (\<lambda>_.
     tryP (case cr_NewWorkflowSnapshot req of None \<Rightarrow> Ret (Inr ()) | Some w \<Rightarrow> createRun E t (cr_ShardID req) w) (\<lambda>_.
     tryP (appendEvents E t (cr_ResetWorkflowEventsNewEvents req)) (\<lambda>_.
     tryP (appendEvents E t (cr_NewWorkflowEventsNewEvents req)) (\<lambda>_.
     appendEvents E t (cr_CurrentWorkflowEventsNewEvents req)))))))"

lemma txn_body_resolveBody [txn_intros]: "txn_body t (resolveBody E req (beginTxn E' t))"
  by (auto simp: resolveBody_def intro!: txn_intros split: option.splits)

lemma ConflictResolveWorkflowExecution_fenced:
  "ConflictResolveWorkflowExecution E req =
   fenced E ''ConflictResolveWorkflowExecution'' (cr_ShardID req) (cr_RangeID req) (resolveBody E req)"
  unfolding ConflictResolveWorkflowExecution_def Let_def fenced_def resolveBody_def by simp

section \<open>The run that was current\<close>

definition currentRunKeys :: "env \<Rightarrow> int32 \<Rightarrow> workflow_mutation option \<Rightarrow> askey set" where
  "currentRunKeys E sh cur = mutationKeyOf E sh ` set_option cur"

definition currentRunOk :: "workflow_mutation option \<Rightarrow> (category \<times> (task_key \<times> blob) list) list \<Rightarrow> bool" where
  "currentRunOk cur cs \<longleftrightarrow> taskReqOk cs \<and>
     (case cur of None \<Rightarrow> cs = [] | Some w \<Rightarrow> mutationOk (mutation.truncate w) \<and> wm_Tasks w = taskReq cs)"

definition currentRunMutated :: "env \<Rightarrow> int32 \<Rightarrow> workflow_mutation option \<Rightarrow> store \<Rightarrow> store \<Rightarrow> bool" where
  "currentRunMutated E sh cur s0 s1 \<longleftrightarrow>
     (\<forall>w. cur = Some w \<longrightarrow> locked (mutationKeyOf E sh w) (mu_DBRecordVersion w) (wm_Condition w) s0 \<and>
        runMutated E (mutationKeyOf E sh w) (mutation.truncate w) s0 s1)"

lemma currentRun_ok:
  assumes api: "temporal_api E" and req: "currentRunOk cur cs"
    and run: "prun Q (case cur of None \<Rightarrow> Ret (Inr ()) | Some w \<Rightarrow> mutateRun E (beginTxn E' t) sh w) s0 = (Inr (), s1)"
  shows "currentRunMutated E sh cur s0 s1 \<and> tasksAdded E sh cs s0 s1 \<and> (\<forall>k \<in> currentRunKeys E sh cur. s1 k \<noteq> None) \<and>
    (\<forall>k. k \<notin> currentRunKeys E sh cur \<longrightarrow> k \<notin> taskSets E \<longrightarrow> s1 k = s0 k)"
proof (cases cur)
  case None
  then show ?thesis using req run by (simp add: currentRunOk_def currentRunMutated_def tasksAdded_refl currentRunKeys_def)
next
  case (Some w)
  with req have "mutationOk (mutation.truncate w)" "wm_Tasks w = taskReq cs" "taskReqOk cs" by (simp_all add: currentRunOk_def)
  from mutateRun_ok [OF api this, of Q E' t sh s0 s1] applyMutation_present [of Q E E' t sh w s0 s1] run Some
  show ?thesis by (simp add: currentRunMutated_def currentRunKeys_def)
qed

lemma currentRunMutated_cong:
  "(\<And>k. k \<in> currentRunKeys E sh cur \<Longrightarrow> s0' k = s0 k \<and> s1' k = s1 k) \<Longrightarrow>
   currentRunMutated E sh cur s0' s1' \<longleftrightarrow> currentRunMutated E sh cur s0 s1"
  by (auto simp: currentRunMutated_def currentRunKeys_def locked_def runMutated_def runHolds_def)

section \<open>Resolving a conflict\<close>

abbreviation "resetRunKey E req \<equiv> executionKeyOf E (cr_ShardID req) (cr_ResetWorkflowSnapshot req)"
abbreviation "resolveEvents req \<equiv> cr_ResetWorkflowEventsNewEvents req @ cr_NewWorkflowEventsNewEvents req @ cr_CurrentWorkflowEventsNewEvents req"

definition resolveReqOk :: "env \<Rightarrow> resolve_req \<Rightarrow> (category \<times> (task_key \<times> blob) list) list \<Rightarrow> (category \<times> (task_key \<times> blob) list) list \<Rightarrow>
    (category \<times> (task_key \<times> blob) list) list \<Rightarrow> bool" where
  "resolveReqOk E req cs cs' cs'' \<longleftrightarrow> snapshotOk (snapshot.truncate (cr_ResetWorkflowSnapshot req)) \<and>
     wn_Tasks (cr_ResetWorkflowSnapshot req) = taskReq cs \<and> taskReqOk cs \<and>
     currentRunOk (cr_CurrentWorkflowMutation req) cs' \<and> newRunOk (cr_NewWorkflowSnapshot req) cs'' \<and>
     resetRunKey E req \<notin> currentRunKeys E (cr_ShardID req) (cr_CurrentWorkflowMutation req) \<and>
     distinct (map (nodeKeyOf E) (resolveEvents req))"

definition resolved :: "env \<Rightarrow> resolve_req \<Rightarrow> (category \<times> (task_key \<times> blob) list) list \<Rightarrow> (category \<times> (task_key \<times> blob) list) list \<Rightarrow>
    (category \<times> (task_key \<times> blob) list) list \<Rightarrow> store \<Rightarrow> store \<Rightarrow> bool" where
  "resolved E req cs cs' cs'' s0 s1 \<longleftrightarrow>
     runHolds E (resetRunKey E req) (snapshotState E (snapshot.truncate (cr_ResetWorkflowSnapshot req))) s1 \<and>
     currentRunMutated E (cr_ShardID req) (cr_CurrentWorkflowMutation req) s0 s1 \<and>
     newRunAdded E (cr_ShardID req) (cr_NewWorkflowSnapshot req) s0 s1 \<and>
     (if cr_Mode req \<noteq> ConflictResolveWorkflowModeUpdateCurrent then s1 (resolveKey E req) = s0 (resolveKey E req)
      else snapshotPointsAt E (resolveKey E req) (pointTo req) s1) \<and>
     (tasksAdded E (cr_ShardID req) cs OO tasksAdded E (cr_ShardID req) cs' OO tasksAdded E (cr_ShardID req) cs'') s0 s1 \<and>
     eventsStored E (resolveEvents req) s1 \<and> eventsFramed E (resolveEvents req) s0 s1 \<and>
     (\<forall>k. k \<notin> {resetRunKey E req, resolveKey E req} \<union> currentRunKeys E (cr_ShardID req) (cr_CurrentWorkflowMutation req) \<union>
        newRunKeys E (cr_ShardID req) (cr_NewWorkflowSnapshot req) \<union> taskSets E \<union> eventSets E \<longrightarrow> s1 k = s0 k)"

text \<open>Where a record is left alone by the steps of the transaction.\<close>

lemma resolve_chain:
  assumes "\<And>k. k \<noteq> ck \<Longrightarrow> sa k = s0 k" "\<And>k. k \<noteq> rk \<Longrightarrow> k \<notin> T \<Longrightarrow> sb k = sa k" "\<And>k. k \<notin> mk \<Longrightarrow> k \<notin> T \<Longrightarrow> sc k = sb k"
    "\<And>k. k \<notin> nk \<Longrightarrow> k \<notin> T \<Longrightarrow> sd k = sc k" "\<And>k. k \<notin> V \<Longrightarrow> s1 k = sd k"
    and "ck \<notin> insert rk (mk \<union> nk \<union> T \<union> V)" "rk \<notin> mk \<union> nk \<union> T \<union> V" "mk \<inter> (nk \<union> T \<union> V) = {}" "nk \<inter> (T \<union> V) = {}" "T \<inter> V = {}"
  shows "sa rk = s0 rk" "s1 rk = sb rk" "s1 ck = sa ck" "\<And>k. k \<in> mk \<Longrightarrow> s0 k = sb k \<and> s1 k = sc k"
    "\<And>k. k \<in> nk \<Longrightarrow> s0 k = sc k \<and> s1 k = sd k" "\<And>k. k \<in> T \<Longrightarrow> s0 k = sa k" "\<And>k. k \<in> T \<Longrightarrow> s1 k = sd k"
    "\<And>k. k \<notin> {rk, ck} \<union> mk \<union> nk \<union> T \<union> V \<Longrightarrow> s1 k = s0 k" "\<And>k. k \<in> V \<Longrightarrow> s0 k = sd k"
proof -
  show "s0 k = sd k" if "k \<in> V" for k
  proof -
    have "k \<noteq> ck" "k \<noteq> rk" using that assms(6,7) by auto
    moreover have "k \<notin> mk" "k \<notin> nk" "k \<notin> T" using that assms(8-10) by (simp_all add: disjoint_iff) metis+
    ultimately show ?thesis using assms(1-4) [of k] by simp
  qed
  show "sa rk = s0 rk" "s1 rk = sb rk" "s1 ck = sa ck" using assms by auto
  show "s0 k = sb k \<and> s1 k = sc k" if "k \<in> mk" for k
    using that assms(1,2,4,5) [of k] assms(6,7) disjoint_iff [THEN iffD1, OF assms(8), rule_format, OF that] by (cases "k = ck"; cases "k = rk") auto
  show "s0 k = sc k \<and> s1 k = sd k" if "k \<in> nk" for k
    using that assms(1,2,3,5) [of k] assms(6-8) disjoint_iff [THEN iffD1, OF assms(9), rule_format, OF that]
    by (cases "k = ck"; cases "k = rk"; cases "k \<in> mk") auto
  show "s0 k = sa k" "s1 k = sd k" if "k \<in> T" for k
    using that assms(1,5) [of k] assms(6,10) by (cases "k = ck"; auto)+
  show "s1 k = s0 k" if "k \<notin> {rk, ck} \<union> mk \<union> nk \<union> T \<union> V" for k using that assms(1-5) [of k] by simp
qed

lemma resolveBody_ok:
  assumes api: "temporal_api E" and req: "resolveReqOk E req cs cs' cs''"
    and run: "prun Q (resolveBody E req (beginTxn E' t)) s0 = (Inr (), s1)"
  shows "resolveAllowed E req s0 \<and>
    locked (resetRunKey E req) (sn_DBRecordVersion (cr_ResetWorkflowSnapshot req)) (wn_Condition (cr_ResetWorkflowSnapshot req)) s0 \<and>
    resolved E req cs cs' cs'' s0 s1"
proof -
  let ?w = "cr_ResetWorkflowSnapshot req" and ?sh = "cr_ShardID req" and ?ck = "resolveKey E req" and ?rk = "resetRunKey E req"
  let ?cur = "cr_CurrentWorkflowMutation req" and ?mk = "currentRunKeys E (cr_ShardID req) (cr_CurrentWorkflowMutation req)"
  let ?new = "cr_NewWorkflowSnapshot req" and ?nk = "newRunKeys E (cr_ShardID req) (cr_NewWorkflowSnapshot req)"
  let ?st = "snapshotState E (snapshot.truncate ?w)"
  note rq = req [unfolded resolveReqOk_def]
  from run obtain sa sb sc sd where a: "prun Q (resolveCurrent E (beginTxn E' t) req) s0 = (Inr (), sa)"
    and b: "prun Q (resetRun E (beginTxn E' t) ?sh ?w) sa = (Inr (), sb)"
    and c: "prun Q (case ?cur of None \<Rightarrow> Ret (Inr ()) | Some w \<Rightarrow> mutateRun E (beginTxn E' t) ?sh w) sb = (Inr (), sc)"
    and d: "prun Q (case ?new of None \<Rightarrow> Ret (Inr ()) | Some w \<Rightarrow> createRun E (beginTxn E' t) ?sh w) sc = (Inr (), sd)"
    and e: "prun Q (appendEvents E (beginTxn E' t) (resolveEvents req)) sd = (Inr (), s1)"
    by (auto simp: resolveBody_def prun_tryP_ok prun_appendEvents_append)
  note A = resolveCurrent_ok [OF api a] and EE = appendEvents_frame [OF e]
  have B: "locked ?rk (sn_DBRecordVersion ?w) (wn_Condition ?w) sa" "runHolds E ?rk ?st sb" "tasksAdded E ?sh cs sa sb"
    "\<And>k. k \<noteq> ?rk \<Longrightarrow> k \<notin> taskSets E \<Longrightarrow> sb k = sa k"
    using resetRun_ok [OF api _ _ _ b] rq by blast+
  have C: "currentRunMutated E ?sh ?cur sb sc" "tasksAdded E ?sh cs' sb sc" "\<And>k. k \<in> ?mk \<Longrightarrow> sc k \<noteq> None"
    "\<And>k. k \<notin> ?mk \<Longrightarrow> k \<notin> taskSets E \<Longrightarrow> sc k = sb k"
    using currentRun_ok [OF api _ c] rq by blast+
  have D: "newRunAdded E ?sh ?new sc sd" "tasksAdded E ?sh cs'' sc sd" "\<And>k. k \<notin> ?nk \<Longrightarrow> k \<notin> taskSets E \<Longrightarrow> sd k = sc k"
    using newRun_ok [OF api _ d] rq by blast+
  have none: "sc k = None" if "k \<in> ?nk" for k using that D(1) by (auto simp: newRunAdded_def newRunKeys_def)
  have rmk: "?rk \<notin> ?mk" using rq by blast
  have "sc ?rk \<noteq> None" using B(2) C(4) [OF rmk] by (auto simp: runHolds_def)
  with none C(3) have apart: "?rk \<notin> ?nk" "?mk \<inter> ?nk = {}" by (metis, metis disjoint_iff)
  have A': "sa k = s0 k" if "k \<noteq> ?ck" for k using A that by blast
  have keys: "?ck \<notin> insert ?rk (?mk \<union> ?nk \<union> taskSets E \<union> eventSets E)" "?rk \<notin> ?mk \<union> ?nk \<union> taskSets E \<union> eventSets E"
    "?mk \<inter> (?nk \<union> taskSets E \<union> eventSets E) = {}" "?nk \<inter> (taskSets E \<union> eventSets E) = {}" "taskSets E \<inter> eventSets E = {}"
    using rmk apart taskSets_eventSets by (auto simp: resolveKey_def mutationKeyOf_def newRunKeys_def currentRunKeys_def executionKeyOf_def)
  note ch = resolve_chain [of ?ck sa s0 ?rk "taskSets E" sb ?mk sc ?nk sd "eventSets E" s1, OF A' B(4) C(4) D(3) EE keys]
  have "locked ?rk (sn_DBRecordVersion ?w) (wn_Condition ?w) s0" "runHolds E ?rk ?st s1"
    using B(1,2) ch(1,2) run_congs(1) [of sa ?rk s0] runHolds_cong [of s1 ?rk sb] by auto
  moreover have "currentRunMutated E ?sh ?cur s0 s1" using C(1) ch(4) currentRunMutated_cong [of E ?sh ?cur s0 sb s1 sc] by blast
  moreover have "newRunAdded E ?sh ?new s0 s1" using D(1) ch(5) run_congs(3) [of E ?sh ?new s0 sc s1 sd] by blast
  moreover have "if cr_Mode req \<noteq> ConflictResolveWorkflowModeUpdateCurrent then s1 ?ck = s0 ?ck else snapshotPointsAt E ?ck (pointTo req) s1"
    using A ch(3) pointsAt_cong [where k = ?ck and s = sa and s' = s1] by (simp add: snapshotPointsAt_def split: if_splits)
  moreover have "tasksAdded E ?sh cs s0 sb" by (rule tasksAdded_cong [OF B(3) ch(6) refl])
  moreover have "tasksAdded E ?sh cs'' sc s1" by (rule tasksAdded_cong [OF D(2) refl ch(7)])
  moreover have "eventsStored E (resolveEvents req) s1" by (rule appendEvents_stored [OF api _ e]) (use rq in blast)
  moreover have "eventsFramed E (resolveEvents req) s0 s1" by (rule eventsFramed_cong [OF appendEvents_framed [OF e] ch(9)])
  moreover note ch(8)
  ultimately show ?thesis using A C(2) unfolding resolved_def by blast
qed

text \<open>
  C30. \<^verbatim>\<open>ConflictResolveWorkflowExecution\<close> is fenced, locked and atomic over all the runs it writes: when it
  succeeds there was one instant at which the lease, the pointer and the locks of the reset run and of the
  run that was current were as the request demands, and at that instant the reset run held exactly its
  snapshot, the current one moved by its mutation, the continuing run appeared and the pointer, the tasks
  and the events moved along; no other record changed.
\<close>

theorem ConflictResolveWorkflowExecution_refines:
  assumes srv: "aerospike Q srv store_of base_of work_of R" and api: "temporal_api E" and req: "resolveReqOk E req cs cs' cs''"
    and run: "run srv (ConflictResolveWorkflowExecution E req) db = (Inr (), db')"
  shows "\<exists>s0 s1. R (store_of db) s0 \<and> R s1 (store_of db') \<and>
    leaseID E (cr_ShardID req) s0 = Some (cr_RangeID req) \<and> resolveAllowed E req s0 \<and>
    locked (resetRunKey E req) (sn_DBRecordVersion (cr_ResetWorkflowSnapshot req)) (wn_Condition (cr_ResetWorkflowSnapshot req)) s0 \<and>
    resolved E req cs cs' cs'' s0 s1"
  using aerospike.fenced_ok [OF srv txn_body_resolveBody run [unfolded ConflictResolveWorkflowExecution_fenced]] resolveBody_ok [OF api req]
  by blast

text \<open>A sample: the current run \<open>q\<close> is closed and the run \<open>p\<close> is reset and becomes current.\<close>

definition sampleReset :: workflow_snapshot where
  "sampleReset = snapshot.extend (sampleSnapshot\<lparr>sn_DBRecordVersion := 2\<rparr>)
     \<lparr>wn_NamespaceID = ''n'', wn_WorkflowID = ''w'', wn_RunID = ''p'', wn_ExecutionState = emptyState, wn_LastWriteVersion = 3,
      wn_Condition = 5, wn_Tasks = []\<rparr>"

definition sampleResolve :: resolve_req where
  "sampleResolve = \<lparr>cr_ShardID = 7, cr_RangeID = 4, cr_ArchetypeID = 0, cr_Mode = ConflictResolveWorkflowModeUpdateCurrent,
     cr_ResetWorkflowSnapshot = sampleReset, cr_NewWorkflowSnapshot = None, cr_CurrentWorkflowMutation = Some sampleMutated,
     cr_ResetWorkflowEventsNewEvents = [], cr_NewWorkflowEventsNewEvents = [], cr_CurrentWorkflowEventsNewEvents = []\<rparr>"

definition sampleConflict :: store where
  "sampleConflict = (sampleRuns 1)(executionKey sample_env 7 ''n'' ''w'' ''p'' \<mapsto> [''ver'' \<mapsto> BVal (GInt 1)])"

lemma sampleResolve_keys:
  "resetRunKey sample_env sampleResolve = executionKey sample_env 7 ''n'' ''w'' ''p''"
  "mutationKeyOf sample_env 7 sampleMutated = executionKey sample_env 7 ''n'' ''w'' ''q''"
  "executionKey sample_env 7 ''n'' ''w'' ''p'' \<noteq> executionKey sample_env 7 ''n'' ''w'' ''q''"
  "resolveKey sample_env sampleResolve = updateKey sample_env sampleContinue"
  by (simp_all add: sampleResolve_def sampleReset_def sampleMutated_def mutation.defs snapshot.defs mutationKeyOf_def executionKeyOf_def
      resolveKey_def updateKey_def sampleContinue_def executionKey_def joinColon_def)

lemma sampleResolve_ok: "resolveReqOk sample_env sampleResolve [] [] []"
proof -
  have "resetRunKey sample_env sampleResolve \<notin> currentRunKeys sample_env 7 (Some sampleMutated)"
    using sampleResolve_keys by (simp add: currentRunKeys_def)
  then show ?thesis
    by (simp add: resolveReqOk_def sampleResolve_def sampleReset_def sampleMutated_def sampleSnapshot_def sampleMutation_def snapshotOk_def mutationOk_def
        taskReq_def taskReqOk_def currentRunOk_def newRunOk_def mutation.defs snapshot.defs)
qed

lemma sampleConflict_runs:
  "sampleConflict (executionKey sample_env 7 ''n'' ''w'' ''p'') = Some [''ver'' \<mapsto> BVal (GInt 1)]"
  "sampleConflict (executionKey sample_env 7 ''n'' ''w'' ''q'') = Some [''ver'' \<mapsto> BVal (GInt 1)]"
  "sampleConflict (updateKey sample_env sampleContinue) = Some [''run_id'' \<mapsto> BVal (GString ''q'')]"
  "leaseID sample_env 7 sampleConflict = Some 4"
  using sampleContinue_keys(3,5,6) sampleResolve_keys(3) sampleRuns_run(1)
  by (auto simp: sampleConflict_def leaseID_def sampleRuns_def sampleLease_def bin_int_def)

lemma sampleResolve_run:
  "\<exists>s'. prun Q (resolveBody sample_env sampleResolve (beginTxn sample_env t)) sampleConflict = (Inr (), s')"
proof -
  let ?p = "executionKey sample_env 7 ''n'' ''w'' ''p''" and ?q = "executionKey sample_env 7 ''n'' ''w'' ''q''" and ?c = "updateKey sample_env sampleContinue"
  let ?s1 = "sampleConflict(?c \<mapsto> put_bins (snapshotPointer sample_env sampleReset) [''run_id'' \<mapsto> BVal (GString ''q'')])"
  let ?s2 = "?s1(?p \<mapsto> snapshotBins sample_env (snapshot.truncate sampleReset) [''ver'' \<mapsto> BVal (GInt 1)])"
  have req: "cr_ShardID sampleResolve = 7" "cr_ResetWorkflowSnapshot sampleResolve = sampleReset" "cr_CurrentWorkflowMutation sampleResolve = Some sampleMutated"
    "cr_NewWorkflowSnapshot sampleResolve = None" "cr_Mode sampleResolve = ConflictResolveWorkflowModeUpdateCurrent" "wm_RunID sampleMutated = ''q''"
    "cr_ResetWorkflowEventsNewEvents sampleResolve = []" "cr_NewWorkflowEventsNewEvents sampleResolve = []" "cr_CurrentWorkflowEventsNewEvents sampleResolve = []"
    by (simp_all add: sampleResolve_def sampleMutated_def mutation.defs)
  have "prun Q (resolveCurrent sample_env (beginTxn sample_env t) sampleResolve) sampleConflict = (Inr (), ?s1)"
    unfolding resolveCurrent_def Let_def resolveKey_def [symmetric] sampleResolve_keys(4)
    by (simp add: req prun_tryP prun_readCurrent prun_putCurrent sampleConflict_runs bin_str_def)
  moreover have "prun Q (resetRun sample_env (beginTxn sample_env t) 7 sampleReset) ?s1 = (Inr (), ?s2)"
    using sampleResolve_keys(1) sampleContinue_keys(3) [symmetric] sampleConflict_runs(1)
    by (simp add: req resetRun_def prun_tryP prun_lock prun_writeSnapshot locked_def)
       (simp add: sampleReset_def snapshot.defs lockHolds_def bin_int_def)
  moreover have "\<exists>s'. prun Q (mutateRun sample_env (beginTxn sample_env t) 7 sampleMutated) ?s2 = (Inr (), s')"
  proof (rule mutateRun_run [OF sample.temporal_api_axioms])
    show "mutationOk (mutation.truncate sampleMutated)" "wm_Tasks sampleMutated = taskReq []" "taskReqOk []"
      using sampleResolve_ok by (simp_all add: resolveReqOk_def req currentRunOk_def taskReq_def)
    have q: "?s2 ?q = Some [''ver'' \<mapsto> BVal (GInt 1)]"
      using sampleResolve_keys(3) sampleContinue_keys(3) [symmetric] sampleConflict_runs(2) by simp
    then show "locked (mutationKeyOf sample_env 7 sampleMutated) (mu_DBRecordVersion sampleMutated) (wm_Condition sampleMutated) ?s2"
      unfolding sampleResolve_keys(2) locked_def by (simp add: sampleMutated_def sampleMutation_def mutation.defs lockHolds_def bin_int_def)
    show "execOk r" if "?s2 (mutationKeyOf sample_env 7 sampleMutated) = Some r" for r
      using that q unfolding sampleResolve_keys(2) by (auto simp: execOk_def bufferOk_def collectionBins_def)
  qed (simp add: queuesHold_def)
  ultimately show ?thesis by (auto simp: resolveBody_def prun_tryP req)
qed

theorem ConflictResolveWorkflowExecution_refines_witness:
  "\<exists>s1. resolved sample_env sampleResolve [] [] [] sampleConflict s1"
proof -
  obtain y db' where y: "run (mem_server sampleQuirks) (ConflictResolveWorkflowExecution sample_env sampleResolve) (mem_init sampleConflict) = (y, db')"
    by fastforce
  have sh: "cr_ShardID sampleResolve = 7" "cr_RangeID sampleResolve = 4" by (simp_all add: sampleResolve_def)
  obtain t s1 where "prun sampleQuirks (resolveBody sample_env sampleResolve (beginTxn sample_env t)) sampleConflict = (y, s1)"
    using mem.fenced_quiet [OF txn_body_resolveBody y [unfolded ConflictResolveWorkflowExecution_fenced]] sampleConflict_runs(4)
    by (auto simp: mem_init_def sh)
  then have "y = Inr ()" using sampleResolve_run [of sampleQuirks t] by auto
  from ConflictResolveWorkflowExecution_refines [OF mem.aerospike_axioms sample.temporal_api_axioms sampleResolve_ok y [unfolded this]]
  show ?thesis by (auto simp: mem_init_def)
qed

end
