(* ===== verification/ExecutionFence.thy ===== *)
theory ExecutionFence
  imports ExecutionResolve
begin

text \<open>
  What holds alike of the five writes of the execution store that carry a range id: the fence, and that a
  failed write left nothing. The other writes of the same Go type take no range id and are not fenced: the
  appending and deleting of history nodes, the deletion of runs and of the current-run pointer, the
  completing of tasks, and the dead-letter queue; their own theorems are in \<open>HistoryProps\<close>, \<open>ExecutionRead\<close>
  and \<open>TaskDeletion\<close>.
\<close>

datatype fenced_write =
    WriteCreate create_req
  | WriteUpdate update_req
  | WriteResolve resolve_req
  | WriteSet int32 int64 workflow_snapshot
  | WriteTasks int32 int64 "(category \<times> hist_task list) list"

fun fencedWrite :: "env \<Rightarrow> fenced_write \<Rightarrow> unit io" where
  "fencedWrite E (WriteCreate req) = CreateWorkflowExecution E req"
| "fencedWrite E (WriteUpdate req) = UpdateWorkflowExecution E req"
| "fencedWrite E (WriteResolve req) = ConflictResolveWorkflowExecution E req"
| "fencedWrite E (WriteSet sh rangeID w) = SetWorkflowExecution E sh rangeID w"
| "fencedWrite E (WriteTasks sh rangeID cs) = AddHistoryTasks E sh rangeID cs"

fun writeShard :: "fenced_write \<Rightarrow> int32" where
  "writeShard (WriteCreate req) = cw_ShardID req"
| "writeShard (WriteUpdate req) = uw_ShardID req"
| "writeShard (WriteResolve req) = cr_ShardID req"
| "writeShard (WriteSet sh rangeID w) = sh"
| "writeShard (WriteTasks sh rangeID cs) = sh"

fun writeRange :: "fenced_write \<Rightarrow> int64" where
  "writeRange (WriteCreate req) = cw_RangeID req"
| "writeRange (WriteUpdate req) = uw_RangeID req"
| "writeRange (WriteResolve req) = cr_RangeID req"
| "writeRange (WriteSet sh rangeID w) = rangeID"
| "writeRange (WriteTasks sh rangeID cs) = rangeID"

fun writeName :: "fenced_write \<Rightarrow> string" where
  "writeName (WriteCreate req) = ''CreateWorkflowExecution''"
| "writeName (WriteUpdate req) = ''UpdateWorkflowExecution''"
| "writeName (WriteResolve req) = ''ConflictResolveWorkflowExecution''"
| "writeName (WriteSet sh rangeID w) = ''SetWorkflowExecution''"
| "writeName (WriteTasks sh rangeID cs) = ''AddHistoryTasks''"

text \<open>Each is refused before any command, or is a fenced transaction.\<close>

lemma fencedWrite_fenced:
  "(\<exists>e. fencedWrite E w = Ret (Inl e)) \<or>
   (\<exists>rest. fencedWrite E w = fenced E (writeName w) (writeShard w) (writeRange w) rest \<and> (\<forall>t. txn_body t (rest (beginTxn E t))))"
proof (cases w)
  case (WriteCreate req)
  show ?thesis
  proof (cases "createValid E req")
    case True
    then show ?thesis using WriteCreate CreateWorkflowExecution_fenced txn_body_createBody by fastforce
  next
    case False
    then show ?thesis using WriteCreate by (auto simp: createValid_def CreateWorkflowExecution_def Let_def)
  qed
next
  case (WriteUpdate req)
  show ?thesis
  proof (cases "updateValid E req")
    case True
    then show ?thesis using WriteUpdate UpdateWorkflowExecution_fenced txn_body_updateBody by fastforce
  next
    case False
    then show ?thesis using WriteUpdate by (auto simp: updateValid_def UpdateWorkflowExecution_def Let_def)
  qed
next
  case (WriteResolve req)
  then show ?thesis using ConflictResolveWorkflowExecution_fenced txn_body_resolveBody by fastforce
next
  case (WriteSet sh rangeID s)
  then have "fencedWrite E w = fenced E (writeName w) (writeShard w) (writeRange w) (\<lambda>t. resetRun E t sh s)"
    by (simp add: SetWorkflowExecution_def fenced_def)
  then show ?thesis using txn_body_resetRun by blast
next
  case (WriteTasks sh rangeID cs)
  then have "fencedWrite E w = fenced E (writeName w) (writeShard w) (writeRange w) (\<lambda>t. writeTasks E t sh cs)"
    by (simp add: AddHistoryTasks_def fenced_def)
  then show ?thesis using txn_body_writeTasks by blast
qed

lemma fencedWrite_cases:
  assumes srv: "aerospike Q srv store_of base_of work_of R" and run: "run srv (fencedWrite E w) db = (y, db')"
  shows "((\<exists>e. y = Inl e) \<and> R (store_of db) (store_of db')) \<or>
    ((\<exists>s0. R (store_of db) s0 \<and> leaseID E (writeShard w) s0 = Some (writeRange w)) \<and>
     (y = Inr () \<or> (\<exists>e. y = Inl (convertError (writeName w) e))))"
  using fencedWrite_fenced [of E w]
proof
  assume "\<exists>e. fencedWrite E w = Ret (Inl e)"
  then show ?thesis using run aerospike.interferes_refl [OF srv] by auto
next
  assume "\<exists>rest. fencedWrite E w = fenced E (writeName w) (writeShard w) (writeRange w) rest \<and> (\<forall>t. txn_body t (rest (beginTxn E t)))"
  then obtain rest where rest: "fencedWrite E w = fenced E (writeName w) (writeShard w) (writeRange w) rest" "\<And>t. txn_body t (rest (beginTxn E t))"
    by blast
  have "txn_body t (tryP (assertShardOwnership E (beginTxn E t) (writeShard w) (writeRange w)) (\<lambda>_. rest (beginTxn E t)))" for t
    by (intro txn_intros rest(2))
  from aerospike.withTxn_cases [OF srv this run [unfolded rest(1) fenced_def]] show ?thesis
    by (auto simp: prun_fenced_ok)
qed

text \<open>
  C31. An owner that has lost its shard writes nothing through the operations that carry its range id
  (\<^verbatim>\<open>CreateWorkflowExecution\<close>, \<^verbatim>\<open>UpdateWorkflowExecution\<close>, \<^verbatim>\<open>ConflictResolveWorkflowExecution\<close>,
  \<^verbatim>\<open>SetWorkflowExecution\<close>, \<^verbatim>\<open>AddHistoryTasks\<close>): if from here on the lease never carries the range id of the
  request, each of these five fails, and whatever the error, the store is as the other clients left it, even
  when the outcome of a commit was reported as unknown. Nothing is claimed of the writes without a range id.
\<close>

theorem stale_owner_writes_nothing:
  assumes srv: "aerospike Q srv store_of base_of work_of R" and run: "run srv (fencedWrite E w) db = (y, db')"
    and lost: "\<And>s. R (store_of db) s \<Longrightarrow> leaseID E (writeShard w) s \<noteq> Some (writeRange w)"
  shows "(\<exists>e. y = Inl e) \<and> R (store_of db) (store_of db')"
  using fencedWrite_cases [OF srv run] lost by blast

text \<open>
  C32. A failed fenced write left nothing: when one of \<^verbatim>\<open>CreateWorkflowExecution\<close>, \<^verbatim>\<open>UpdateWorkflowExecution\<close>,
  \<^verbatim>\<open>ConflictResolveWorkflowExecution\<close>, \<^verbatim>\<open>SetWorkflowExecution\<close> and \<^verbatim>\<open>AddHistoryTasks\<close> returns an error other than
  the four into which \<^verbatim>\<open>convertError\<close> turns an error of the database under the operation's name
  (\<^verbatim>\<open>Unavailable\<close>, \<^verbatim>\<open>NotFound\<close>, \<^verbatim>\<open>persistenceTimeout\<close>, \<^verbatim>\<open>transactionTooLarge\<close>), it changed nothing, on whichever
  of its commands it failed. With one of the four the commit may have been applied.
\<close>

theorem failed_write_unchanged:
  assumes srv: "aerospike Q srv store_of base_of work_of R" and run: "run srv (fencedWrite E w) db = (Inl e, db')"
    and e: "e \<notin> {Unavailable (writeName w), NotFound (writeName w), PersistenceTimeout (writeName w), TransactionTooLarge (writeName w)}"
  shows "R (store_of db) (store_of db')"
  using fencedWrite_cases [OF srv run] e convertError_range by auto

section \<open>A sample\<close>

text \<open>The lease of shard 7 is at 4; the owner that still believes in range id 3 writes.\<close>

theorem stale_owner_writes_nothing_witness:
  "\<exists>e db'. run (mem_server sampleQuirks) (fencedWrite sample_env (WriteSet 7 3 sampleReset)) (mem_init sampleConflict) = (Inl e, db') \<and>
     m_store db' = sampleConflict"
proof -
  obtain y db' where y: "run (mem_server sampleQuirks) (fencedWrite sample_env (WriteSet 7 3 sampleReset)) (mem_init sampleConflict) = (y, db')" by fastforce
  have "(\<exists>e. y = Inl e) \<and> m_store (mem_init sampleConflict) = m_store db'"
    by (rule stale_owner_writes_nothing [OF mem.aerospike_axioms y]) (auto simp: sampleConflict_runs mem_init_def)
  with y show ?thesis by (auto simp: mem_init_def)
qed

theorem failed_write_unchanged_witness:
  "\<exists>db'. run (mem_server sampleQuirks) (fencedWrite sample_env (WriteUpdate sampleContinue)) (mem_init (sampleRuns 8)) = (Inl (WorkflowConditionFailed 0 8), db') \<and>
     m_store db' = sampleRuns 8"
proof -
  obtain db' where d: "run (mem_server sampleQuirks) (fencedWrite sample_env (WriteUpdate sampleContinue)) (mem_init (sampleRuns 8)) =
      (Inl (WorkflowConditionFailed 0 8), db')"
    using UpdateWorkflowExecution_quiet [OF mem.quiet_aerospike_axioms sample.temporal_api_axioms sampleContinue_ok(1,2),
        of "mem_init (sampleRuns 8)" sampleQuirks] sampleContinue_ok(3) sampleContinue_outcome(2) by (auto simp: mem_init_def)
  with failed_write_unchanged [OF mem.aerospike_axioms d] show ?thesis by (simp add: mem_init_def)
qed
end
