(* ===== verification/QueueV2Store.thy ===== *)
theory QueueV2Store
  imports HistoryStore
begin

text \<open>
  \<^verbatim>\<open>queue_v2_store.go\<close>: queues of messages numbered by a counter in the queue's record, stored in buckets
  of 4096 ids. This theory holds the operations.
\<close>

definition queueBucket :: "int64 \<Rightarrow> int64" where
  "queueBucket messageID = shr64 12 messageID"

lemma sint_queueBucket: "sint (queueBucket i) = sint i div 4096"
  by (simp add: queueBucket_def sint_shr64)

lemma queueBucket_bound: "sint (queueBucket i) < 9223372036854775807"
  using sint_range64(2) [of i] by (simp add: sint_queueBucket)

text \<open>The counter of a bucket loop cannot wrap: a bucket number is a shifted id.\<close>

lemma sint_bucket_next: "sint b \<le> sint (queueBucket i) \<Longrightarrow> sint (b + 1) = sint (b :: int64) + 1"
  by (rule sint_plus_one64) (use queueBucket_bound [of i] in simp)

section \<open>Queues and messages\<close>

definition CreateQueue :: "env \<Rightarrow> int \<Rightarrow> string \<Rightarrow> unit io" where
  "CreateQueue E queueType queueName =
     pbind (putBinsP (createPolicy E) (queueMetaKey E queueType queueName)
              [(''next_id'', GInt64 (FirstQueueMessageID E)), (''q_type'', GInt (word_of_int queueType)), (''q_name'', GString queueName)]) (\<lambda>w. case w of
        Inl err \<Rightarrow>
          if isKeyExists err then Ret (Inl (QueueAlreadyExists queueType queueName))
          else Ret (Inl (convertError ''CreateQueue'' err))
      | Inr _ \<Rightarrow> Ret (Inr ()))"

definition EnqueueMessage :: "env \<Rightarrow> int \<Rightarrow> string \<Rightarrow> blob option \<Rightarrow> int64 io" where
  "EnqueueMessage E queueType queueName blob =
     (let metaKey = queueMetaKey E queueType queueName in
      withTxn E ''EnqueueMessage'' (\<lambda>t.
        pbind (getP (ts_read t) metaKey [''next_id'']) (\<lambda>r. case r of
           Inl err \<Rightarrow>
             if isNotFound err then Ret (Inl (QueueNotFound queueType queueName))
             else Ret (Inl (convertError ''EnqueueMessage'' err))
         | Inr rec \<Rightarrow>
             let messageID = binInt64 rec ''next_id'' in
             pbind (operateP (ts_write t) (queueMessageKey E queueType queueName (queueBucket messageID))
                      [MapPutOp ''t'' (KInt messageID) (blobValue E blob)]) (\<lambda>r. case r of
                Inl err \<Rightarrow> Ret (Inl (convertError ''EnqueueMessage'' err))
              | Inr _ \<Rightarrow>
                  pbind (putBinsP (ts_write t) metaKey [(''next_id'', GInt64 (messageID + 1))]) (\<lambda>w. case w of
                     Inl err \<Rightarrow> Ret (Inl (convertError ''EnqueueMessage'' err))
                   | Inr _ \<Rightarrow> Ret (Inr messageID))))))"

section \<open>Reading\<close>

text \<open>\<^verbatim>\<open>queuePageToken\<close>, by what \<^verbatim>\<open>json.Unmarshal\<close> makes of the bytes.\<close>

datatype queuePageToken = NoQueueToken | BadQueueToken | QueueToken int64

definition validateStoredEncoding :: "env \<Rightarrow> gval \<Rightarrow> perr option" where
  "validateStoredEncoding E v =
     (case v of
        GList (d # e # _) \<Rightarrow>
          (let enc = orZero (asString e) '''' in
           case EncodingTypeFromString E enc of None \<Rightarrow> Some (UnknownEncodingType enc) | Some _ \<Rightarrow> None)
      | _ \<Rightarrow> None)"

record read_messages_resp =
  rm_Messages :: "(int64 \<times> blob) list"
  rm_NextPageToken :: queuePageToken

text \<open>The inner loop: the messages so far and the last id; \<open>Inl\<close> is an early return.\<close>

fun readEntries :: "env \<Rightarrow> int \<Rightarrow> int64 \<Rightarrow> (gval \<times> gval) list \<Rightarrow> (int64 \<times> blob) list \<times> int64 \<Rightarrow>
    (perr + read_messages_resp) + (int64 \<times> blob) list \<times> int64" where
  "readEntries E pageSize minID [] st = Inr st"
| "readEntries E pageSize minID ((k, v) # es) (acc, lastID) =
     (case asInt64 k of
        None \<Rightarrow> readEntries E pageSize minID es (acc, lastID)
      | Some mid \<Rightarrow>
          if sint mid < sint minID then readEntries E pageSize minID es (acc, lastID)
          else if int (length acc) = pageSize then Inl (Inr \<lparr>rm_Messages = acc, rm_NextPageToken = QueueToken lastID\<rparr>)
          else (case blobFromValue E v of
              None \<Rightarrow> readEntries E pageSize minID es (acc, lastID)
            | Some blob \<Rightarrow> (case validateStoredEncoding E v of
                  Some e \<Rightarrow> Inl (Inl e)
                | None \<Rightarrow> readEntries E pageSize minID es (acc @ [(mid, blob)], mid))))"

function readLoop :: "env \<Rightarrow> int \<Rightarrow> string \<Rightarrow> int \<Rightarrow> int64 \<Rightarrow> int64 \<Rightarrow> int64 \<Rightarrow> (int64 \<times> blob) list \<times> int64 \<Rightarrow> read_messages_resp io" where
  "readLoop E queueType queueName pageSize minID nextID bkt st =
     (if sint bkt \<le> sint (queueBucket nextID) then
        pbind (operateP (writePolicy E) (queueMessageKey E queueType queueName bkt)
                 [MapGetByKeyRangeOp ''t'' (KInt minID) (Some (KInt nextID)) RetKeyValue]) (\<lambda>r. case r of
           Inl err \<Rightarrow>
             if isNotFound err then readLoop E queueType queueName pageSize minID nextID (bkt + 1) st
             else Ret (Inl (convertError ''ReadMessages'' err))
         | Inr rec \<Rightarrow> (case readEntries E pageSize minID (recordMapPairs rec ''t'') st of
               Inl r \<Rightarrow> Ret r
             | Inr st' \<Rightarrow> readLoop E queueType queueName pageSize minID nextID (bkt + 1) st'))
      else Ret (Inr \<lparr>rm_Messages = fst st, rm_NextPageToken = (if fst st = [] then NoQueueToken else QueueToken (snd st))\<rparr>))"
  by pat_completeness auto
termination
  by (relation "measure (\<lambda>(E, qt, qn, n, minID, nextID, bkt, st). nat (sint (queueBucket nextID) + 1 - sint bkt))")
    (auto simp: sint_bucket_next)

declare readLoop.simps [simp del]

definition ReadMessages :: "env \<Rightarrow> int \<Rightarrow> string \<Rightarrow> int \<Rightarrow> queuePageToken \<Rightarrow> read_messages_resp io" where
  "ReadMessages E queueType queueName pageSize nextPageToken =
     pbind (getP (readPolicy E) (queueMetaKey E queueType queueName) [''next_id'']) (\<lambda>r. case r of
        Inl err \<Rightarrow>
          if isNotFound err then Ret (Inl (QueueNotFound queueType queueName))
          else Ret (Inl (convertError ''ReadMessages'' err))
      | Inr rec \<Rightarrow>
          let nextID = binInt64 rec ''next_id'';
              go = (\<lambda>minID. if pageSize \<le> 0 then Ret (Inl NonPositiveReadQueueMessagesPageSize)
                else readLoop E queueType queueName pageSize minID nextID (queueBucket minID) ([], 0))
          in case nextPageToken of
               NoQueueToken \<Rightarrow> go (FirstQueueMessageID E)
             | BadQueueToken \<Rightarrow> Ret (Inl InvalidReadQueueMessagesNextPageToken)
             | QueueToken lastID \<Rightarrow> go (lastID + 1))"

section \<open>Deleting\<close>

function deleteLoop :: "env \<Rightarrow> int \<Rightarrow> string \<Rightarrow> int64 \<Rightarrow> int64 \<Rightarrow> int64 \<Rightarrow> int64 io" where
  "deleteLoop E queueType queueName maxID bkt deleted =
     (if sint bkt \<le> sint (queueBucket maxID) then
        pbind (operateP (writePolicy E) (queueMessageKey E queueType queueName bkt)
                 [MapRemoveByKeyRangeOp ''t'' (KInt 0) (Some (KInt (maxID + 1))) RetCount]) (\<lambda>r. case r of
           Inl err \<Rightarrow>
             if isNotFound err then deleteLoop E queueType queueName maxID (bkt + 1) deleted
             else Ret (Inl (convertError ''RangeDeleteMessages'' err))
         | Inr rec \<Rightarrow> deleteLoop E queueType queueName maxID (bkt + 1)
             (case lastOpResultInt rec ''t'' of Some n \<Rightarrow> deleted + n | None \<Rightarrow> deleted))
      else Ret (Inr deleted))"
  by pat_completeness auto
termination
  by (relation "measure (\<lambda>(E, qt, qn, maxID, bkt, d). nat (sint (queueBucket maxID) + 1 - sint bkt))")
    (auto simp: sint_bucket_next)

declare deleteLoop.simps [simp del]

definition RangeDeleteMessages :: "env \<Rightarrow> int \<Rightarrow> string \<Rightarrow> int64 \<Rightarrow> int64 io" where
  "RangeDeleteMessages E queueType queueName maxID =
     pbind (getP (readPolicy E) (queueMetaKey E queueType queueName) [''next_id'']) (\<lambda>r. case r of
        Inl err \<Rightarrow>
          if isNotFound err then Ret (Inl (QueueNotFound queueType queueName))
          else Ret (Inl (convertError ''RangeDeleteMessages'' err))
      | Inr _ \<Rightarrow>
          if sint maxID < sint (FirstQueueMessageID E) then Ret (Inl (InvalidQueueRangeDeleteMaxMessageID maxID))
          else deleteLoop E queueType queueName maxID 0 0)"

section \<open>Listing\<close>

function countLoop :: "env \<Rightarrow> int \<Rightarrow> string \<Rightarrow> int64 \<Rightarrow> int64 \<Rightarrow> int64 \<Rightarrow> int64 io" where
  "countLoop E queueType name nextID bkt tot =
     (if sint bkt \<le> sint (queueBucket nextID) then
        pbind (operateP (writePolicy E) (queueMessageKey E queueType name bkt) [MapSizeOp ''t'']) (\<lambda>r. case r of
           Inl err \<Rightarrow>
             if isNotFound err then countLoop E queueType name nextID (bkt + 1) tot
             else Ret (Inl (convertError ''ListQueues'' err))
         | Inr rec \<Rightarrow> countLoop E queueType name nextID (bkt + 1)
             (case lastOpResultInt rec ''t'' of Some n \<Rightarrow> tot + n | None \<Rightarrow> tot))
      else Ret (Inr tot))"
  by pat_completeness auto
termination
  by (relation "measure (\<lambda>(E, qt, qn, nextID, bkt, d). nat (sint (queueBucket nextID) + 1 - sint bkt))")
    (auto simp: sint_bucket_next)

declare countLoop.simps [simp del]

definition messageCount :: "env \<Rightarrow> int \<Rightarrow> string \<Rightarrow> int64 \<Rightarrow> int64 io" where
  "messageCount E queueType name nextID = countLoop E queueType name nextID 0 0"

record queue_info =
  qi_QueueName :: string
  qi_MessageCount :: int64
  qi_LastMessageID :: int64

fun listLoop :: "env \<Rightarrow> int \<Rightarrow> (goerr + as_record) list \<Rightarrow> queue_info list \<Rightarrow> queue_info list io" where
  "listLoop E queueType [] found = Ret (Inr found)"
| "listLoop E queueType (res # results) found =
     (case res of
        Inl err \<Rightarrow> Ret (Inl (convertError ''ListQueues'' err))
      | Inr rec \<Rightarrow>
          if sint (binInt64 rec ''q_type'') \<noteq> queueType then listLoop E queueType results found
          else let name = binString rec ''q_name''; nextID = binInt64 rec ''next_id'' in
            tryP (messageCount E queueType name nextID) (\<lambda>count.
            listLoop E queueType results (found @ [\<lparr>qi_QueueName = name, qi_MessageCount = count, qi_LastMessageID = nextID - 1\<rparr>])))"

datatype queueListToken = NoListToken | BadListToken | ListToken string

definition ListQueues :: "env \<Rightarrow> int \<Rightarrow> int \<Rightarrow> queueListToken \<Rightarrow> (queue_info list \<times> queueListToken) io" where
  "ListQueues E queueType pageSize nextPageToken =
     (if pageSize \<le> 0 then Ret (Inl NonPositiveListQueuesPageSize)
      else pbind (scanAllP (kb_namespace E) (physicalSet E ''q2meta'')) (\<lambda>r. case r of
         Inl err \<Rightarrow> Ret (Inl (convertError ''ListQueues'' err))
       | Inr results \<Rightarrow>
           tryP (listLoop E queueType results []) (\<lambda>found.
             let found = sortByDigest qi_QueueName found;
                 go = (\<lambda>cursor.
                   let start = pageStart (length found) cursor (\<lambda>i. qi_QueueName (found ! i));
                       stop = pageEnd start pageSize (length found)
                   in Ret (Inr (take (stop - start) (drop start found),
                        if start < stop \<and> int (stop - start) = pageSize then ListToken (qi_QueueName (found ! (stop - 1))) else NoListToken)))
             in case nextPageToken of
                  NoListToken \<Rightarrow> go []
                | BadListToken \<Rightarrow> Ret (Inl InvalidListQueuesNextPageToken)
                | ListToken name \<Rightarrow> go name)))"

end
