(* ===== verification/QueueV2Props.thy ===== *)
theory QueueV2Props
  imports QueueV2Store BucketedQueue Exclusive
begin

text \<open>
  The properties of \<open>QueueV2Store\<close>. A queue is its counter and a partial function from message ids to stored
  values, spread over buckets; enqueuing takes the counter and advances it, so concurrent writers never get
  the same id; a range delete removes a prefix.
\<close>

section \<open>The content of a queue\<close>

abbreviation "bucketKey E qt qn b \<equiv> queueMessageKey E qt qn b"

definition messages :: "env \<Rightarrow> int \<Rightarrow> string \<Rightarrow> store \<Rightarrow> int64 \<rightharpoonup> gval" where
  "messages E qt qn s mid = entries (binOf s (bucketKey E qt qn (queueBucket mid)) ''t'') (KInt mid)"

definition nextID :: "env \<Rightarrow> int \<Rightarrow> string \<Rightarrow> store \<Rightarrow> int64 option" where
  "nextID E qt qn s = map_option (bin_int ''next_id'') (s (queueMetaKey E qt qn))"

text \<open>Every bucket is a map whose keys are ids of that bucket.\<close>

definition queueWf :: "env \<Rightarrow> int \<Rightarrow> string \<Rightarrow> store \<Rightarrow> bool" where
  "queueWf E qt qn s \<longleftrightarrow> (\<forall>b. map_ok (binOf s (bucketKey E qt qn b) ''t'') \<and>
     (\<forall>mk. entries (binOf s (bucketKey E qt qn b) ''t'') mk \<noteq> None \<longrightarrow> (\<exists>mid. mk = KInt mid \<and> queueBucket mid = b)))"

text \<open>No message has an id the counter has not passed.\<close>

definition belowCounter :: "env \<Rightarrow> int \<Rightarrow> string \<Rightarrow> store \<Rightarrow> bool" where
  "belowCounter E qt qn s \<longleftrightarrow> (\<forall>mid n. messages E qt qn s mid \<noteq> None \<longrightarrow> nextID E qt qn s = Some n \<longrightarrow> sint mid < sint n)"

lemma bucketKey_inject [simp]: "bucketKey E qt qn b = bucketKey E qt qn b' \<longleftrightarrow> b = b'"
proof -
  have "joinColon [dec_int qt, qn, dec_int (sint b)] = joinColon [dec_int qt, qn, dec_int (sint b')] \<longleftrightarrow> b = b'"
    using joinColon_last [of "dec_int (sint b)" "dec_int (sint b')" "[dec_int qt, qn]" "[dec_int qt, qn]"]
    by (auto simp: sint_inject64 joinColon_Cons)
  then show ?thesis by (simp add: queueMessageKey_def)
qed

lemma queue_keys [simp]: "bucketKey E qt qn b \<noteq> queueMetaKey E qt' qn'" "queueMetaKey E qt' qn' \<noteq> bucketKey E qt qn b"
  by (simp_all add: queueMessageKey_def queueMetaKey_def)

section \<open>Enqueuing\<close>

definition enqueueBody :: "env \<Rightarrow> int \<Rightarrow> string \<Rightarrow> blob option \<Rightarrow> txnScope \<Rightarrow> int64 io" where
  "enqueueBody E qt qn blob t =
     pbind (getP (ts_read t) (queueMetaKey E qt qn) [''next_id'']) (\<lambda>r. case r of
        Inl err \<Rightarrow>
          if isNotFound err then Ret (Inl (QueueNotFound qt qn))
          else Ret (Inl (convertError ''EnqueueMessage'' err))
      | Inr rec \<Rightarrow>
          let messageID = binInt64 rec ''next_id'' in
          pbind (operateP (ts_write t) (bucketKey E qt qn (queueBucket messageID)) [MapPutOp ''t'' (KInt messageID) (blobValue E blob)]) (\<lambda>r. case r of
             Inl err \<Rightarrow> Ret (Inl (convertError ''EnqueueMessage'' err))
           | Inr _ \<Rightarrow>
               pbind (putBinsP (ts_write t) (queueMetaKey E qt qn) [(''next_id'', GInt64 (messageID + 1))]) (\<lambda>w. case w of
                  Inl err \<Rightarrow> Ret (Inl (convertError ''EnqueueMessage'' err))
                | Inr _ \<Rightarrow> Ret (Inr messageID))))"

lemma EnqueueMessage_scope: "EnqueueMessage E qt qn blob = scopeP E (''EnqueueMessage'', enqueueBody E qt qn blob)"
  by (simp add: EnqueueMessage_def scopeP_def Let_def enqueueBody_def [abs_def])

lemma txn_body_enqueueBody [txn_intros]: "txn_body t (enqueueBody E qt qn blob (beginTxn E' t))"
  by (auto simp: enqueueBody_def Let_def intro!: txn_intros split: sum.splits)

text \<open>What an enqueue does: the counter is taken and advanced, the message is stored under it.\<close>

definition enqueued :: "env \<Rightarrow> int \<Rightarrow> string \<Rightarrow> blob option \<Rightarrow> int64 \<Rightarrow> store \<Rightarrow> store \<Rightarrow> bool" where
  "enqueued E qt qn blob mid s0 s1 \<longleftrightarrow>
     nextID E qt qn s0 = Some mid \<and> nextID E qt qn s1 = Some (mid + 1) \<and>
     messages E qt qn s1 = (messages E qt qn s0)(mid \<mapsto> blobValue E blob) \<and>
     (queueWf E qt qn s0 \<longrightarrow> queueWf E qt qn s1) \<and>
     (\<forall>k. k \<noteq> queueMetaKey E qt qn \<longrightarrow> k \<noteq> bucketKey E qt qn (queueBucket mid) \<longrightarrow> s1 k = s0 k)"

lemma enqueueBody_ok:
  assumes "prun Q (enqueueBody E qt qn blob (beginTxn E' t)) s0 = (Inr mid, s1)"
  shows "enqueued E qt qn blob mid s0 s1"
proof -
  let ?m = "queueMetaKey E qt qn" and ?k = "bucketKey E qt qn (queueBucket mid)" and ?v = "blobValue E blob"
  from assms obtain r where r: "s0 ?m = Some r" "mid = bin_int ''next_id'' r" "\<forall>x. old_bins (s0 ?k) ''t'' \<noteq> Some (BVal x)"
    and s1: "s1 = s0(?k \<mapsto> (old_bins (s0 ?k))(''t'' \<mapsto> BMap (omap_put (KInt mid) ?v (the_map (old_bins (s0 ?k) ''t'')))),
      ?m \<mapsto> put_bins [(''next_id'', GInt64 (mid + 1))] r)"
    by (auto simp: enqueueBody_def Let_def prun_get prun_operate_ok prun_put map_write_def the_map_def
        split: option.splits sum.splits prod.splits binval.splits)
  have t: "binOf s1 ?k ''t'' = Some (BMap (omap_put (KInt mid) ?v (the_map (binOf s0 ?k ''t''))))" by (simp add: s1 binOf_def)
  have u: "binOf s1 (bucketKey E qt qn b) ''t'' = binOf s0 (bucketKey E qt qn b) ''t''" if "b \<noteq> queueBucket mid" for b
    using that by (simp add: s1 binOf_def)
  have ent: "entries (binOf s1 ?k ''t'') = (entries (binOf s0 ?k ''t''))(KInt mid \<mapsto> ?v)" unfolding t by (simp add: map_of_omap_put entries_def fun_eq_iff)
  have "messages E qt qn s1 i = ((messages E qt qn s0)(mid \<mapsto> ?v)) i" for i
    using ent u [of "queueBucket i"] by (cases "queueBucket i = queueBucket mid") (auto simp: messages_def)
  moreover have "queueWf E qt qn s1" if wf: "queueWf E qt qn s0"
  proof -
    have "map_ok (binOf s1 ?k ''t'')" using wf unfolding t by (simp add: queueWf_def omap_put_ok omap_ok_the_map)
    then have "map_ok (binOf s1 (bucketKey E qt qn b) ''t'') \<and>
      (\<forall>mk. entries (binOf s1 (bucketKey E qt qn b) ''t'') mk \<noteq> None \<longrightarrow> (\<exists>mid. mk = KInt mid \<and> queueBucket mid = b))" for b
      using wf u [of b] ent by (cases "b = queueBucket mid") (auto simp: queueWf_def)
    then show ?thesis by (simp add: queueWf_def)
  qed
  ultimately show ?thesis using r by (auto simp: enqueued_def nextID_def s1 bin_int_def fun_eq_iff)
qed

text \<open>
  C33. \<^verbatim>\<open>EnqueueMessage\<close> implements the queue: when it returns an id there was one instant at which the counter
  stood at that id, was advanced by one and the message was stored under the id; all other messages and all
  other records are as before. When no message had an id the counter had not passed, none has afterwards,
  so the new message replaced none, as long as the counter has not reached the largest id.
\<close>

theorem EnqueueMessage_refines:
  assumes srv: "aerospike Q srv store_of base_of work_of R"
    and run: "run srv (EnqueueMessage E qt qn blob) db = (Inr mid, db')"
  shows "\<exists>s0 s1. R (store_of db) s0 \<and> R s1 (store_of db') \<and> enqueued E qt qn blob mid s0 s1 \<and>
    (belowCounter E qt qn s0 \<longrightarrow> sint mid < 9223372036854775807 \<longrightarrow> messages E qt qn s0 mid = None \<and> belowCounter E qt qn s1)"
proof -
  from aerospike.withTxn_ok [OF srv _ run [unfolded EnqueueMessage_scope scopeP_def fst_conv snd_conv]]
  obtain t s0 s1 where s: "R (store_of db) s0" "prun Q (enqueueBody E qt qn blob (beginTxn E t)) s0 = (Inr mid, s1)" "R s1 (store_of db')"
    using txn_body_enqueueBody by blast
  note e = enqueueBody_ok [OF s(2)]
  have "messages E qt qn s0 mid = None \<and> belowCounter E qt qn s1" if "belowCounter E qt qn s0" "sint mid < 9223372036854775807"
  proof -
    have "sint (mid + 1) = sint mid + 1" by (rule sint_plus_one64 [OF that(2)])
    with that(1) e show ?thesis by (fastforce simp: enqueued_def belowCounter_def split: if_splits)
  qed
  with s e show ?thesis by blast
qed

section \<open>Concurrent writers\<close>

context shared_aerospike
begin

text \<open>Enqueues one after the other hand out consecutive ids.\<close>

lemma serial_ids:
  assumes scs: "\<And>i. i < length scs \<Longrightarrow> \<exists>blob. scs ! i = (''EnqueueMessage'', enqueueBody E qt qn blob)"
    and keep: "\<And>s s'. interferes s s' \<Longrightarrow> nextID E qt qn s' = nextID E qt qn s"
  shows "serial E scs s log s' \<Longrightarrow> \<forall>i \<in> fst ` set log. i < length scs \<Longrightarrow> nextID E qt qn s = Some n \<Longrightarrow>
    map snd log = map (\<lambda>k. n + of_nat k) [0..<length log] \<and> nextID E qt qn s' = Some (n + of_nat (length log))"
proof (induction log arbitrary: s n)
  case Nil
  then show ?case using keep by simp
next
  case (Cons p log)
  obtain i mid where p: "p = (i, mid)" by (cases p)
  with Cons.prems obtain t s0 s1 where s: "interferes s s0" "prun Q (snd (scs ! i) (beginTxn E t)) s0 = (Inr mid, s1)" "serial E scs s1 log s'"
    and i: "i < length scs" by auto
  obtain blob where "scs ! i = (''EnqueueMessage'', enqueueBody E qt qn blob)" using scs i by blast
  with s(2) enqueueBody_ok have e: "enqueued E qt qn blob mid s0 s1" by fastforce
  then have mid: "mid = n" "nextID E qt qn s1 = Some (n + 1)" using keep [OF s(1)] Cons.prems(3) by (auto simp: enqueued_def)
  with Cons.IH [OF s(3) _ mid(2)] Cons.prems(2)
  have "map snd log = map (\<lambda>k. n + 1 + of_nat k) [0..<length log]" "nextID E qt qn s' = Some (n + 1 + of_nat (length log))" by auto
  moreover have "map (\<lambda>k. n + of_nat k) [0..<Suc m] = n # map (\<lambda>k. n + 1 + of_nat k) [0..<m]" for m
    by (simp add: upt_conv_Cons map_Suc_upt [symmetric] add_ac del: upt_Suc)
  ultimately show ?case by (simp add: p mid(1) add_ac del: upt_Suc)
qed

end

lemma of_nat_inject64: "a < 2 ^ 64 \<Longrightarrow> b < 2 ^ 64 \<Longrightarrow> (n :: int64) + of_nat a = n + of_nat b \<longleftrightarrow> a = b"
proof
  assume "a < 2 ^ 64" "b < 2 ^ 64" "n + of_nat a = n + of_nat b"
  then have "unat (of_nat a :: int64) = a" "unat (of_nat a :: int64) = b" by (auto intro: of_nat_inverse)
  then show "a = b" by simp
qed simp

text \<open>
  C34. No id is given out twice: of any number of clients that enqueue into one queue, under every interleaving
  of their commands and with commands failing, two that are told an id are told different ids; every id told
  is one of the consecutive ids from the counter on, and no more ids are used than there are clients.
\<close>

theorem EnqueueMessage_unique_ids:
  assumes srv: "shared_aerospike Q srv store_of base_of work_of R live"
    and keep: "\<And>s s'. R s s' \<Longrightarrow> nextID E qt qn s' = nextID E qt qn s"
    and reach: "(istep srv)\<^sup>*\<^sup>* (map (EnqueueMessage E qt qn) blobs, db) (ps, db')"
    and start: "nextID E qt qn (store_of db) = Some n" "length blobs < 2 ^ 64"
  shows "\<exists>m \<le> length blobs. nextID E qt qn (store_of db') = Some (n + of_nat m) \<and>
    (\<forall>a < length ps. \<forall>i. ps ! a = Ret (Inr i) \<longrightarrow> (\<exists>k < m. i = n + of_nat k) \<and>
       (\<forall>b < length ps. ps ! b = Ret (Inr i) \<longrightarrow> a = b))"
proof -
  let ?scs = "map (\<lambda>blob. (''EnqueueMessage'', enqueueBody E qt qn blob)) blobs"
  have "map (EnqueueMessage E qt qn) blobs = map (scopeP E) ?scs" by (simp add: EnqueueMessage_scope)
  then have reach': "(istep srv)\<^sup>*\<^sup>* (map (scopeP E) ?scs, db) (ps, db')" using reach by metis
  obtain log where log: "shared_aerospike.serial Q R E ?scs (store_of db) log (store_of db')" "distinct (map fst log)"
    "\<forall>i \<in> fst ` set log. i < length ?scs" "\<And>i x. i < length ps \<Longrightarrow> ps ! i = Ret (Inr x) \<Longrightarrow> (i, x) \<in> set log"
    by (rule shared_aerospike.serializable [OF srv reach']) (auto intro: txn_intros)
  have ids: "map snd log = map (\<lambda>k. n + of_nat k) [0..<length log]" "nextID E qt qn (store_of db') = Some (n + of_nat (length log))"
    using shared_aerospike.serial_ids [OF srv _ keep log(1,3) start(1)] by auto
  have "length log = card (fst ` set log)" using log(2) by (metis distinct_card length_map list.set_map)
  also have "\<dots> \<le> card {..<length blobs}" using log(3) by (intro card_mono) auto
  finally have len: "length log \<le> length blobs" by simp
  have at: "\<exists>k < length log. log ! k = (a, i) \<and> i = n + of_nat k" if "(a, i) \<in> set log" for a i
    using that ids(1) by (metis (no_types, lifting) diff_zero in_set_conv_nth length_upt nth_map nth_upt plus_nat.add_0 snd_conv)
  have unique: "a = b" if win: "a < length ps" "ps ! a = Ret (Inr i)" "b < length ps" "ps ! b = Ret (Inr i)" for a b i
  proof -
    obtain k where k: "k < length log" "log ! k = (a, i)" "i = n + of_nat k" using at [OF log(4) [OF win(1,2)]] by blast
    obtain l where l: "l < length log" "log ! l = (b, i)" "i = n + of_nat l" using at [OF log(4) [OF win(3,4)]] by blast
    have "n + of_nat k = n + of_nat l" using k(3) l(3) by (rule trans [OF sym])
    then have "k = l" using of_nat_inject64 [of k l n] k(1) l(1) len start(2) by linarith
    with k l show ?thesis by simp
  qed
  have told: "\<exists>k < length log. i = n + of_nat k" if "a < length ps" "ps ! a = Ret (Inr i)" for a i
    using at [OF log(4) [OF that]] by metis
  show ?thesis
  proof (rule exI [of _ "length log"], intro conjI len ids(2) allI impI)
    show "\<exists>k < length log. i = n + of_nat k" if "a < length ps" "ps ! a = Ret (Inr i)" for a i using that by (rule told)
    show "a = b" if "a < length ps" "ps ! a = Ret (Inr i)" "b < length ps" "ps ! b = Ret (Inr i)" for a b i using that by (rule unique)
  qed
qed

section \<open>Deleting a prefix\<close>

text \<open>What is left of a queue when the ids from 0 to \<open>maxID\<close> are removed from the buckets from \<open>b\<close> on.\<close>

definition inPrefix :: "int64 \<Rightarrow> int64 \<Rightarrow> bool" where
  "inPrefix maxID mid \<longleftrightarrow> 0 \<le> sint mid \<and> sint mid \<le> sint maxID"

lemma inPrefix_range: "sint maxID < 9223372036854775807 \<Longrightarrow> in_range (KInt 0) (Some (KInt (maxID + 1))) (KInt mid) \<longleftrightarrow> inPrefix maxID mid"
  by (auto simp: in_range_def inPrefix_def sint_plus_one64 less_eq_mkey_def less_mkey_def)

definition held :: "env \<Rightarrow> int \<Rightarrow> string \<Rightarrow> store \<Rightarrow> (int64 \<Rightarrow> bool) \<Rightarrow> int64 set" where
  "held E qt qn s P = {mid. messages E qt qn s mid \<noteq> None \<and> P mid}"

lemma finite_held [simp]: "finite (held E qt qn s P)"
  by (rule finite)

lemma queueBucket_mono: "sint i \<le> sint j \<Longrightarrow> sint (queueBucket i) \<le> sint (queueBucket j)"
  by (simp add: sint_queueBucket zdiv_mono1)

text \<open>The number of entries of a bucket that a range holds.\<close>

lemma length_bucket:
  assumes wf: "queueWf E qt qn s" and P: "\<And>mid. P (KInt mid) \<longleftrightarrow> R mid"
  shows "length (filter (\<lambda>p. P (fst p)) (the_map (binOf s (bucketKey E qt qn b) ''t''))) = card (held E qt qn s (\<lambda>mid. queueBucket mid = b \<and> R mid))"
proof -
  let ?m = "the_map (binOf s (bucketKey E qt qn b) ''t'')"
  have m: "omap_ok ?m" using wf by (simp add: queueWf_def omap_ok_the_map)
  have keys: "mk \<in> fst ` set ?m \<longleftrightarrow> (\<exists>mid. mk = KInt mid \<and> queueBucket mid = b \<and> messages E qt qn s mid \<noteq> None)" for mk
  proof -
    have "mk \<in> fst ` set ?m \<longleftrightarrow> entries (binOf s (bucketKey E qt qn b) ''t'') mk \<noteq> None"
      using map_of_eq_None_iff [of ?m mk] by (simp add: entries_def)
    then show ?thesis using wf unfolding queueWf_def messages_def by metis
  qed
  have "length (filter (\<lambda>p. P (fst p)) ?m) = card (fst ` set (filter (\<lambda>p. P (fst p)) ?m))"
    using omap_ok_distinct [OF omap_filter_ok [OF m]] by (metis distinct_card length_map list.set_map)
  also have "fst ` set (filter (\<lambda>p. P (fst p)) ?m) = {mk \<in> fst ` set ?m. P mk}" by auto
  also have "\<dots> = KInt ` held E qt qn s (\<lambda>mid. queueBucket mid = b \<and> R mid)"
    using keys P by (auto simp: held_def)
  finally show ?thesis by (simp add: card_image inj_on_def)
qed

lemma prun_map_drop_count:
  assumes "wp_RecordExistsAction pol = UPDATE" "wp_FilterExpression pol = None" "map_ok (old_bins (s k) b)"
  shows "prun Q (pbind (operateP pol k [MapRemoveByKeyRangeOp b lo hi RetCount]) g) s =
    (if s k = None then prun Q (g (if q_absent_remove_fails Q then Inl (AsError [KEY_NOT_FOUND_ERROR]) else Inr (op_record Q k []))) s
     else if old_bins (s k) b = None then prun Q (g (Inr (op_record Q k []))) s
     else prun Q (g (Inr (op_record Q k [(b, GInt (of_nat (length (omap_range lo hi (the_map (old_bins (s k) b))))))]))) (dropEntries k b (in_range lo hi) s))"
  using assms
  by (cases "s k")
    (auto simp: prog_simps op_absent_def map_access_def fun_upd_idem dropEntries_def omap_rdel_def split: option.splits binval.splits)

text \<open>One round of the loop: the prefix leaves the bucket and is counted.\<close>

definition prefixDropped :: "env \<Rightarrow> int \<Rightarrow> string \<Rightarrow> (int64 \<Rightarrow> bool) \<Rightarrow> store \<Rightarrow> store \<Rightarrow> bool" where
  "prefixDropped E qt qn P s s' \<longleftrightarrow> queueWf E qt qn s' \<and> (\<forall>mid. messages E qt qn s' mid = (if P mid then None else messages E qt qn s mid)) \<and>
     (\<forall>k. k \<notin> range (bucketKey E qt qn) \<longrightarrow> s' k = s k)"

lemma prefixDropped_bucket:
  assumes wf: "queueWf E qt qn s" and P: "\<And>mid. P (KInt mid) \<longleftrightarrow> R mid"
  shows "prefixDropped E qt qn (\<lambda>mid. queueBucket mid = b \<and> R mid) s (dropEntries (bucketKey E qt qn b) ''t'' P s)"
proof -
  let ?k = "bucketKey E qt qn b" and ?s = "dropEntries (bucketKey E qt qn b) ''t'' P s"
  have other: "binOf ?s (bucketKey E qt qn c) ''t'' = binOf s (bucketKey E qt qn c) ''t''" if "c \<noteq> b" for c using that by (simp add: binOf_def)
  have ent: "entries (binOf ?s ?k ''t'') mk = (if P mk then None else entries (binOf s ?k ''t'') mk)" for mk
    by (simp add: entries_def binOf_def dropEntries_map map_of_filter_fst [where P = "\<lambda>x. \<not> P x"])
  have ok: "map_ok (binOf ?s ?k ''t'')" using wf by (simp add: queueWf_def binOf_def dropEntries_map)
  have "queueWf E qt qn ?s"
    unfolding queueWf_def
  proof
    fix c show "map_ok (binOf ?s (bucketKey E qt qn c) ''t'') \<and>
      (\<forall>mk. entries (binOf ?s (bucketKey E qt qn c) ''t'') mk \<noteq> None \<longrightarrow> (\<exists>mid. mk = KInt mid \<and> queueBucket mid = c))"
      using wf ok ent other [of c] unfolding queueWf_def by (cases "c = b") (simp_all split: if_splits)
  qed
  moreover have "messages E qt qn ?s mid = (if queueBucket mid = b \<and> R mid then None else messages E qt qn s mid)" for mid
    using ent [of "KInt mid"] other [of "queueBucket mid"] P by (cases "queueBucket mid = b") (simp_all add: messages_def)
  moreover have "?s k = s k" if "k \<notin> range (bucketKey E qt qn)" for k using that by (metis dropEntries_other rangeI)
  ultimately show ?thesis unfolding prefixDropped_def by blast
qed

lemma deleteLoop_round:
  assumes wf: "queueWf E qt qn s" and b: "sint b \<le> sint (queueBucket maxID)" and max: "sint maxID < 9223372036854775807"
  shows "\<exists>s'. prun Q (deleteLoop E qt qn maxID b d) s =
      prun Q (deleteLoop E qt qn maxID (b + 1) (d + of_nat (card (held E qt qn s (\<lambda>mid. queueBucket mid = b \<and> inPrefix maxID mid))))) s' \<and>
    prefixDropped E qt qn (\<lambda>mid. queueBucket mid = b \<and> inPrefix maxID mid) s s'"
proof -
  let ?k = "bucketKey E qt qn b" and ?P = "in_range (KInt 0) (Some (KInt (maxID + 1)))"
  have P: "?P (KInt mid) \<longleftrightarrow> inPrefix maxID mid" for mid by (rule inPrefix_range [OF max])
  have ok: "map_ok (old_bins (s ?k) ''t'')" using wf by (simp add: queueWf_def binOf_def)
  note len = length_bucket [where P = ?P, OF wf P, of b]
  have drop: "prefixDropped E qt qn (\<lambda>mid. queueBucket mid = b \<and> inPrefix maxID mid) s (dropEntries ?k ''t'' ?P s)"
    by (rule prefixDropped_bucket [OF wf]) (rule P)
  show ?thesis
  proof (cases "s ?k = None \<or> old_bins (s ?k) ''t'' = None")
    case True
    then have "card (held E qt qn s (\<lambda>mid. queueBucket mid = b \<and> inPrefix maxID mid)) = 0" "dropEntries ?k ''t'' ?P s = s"
      using len by (auto simp: binOf_def dropEntries_def)
    then show ?thesis using True drop b ok
      by (intro exI [of _ s], subst deleteLoop.simps) (auto simp: prun_map_drop_count lastOpResultInt_def op_record_def)
  next
    case False
    then obtain r v where r: "s ?k = Some r" "r ''t'' = Some v" by auto
    then show ?thesis using drop b ok len
      by (intro exI [of _ "dropEntries ?k ''t'' ?P s"], subst deleteLoop.simps)
        (simp add: prun_map_drop_count lastOpResultInt_def op_record_def omap_range_def binOf_def)
  qed
qed

lemma deleteLoop_run:
  assumes "queueWf E qt qn s" "sint maxID < 9223372036854775807"
  shows "\<exists>s'. prun Q (deleteLoop E qt qn maxID b d) s =
      (Inr (d + of_nat (card (held E qt qn s (\<lambda>mid. inPrefix maxID mid \<and> sint b \<le> sint (queueBucket mid))))), s') \<and>
    prefixDropped E qt qn (\<lambda>mid. inPrefix maxID mid \<and> sint b \<le> sint (queueBucket mid)) s s'"
  using assms
proof (induction "nat (sint (queueBucket maxID) + 1 - sint b)" arbitrary: b d s rule: less_induct)
  case less
  let ?in = "\<lambda>b mid. inPrefix maxID mid \<and> sint b \<le> sint (queueBucket mid)" and ?here = "\<lambda>mid. queueBucket mid = b \<and> inPrefix maxID mid"
  show ?case
  proof (cases "sint b \<le> sint (queueBucket maxID)")
    case True
    then have b: "sint (b + 1) = sint b + 1" by (rule sint_bucket_next)
    obtain s1 where s1: "prun Q (deleteLoop E qt qn maxID b d) s = prun Q (deleteLoop E qt qn maxID (b + 1) (d + of_nat (card (held E qt qn s ?here)))) s1"
      "prefixDropped E qt qn ?here s s1"
      using deleteLoop_round [OF less.prems(1) True less.prems(2)] by blast
    have wf: "queueWf E qt qn s1" using s1(2) by (simp add: prefixDropped_def)
    have "sint b \<le> sint q \<longleftrightarrow> q = b \<or> sint (b + 1) \<le> sint q" "\<not> (q = b \<and> sint (b + 1) \<le> sint q)" for q
      unfolding b sint_inject64 [symmetric] by linarith+
    then have split: "?in b mid \<longleftrightarrow> ?here mid \<or> ?in (b + 1) mid" "\<not> (?here mid \<and> ?in (b + 1) mid)" for mid by blast+
    obtain s' where s': "prun Q (deleteLoop E qt qn maxID (b + 1) (d + of_nat (card (held E qt qn s ?here)))) s1 =
        (Inr (d + of_nat (card (held E qt qn s ?here)) + of_nat (card (held E qt qn s1 (?in (b + 1))))), s')"
      "prefixDropped E qt qn (?in (b + 1)) s1 s'"
      using less.hyps [OF _ wf less.prems(2), of "b + 1"] True b by auto
    have "held E qt qn s1 (?in (b + 1)) = held E qt qn s (?in (b + 1))"
      using s1(2) split(2) by (auto simp: held_def prefixDropped_def)
    moreover have "held E qt qn s (?in b) = held E qt qn s ?here \<union> held E qt qn s (?in (b + 1))" "held E qt qn s ?here \<inter> held E qt qn s (?in (b + 1)) = {}"
      using split by (auto simp: held_def)
    then have "card (held E qt qn s (?in b)) = card (held E qt qn s ?here) + card (held E qt qn s (?in (b + 1)))" by (simp add: card_Un_disjoint)
    ultimately have "prun Q (deleteLoop E qt qn maxID b d) s = (Inr (d + of_nat (card (held E qt qn s (?in b)))), s')" using s1(1) s'(1) by (simp add: add_ac)
    moreover have "prefixDropped E qt qn (?in b) s s'" using s1(2) s'(2) split(1) by (auto simp: prefixDropped_def)
    ultimately show ?thesis by blast
  next
    case False
    then have none: "?in b = (\<lambda>_. False)" using queueBucket_mono [of _ maxID] by (force simp: inPrefix_def fun_eq_iff)
    show ?thesis using False less.prems(1) unfolding none by (subst deleteLoop.simps) (simp add: held_def prefixDropped_def)
  qed
qed

lemma plain_deleteLoop [txn_intros]: "plain_prog (deleteLoop E qt qn maxID b d)"
proof (induction E qt qn maxID b d rule: deleteLoop.induct)
  case (1 E qt qn maxID b d)
  then show ?case by (subst deleteLoop.simps) (auto intro!: txn_intros split: sum.splits)
qed

text \<open>
  C35. \<^verbatim>\<open>RangeDeleteMessages\<close> removes exactly the messages with ids up to the given one and returns how many they
  were; later messages, the counter and every other record stay. The loop over the buckets ends because a
  bucket number is a shifted id and cannot wrap. The largest id itself is excepted: there the upper bound
  of the range wraps around and nothing is removed.
\<close>

theorem RangeDeleteMessages_exact:
  assumes srv: "quiet_aerospike Q srv store_of base_of work_of"
    and wf: "queueWf E qt qn (store_of db)" "nextID E qt qn (store_of db) \<noteq> None"
    and max: "sint (FirstQueueMessageID E) \<le> sint maxID" "sint maxID < 9223372036854775807"
  shows "\<exists>db'. run srv (RangeDeleteMessages E qt qn maxID) db =
      (Inr (of_nat (card {mid. messages E qt qn (store_of db) mid \<noteq> None \<and> inPrefix maxID mid})), db') \<and>
    prefixDropped E qt qn (inPrefix maxID) (store_of db) (store_of db')"
proof -
  have all: "(\<lambda>mid. inPrefix maxID mid \<and> sint (0 :: int64) \<le> sint (queueBucket mid)) = inPrefix maxID"
    by (auto simp: inPrefix_def sint_queueBucket fun_eq_iff)
  obtain s' where s': "prun Q (deleteLoop E qt qn maxID 0 0) (store_of db) =
      (Inr (of_nat (card {mid. messages E qt qn (store_of db) mid \<noteq> None \<and> inPrefix maxID mid})), s')"
    "prefixDropped E qt qn (inPrefix maxID) (store_of db) s'"
    using deleteLoop_run [OF wf(1) max(2), of Q 0 0] unfolding all held_def by auto
  obtain r where r: "store_of db (queueMetaKey E qt qn) = Some r" using wf(2) by (auto simp: nextID_def)
  have plain: "plain_prog (RangeDeleteMessages E qt qn maxID)"
    by (auto simp: RangeDeleteMessages_def intro!: txn_intros split: sum.splits)
  have go: "prun Q (RangeDeleteMessages E qt qn maxID) (store_of db) =
      (Inr (of_nat (card {mid. messages E qt qn (store_of db) mid \<noteq> None \<and> inPrefix maxID mid})), s')"
    using s'(1) r max(1) by (simp add: RangeDeleteMessages_def prun_get)
  from quiet_aerospike.quiet_plain_run [OF srv plain go] obtain db' where
    d: "run srv (RangeDeleteMessages E qt qn maxID) db =
      (Inr (of_nat (card {mid. messages E qt qn (store_of db) mid \<noteq> None \<and> inPrefix maxID mid})), db')" "store_of db' = s'" by (elim exE conjE)
  have "prefixDropped E qt qn (inPrefix maxID) (store_of db) (store_of db')" unfolding d(2) by (rule s'(2))
  with d(1) show ?thesis by blast
qed

section \<open>A sample queue\<close>

definition sampleQueue :: store where
  "sampleQueue = [queueMetaKey sample_env 1 ''q'' \<mapsto> [''next_id'' \<mapsto> BVal (GInt 2)],
     bucketKey sample_env 1 ''q'' 0 \<mapsto> [''t'' \<mapsto> BMap [(KInt 0, GInt 7), (KInt 1, GInt 8)]]]"

lemma queueBucket_small: "queueBucket 0 = 0" "queueBucket 1 = 0" "queueBucket 2 = 0"
  by (simp_all add: queueBucket_def shr64_def)

lemma sampleQueue_bins:
  "binOf sampleQueue (bucketKey sample_env 1 ''q'' b) ''t'' = (if b = 0 then Some (BMap [(KInt 0, GInt 7), (KInt 1, GInt 8)]) else None)"
  by (simp add: sampleQueue_def binOf_def)

lemma sampleQueue_ok:
  "queueWf sample_env 1 ''q'' sampleQueue" "nextID sample_env 1 ''q'' sampleQueue = Some 2"
  "messages sample_env 1 ''q'' sampleQueue mid = (if mid = 0 then Some (GInt 7) else if mid = 1 then Some (GInt 8) else None)"
proof -
  have "(0 :: int64) \<noteq> 1" by simp
  then show "queueWf sample_env 1 ''q'' sampleQueue"
    using queueBucket_small by (auto simp: queueWf_def sampleQueue_bins omap_ok_Cons less_mkey_def split: if_splits)
  show "nextID sample_env 1 ''q'' sampleQueue = Some 2" by (simp add: nextID_def sampleQueue_def bin_int_def)
  show "messages sample_env 1 ''q'' sampleQueue mid = (if mid = 0 then Some (GInt 7) else if mid = 1 then Some (GInt 8) else None)"
    using queueBucket_small by (auto simp: messages_def sampleQueue_bins)
qed

lemma sampleQueue_enqueue:
  "nextID E qt qn (m_store db) = Some n \<Longrightarrow> queueWf E qt qn (m_store db) \<Longrightarrow>
   \<exists>db'. run (mem_server Q) (EnqueueMessage E qt qn blob) db = (Inr n, db') \<and> enqueued E qt qn blob n (m_store db) (m_store db')"
proof -
  assume n: "nextID E qt qn (m_store db) = Some n" and wf: "queueWf E qt qn (m_store db)"
  obtain y db' where y: "run (mem_server Q) (EnqueueMessage E qt qn blob) db = (y, db')" by fastforce
  obtain t s1 where s1: "prun Q (enqueueBody E qt qn blob (beginTxn E t)) (m_store db) = (y, s1)" "m_store db' = (case y of Inl _ \<Rightarrow> m_store db | Inr _ \<Rightarrow> s1)"
    using mem.withTxn_quiet [OF txn_body_enqueueBody y [unfolded EnqueueMessage_scope scopeP_def fst_conv snd_conv]] by blast
  have "\<forall>x. old_bins (m_store db (bucketKey E qt qn (queueBucket n))) ''t'' \<noteq> Some (BVal x)"
    using wf by (metis binOf_def map_ok_simps(3) queueWf_def)
  then have "y = Inr n" using n s1(1)
    by (auto simp: nextID_def enqueueBody_def Let_def prun_get prun_operate_ok prun_put map_write_def split: option.splits sum.splits prod.splits binval.splits)
  with y s1 enqueueBody_ok [of Q E qt qn blob E t "m_store db" n s1] show ?thesis by auto
qed

theorem EnqueueMessage_refines_witness:
  "\<exists>s1. enqueued sample_env 1 ''q'' None 2 sampleQueue s1 \<and> belowCounter sample_env 1 ''q'' s1"
proof -
  obtain db' where d: "run (mem_server sampleQuirks) (EnqueueMessage sample_env 1 ''q'' None) (mem_init sampleQueue) = (Inr 2, db')"
    using sampleQueue_enqueue [of sample_env 1 "''q''" "mem_init sampleQueue" 2 sampleQuirks None] sampleQueue_ok by (auto simp: mem_init_def)
  have "belowCounter sample_env 1 ''q'' sampleQueue" by (simp add: belowCounter_def sampleQueue_ok split: if_splits)
  with EnqueueMessage_refines [OF mem.aerospike_axioms d] show ?thesis by (auto simp: mem_init_def)
qed

theorem EnqueueMessage_unique_ids_witness:
  "\<exists>db'. (istep (mem_server sampleQuirks))\<^sup>*\<^sup>* (map (EnqueueMessage sample_env 1 ''q'') [None, None], mem_init sampleQueue) ([Ret (Inr 2), Ret (Inr 3)], db') \<and>
     (\<exists>m \<le> 2. nextID sample_env 1 ''q'' (m_store db') = Some (2 + of_nat m))"
proof -
  obtain db1 where one: "run (mem_server sampleQuirks) (EnqueueMessage sample_env 1 ''q'' None) (mem_init sampleQueue) = (Inr 2, db1)"
    "enqueued sample_env 1 ''q'' None 2 sampleQueue (m_store db1)"
    using sampleQueue_enqueue [of sample_env 1 "''q''" "mem_init sampleQueue" 2 sampleQuirks None] sampleQueue_ok by (auto simp: mem_init_def)
  then obtain db2 where two: "run (mem_server sampleQuirks) (EnqueueMessage sample_env 1 ''q'' None) db1 = (Inr 3, db2)"
    using sampleQueue_enqueue [of sample_env 1 "''q''" db1 3 sampleQuirks None] sampleQueue_ok by (auto simp: enqueued_def)
  have race: "(istep (mem_server sampleQuirks))\<^sup>*\<^sup>* (map (EnqueueMessage sample_env 1 ''q'') [None, None], mem_init sampleQueue) ([Ret (Inr 2), Ret (Inr 3)], db2)"
    using run_isteps2 [OF one(1) two] by simp
  have n: "nextID sample_env 1 ''q'' (m_store (mem_init sampleQueue)) = Some 2" by (simp add: mem_init_def sampleQueue_ok)
  have "\<exists>m \<le> length [None, None :: blob option]. nextID sample_env 1 ''q'' (m_store db2) = Some (2 + of_nat m)"
    using EnqueueMessage_unique_ids [OF shared.shared_aerospike_axioms _ race n] by auto
  with race show ?thesis by (auto simp: numeral_2_eq_2)
qed

theorem RangeDeleteMessages_exact_witness:
  "\<exists>db'. run (mem_server sampleQuirks) (RangeDeleteMessages sample_env 1 ''q'' 0) (mem_init sampleQueue) = (Inr 1, db') \<and>
     messages sample_env 1 ''q'' (m_store db') 0 = None \<and> messages sample_env 1 ''q'' (m_store db') 1 = Some (GInt 8)"
proof -
  have zero: "inPrefix 0 mid \<longleftrightarrow> mid = 0" for mid using sint_inject64 [of mid 0] by (auto simp: inPrefix_def)
  have "{mid. messages sample_env 1 ''q'' sampleQueue mid \<noteq> None \<and> inPrefix 0 mid} = {0}" by (auto simp: sampleQueue_ok zero)
  then show ?thesis
    using RangeDeleteMessages_exact [OF mem.quiet_aerospike_axioms, of sample_env 1 "''q''" "mem_init sampleQueue" 0 sampleQuirks] sampleQueue_ok
    by (auto simp: mem_init_def prefixDropped_def zero sample_env_def)
qed

end
