(* ===== verification/NexusStore.thy ===== *)
theory NexusStore
  imports HistoryStore
begin

text \<open>
  \<^verbatim>\<open>nexus_endpoint_store.go\<close>: endpoints, each with a version, under one table version that every change
  advances. This theory holds the operations.
\<close>

record nexus_endpoint =
  ne_ID :: string
  ne_Version :: int64
  ne_Data :: "blob option"

definition tableVersion :: "env \<Rightarrow> rpolicy \<Rightarrow> int64 io" where
  "tableVersion E pol =
     pbind (getP pol (nexusTableVersionKey E) [''tbl_version'']) (\<lambda>r. case r of
        Inl err \<Rightarrow> if isNotFound err then Ret (Inr 0) else Ret (Inl (convertError ''nexusTableVersion'' err))
      | Inr rec \<Rightarrow> Ret (Inr (binInt64 rec ''tbl_version'')))"

text \<open>The two puts that end a change: here the new table version.\<close>

definition putTableVersion :: "env \<Rightarrow> txnScope \<Rightarrow> string \<Rightarrow> int64 \<Rightarrow> unit io" where
  "putTableVersion E t operation v =
     pbind (putBinsP (ts_write t) (nexusTableVersionKey E) [(''tbl_version'', GInt64 v)]) (\<lambda>w. case w of
        Inl err \<Rightarrow> Ret (Inl (convertError operation err))
      | Inr _ \<Rightarrow> Ret (Inr ()))"

definition endpointBins :: "env \<Rightarrow> nexus_endpoint \<Rightarrow> (string \<times> gval) list" where
  "endpointBins E ep = blobBins E ''data'' ''enc'' (ne_Data ep) @ [(''version'', GInt64 (ne_Version ep + 1)), (''ep_id'', GString (ne_ID ep))]"

definition CreateOrUpdateNexusEndpoint :: "env \<Rightarrow> int64 \<Rightarrow> nexus_endpoint \<Rightarrow> unit io" where
  "CreateOrUpdateNexusEndpoint E lastKnownTableVersion ep =
     withTxn E ''CreateOrUpdateNexusEndpoint'' (\<lambda>t.
       tryP (tableVersion E (ts_read t)) (\<lambda>current.
       if current \<noteq> lastKnownTableVersion then Ret (Inl NexusTableVersionConflict)
       else pbind (getP (ts_read t) (nexusEndpointKey E (ne_ID ep)) [''version'']) (\<lambda>existing.
         let write =
           pbind (putBinsP (ts_write t) (nexusEndpointKey E (ne_ID ep)) (endpointBins E ep)) (\<lambda>w. case w of
              Inl err \<Rightarrow> Ret (Inl (convertError ''CreateOrUpdateNexusEndpoint'' err))
            | Inr _ \<Rightarrow> putTableVersion E t ''CreateOrUpdateNexusEndpoint'' (current + 1))
         in case existing of
              Inl err \<Rightarrow>
                if \<not> isNotFound err then Ret (Inl (convertError ''CreateOrUpdateNexusEndpoint'' err))
                else if ne_Version ep \<noteq> 0 then Ret (Inl NexusEndpointVersionConflict)
                else write
            | Inr rec \<Rightarrow>
                if ne_Version ep = 0 then Ret (Inl NexusEndpointVersionConflict)
                else if binInt64 rec ''version'' \<noteq> ne_Version ep then Ret (Inl NexusEndpointVersionConflict)
                else write)))"

definition DeleteNexusEndpoint :: "env \<Rightarrow> int64 \<Rightarrow> string \<Rightarrow> unit io" where
  "DeleteNexusEndpoint E lastKnownTableVersion endpointID =
     withTxn E ''DeleteNexusEndpoint'' (\<lambda>t.
       tryP (tableVersion E (ts_read t)) (\<lambda>current.
       if current \<noteq> lastKnownTableVersion then Ret (Inl NexusTableVersionConflict)
       else pbind (getP (ts_read t) (nexusEndpointKey E endpointID) [''version'']) (\<lambda>r. case r of
            Inl err \<Rightarrow>
              if isNotFound err then Ret (Inl (NotFound ''nexus endpoint''))
              else Ret (Inl (convertError ''DeleteNexusEndpoint'' err))
          | Inr _ \<Rightarrow>
              pbind (deleteP (ts_del t) (nexusEndpointKey E endpointID)) (\<lambda>r. case r of
                 Inl err \<Rightarrow> Ret (Inl (convertError ''DeleteNexusEndpoint'' err))
               | Inr _ \<Rightarrow> putTableVersion E t ''DeleteNexusEndpoint'' (current + 1)))))"

definition GetNexusEndpoint :: "env \<Rightarrow> string \<Rightarrow> nexus_endpoint io" where
  "GetNexusEndpoint E endpointID =
     pbind (getP (readPolicy E) (nexusEndpointKey E endpointID) []) (\<lambda>r. case r of
        Inl err \<Rightarrow>
          if isNotFound err then Ret (Inl (NotFound ''nexus endpoint''))
          else Ret (Inl (convertError ''GetNexusEndpoint'' err))
      | Inr rec \<Rightarrow> Ret (Inr \<lparr>ne_ID = endpointID, ne_Version = binInt64 rec ''version'', ne_Data = readBlob E rec ''data'' ''enc''\<rparr>))"

definition endpointOf :: "env \<Rightarrow> as_record \<Rightarrow> nexus_endpoint" where
  "endpointOf E rec = \<lparr>ne_ID = binString rec ''ep_id'', ne_Version = binInt64 rec ''version'', ne_Data = readBlob E rec ''data'' ''enc''\<rparr>"

record list_endpoints_resp =
  le_TableVersion :: int64
  le_Endpoints :: "nexus_endpoint list"
  le_NextPageToken :: string

definition ListNexusEndpoints :: "env \<Rightarrow> int64 \<Rightarrow> int \<Rightarrow> string \<Rightarrow> list_endpoints_resp io" where
  "ListNexusEndpoints E lastKnownTableVersion pageSize nextPageToken =
     tryP (tableVersion E (readPolicy E)) (\<lambda>current.
     if lastKnownTableVersion \<noteq> 0 \<and> lastKnownTableVersion \<noteq> current then Ret (Inl NexusTableVersionConflict)
     else pbind (scanAllP (kb_namespace E) (physicalSet E ''nexus'')) (\<lambda>r. case r of
        Inl err \<Rightarrow> Ret (Inl (convertError ''ListNexusEndpoints'' err))
      | Inr results \<Rightarrow>
          (case scanResults ''ListNexusEndpoints'' results of
             Inl e \<Rightarrow> Ret (Inl e)
           | Inr recs \<Rightarrow>
               let found = sortByDigest ne_ID (map (endpointOf E) recs);
                   start = pageStart (length found) nextPageToken (\<lambda>i. ne_ID (found ! i));
                   stop = pageEnd start pageSize (length found)
               in Ret (Inr \<lparr>le_TableVersion = current, le_Endpoints = take (stop - start) (drop start found),
                    le_NextPageToken = (if stop < length found then ne_ID (found ! (stop - 1)) else [])\<rparr>))))"

end
