(* ===== verification/NexusProps.thy ===== *)
theory NexusProps
  imports NexusStore Exclusive
begin

text \<open>
  The table of endpoints: every change, of whichever endpoint, compares the table version and advances it,
  so changes from the same version exclude each other.
\<close>

datatype nexus_change = Upsert nexus_endpoint | Remove string

fun changeEndpoint :: "env \<Rightarrow> int64 \<Rightarrow> nexus_change \<Rightarrow> unit io" where
  "changeEndpoint E v (Upsert ep) = CreateOrUpdateNexusEndpoint E v ep"
| "changeEndpoint E v (Remove epID) = DeleteNexusEndpoint E v epID"

definition tableVersionOf :: "env \<Rightarrow> store \<Rightarrow> int64" where
  "tableVersionOf E s = (case s (nexusTableVersionKey E) of None \<Rightarrow> 0 | Some r \<Rightarrow> bin_int ''tbl_version'' r)"

definition endpointVersion :: "env \<Rightarrow> string \<Rightarrow> store \<Rightarrow> int64" where
  "endpointVersion E epID s = (case s (nexusEndpointKey E epID) of None \<Rightarrow> 0 | Some r \<Rightarrow> bin_int ''version'' r)"

definition upsertBody :: "env \<Rightarrow> int64 \<Rightarrow> nexus_endpoint \<Rightarrow> txnScope \<Rightarrow> unit io" where
  "upsertBody E v ep t =
     tryP (tableVersion E (ts_read t)) (\<lambda>current.
       if current \<noteq> v then Ret (Inl NexusTableVersionConflict)
       else pbind (getP (ts_read t) (nexusEndpointKey E (ne_ID ep)) [''version'']) (\<lambda>existing.
         let write =
           pbind (putBinsP (ts_write t) (nexusEndpointKey E (ne_ID ep)) (endpointBins E ep)) (\<lambda>w. case w of
              Inl err \<Rightarrow> Ret (Inl (convertError ''CreateOrUpdateNexusEndpoint'' err))
            | Inr _ \<Rightarrow> putTableVersion E t ''CreateOrUpdateNexusEndpoint'' (current + 1))
         in case existing of
              Inl err \<Rightarrow>
                if \<not> isNotFound err then Ret (Inl (convertError ''CreateOrUpdateNexusEndpoint'' err))
                else if ne_Version ep \<noteq> 0 then Ret (Inl NexusEndpointVersionConflict)
                else write
            | Inr rec \<Rightarrow>
                if ne_Version ep = 0 then Ret (Inl NexusEndpointVersionConflict)
                else if binInt64 rec ''version'' \<noteq> ne_Version ep then Ret (Inl NexusEndpointVersionConflict)
                else write))"

definition removeBody :: "env \<Rightarrow> int64 \<Rightarrow> string \<Rightarrow> txnScope \<Rightarrow> unit io" where
  "removeBody E v epID t =
     tryP (tableVersion E (ts_read t)) (\<lambda>current.
       if current \<noteq> v then Ret (Inl NexusTableVersionConflict)
       else pbind (getP (ts_read t) (nexusEndpointKey E epID) [''version'']) (\<lambda>r. case r of
            Inl err \<Rightarrow>
              if isNotFound err then Ret (Inl (NotFound ''nexus endpoint''))
              else Ret (Inl (convertError ''DeleteNexusEndpoint'' err))
          | Inr _ \<Rightarrow>
              pbind (deleteP (ts_del t) (nexusEndpointKey E epID)) (\<lambda>r. case r of
                 Inl err \<Rightarrow> Ret (Inl (convertError ''DeleteNexusEndpoint'' err))
               | Inr _ \<Rightarrow> putTableVersion E t ''DeleteNexusEndpoint'' (current + 1))))"

fun changeScope :: "env \<Rightarrow> int64 \<Rightarrow> nexus_change \<Rightarrow> unit scope" where
  "changeScope E v (Upsert ep) = (''CreateOrUpdateNexusEndpoint'', upsertBody E v ep)"
| "changeScope E v (Remove epID) = (''DeleteNexusEndpoint'', removeBody E v epID)"

lemma changeEndpoint_scope: "changeEndpoint E v c = scopeP E (changeScope E v c)"
  by (cases c)
    (simp_all add: CreateOrUpdateNexusEndpoint_def DeleteNexusEndpoint_def scopeP_def upsertBody_def [abs_def] removeBody_def [abs_def])

lemma txn_body_tableVersion [txn_intros]: "txn_body t (tableVersion E (ts_read (beginTxn E' t)))"
  by (auto simp: tableVersion_def intro!: txn_intros split: sum.splits)

lemma txn_body_putTableVersion [txn_intros]: "txn_body t (putTableVersion E (beginTxn E' t) op v)"
  by (auto simp: putTableVersion_def intro!: txn_intros split: sum.splits)

lemma txn_body_change: "txn_body t (snd (changeScope E v c) (beginTxn E' t))"
  by (cases c) (auto simp: upsertBody_def removeBody_def Let_def intro!: txn_intros split: sum.splits)

text \<open>What a change does.\<close>

fun changed :: "env \<Rightarrow> int64 \<Rightarrow> nexus_change \<Rightarrow> store \<Rightarrow> store \<Rightarrow> bool" where
  "changed E v (Upsert ep) s0 s1 \<longleftrightarrow>
     tableVersionOf E s0 = v \<and> (s0 (nexusEndpointKey E (ne_ID ep)) = None \<longleftrightarrow> ne_Version ep = 0) \<and>
     endpointVersion E (ne_ID ep) s0 = ne_Version ep \<and>
     s1 = s0(nexusEndpointKey E (ne_ID ep) \<mapsto> put_bins (endpointBins E ep) (old_bins (s0 (nexusEndpointKey E (ne_ID ep)))),
       nexusTableVersionKey E \<mapsto> put_bins [(''tbl_version'', GInt64 (v + 1))] (old_bins (s0 (nexusTableVersionKey E))))"
| "changed E v (Remove epID) s0 s1 \<longleftrightarrow>
     tableVersionOf E s0 = v \<and> s0 (nexusEndpointKey E epID) \<noteq> None \<and>
     s1 = s0(nexusEndpointKey E epID := None,
       nexusTableVersionKey E \<mapsto> put_bins [(''tbl_version'', GInt64 (v + 1))] (old_bins (s0 (nexusTableVersionKey E))))"

lemma nexus_keys [simp]: "nexusEndpointKey E i \<noteq> nexusTableVersionKey E" "nexusTableVersionKey E \<noteq> nexusEndpointKey E i"
  by (simp_all add: nexusEndpointKey_def nexusTableVersionKey_def)

lemma prun_tableVersion: "prun Q (tableVersion E (ts_read (beginTxn E' t))) s = (Inr (tableVersionOf E s), s)"
  by (auto simp: tableVersion_def tableVersionOf_def prun_get split: option.splits)

lemma prun_putTableVersion:
  "prun Q (putTableVersion E (beginTxn E' t) op v) s =
     (Inr (), s(nexusTableVersionKey E \<mapsto> put_bins [(''tbl_version'', GInt64 v)] (old_bins (s (nexusTableVersionKey E)))))"
  by (simp add: putTableVersion_def prun_put)

lemma change_ok:
  assumes "prun Q (snd (changeScope E v c) (beginTxn E' t)) s0 = (Inr (), s1)"
  shows "changed E v c s0 s1"
proof (cases c)
  case (Upsert ep)
  with assms show ?thesis
    by (auto simp: upsertBody_def prun_tryP prun_tableVersion prun_putTableVersion Let_def prun_get prun_put endpointVersion_def
        split: option.splits if_splits)
next
  case (Remove epID)
  with assms show ?thesis
    by (auto simp: removeBody_def prun_tryP prun_tableVersion prun_putTableVersion Let_def prun_get prun_delete split: option.splits if_splits)
qed

lemma changed_version: "changed E v c s0 s1 \<Longrightarrow> tableVersionOf E s0 = v \<and> tableVersionOf E s1 = v + 1"
  by (cases c) (auto simp: tableVersionOf_def bin_int_def)

text \<open>
  C36. Changes of the endpoint table exclude each other: of any number of clients that create, update or delete
  endpoints, the same or different ones, from one table version, under every interleaving of their commands
  at most one is told that it succeeded. If one is, its change is the only one of all of them that was
  applied: there is an instant of the run, before and after which only others have moved the store, at which
  the table was at that version and the endpoint at the version its caller had read, and the change was made
  and the table put one version on.
\<close>

theorem NexusEndpoint_one_winner:
  assumes srv: "shared_aerospike Q srv store_of base_of work_of R live"
    and keep: "\<And>s s'. R s s' \<Longrightarrow> tableVersionOf E s \<noteq> v \<Longrightarrow> tableVersionOf E s' \<noteq> v"
    and reach: "(istep srv)\<^sup>*\<^sup>* (map (changeEndpoint E v) cs, db) (ps, db')"
    and win: "a < length ps" "ps ! a = Ret (Inr ())"
  shows "(\<forall>b < length ps. ps ! b = Ret (Inr ()) \<longrightarrow> a = b) \<and>
    (\<exists>s0 s1. a < length cs \<and> R (store_of db) s0 \<and> changed E v (cs ! a) s0 s1 \<and>
       tableVersionOf E s0 = v \<and> tableVersionOf E s1 = v + 1 \<and> R s1 (store_of db'))"
proof -
  let ?scs = "map (changeScope E v) cs"
  have reach': "(istep srv)\<^sup>*\<^sup>* (map (scopeP E) ?scs, db) (ps, db')" using reach changeEndpoint_scope [of E v, abs_def] by (simp add: o_def)
  have bodies: "txn_body t (snd sc (beginTxn E t))" if "sc \<in> set ?scs" for sc t using that by (auto intro: txn_body_change)
  have takes: "tableVersionOf E s = v \<and> tableVersionOf E s' \<noteq> v"
    if "i < length ?scs" "prun Q (snd (?scs ! i) (beginTxn E t)) s = (Inr x, s')" for i t s s' x
    using that changed_version [OF change_ok, of Q E v "cs ! i" E t s s'] by auto
  have "(\<forall>b y. b < length ps \<longrightarrow> ps ! b = Ret (Inr y) \<longrightarrow> a = b) \<and> a < length ?scs \<and>
    (\<exists>t s0 s1. R (store_of db) s0 \<and> prun Q (snd (?scs ! a) (beginTxn E t)) s0 = (Inr (), s1) \<and> R s1 (store_of db'))"
    by (rule shared_aerospike.winner_only [where avail = "\<lambda>s. tableVersionOf E s = v", OF srv reach' bodies takes keep win])
  then obtain t s0 s1 where only: "\<forall>b y. b < length ps \<longrightarrow> ps ! b = Ret (Inr y) \<longrightarrow> a = b" and a: "a < length ?scs"
    and s: "R (store_of db) s0" "prun Q (snd (?scs ! a) (beginTxn E t)) s0 = (Inr (), s1)" "R s1 (store_of db')" by blast
  have c: "changed E v (cs ! a) s0 s1" using change_ok s(2) a by simp
  have "a < length cs" "\<forall>b < length ps. ps ! b = Ret (Inr ()) \<longrightarrow> a = b" using a only by auto
  with c changed_version [OF c] s(1,3) show ?thesis by blast
qed

abbreviation "sampleEndpoint epID \<equiv> Upsert \<lparr>ne_ID = epID, ne_Version = 0, ne_Data = None\<rparr>"

lemma sampleEndpoint_run:
  "\<exists>db'. run (mem_server sampleQuirks) (changeEndpoint sample_env 0 (sampleEndpoint epID)) (mem_init Map.empty) = (Inr (), db')"
proof -
  obtain y db' where y: "run (mem_server sampleQuirks) (changeEndpoint sample_env 0 (sampleEndpoint epID)) (mem_init Map.empty) = (y, db')" by fastforce
  from mem.withTxn_quiet [OF txn_body_change y [unfolded changeEndpoint_scope scopeP_def]]
  obtain t s1 where "prun sampleQuirks (snd (changeScope sample_env 0 (sampleEndpoint epID)) (beginTxn sample_env t)) Map.empty = (y, s1)"
    by (auto simp: mem_init_def)
  then have "y = Inr ()"
    by (auto simp: upsertBody_def prun_tryP prun_tableVersion prun_putTableVersion Let_def prun_get prun_put tableVersionOf_def)
  with y show ?thesis by blast
qed

theorem NexusEndpoint_one_winner_witness:
  "\<exists>x db'. (istep (mem_server sampleQuirks))\<^sup>*\<^sup>*
     (map (changeEndpoint sample_env 0) [sampleEndpoint ''a'', sampleEndpoint ''b''], mem_init Map.empty) ([Ret (Inr ()), Ret x], db') \<and> x \<noteq> Inr () \<and>
     changed sample_env 0 (sampleEndpoint ''a'') Map.empty (m_store db')"
proof -
  obtain db1 where one: "run (mem_server sampleQuirks) (changeEndpoint sample_env 0 (sampleEndpoint ''a'')) (mem_init Map.empty) = (Inr (), db1)"
    using sampleEndpoint_run by blast
  obtain x db2 where "run (mem_server sampleQuirks) (changeEndpoint sample_env 0 (sampleEndpoint ''b'')) db1 = (x, db2)" by fastforce
  from run_isteps2 [OF one this] have race: "(istep (mem_server sampleQuirks))\<^sup>*\<^sup>*
     (map (changeEndpoint sample_env 0) [sampleEndpoint ''a'', sampleEndpoint ''b''], mem_init Map.empty) ([Ret (Inr ()), Ret x], db2)" by simp
  note win = NexusEndpoint_one_winner [OF shared.shared_aerospike_axioms _ race, of 0]
  then have "\<forall>b < length [Ret (Inr ()), Ret x]. [Ret (Inr ()), Ret x] ! b = Ret (Inr ()) \<longrightarrow> 0 = b" by simp
  then have "x \<noteq> Inr ()" by (auto dest: spec [of _ 1])
  moreover have "changed sample_env 0 (sampleEndpoint ''a'') Map.empty (m_store db2)" using win by (auto simp: mem_init_def)
  ultimately show ?thesis using race by blast
qed

end
