(* ===== verification/MetadataStore.thy ===== *)
theory MetadataStore
  imports HistoryStore
begin

text \<open>
  \<^verbatim>\<open>metadata_store.go\<close>: namespaces, a record by name and a pointer record by id, under one notification
  version that every change advances. This theory holds the operations.
\<close>

section \<open>The notification version\<close>

definition GetMetadata :: "env \<Rightarrow> int64 io" where
  "GetMetadata E =
     pbind (getP (readPolicy E) (namespaceMetadataKey E) [''notif_ver'']) (\<lambda>r. case r of
        Inl err \<Rightarrow> if isNotFound err then Ret (Inr 0) else Ret (Inl (convertError ''GetMetadata'' err))
      | Inr rec \<Rightarrow> Ret (Inr (binInt64 rec ''notif_ver'')))"

definition bumpNotificationVersion :: "env \<Rightarrow> int64 \<Rightarrow> txn \<Rightarrow> unit io" where
  "bumpNotificationVersion E expected txn =
     (if expected = 0 then
        pbind (putBinsP ((writePolicy E)\<lparr>wp_Txn := Some txn, wp_RecordExistsAction := CREATE_ONLY\<rparr>)
                 (namespaceMetadataKey E) [(''notif_ver'', GInt64 1)]) (\<lambda>w. case w of
           Inr _ \<Rightarrow> Ret (Inr ())
         | Inl err \<Rightarrow>
             if isKeyExists err then Ret (Inl (Unavailable ''namespace metadata changed concurrently; retry''))
             else Ret (Inl (convertError ''bumpNotificationVersion'' err)))
      else
        pbind (putBinsP (condWriteTxn E (ExpEqInt ''notif_ver'' expected) txn)
                 (namespaceMetadataKey E) [(''notif_ver'', GInt64 (expected + 1))]) (\<lambda>w. case w of
           Inr _ \<Rightarrow> Ret (Inr ())
         | Inl err \<Rightarrow>
             if isFilteredOut err then Ret (Inl (Unavailable ''namespace metadata changed concurrently; retry''))
             else Ret (Inl (convertError ''bumpNotificationVersion'' err))))"

definition conflictOrError :: "string \<Rightarrow> goerr \<Rightarrow> perr" where
  "conflictOrError operation err =
     (if isTxnConflict err \<or> isFilteredOut err then Unavailable operation else convertError operation err)"

text \<open>
  The transaction of a namespace change: the body's error aborts, its success commits; a failed commit is
  reported and, unlike in the other stores, not followed by an abort.
\<close>

definition namespaceTxn :: "env \<Rightarrow> string \<Rightarrow> (txnScope \<Rightarrow> 'a io) \<Rightarrow> 'a io" where
  "namespaceTxn E operation body =
     pbind newTxnP (\<lambda>txn. let t = beginTxn E txn in
     pbind (body t) (\<lambda>r. case r of
        Inl e \<Rightarrow> pbind (abortP txn) (\<lambda>_. Ret (Inl e))
      | Inr x \<Rightarrow> pbind (commitP txn) (\<lambda>c. case c of
            Inl err \<Rightarrow> Ret (Inl (conflictOrError operation err))
          | Inr _ \<Rightarrow> Ret (Inr x))))"

section \<open>Changing namespaces\<close>

definition namespaceBins :: "env \<Rightarrow> blob option \<Rightarrow> int64 \<Rightarrow> bool \<Rightarrow> string \<Rightarrow> (string \<times> gval) list" where
  "namespaceBins E namespace notificationVersion isGlobal nsID =
     blobBins E ''data'' ''enc'' namespace @
     [(''notif_ver'', GInt64 notificationVersion), (''is_global'', GBool isGlobal), (''ns_id'', GString nsID)]"

text \<open>A put with the error returns of the two insertions: a collision, any other error.\<close>

definition insertP :: "wpolicy \<Rightarrow> askey \<Rightarrow> (string \<times> gval) list \<Rightarrow> perr \<Rightarrow> string \<Rightarrow> unit io" where
  "insertP pol key bs collision operation =
     pbind (putBinsP pol key bs) (\<lambda>w. case w of
        Inr _ \<Rightarrow> Ret (Inr ())
      | Inl err \<Rightarrow> if isKeyExists err then Ret (Inl collision) else Ret (Inl (convertError operation err)))"

definition updateP :: "wpolicy \<Rightarrow> askey \<Rightarrow> (string \<times> gval) list \<Rightarrow> string \<Rightarrow> unit io" where
  "updateP pol key bs operation =
     pbind (putBinsP pol key bs) (\<lambda>w. case w of
        Inr _ \<Rightarrow> Ret (Inr ())
      | Inl err \<Rightarrow> Ret (Inl (convertError operation err)))"

definition removeP :: "wpolicy \<Rightarrow> askey \<Rightarrow> string \<Rightarrow> unit io" where
  "removeP pol key operation =
     pbind (deleteP pol key) (\<lambda>w. case w of
        Inr _ \<Rightarrow> Ret (Inr ())
      | Inl err \<Rightarrow> Ret (Inl (convertError operation err)))"

record namespace_req =
  nr_ID :: string
  nr_Name :: string
  nr_Namespace :: "blob option"
  nr_IsGlobal :: bool
  nr_NotificationVersion :: int64

definition CreateNamespace :: "env \<Rightarrow> namespace_req \<Rightarrow> string io" where
  "CreateNamespace E request =
     tryP (GetMetadata E) (\<lambda>version.
     namespaceTxn E ''CreateNamespace'' (\<lambda>t.
       let create = (ts_write t)\<lparr>wp_RecordExistsAction := CREATE_ONLY\<rparr> in
       tryP (insertP create (namespaceKey E (nr_Name request))
               (namespaceBins E (nr_Namespace request) version (nr_IsGlobal request) (nr_ID request))
               (NamespaceAlreadyExists (nr_Name request)) ''CreateNamespace'') (\<lambda>_.
       tryP (insertP create (namespaceByIDKey E (nr_ID request)) [(''ns_name'', GString (nr_Name request))]
               (NamespaceAlreadyExists (nr_ID request)) ''CreateNamespace'') (\<lambda>_.
       tryP (bumpNotificationVersion E version (ts_txn t)) (\<lambda>_.
       Ret (Inr (nr_ID request)))))))"

definition UpdateNamespace :: "env \<Rightarrow> namespace_req \<Rightarrow> unit io" where
  "UpdateNamespace E request =
     namespaceTxn E ''UpdateNamespace'' (\<lambda>t.
       tryP (updateP (ts_write t) (namespaceKey E (nr_Name request))
               (namespaceBins E (nr_Namespace request) (nr_NotificationVersion request) (nr_IsGlobal request) (nr_ID request))
               ''UpdateNamespace'') (\<lambda>_.
       bumpNotificationVersion E (nr_NotificationVersion request) (ts_txn t)))"

definition RenameNamespace :: "env \<Rightarrow> namespace_req \<Rightarrow> string \<Rightarrow> unit io" where
  "RenameNamespace E request previousName =
     namespaceTxn E ''RenameNamespace'' (\<lambda>t.
       tryP (insertP ((ts_write t)\<lparr>wp_RecordExistsAction := CREATE_ONLY\<rparr>) (namespaceKey E (nr_Name request))
               (namespaceBins E (nr_Namespace request) (nr_NotificationVersion request) (nr_IsGlobal request) (nr_ID request))
               (Unavailable ''RenameNamespace'') ''RenameNamespace'') (\<lambda>_.
       tryP (removeP (ts_del t) (namespaceKey E previousName) ''RenameNamespace'') (\<lambda>_.
       tryP (updateP (ts_write t) (namespaceByIDKey E (nr_ID request)) [(''ns_name'', GString (nr_Name request))] ''RenameNamespace'') (\<lambda>_.
       bumpNotificationVersion E (nr_NotificationVersion request) (ts_txn t)))))"

definition deleteNamespace :: "env \<Rightarrow> string \<Rightarrow> string \<Rightarrow> unit io" where
  "deleteNamespace E name nsID =
     tryP (GetMetadata E) (\<lambda>version.
     namespaceTxn E ''DeleteNamespace'' (\<lambda>t.
       tryP (removeP (ts_del t) (namespaceKey E name) ''DeleteNamespace'') (\<lambda>_.
       tryP (if nsID \<noteq> '''' then removeP (ts_del t) (namespaceByIDKey E nsID) ''DeleteNamespace'' else Ret (Inr ())) (\<lambda>_.
       bumpNotificationVersion E version (ts_txn t)))))"

definition DeleteNamespace :: "env \<Rightarrow> string \<Rightarrow> unit io" where
  "DeleteNamespace E nsID =
     pbind (getP (readPolicy E) (namespaceByIDKey E nsID) [''ns_name'']) (\<lambda>r. case r of
        Inl err \<Rightarrow> if isNotFound err then Ret (Inr ()) else Ret (Inl (convertError ''DeleteNamespace'' err))
      | Inr rec \<Rightarrow> deleteNamespace E (binString rec ''ns_name'') nsID)"

definition DeleteNamespaceByName :: "env \<Rightarrow> string \<Rightarrow> unit io" where
  "DeleteNamespaceByName E name =
     pbind (getP (readPolicy E) (namespaceKey E name) [''ns_id'']) (\<lambda>r. case r of
        Inl err \<Rightarrow> if isNotFound err then Ret (Inr ()) else Ret (Inl (convertError ''DeleteNamespaceByName'' err))
      | Inr rec \<Rightarrow> deleteNamespace E name (binString rec ''ns_id''))"

section \<open>Reading namespaces\<close>

record namespace_resp =
  ns_Namespace :: "blob option"
  ns_IsGlobal :: bool
  ns_NotificationVersion :: int64

definition namespaceFromRecord :: "env \<Rightarrow> as_record \<Rightarrow> namespace_resp" where
  "namespaceFromRecord E rec =
     \<lparr>ns_Namespace = readBlob E rec ''data'' ''enc'', ns_IsGlobal = binBool rec ''is_global'',
      ns_NotificationVersion = binInt64 rec ''notif_ver''\<rparr>"

definition getByName :: "env \<Rightarrow> bool \<Rightarrow> string \<Rightarrow> namespace_resp io" where
  "getByName E byID name =
     pbind (getP (readPolicy E) (namespaceKey E name) []) (\<lambda>r. case r of
        Inl err \<Rightarrow>
          if isNotFound err then
            (if byID then Ret (Inl (Unavailable ''namespace info temporarily unavailable'')) else Ret (Inl (NamespaceNotFound name)))
          else Ret (Inl (convertError ''GetNamespace'' err))
      | Inr rec \<Rightarrow> Ret (Inr (namespaceFromRecord E rec)))"

definition GetNamespace :: "env \<Rightarrow> string \<Rightarrow> string \<Rightarrow> namespace_resp io" where
  "GetNamespace E nsID name =
     (if nsID \<noteq> '''' \<and> name \<noteq> '''' then Ret (Inl (InvalidArgument ''Both ID and Name specified in request.''))
      else if nsID = '''' \<and> name = '''' then Ret (Inl (InvalidArgument ''Both ID and Name are empty.''))
      else if nsID \<noteq> '''' then
        pbind (getP (readPolicy E) (namespaceByIDKey E nsID) [''ns_name'']) (\<lambda>r. case r of
           Inl err \<Rightarrow>
             if isNotFound err then Ret (Inl (NamespaceNotFound nsID)) else Ret (Inl (convertError ''GetNamespace'' err))
         | Inr rec \<Rightarrow> getByName E True (binString rec ''ns_name''))
      else getByName E False name)"

text \<open>The loop of \<^verbatim>\<open>ListNamespaces\<close> that resumes behind a token; \<open>i\<close> counts the entries passed.\<close>

fun listStart :: "string \<Rightarrow> nat \<Rightarrow> (string \<times> 'a) list \<Rightarrow> nat" where
  "listStart token i [] = i"
| "listStart token i (e # es) = (if token < fst e then i else listStart token (i + 1) es)"

definition ListNamespaces :: "env \<Rightarrow> int \<Rightarrow> string \<Rightarrow> (namespace_resp list \<times> string) io" where
  "ListNamespaces E pageSize nextPageToken =
     pbind (scanAllP (kb_namespace E) (physicalSet E ''ns'')) (\<lambda>r. case r of
        Inl err \<Rightarrow> Ret (Inl (convertError ''ListNamespaces'' err))
      | Inr results \<Rightarrow>
          (case scanResults ''ListNamespaces'' results of
             Inl e \<Rightarrow> Ret (Inl e)
           | Inr recs \<Rightarrow>
               let found = sortByDigest fst (map (\<lambda>rec. (Digest rec, namespaceFromRecord E rec)) recs);
                   start = (if 0 < length nextPageToken then listStart nextPageToken 0 found else 0);
                   pageSize = (if pageSize \<le> 0 then int (length found) else pageSize);
                   stop = int start + pageSize;
                   stop = (if int (length found) < stop then length found else nat stop)
               in Ret (Inr (map snd (take (stop - start) (drop start found)),
                    if stop < length found then fst (found ! (stop - 1)) else []))))"

end
