(* ===== verification/MetadataProps.thy ===== *)
theory MetadataProps
  imports MetadataStore Exclusive
begin

text \<open>
  Names and ids of namespaces. Every namespace has a record under its name that carries its id and a
  pointer under its id that carries its name; \<open>namesOk\<close> says that the two always lead to each other. The
  changes keep it, each at one instant; the deletion by id, which looks the name up before its transaction
  begins, does not when a rename comes in between.
\<close>

section \<open>Transactions of namespace changes\<close>

text \<open>A change that succeeds is a scope that succeeds: the two differ only in what follows a failed commit.\<close>

lemma namespaceTxn_withTxn:
  "run srv (namespaceTxn E operation body) db = (Inr x, db') \<longleftrightarrow> run srv (withTxn E operation body) db = (Inr x, db')"
  by (auto simp: namespaceTxn_def withTxn_def run_pbind newTxnP_def commitTxn_def commitP_def abortP_def finishTxn_def Let_def
      split: prod.splits sum.splits resp.splits)

section \<open>Parts\<close>

definition notifVersion :: "env \<Rightarrow> store \<Rightarrow> int64" where
  "notifVersion E s = (case s (namespaceMetadataKey E) of None \<Rightarrow> 0 | Some r \<Rightarrow> bin_int ''notif_ver'' r)"

lemma txn_body_bump [txn_intros]: "txn_body t (bumpNotificationVersion E v t)"
  by (auto simp: bumpNotificationVersion_def intro!: txn_intros split: sum.splits)

lemma txn_body_insertP [txn_intros]: "wp_Txn pol = Some t \<Longrightarrow> txn_body t (insertP pol k bs c op)"
  by (auto simp: insertP_def intro!: txn_intros split: sum.splits)

lemma txn_body_updateP [txn_intros]: "wp_Txn pol = Some t \<Longrightarrow> txn_body t (updateP pol k bs op)"
  by (auto simp: updateP_def intro!: txn_intros split: sum.splits)

lemma txn_body_removeP [txn_intros]: "wp_Txn pol = Some t \<Longrightarrow> txn_body t (removeP pol k op)"
  by (auto simp: removeP_def intro!: txn_intros split: sum.splits)

lemma prun_insertP:
  "wp_RecordExistsAction pol = CREATE_ONLY \<Longrightarrow> wp_FilterExpression pol = None \<Longrightarrow>
   prun Q (insertP pol k bs c op) s = (if s k = None then (Inr (), s(k \<mapsto> put_bins bs Map.empty)) else (Inl c, s))"
  by (auto simp: insertP_def prog_simps admit_def split: option.splits)

lemma prun_updateP:
  "wp_RecordExistsAction pol = UPDATE \<Longrightarrow> wp_FilterExpression pol = None \<Longrightarrow>
   prun Q (updateP pol k bs op) s = (Inr (), s(k \<mapsto> put_bins bs (old_bins (s k))))"
  by (simp add: updateP_def prog_simps)

lemma prun_removeP: "wp_FilterExpression pol = None \<Longrightarrow> prun Q (removeP pol k op) s = (Inr (), s(k := None))"
  by (auto simp: removeP_def prog_simps admit_def fun_upd_idem split: option.splits)

lemma prun_bump_ok:
  assumes "prun Q (bumpNotificationVersion E v t) s = (Inr x, s')"
  shows "notifVersion E s = v \<and> (\<exists>r. s' = s(namespaceMetadataKey E \<mapsto> r) \<and> bin_int ''notif_ver'' r = v + 1)"
  using assms by (auto simp: notifVersion_def policy_defs bumpNotificationVersion_def prog_simps admit_def bin_int_def split: if_splits option.splits)

section \<open>Names and ids\<close>

definition nameOf :: "env \<Rightarrow> store \<Rightarrow> string \<rightharpoonup> string" where
  "nameOf E s nsID = map_option (bin_str ''ns_name'') (s (namespaceByIDKey E nsID))"

definition idOf :: "env \<Rightarrow> store \<Rightarrow> string \<rightharpoonup> string" where
  "idOf E s name = map_option (bin_str ''ns_id'') (s (namespaceKey E name))"

definition namesOk :: "env \<Rightarrow> store \<Rightarrow> bool" where
  "namesOk E s \<longleftrightarrow> (\<forall>name nsID. idOf E s name = Some nsID \<longleftrightarrow> nameOf E s nsID = Some name)"

lemma namespace_keys [simp]:
  "namespaceKey E a = namespaceKey E b \<longleftrightarrow> a = b" "namespaceByIDKey E a = namespaceByIDKey E b \<longleftrightarrow> a = b"
  "namespaceKey E a \<noteq> namespaceByIDKey E b" "namespaceByIDKey E b \<noteq> namespaceKey E a"
  "namespaceKey E a \<noteq> namespaceMetadataKey E" "namespaceMetadataKey E \<noteq> namespaceKey E a"
  "namespaceByIDKey E a \<noteq> namespaceMetadataKey E" "namespaceMetadataKey E \<noteq> namespaceByIDKey E a"
  by (simp_all add: namespaceKey_def namespaceByIDKey_def namespaceMetadataKey_def)

lemma names_upd [simp]:
  "nameOf E (s(namespaceKey E a := r)) = nameOf E s" "idOf E (s(namespaceByIDKey E a := r)) = idOf E s"
  "nameOf E (s(namespaceMetadataKey E := r)) = nameOf E s" "idOf E (s(namespaceMetadataKey E := r)) = idOf E s"
  "nameOf E (s(namespaceByIDKey E a := r)) = (nameOf E s)(a := map_option (bin_str ''ns_name'') r)"
  "idOf E (s(namespaceKey E a := r)) = (idOf E s)(a := map_option (bin_str ''ns_id'') r)"
  by (auto simp: nameOf_def idOf_def fun_eq_iff)

lemma bin_names [simp]:
  "bin_str ''ns_id'' (put_bins (namespaceBins E ns v g nsID) r) = nsID" "bin_str ''ns_name'' (r(''ns_name'' \<mapsto> BVal (GString n))) = n"
  by (cases ns; simp add: namespaceBins_def blobBins_def bin_str_def) (simp add: bin_str_def)

lemma names_None: "idOf E s name = None \<longleftrightarrow> s (namespaceKey E name) = None" "nameOf E s nsID = None \<longleftrightarrow> s (namespaceByIDKey E nsID) = None"
  by (simp_all add: idOf_def nameOf_def)

definition createNsBody :: "env \<Rightarrow> namespace_req \<Rightarrow> int64 \<Rightarrow> txnScope \<Rightarrow> string io" where
  "createNsBody E request version t =
     (let create = (ts_write t)\<lparr>wp_RecordExistsAction := CREATE_ONLY\<rparr> in
      tryP (insertP create (namespaceKey E (nr_Name request))
              (namespaceBins E (nr_Namespace request) version (nr_IsGlobal request) (nr_ID request))
              (NamespaceAlreadyExists (nr_Name request)) ''CreateNamespace'') (\<lambda>_.
      tryP (insertP create (namespaceByIDKey E (nr_ID request)) [(''ns_name'', GString (nr_Name request))]
              (NamespaceAlreadyExists (nr_ID request)) ''CreateNamespace'') (\<lambda>_.
      tryP (bumpNotificationVersion E version (ts_txn t)) (\<lambda>_.
      Ret (Inr (nr_ID request))))))"

definition renameNsBody :: "env \<Rightarrow> namespace_req \<Rightarrow> string \<Rightarrow> txnScope \<Rightarrow> unit io" where
  "renameNsBody E request previousName t =
     tryP (insertP ((ts_write t)\<lparr>wp_RecordExistsAction := CREATE_ONLY\<rparr>) (namespaceKey E (nr_Name request))
             (namespaceBins E (nr_Namespace request) (nr_NotificationVersion request) (nr_IsGlobal request) (nr_ID request))
             (Unavailable ''RenameNamespace'') ''RenameNamespace'') (\<lambda>_.
     tryP (removeP (ts_del t) (namespaceKey E previousName) ''RenameNamespace'') (\<lambda>_.
     tryP (updateP (ts_write t) (namespaceByIDKey E (nr_ID request)) [(''ns_name'', GString (nr_Name request))] ''RenameNamespace'') (\<lambda>_.
     bumpNotificationVersion E (nr_NotificationVersion request) (ts_txn t))))"

definition deleteNsBody :: "env \<Rightarrow> string \<Rightarrow> string \<Rightarrow> int64 \<Rightarrow> txnScope \<Rightarrow> unit io" where
  "deleteNsBody E name nsID version t =
     tryP (removeP (ts_del t) (namespaceKey E name) ''DeleteNamespace'') (\<lambda>_.
     tryP (if nsID \<noteq> '''' then removeP (ts_del t) (namespaceByIDKey E nsID) ''DeleteNamespace'' else Ret (Inr ())) (\<lambda>_.
     bumpNotificationVersion E version (ts_txn t)))"

lemma namespace_scopes:
  "CreateNamespace E req = tryP (GetMetadata E) (\<lambda>version. namespaceTxn E ''CreateNamespace'' (createNsBody E req version))"
  "RenameNamespace E req prev = namespaceTxn E ''RenameNamespace'' (renameNsBody E req prev)"
  "deleteNamespace E name nsID = tryP (GetMetadata E) (\<lambda>version. namespaceTxn E ''DeleteNamespace'' (deleteNsBody E name nsID version))"
  by (simp_all add: CreateNamespace_def RenameNamespace_def deleteNamespace_def createNsBody_def [abs_def] renameNsBody_def [abs_def] deleteNsBody_def [abs_def])

lemma txn_body_namespace [txn_intros]:
  "txn_body t (createNsBody E req version (beginTxn E' t))" "txn_body t (renameNsBody E req prev (beginTxn E' t))"
  "txn_body t (deleteNsBody E name nsID version (beginTxn E' t))"
  by (auto simp: createNsBody_def renameNsBody_def deleteNsBody_def Let_def intro!: txn_intros)

text \<open>What the changes do to names, ids and the notification version.\<close>

lemma createNs_ok:
  assumes "prun Q (createNsBody E req version (beginTxn E' t)) s0 = (Inr x, s1)"
  shows "x = nr_ID req \<and> idOf E s0 (nr_Name req) = None \<and> nameOf E s0 (nr_ID req) = None \<and>
    idOf E s1 = (idOf E s0)(nr_Name req \<mapsto> nr_ID req) \<and> nameOf E s1 = (nameOf E s0)(nr_ID req \<mapsto> nr_Name req) \<and>
    notifVersion E s0 = version \<and> notifVersion E s1 = version + 1"
  using assms
  by (auto simp: createNsBody_def Let_def prun_tryP_ok prun_insertP names_None notifVersion_def dest!: prun_bump_ok split: if_splits)

lemma renameNs_ok:
  assumes "prun Q (renameNsBody E req prev (beginTxn E' t)) s0 = (Inr x, s1)"
  shows "idOf E s0 (nr_Name req) = None \<and> idOf E s1 = (idOf E s0)(nr_Name req \<mapsto> nr_ID req, prev := None) \<and>
    nameOf E s1 = (nameOf E s0)(nr_ID req \<mapsto> nr_Name req) \<and> 
    notifVersion E s0 = nr_NotificationVersion req \<and> notifVersion E s1 = nr_NotificationVersion req + 1"
  using assms
  by (auto simp: renameNsBody_def prun_tryP_ok prun_insertP prun_removeP prun_updateP names_None notifVersion_def fun_upd_twist
      dest!: prun_bump_ok split: if_splits)

lemma deleteNs_ok:
  assumes "prun Q (deleteNsBody E name nsID version (beginTxn E' t)) s0 = (Inr x, s1)"
  shows "idOf E s1 = (idOf E s0)(name := None) \<and> (nsID \<noteq> '''' \<longrightarrow> nameOf E s1 = (nameOf E s0)(nsID := None))"
  using assms
  by (auto simp: deleteNsBody_def prun_tryP_ok prun_removeP dest!: prun_bump_ok split: if_splits)

section \<open>Changes keep names and ids together\<close>

datatype ns_write = NsCreate namespace_req | NsRename namespace_req string

fun nsWrite :: "env \<Rightarrow> ns_write \<Rightarrow> unit io" where
  "nsWrite E (NsCreate req) = tryP (CreateNamespace E req) (\<lambda>_. Ret (Inr ()))"
| "nsWrite E (NsRename req prev) = RenameNamespace E req prev"

text \<open>What the caller of a rename promises: the previous name is the name of the namespace.\<close>

fun nsAsked :: "env \<Rightarrow> ns_write \<Rightarrow> store \<Rightarrow> bool" where
  "nsAsked E (NsCreate req) s \<longleftrightarrow> True"
| "nsAsked E (NsRename req prev) s \<longleftrightarrow> idOf E s prev = Some (nr_ID req)"

fun nsDone :: "env \<Rightarrow> ns_write \<Rightarrow> store \<Rightarrow> store \<Rightarrow> bool" where
  "nsDone E (NsCreate req) s0 s1 \<longleftrightarrow> idOf E s0 (nr_Name req) = None \<and> nameOf E s0 (nr_ID req) = None \<and>
     idOf E s1 = (idOf E s0)(nr_Name req \<mapsto> nr_ID req)"
| "nsDone E (NsRename req prev) s0 s1 \<longleftrightarrow> idOf E s0 (nr_Name req) = None \<and> idOf E s1 = (idOf E s0)(nr_Name req \<mapsto> nr_ID req, prev := None)"

text \<open>Two partial functions that are inverse to each other stay so.\<close>

lemma inverse_create:
  assumes "\<forall>n i. f n = Some i \<longleftrightarrow> g i = Some n" "f a = None" "g b = None"
  shows "\<forall>n i. (f(a \<mapsto> b)) n = Some i \<longleftrightarrow> (g(b \<mapsto> a)) i = Some n"
proof (intro allI)
  fix n i
  have H: "f n = Some i \<longleftrightarrow> g i = Some n" for n i using assms(1) by blast
  have "f n = Some i \<longleftrightarrow> g i = Some n" "g i \<noteq> Some a" "f n \<noteq> Some b" using H [of n i] H [of a i] H [of n b] assms(2,3) by auto
  then show "(f(a \<mapsto> b)) n = Some i \<longleftrightarrow> (g(b \<mapsto> a)) i = Some n" by auto
qed

lemma inverse_rename:
  assumes "\<forall>n i. f n = Some i \<longleftrightarrow> g i = Some n" "f new = None" "f prev = Some i0"
  shows "\<forall>n i. (f(new \<mapsto> i0, prev := None)) n = Some i \<longleftrightarrow> (g(i0 \<mapsto> new)) i = Some n"
proof (intro allI)
  fix n i
  have H: "f n = Some i \<longleftrightarrow> g i = Some n" for n i using assms(1) by blast
  have d: "new \<noteq> prev" and g: "g i \<noteq> Some new" using assms(2,3) H [of new i] by auto
  have u: "f n = Some i0 \<longrightarrow> n = prev" "g i = Some prev \<longrightarrow> i = i0" using H [of n i0] H [of prev i0] H [of prev i] assms(3) by auto
  consider "n = prev" | "n = new" "n \<noteq> prev" | "n \<noteq> prev" "n \<noteq> new" by blast
  then show "(f(new \<mapsto> i0, prev := None)) n = Some i \<longleftrightarrow> (g(i0 \<mapsto> new)) i = Some n"
  proof cases
    case 1
    then show ?thesis using d u(2) by auto
  next
    case 2
    then show ?thesis using g by auto
  next
    case 3
    then show ?thesis using H [of n i] u(1) by (cases "i = i0") auto
  qed
qed

context aerospike
begin

lemma GetMetadata_run: "run srv (GetMetadata E) db = (y, db') \<Longrightarrow> interferes (store_of db) (store_of db')"
proof -
  assume "run srv (GetMetadata E) db = (y, db')"
  then have "snd (srv (CGet (readPolicy E) (namespaceMetadataKey E) [''notif_ver'']) db) = db'"
    by (auto simp: GetMetadata_def getP_def split: prod.splits sum.splits if_splits)
  then show ?thesis using read_command [of "CGet (readPolicy E) (namespaceMetadataKey E) [''notif_ver'']"]
    by (cases "srv (CGet (readPolicy E) (namespaceMetadataKey E) [''notif_ver'']) db") (auto simp: policy_defs)
qed

lemma nsWrite_ok:
  assumes "run srv (nsWrite E w) db = (Inr (), db')"
  shows "\<exists>s0 s1. interferes (store_of db) s0 \<and> interferes s1 (store_of db') \<and> nsDone E w s0 s1 \<and> notifVersion E s1 = notifVersion E s0 + 1 \<and>
    (nsAsked E w s0 \<longrightarrow> namesOk E s0 \<longrightarrow> namesOk E s1)"
proof (cases w)
  case (NsCreate req)
  with assms obtain v db1 i where v: "run srv (GetMetadata E) db = (Inr v, db1)"
    and t: "run srv (namespaceTxn E ''CreateNamespace'' (createNsBody E req v)) db1 = (Inr i, db')"
    by (auto simp: namespace_scopes tryP_def run_pbind split: prod.splits sum.splits)
  from withTxn_ok [OF _ t [unfolded namespaceTxn_withTxn]] obtain u s0 s1 where s: "interferes (store_of db1) s0"
    "prun Q (createNsBody E req v (beginTxn E u)) s0 = (Inr i, s1)" "interferes s1 (store_of db')"
    using txn_body_namespace(1) by blast
  note c = createNs_ok [OF s(2)]
  have "namesOk E s1" if "namesOk E s0" using c that inverse_create [of "idOf E s0" "nameOf E s0"] by (simp add: namesOk_def)
  moreover have "nsDone E w s0 s1" "notifVersion E s1 = notifVersion E s0 + 1" using c NsCreate by simp_all
  moreover have "interferes (store_of db) s0" by (rule interferes_trans [OF GetMetadata_run [OF v] s(1)])
  ultimately show ?thesis using s(3) by blast
next
  case (NsRename req prev)
  with assms have "run srv (withTxn E ''RenameNamespace'' (renameNsBody E req prev)) db = (Inr (), db')"
    by (simp add: namespace_scopes namespaceTxn_withTxn)
  from withTxn_ok [OF _ this] obtain u s0 s1 where s: "interferes (store_of db) s0"
    "prun Q (renameNsBody E req prev (beginTxn E u)) s0 = (Inr (), s1)" "interferes s1 (store_of db')"
    using txn_body_namespace(2) by blast
  note c = renameNs_ok [OF s(2)]
  have "namesOk E s1" if "namesOk E s0" "idOf E s0 prev = Some (nr_ID req)"
    using c that inverse_rename [of "idOf E s0" "nameOf E s0" "nr_Name req" prev "nr_ID req"] by (simp add: namesOk_def)
  moreover have "nsDone E w s0 s1" "notifVersion E s1 = notifVersion E s0 + 1" using c NsRename by simp_all
  ultimately show ?thesis using s(1,3) NsRename by (intro exI [of _ s0] exI [of _ s1]) simp
qed

end

text \<open>
  C37. Creating and renaming a namespace keep names and ids together: a change that succeeds happened at one
  instant, at which the name was free and the notification version the caller knew was current and was
  advanced, and if every name led to its id and back before that instant it did so after; no reader of the
  two records at an instant ever sees a name whose id leads elsewhere.
\<close>

theorem namespace_names_bijective:
  assumes srv: "aerospike Q srv store_of base_of work_of R" and run: "run srv (nsWrite E w) db = (Inr (), db')"
  shows "\<exists>s0 s1. R (store_of db) s0 \<and> R s1 (store_of db') \<and> nsDone E w s0 s1 \<and> notifVersion E s1 = notifVersion E s0 + 1 \<and>
    (nsAsked E w s0 \<longrightarrow> namesOk E s0 \<longrightarrow> namesOk E s1)"
  using aerospike.nsWrite_ok [OF srv run] .

section \<open>Deleting by id\<close>

text \<open>The namespace \<open>a\<close> with id \<open>1\<close>; one client deletes id \<open>1\<close>, another renames \<open>a\<close> to \<open>b\<close>.\<close>

definition sampleNames :: store where
  "sampleNames = [namespaceKey sample_env ''a'' \<mapsto> [''ns_id'' \<mapsto> BVal (GString ''1'')],
     namespaceByIDKey sample_env ''1'' \<mapsto> [''ns_name'' \<mapsto> BVal (GString ''a'')],
     namespaceMetadataKey sample_env \<mapsto> [''notif_ver'' \<mapsto> BVal (GInt 5)]]"

abbreviation "sampleRename \<equiv> \<lparr>nr_ID = ''1'', nr_Name = ''b'', nr_Namespace = None, nr_IsGlobal = False, nr_NotificationVersion = 5\<rparr>"

lemma sampleNames_read:
  "idOf sample_env sampleNames = [''a'' \<mapsto> ''1'']" "nameOf sample_env sampleNames = [''1'' \<mapsto> ''a'']" "notifVersion sample_env sampleNames = 5"
  by (auto simp: idOf_def nameOf_def notifVersion_def sampleNames_def bin_str_def bin_int_def fun_eq_iff)

lemma sampleNames_ok: "namesOk sample_env sampleNames"
  by (auto simp: namesOk_def sampleNames_read split: if_splits)

lemma mem_namespaceTxn:
  assumes "\<And>t. txn_body t (body (beginTxn E t))" "\<And>t. \<exists>s'. prun Q (body (beginTxn E t)) (m_store db) = (Inr x, s')"
  shows "\<exists>t db' s'. run (mem_server Q) (namespaceTxn E operation body) db = (Inr x, db') \<and> prun Q (body (beginTxn E t)) (m_store db) = (Inr x, s') \<and> m_store db' = s'"
proof -
  obtain y db' where y: "run (mem_server Q) (withTxn E operation body) db = (y, db')" by fastforce
  from mem.withTxn_quiet [OF assms(1) y] assms(2) obtain t s' where
    "prun Q (body (beginTxn E t)) (m_store db) = (y, s')" "m_store db' = (case y of Inl _ \<Rightarrow> m_store db | Inr _ \<Rightarrow> s')" by blast
  with assms(2) [of t] y show ?thesis by (auto simp: namespaceTxn_withTxn)
qed

lemma prun_bump_run:
  "s (namespaceMetadataKey E) = Some r \<Longrightarrow> r ''notif_ver'' = Some (BVal (GInt v)) \<Longrightarrow> v \<noteq> 0 \<Longrightarrow>
   \<exists>s'. prun Q (bumpNotificationVersion E v t) s = (Inr (), s')"
  by (auto simp: bumpNotificationVersion_def prog_simps admit_def policy_defs)

lemma sampleRename_run:
  "\<exists>s'. prun Q (renameNsBody sample_env sampleRename ''a'' (beginTxn sample_env t)) sampleNames = (Inr (), s') \<and>
     (\<exists>r. s' (namespaceMetadataKey sample_env) = Some r \<and> r ''notif_ver'' = Some (BVal (GInt 6)))"
  by (simp add: renameNsBody_def prun_tryP prun_insertP prun_removeP prun_updateP sampleNames_def bumpNotificationVersion_def prog_simps admit_def policy_defs)

lemma sampleRename_mem:
  assumes "m_store db = sampleNames"
  shows "\<exists>db'. run (mem_server sampleQuirks) (RenameNamespace sample_env sampleRename ''a'') db = (Inr (), db') \<and>
    idOf sample_env (m_store db') = [''b'' \<mapsto> ''1''] \<and>
    (\<exists>r. m_store db' (namespaceMetadataKey sample_env) = Some r \<and> r ''notif_ver'' = Some (BVal (GInt 6)))"
proof -
  obtain t db' s' where d: "run (mem_server sampleQuirks) (namespaceTxn sample_env ''RenameNamespace'' (renameNsBody sample_env sampleRename ''a'')) db = (Inr (), db')"
    "prun sampleQuirks (renameNsBody sample_env sampleRename ''a'' (beginTxn sample_env t)) sampleNames = (Inr (), s')" "m_store db' = s'"
    using mem_namespaceTxn [where E = sample_env and body = "renameNsBody sample_env sampleRename ''a''" and db = db and Q = sampleQuirks and x = "()",
        OF txn_body_namespace(2)] sampleRename_run assms by metis
  have "idOf sample_env s' = [''b'' \<mapsto> ''1'']" using renameNs_ok [OF d(2)] by (simp add: sampleNames_read fun_upd_twist)
  with d sampleRename_run [of sampleQuirks t] show ?thesis by (auto simp: namespace_scopes)
qed

lemma sampleDelete_mem:
  assumes "m_store db (namespaceMetadataKey sample_env) = Some r" "r ''notif_ver'' = Some (BVal (GInt 6))"
  shows "\<exists>db'. run (mem_server sampleQuirks) (deleteNamespace sample_env ''a'' ''1'') db = (Inr (), db') \<and>
    idOf sample_env (m_store db') = (idOf sample_env (m_store db))(''a'' := None) \<and> nameOf sample_env (m_store db') ''1'' = None"
proof -
  have plain: "plain_prog (GetMetadata sample_env)" by (auto simp: GetMetadata_def intro!: txn_intros split: sum.splits)
  have "prun sampleQuirks (GetMetadata sample_env) (m_store db) = (Inr 6, m_store db)" using assms by (simp add: GetMetadata_def prun_get bin_int_def)
  then obtain db1 where one: "run (mem_server sampleQuirks) (GetMetadata sample_env) db = (Inr 6, db1)" "m_store db1 = m_store db"
    using mem.quiet_plain_run [OF plain] by blast
  let ?s = "\<lambda>u. (m_store db)(namespaceKey sample_env ''a'' := None, namespaceByIDKey sample_env ''1'' := None)"
  have "\<exists>s'. prun sampleQuirks (deleteNsBody sample_env ''a'' ''1'' 6 (beginTxn sample_env t)) (m_store db1) = (Inr (), s')" for t
    using prun_bump_run [of "?s ()" sample_env r 6 sampleQuirks t] assms
    by (simp add: one(2) deleteNsBody_def prun_tryP prun_removeP)
  from mem_namespaceTxn [OF txn_body_namespace(3) this] obtain t db' s' where
    d: "run (mem_server sampleQuirks) (namespaceTxn sample_env ''DeleteNamespace'' (deleteNsBody sample_env ''a'' ''1'' 6)) db1 = (Inr (), db')"
    "prun sampleQuirks (deleteNsBody sample_env ''a'' ''1'' 6 (beginTxn sample_env t)) (m_store db1) = (Inr (), s')" "m_store db' = s'" by metis
  from deleteNs_ok [OF d(2)] one d show ?thesis by (simp add: namespace_scopes tryP_def run_pbind)
qed

text \<open>
  \<^verbatim>\<open>DeleteNamespace\<close> looks its name up before its transaction begins and before it reads the notification
  version. When a rename comes in between, both are told that they succeeded and the namespace is still
  there: its new name leads to the id, and nothing leads from the id to the name.
\<close>

lemma DeleteNamespace_misses_rename:
  "\<exists>db'. (istep (mem_server sampleQuirks))\<^sup>*\<^sup>*
      ([DeleteNamespace sample_env ''1'', RenameNamespace sample_env sampleRename ''a''], mem_init sampleNames) ([Ret (Inr ()), Ret (Inr ())], db') \<and>
    namesOk sample_env sampleNames \<and> idOf sample_env (m_store db') ''b'' = Some ''1'' \<and> nameOf sample_env (m_store db') ''1'' = None"
proof -
  let ?D = "DeleteNamespace sample_env ''1''" and ?R = "RenameNamespace sample_env sampleRename ''a''"
  obtain db1 where a: "advance (mem_server sampleQuirks) 1 ?D (mem_init sampleNames) = (deleteNamespace sample_env ''a'' ''1'', db1)" "m_store db1 = sampleNames"
    by (simp add: DeleteNamespace_def getP_def mem_init_def sampleNames_def policy_defs binString_def fun_upd_twist)
  obtain db2 r where b: "run (mem_server sampleQuirks) ?R db1 = (Inr (), db2)" "idOf sample_env (m_store db2) = [''b'' \<mapsto> ''1'']"
    "m_store db2 (namespaceMetadataKey sample_env) = Some r" "r ''notif_ver'' = Some (BVal (GInt 6))"
    using sampleRename_mem [OF a(2)] by blast
  obtain db3 where c: "run (mem_server sampleQuirks) (deleteNamespace sample_env ''a'' ''1'') db2 = (Inr (), db3)"
    "idOf sample_env (m_store db3) = (idOf sample_env (m_store db2))(''a'' := None)" "nameOf sample_env (m_store db3) ''1'' = None"
    using sampleDelete_mem [OF b(3,4)] by blast
  have "(istep (mem_server sampleQuirks))\<^sup>*\<^sup>* ([?D, ?R], mem_init sampleNames) ([?D, ?R][0 := deleteNamespace sample_env ''a'' ''1''], db1)"
    by (rule advance_isteps [OF _ _ a(1)]) simp_all
  moreover have "(istep (mem_server sampleQuirks))\<^sup>*\<^sup>* ([deleteNamespace sample_env ''a'' ''1'', ?R], db1) ([deleteNamespace sample_env ''a'' ''1'', ?R][1 := Ret (Inr ())], db2)"
    by (rule run_isteps [OF _ _ b(1)]) simp_all
  moreover have "(istep (mem_server sampleQuirks))\<^sup>*\<^sup>* ([deleteNamespace sample_env ''a'' ''1'', Ret (Inr ())], db2) ([deleteNamespace sample_env ''a'' ''1'', Ret (Inr ())][0 := Ret (Inr ())], db3)"
    by (rule run_isteps [OF _ _ c(1)]) simp_all
  ultimately have "(istep (mem_server sampleQuirks))\<^sup>*\<^sup>* ([?D, ?R], mem_init sampleNames) ([Ret (Inr ()), Ret (Inr ())], db3)" by simp
  with sampleNames_ok b(2) c(2,3) show ?thesis by auto
qed

theorem namespace_names_bijective_witness:
  "\<exists>s1. nsDone sample_env (NsRename sampleRename ''a'') sampleNames s1 \<and> namesOk sample_env s1"
proof -
  obtain db' where "run (mem_server sampleQuirks) (nsWrite sample_env (NsRename sampleRename ''a'')) (mem_init sampleNames) = (Inr (), db')"
    using sampleRename_mem [of "mem_init sampleNames"] by (auto simp: mem_init_def)
  from namespace_names_bijective [OF mem.aerospike_axioms this] show ?thesis
    using sampleNames_ok by (auto simp: mem_init_def sampleNames_read)
qed

end
