(* ===== verification/ClusterMetadataStore.thy ===== *)
theory ClusterMetadataStore
  imports HistoryStore
begin

text \<open>
  \<^verbatim>\<open>cluster_metadata_store.go\<close>: versioned cluster metadata, and cluster membership with stored expiry times.
  This theory holds the operations. \<^verbatim>\<open>time.Now()\<close> is the argument \<open>now\<close>, in nanoseconds; the key the
  client attaches to a scanned record is the parameter \<open>keyOf\<close>.
\<close>

section \<open>Cluster metadata\<close>

record cluster_metadata =
  cm_ClusterMetadata :: "blob option"
  cm_Version :: int64

definition clusterMetadataOf :: "env \<Rightarrow> as_record \<Rightarrow> cluster_metadata" where
  "clusterMetadataOf E rec = \<lparr>cm_ClusterMetadata = readBlob E rec ''data'' ''enc'', cm_Version = binInt64 rec ''version''\<rparr>"

definition GetClusterMetadata :: "env \<Rightarrow> string \<Rightarrow> cluster_metadata io" where
  "GetClusterMetadata E clusterName =
     pbind (getP (readPolicy E) (clusterMetadataKey E clusterName) []) (\<lambda>r. case r of
        Inl err \<Rightarrow> Ret (Inl (convertError ''GetClusterMetadata'' err))
      | Inr rec \<Rightarrow> Ret (Inr (clusterMetadataOf E rec)))"

definition SaveClusterMetadata :: "env \<Rightarrow> string \<Rightarrow> blob option \<Rightarrow> int64 \<Rightarrow> bool io" where
  "SaveClusterMetadata E clusterName metadata version =
     (let key = clusterMetadataKey E clusterName;
          bs = blobBins E ''data'' ''enc'' metadata @ [(''version'', GInt64 (version + 1))]
      in if version = 0 then
           pbind (putBinsP (createPolicy E) key bs) (\<lambda>w. case w of
              Inr _ \<Rightarrow> Ret (Inr True)
            | Inl err \<Rightarrow> if isKeyExists err then Ret (Inr False) else Ret (Inl (convertError ''SaveClusterMetadata'' err)))
         else
           pbind (putBinsP (condWrite E (ExpEqInt ''version'' version)) key bs) (\<lambda>w. case w of
              Inr _ \<Rightarrow> Ret (Inr True)
            | Inl err \<Rightarrow>
                if isFilteredOut err \<or> isNotFound err then Ret (Inr False)
                else Ret (Inl (convertError ''SaveClusterMetadata'' err))))"

definition DeleteClusterMetadata :: "env \<Rightarrow> string \<Rightarrow> unit io" where
  "DeleteClusterMetadata E clusterName =
     pbind (deleteP (deletePolicy E) (clusterMetadataKey E clusterName)) (\<lambda>r. case r of
        Inl err \<Rightarrow> Ret (Inl (convertError ''DeleteClusterMetadata'' err))
      | Inr _ \<Rightarrow> Ret (Inr ()))"

definition scanSet :: "env \<Rightarrow> string \<Rightarrow> string \<Rightarrow> as_record list io" where
  "scanSet E logicalSet operation =
     pbind (scanAllP (kb_namespace E) (physicalSet E logicalSet)) (\<lambda>r. case r of
        Inl err \<Rightarrow> Ret (Inl (convertError operation err))
      | Inr results \<Rightarrow> Ret (scanResults operation results))"

text \<open>The sort, the cursor and the page of a listing whose entries carry the digest of their record.\<close>

definition digestPage :: "(string \<times> 'a) list \<Rightarrow> string \<Rightarrow> int \<Rightarrow> 'a list \<times> string" where
  "digestPage found nextPageToken pageSize =
     (let found = sortByDigest fst found;
          start = pageStart (length found) nextPageToken (\<lambda>i. fst (found ! i));
          stop = pageEnd start pageSize (length found)
      in (map snd (take (stop - start) (drop start found)), if stop < length found then fst (found ! (stop - 1)) else []))"

definition ListClusterMetadata :: "env \<Rightarrow> int \<Rightarrow> string \<Rightarrow> (cluster_metadata list \<times> string) io" where
  "ListClusterMetadata E pageSize nextPageToken =
     tryP (scanSet E ''cmeta'' ''ListClusterMetadata'') (\<lambda>records.
       Ret (Inr (digestPage (map (\<lambda>rec. (Digest rec, clusterMetadataOf E rec)) records) nextPageToken pageSize)))"

section \<open>Membership\<close>

record member =
  mb_Role :: int
  mb_HostID :: bytes
  mb_RPCAddress :: "bytes option"
  mb_RPCPort :: "16 word"
  mb_SessionStart :: int64
  mb_LastHeartbeat :: int64
  mb_RecordExpiry :: int64

record upsert_member_req =
  um_HostID :: bytes
  um_Role :: int
  um_RPCAddress :: "bytes option"
  um_RPCPort :: "16 word"
  um_SessionStart :: int64
  um_RecordExpiry :: int64

definition memberBins :: "env \<Rightarrow> int64 \<Rightarrow> upsert_member_req \<Rightarrow> (string \<times> gval) list" where
  "memberBins E now request =
     [(''host_id'', GBytes (um_HostID request)),
      (''role'', GInt (word_of_int (um_Role request))),
      (''rpc_addr'', GString (IP_String E (um_RPCAddress request))),
      (''rpc_port'', GInt (ucast (um_RPCPort request))),
      (''sess_start'', GInt64 (um_SessionStart request)),
      (''last_hb'', GInt64 now),
      (''version'', GInt64 (now + um_RecordExpiry request))]"

definition UpsertClusterMembership :: "env \<Rightarrow> int64 \<Rightarrow> upsert_member_req \<Rightarrow> unit io" where
  "UpsertClusterMembership E now request =
     pbind (putBinsP (replacePolicy E) (clusterMemberKey E (um_HostID request)) (memberBins E now request)) (\<lambda>w. case w of
        Inl err \<Rightarrow> Ret (Inl (convertError ''UpsertClusterMembership'' err))
      | Inr _ \<Rightarrow> Ret (Inr ()))"

definition memberFromRecord :: "env \<Rightarrow> as_record \<Rightarrow> member" where
  "memberFromRecord E rec =
     \<lparr>mb_Role = sint (binInt64 rec ''role''), mb_HostID = orZero (binBytes rec ''host_id'') [],
      mb_RPCAddress = ParseIP E (binString rec ''rpc_addr''), mb_RPCPort = ucast (binInt64 rec ''rpc_port''),
      mb_SessionStart = binInt64 rec ''sess_start'', mb_LastHeartbeat = binInt64 rec ''last_hb'',
      mb_RecordExpiry = binInt64 rec ''version''\<rparr>"

definition bytesEqual :: "bytes \<Rightarrow> bytes \<Rightarrow> bool" where
  "bytesEqual a b \<longleftrightarrow> length a = length b \<and> list_all2 (=) a b"

text \<open>\<^verbatim>\<open>net.IP.Equal\<close>: an IPv4 address and its IPv6 form are equal; nil has length zero.\<close>

definition ip4 :: "bytes \<Rightarrow> bytes" where
  "ip4 b = (if length b = 16 \<and> take 12 b = replicate 10 0 @ [255, 255] then drop 12 b else b)"

definition IP_Equal :: "bytes option \<Rightarrow> bytes option \<Rightarrow> bool" where
  "IP_Equal a b \<longleftrightarrow> ip4 (orZero a []) = ip4 (orZero b [])"

record members_req =
  gm_LastHeartbeatWithin :: int64
  gm_HostIDEquals :: bytes
  gm_RPCAddressEquals :: "bytes option"
  gm_RoleEquals :: int
  gm_SessionStartedAfter :: "int64 option"
  gm_PageSize :: int
  gm_NextPageToken :: string

text \<open>The filters of \<^verbatim>\<open>GetClusterMembers\<close>; times compare as instants, without wrap-around.\<close>

definition memberMatches :: "env \<Rightarrow> int64 \<Rightarrow> members_req \<Rightarrow> member \<Rightarrow> bool" where
  "memberMatches E now request m \<longleftrightarrow>
     sint now < sint (mb_RecordExpiry m) \<and>
     \<not> (0 < sint (gm_LastHeartbeatWithin request) \<and> sint (mb_LastHeartbeat m) < sint now - sint (gm_LastHeartbeatWithin request)) \<and>
     \<not> (0 < length (gm_HostIDEquals request) \<and> \<not> bytesEqual (mb_HostID m) (gm_HostIDEquals request)) \<and>
     \<not> (gm_RPCAddressEquals request \<noteq> None \<and> \<not> IP_Equal (mb_RPCAddress m) (gm_RPCAddressEquals request)) \<and>
     \<not> (gm_RoleEquals request \<noteq> ServiceType_All E \<and> mb_Role m \<noteq> gm_RoleEquals request) \<and>
     (case gm_SessionStartedAfter request of None \<Rightarrow> True | Some after \<Rightarrow> sint after < sint (mb_SessionStart m))"

definition GetClusterMembers :: "env \<Rightarrow> int64 \<Rightarrow> members_req \<Rightarrow> (member list \<times> string) io" where
  "GetClusterMembers E now request =
     tryP (scanSet E ''cmember'' ''GetClusterMembers'') (\<lambda>records.
       Ret (Inr (digestPage (filter (memberMatches E now request \<circ> snd) (map (\<lambda>rec. (Digest rec, memberFromRecord E rec)) records))
         (gm_NextPageToken request) (gm_PageSize request))))"

fun pruneLoop :: "env \<Rightarrow> (as_record \<Rightarrow> askey) \<Rightarrow> int64 \<Rightarrow> int \<Rightarrow> as_record list \<Rightarrow> int \<Rightarrow> unit io" where
  "pruneLoop E keyOf now maxRecordsPruned [] pruned = Ret (Inr ())"
| "pruneLoop E keyOf now maxRecordsPruned (rec # records) pruned =
     (if 0 < maxRecordsPruned \<and> maxRecordsPruned \<le> pruned then Ret (Inr ())
      else if sint now < sint (binInt64 rec ''version'') then pruneLoop E keyOf now maxRecordsPruned records pruned
      else pbind (deleteP (deletePolicy E) (keyOf rec)) (\<lambda>r. case r of
             Inl err \<Rightarrow>
               if isNotFound err then pruneLoop E keyOf now maxRecordsPruned records pruned
               else Ret (Inl (convertError ''PruneClusterMembership'' err))
           | Inr _ \<Rightarrow> pruneLoop E keyOf now maxRecordsPruned records (pruned + 1)))"

definition PruneClusterMembership :: "env \<Rightarrow> (as_record \<Rightarrow> askey) \<Rightarrow> int64 \<Rightarrow> int \<Rightarrow> unit io" where
  "PruneClusterMembership E keyOf now maxRecordsPruned =
     tryP (scanSet E ''cmember'' ''PruneClusterMembership'') (\<lambda>records. pruneLoop E keyOf now maxRecordsPruned records 0)"

end
