(* ===== verification/Listings.thy ===== *)
theory Listings
  imports NexusProps QueueV2Props MetadataStore ClusterMetadataStore
begin

text \<open>
  The six listings of the plugin that hand out page tokens: namespaces, cluster metadata, cluster members,
  history branches, Nexus endpoints and queues. Each scans a set, sorts what it found by a cursor and returns
  the entries behind the token it was given. Each is shown to be an instance of the locale \<open>listing\<close>, so that
  a client which follows the tokens gets every entry once.
\<close>

section \<open>What is listed\<close>

text \<open>The records a scan of a set returns, in the order of the scan.\<close>

definition scanned :: "quirks \<Rightarrow> env \<Rightarrow> string \<Rightarrow> store \<Rightarrow> as_record list" where
  "scanned Q E st s = map (\<lambda>k. read_bins Q k [] (old_bins (s k))) (q_scan Q s (kb_namespace E) (physicalSet E st))"

text \<open>The entries of a listing, each with the cursor the code sorts and resumes by.\<close>

definition namespaceEntries :: "quirks \<Rightarrow> env \<Rightarrow> store \<Rightarrow> (string \<times> namespace_resp) list" where
  "namespaceEntries Q E s = map (\<lambda>rec. (Digest rec, namespaceFromRecord E rec)) (scanned Q E ''ns'' s)"

definition clusterEntries :: "quirks \<Rightarrow> env \<Rightarrow> store \<Rightarrow> (string \<times> cluster_metadata) list" where
  "clusterEntries Q E s = map (\<lambda>rec. (Digest rec, clusterMetadataOf E rec)) (scanned Q E ''cmeta'' s)"

definition memberEntries :: "quirks \<Rightarrow> env \<Rightarrow> int64 \<Rightarrow> members_req \<Rightarrow> store \<Rightarrow> (string \<times> member) list" where
  "memberEntries Q E now req s =
     filter (memberMatches E now req \<circ> snd) (map (\<lambda>rec. (Digest rec, memberFromRecord E rec)) (scanned Q E ''cmember'' s))"

definition branchEntries :: "quirks \<Rightarrow> env \<Rightarrow> store \<Rightarrow> (string \<times> branch_detail) list" where
  "branchEntries Q E s = map (\<lambda>d. (branchCursor d, d)) (concat (map (branchDetails E) (scanned Q E ''htree'' s)))"

definition endpointEntries :: "quirks \<Rightarrow> env \<Rightarrow> store \<Rightarrow> (string \<times> nexus_endpoint) list" where
  "endpointEntries Q E s = map (\<lambda>rec. (ne_ID (endpointOf E rec), endpointOf E rec)) (scanned Q E ''nexus'' s)"

text \<open>A queue is listed with the number of messages in its buckets up to that of its counter.\<close>

definition queueInfoOf :: "env \<Rightarrow> int \<Rightarrow> store \<Rightarrow> as_record \<Rightarrow> queue_info" where
  "queueInfoOf E qt s rec =
     (let name = binString rec ''q_name''; next = binInt64 rec ''next_id''
      in \<lparr>qi_QueueName = name,
          qi_MessageCount = of_nat (card {mid. messages E qt name s mid \<noteq> None \<and> 0 \<le> sint mid \<and> sint (queueBucket mid) \<le> sint (queueBucket next)}),
          qi_LastMessageID = next - 1\<rparr>)"

definition queueRecords :: "quirks \<Rightarrow> env \<Rightarrow> int \<Rightarrow> store \<Rightarrow> as_record list" where
  "queueRecords Q E qt s = filter (\<lambda>rec. sint (binInt64 rec ''q_type'') = qt) (scanned Q E ''q2meta'' s)"

definition queueEntries :: "quirks \<Rightarrow> env \<Rightarrow> int \<Rightarrow> store \<Rightarrow> (string \<times> queue_info) list" where
  "queueEntries Q E qt s = map (\<lambda>rec. (binString rec ''q_name'', queueInfoOf E qt s rec)) (queueRecords Q E qt s)"

section \<open>One page\<close>

lemma startLoop_cong: "(\<And>i. i < n \<Longrightarrow> f i = g i) \<Longrightarrow> startLoop n cursor f i = startLoop n cursor g i"
proof (induction n cursor f i rule: startLoop.induct)
  case (1 n cursor f i)
  then show ?case by (subst (1 2) startLoop.simps) simp
qed

lemma pageStart_cong: "(\<And>i. i < n \<Longrightarrow> f i = g i) \<Longrightarrow> pageStart n token f = pageStart n token g"
  by (simp add: pageStart_def startLoop_cong [of n f g])

lemma sort_key_tagged: "map (\<lambda>x. (f x, x)) (sort_key f xs) = sort_key fst (map (\<lambda>x. (f x, x)) xs)"
proof (induction xs)
  case (Cons x xs)
  have "map (\<lambda>x. (f x, x)) (insort_key f x ys) = insort_key fst (f x, x) (map (\<lambda>x. (f x, x)) ys)" for ys
    by (induction ys) simp_all
  with Cons show ?case by simp
qed simp

lemma digestPage_nextPage: "nextPage [] (\<lambda>c. c) (behind c (sort_key fst found)) (digestPage found c pageSize)"
proof -
  define xs where "xs = sort_key fst found"
  define start where "start = pageStart (length xs) c (\<lambda>i. fst (xs ! i))"
  define stop where "stop = pageEnd start pageSize (length xs)"
  have "sorted (map fst xs)" by (simp add: xs_def)
  note d = drop_pageStart [OF this, of c, folded start_def]
  note w = window [OF d stop_def]
  have pg: "digestPage found c pageSize = (map snd (take (stop - start) (drop start xs)), if stop < length xs then fst (xs ! (stop - 1)) else [])"
    by (simp add: digestPage_def Let_def sortByDigest_sort_eq xs_def start_def stop_def)
  show ?thesis
    unfolding pg xs_def [symmetric] nextPage_def w(1) fst_conv snd_conv
    by (rule exI [of _ "if pageSize \<le> 0 then Suc (length (behind c xs)) else nat pageSize"]) (use w(3,5) in auto)
qed

lemma digestPage_tagged:
  "(let found = sortByDigest f ds; start = pageStart (length found) token (\<lambda>i. f (found ! i)); stop = pageEnd start pageSize (length found)
    in (take (stop - start) (drop start found), if stop < length found then f (found ! (stop - 1)) else [])) =
   digestPage (map (\<lambda>d. (f d, d)) ds) token pageSize"
proof -
  define xs where "xs = sort_key f ds"
  have tag: "sort_key fst (map (\<lambda>d. (f d, d)) ds) = map (\<lambda>d. (f d, d)) xs" by (simp add: sort_key_tagged xs_def)
  have cursor: "pageStart (length xs) token (\<lambda>i. fst (map (\<lambda>d. (f d, d)) xs ! i)) = pageStart (length xs) token (\<lambda>i. f (xs ! i))"
    by (rule pageStart_cong) simp
  show ?thesis
    unfolding digestPage_def sortByDigest_sort_eq tag xs_def [symmetric] Let_def length_map cursor
    by (simp add: drop_map take_map comp_def)
qed

text \<open>\<^verbatim>\<open>ListNamespaces\<close> has its own loop for the start and its own arithmetic for the end; they are the shared ones.\<close>

lemma listStart_pageStart: "listStart token i (drop i found) = startLoop (length found) token (\<lambda>i. fst (found ! i)) i" if "i \<le> length found"
  using that
proof (induction "length found - i" arbitrary: i)
  case 0
  then show ?case by (subst startLoop.simps) simp
next
  case (Suc n)
  then have i: "i < length found" by simp
  then have "drop i found = found ! i # drop (Suc i) found" by (simp add: Cons_nth_drop_Suc)
  with Suc i show ?case by (subst startLoop.simps) simp
qed

lemma namespacePage:
  "(let found = sortByDigest fst ns;
        start = (if 0 < length token then listStart token 0 found else 0);
        pageSize = (if pageSize \<le> 0 then int (length found) else pageSize);
        stop = int start + pageSize;
        stop = (if int (length found) < stop then length found else nat stop)
    in (map snd (take (stop - start) (drop start found)), if stop < length found then fst (found ! (stop - 1)) else [])) =
   digestPage ns token pageSize"
proof -
  define xs where "xs = sort_key fst ns"
  have start: "(if 0 < length token then listStart token 0 xs else 0) = pageStart (length xs) token (\<lambda>i. fst (xs ! i))"
    using listStart_pageStart [of 0 xs token] by (simp add: pageStart_def)
  have stop: "(if int (length xs) < int a + (if pageSize \<le> 0 then int (length xs) else pageSize) then length xs
      else nat (int a + (if pageSize \<le> 0 then int (length xs) else pageSize))) = pageEnd a pageSize (length xs)" for a
    by (simp add: pageEnd_def Let_def nat_add_distrib)
  show ?thesis unfolding digestPage_def Let_def sortByDigest_sort_eq xs_def [symmetric] start stop by (rule refl)
qed

section \<open>The programs\<close>

lemma scanResults_Inr: "scanResults operation (map (\<lambda>k. Inr (f k)) ks) = Inr (map f ks)"
  by (induction ks) simp_all

lemma plain_tableVersion: "rp_Txn pol = None \<Longrightarrow> plain_prog (tableVersion E pol)"
  by (auto simp: tableVersion_def intro!: txn_intros split: sum.splits)

lemma prun_scanSet: "prun Q (scanSet E st operation) s = (Inr (scanned Q E st s), s)"
  by (simp add: scanSet_def prun_scanAll scanResults_Inr scanned_def)

lemma plain_scanSet [txn_intros]: "plain_prog (scanSet E st operation)"
  by (auto simp: scanSet_def intro!: txn_intros split: sum.splits)

lemma ListNamespaces_run: "prun Q (ListNamespaces E n token) s = (Inr (digestPage (namespaceEntries Q E s) token n), s)"
  using namespacePage [of "namespaceEntries Q E s" token n]
  by (simp add: ListNamespaces_def prun_scanAll scanResults_Inr Let_def namespaceEntries_def scanned_def)

lemma ListClusterMetadata_run: "prun Q (ListClusterMetadata E n token) s = (Inr (digestPage (clusterEntries Q E s) token n), s)"
  by (simp add: ListClusterMetadata_def prun_tryP prun_scanSet clusterEntries_def)

lemma memberMatches_page [simp]: "memberMatches E now (req\<lparr>gm_PageSize := n, gm_NextPageToken := token\<rparr>) = memberMatches E now req"
  by (simp add: memberMatches_def fun_eq_iff)

lemma GetClusterMembers_run:
  "prun Q (GetClusterMembers E now (req\<lparr>gm_PageSize := n, gm_NextPageToken := token\<rparr>)) s =
   (Inr (digestPage (memberEntries Q E now req s) token n), s)"
  by (simp add: GetClusterMembers_def prun_tryP prun_scanSet memberEntries_def)

lemma GetAllHistoryTreeBranches_run:
  "prun Q (GetAllHistoryTreeBranches E n token) s = (Inr (digestPage (branchEntries Q E s) token n), s)"
  by (simp add: GetAllHistoryTreeBranches_def prun_scanAll scanResults_Inr branchEntries_def scanned_def Let_def
      digestPage_tagged [of branchCursor, unfolded Let_def, symmetric])

lemma ListNexusEndpoints_run:
  assumes "v = 0 \<or> v = tableVersionOf E s"
  shows "\<exists>resp. prun Q (ListNexusEndpoints E v n token) s = (Inr resp, s) \<and>
    (le_Endpoints resp, le_NextPageToken resp) = digestPage (endpointEntries Q E s) token n"
proof -
  have "prun Q (tableVersion E (readPolicy E)) s = (Inr (tableVersionOf E s), s)"
    by (auto simp: tableVersion_def tableVersionOf_def prun_get split: option.splits)
  moreover have entries: "endpointEntries Q E s = map (\<lambda>d. (ne_ID d, d)) (map (endpointOf E) (scanned Q E ''nexus'' s))"
    by (simp add: endpointEntries_def)
  ultimately show ?thesis
    using assms unfolding entries digestPage_tagged [symmetric]
    by (simp add: ListNexusEndpoints_def prun_tryP prun_scanAll scanResults_Inr scanned_def [symmetric] Let_def)
qed

section \<open>The queues\<close>

lemma prun_map_size:
  assumes "map_ok (old_bins (s k) b)"
  shows "prun Q (pbind (operateP (writePolicy E) k [MapSizeOp b]) g) s =
    (if s k = None then prun Q (g (Inl (AsError [KEY_NOT_FOUND_ERROR]))) s
     else if old_bins (s k) b = None then prun Q (g (Inr (op_record Q k []))) s
     else prun Q (g (Inr (op_record Q k [(b, GInt (of_nat (length (the_map (old_bins (s k) b)))))]))) s)"
  using assms
  by (cases "s k") (auto simp: prog_simps op_absent_def map_access_def fun_upd_idem split: option.splits binval.splits)

lemma countLoop_round:
  assumes wf: "queueWf E qt qn s" and b: "sint b \<le> sint (queueBucket next)"
  shows "prun Q (countLoop E qt qn next b tot) s =
    prun Q (countLoop E qt qn next (b + 1) (tot + of_nat (card (held E qt qn s (\<lambda>mid. queueBucket mid = b))))) s"
proof -
  let ?k = "bucketKey E qt qn b"
  have ok: "map_ok (old_bins (s ?k) ''t'')" using wf by (simp add: queueWf_def binOf_def)
  have len: "length (the_map (old_bins (s ?k) ''t'')) = card (held E qt qn s (\<lambda>mid. queueBucket mid = b))"
    using length_bucket [OF wf, of "\<lambda>_. True" "\<lambda>_. True" b] by (simp add: binOf_def)
  show ?thesis
  proof (cases "s ?k = None \<or> old_bins (s ?k) ''t'' = None")
    case True
    with len have "card (held E qt qn s (\<lambda>mid. queueBucket mid = b)) = 0" by auto
    with True b ok show ?thesis by (subst countLoop.simps) (auto simp: prun_map_size lastOpResultInt_def op_record_def)
  next
    case False
    with b ok len show ?thesis by (subst countLoop.simps) (auto simp: prun_map_size lastOpResultInt_def op_record_def)
  qed
qed

lemma countLoop_run:
  assumes wf: "queueWf E qt qn s"
  shows "prun Q (countLoop E qt qn next b tot) s =
    (Inr (tot + of_nat (card (held E qt qn s (\<lambda>mid. sint b \<le> sint (queueBucket mid) \<and> sint (queueBucket mid) \<le> sint (queueBucket next))))), s)"
proof (induction "nat (sint (queueBucket next) + 1 - sint b)" arbitrary: b tot rule: less_induct)
  case less
  let ?in = "\<lambda>b mid. sint b \<le> sint (queueBucket mid) \<and> sint (queueBucket mid) \<le> sint (queueBucket next)"
  show ?case
  proof (cases "sint b \<le> sint (queueBucket next)")
    case True
    then have b: "sint (b + 1) = sint b + 1" by (rule sint_bucket_next)
    have "sint b \<le> sint q \<longleftrightarrow> q = b \<or> sint (b + 1) \<le> sint q" "\<not> (q = b \<and> sint (b + 1) \<le> sint q)" for q
      unfolding b sint_inject64 [symmetric] by linarith+
    then have "held E qt qn s (?in b) = held E qt qn s (\<lambda>mid. queueBucket mid = b) \<union> held E qt qn s (?in (b + 1))"
      "held E qt qn s (\<lambda>mid. queueBucket mid = b) \<inter> held E qt qn s (?in (b + 1)) = {}"
      using True by (auto simp: held_def)
    then have "card (held E qt qn s (?in b)) = card (held E qt qn s (\<lambda>mid. queueBucket mid = b)) + card (held E qt qn s (?in (b + 1)))"
      by (simp add: card_Un_disjoint)
    moreover have "prun Q (countLoop E qt qn next (b + 1) (tot + of_nat (card (held E qt qn s (\<lambda>mid. queueBucket mid = b))))) s =
        (Inr (tot + of_nat (card (held E qt qn s (\<lambda>mid. queueBucket mid = b))) + of_nat (card (held E qt qn s (?in (b + 1))))), s)"
      using True b by (intro less.hyps) simp
    ultimately show ?thesis using countLoop_round [OF wf True] by (simp add: add_ac)
  next
    case False
    then have "?in b = (\<lambda>_. False)" by (auto simp: fun_eq_iff)
    with False show ?thesis by (subst countLoop.simps) (simp add: held_def)
  qed
qed

lemma plain_countLoop [txn_intros]: "plain_prog (countLoop E qt qn next b tot)"
proof (induction E qt qn "next" b tot rule: countLoop.induct)
  case (1 E qt qn "next" b tot)
  then show ?case by (subst countLoop.simps) (auto intro!: txn_intros split: sum.splits)
qed

lemma listLoop_run:
  assumes "\<And>rec. rec \<in> set recs \<Longrightarrow> sint (binInt64 rec ''q_type'') = qt \<Longrightarrow> queueWf E qt (binString rec ''q_name'') s"
  shows "prun Q (listLoop E qt (map Inr recs) found) s =
    (Inr (found @ map (queueInfoOf E qt s) (filter (\<lambda>rec. sint (binInt64 rec ''q_type'') = qt) recs)), s)"
  using assms
proof (induction recs arbitrary: found)
  case (Cons rec recs)
  have "prun Q (messageCount E qt (binString rec ''q_name'') (binInt64 rec ''next_id'')) s =
      (Inr (qi_MessageCount (queueInfoOf E qt s rec)), s)" if "sint (binInt64 rec ''q_type'') = qt"
    using countLoop_run [OF Cons.prems [OF _ that], of Q "binInt64 rec ''next_id''" 0 0]
    by (simp add: messageCount_def queueInfoOf_def Let_def held_def sint_queueBucket pos_imp_zdiv_nonneg_iff)
  with Cons show ?case by (simp add: prun_tryP Let_def) (simp add: queueInfoOf_def Let_def)
qed simp

lemma plain_listLoop [txn_intros]: "plain_prog (listLoop E qt results found)"
  by (induction results arbitrary: found) (auto simp: Let_def messageCount_def intro!: txn_intros split: sum.splits)

lemma ListQueues_run:
  assumes wf: "\<forall>rec \<in> set (queueRecords Q E qt s). queueWf E qt (binString rec ''q_name'') s"
    and n: "0 < n"
  shows "\<exists>resp. prun Q (ListQueues E qt n (if c = [] then NoListToken else ListToken c)) s = (Inr resp, s) \<and>
    nextPage NoListToken ListToken (behind c (sort_key fst (queueEntries Q E qt s))) resp"
proof -
  define ds where "ds = map (queueInfoOf E qt s) (queueRecords Q E qt s)"
  define xs where "xs = sort_key qi_QueueName ds"
  define start where "start = pageStart (length xs) c (\<lambda>i. qi_QueueName (xs ! i))"
  define stop where "stop = pageEnd start n (length xs)"
  let ?tag = "map (\<lambda>d. (qi_QueueName d, d))"
  have "prun Q (listLoop E qt (map Inr (scanned Q E ''q2meta'' s)) []) s = (Inr ds, s)"
    using wf listLoop_run [of "scanned Q E ''q2meta'' s" qt E s Q "[]"] by (simp add: ds_def queueRecords_def)
  then have go: "prun Q (ListQueues E qt n (if c = [] then NoListToken else ListToken c)) s =
      (Inr (take (stop - start) (drop start xs), if start < stop \<and> int (stop - start) = n then ListToken (qi_QueueName (xs ! (stop - 1))) else NoListToken), s)"
    using n by (cases "c = []") (auto simp: ListQueues_def prun_scanAll prun_tryP scanned_def comp_def Let_def sortByDigest_sort_eq xs_def start_def stop_def)
  have entries: "queueEntries Q E qt s = ?tag ds" by (simp add: queueEntries_def ds_def queueInfoOf_def Let_def)
  have tag: "sort_key fst (queueEntries Q E qt s) = ?tag xs" unfolding entries xs_def by (rule sort_key_tagged [symmetric])
  have "sorted (map fst (?tag xs))" unfolding tag [symmetric] by simp
  moreover have "pageStart (length (?tag xs)) c (\<lambda>i. fst (?tag xs ! i)) = start" unfolding start_def length_map by (rule pageStart_cong) simp
  ultimately have d: "drop start (?tag xs) = behind c (?tag xs)" "start \<le> length (?tag xs)" using drop_pageStart [of "?tag xs" c] by simp_all
  have "stop = pageEnd start n (length (?tag xs))" by (simp add: stop_def)
  note w = window [OF d this]
  have fst: "take (stop - start) (drop start xs) = map snd (take (nat n) (behind c (?tag xs)))"
    using arg_cong [OF w(1), of "map snd"] n by (simp add: drop_map take_map comp_def)
  have snd: "qi_QueueName (xs ! (stop - 1)) = fst (behind c (?tag xs) ! (nat n - 1))" if "nat n \<le> length (behind c (?tag xs))"
  proof -
    have "stop \<le> length xs" by (auto simp: stop_def pageEnd_def Let_def)
    moreover have "0 < stop - start" using that n w(4) by (auto split: if_splits)
    ultimately have "stop - 1 < length xs" by linarith
    with w(5) n that have "(qi_QueueName (xs ! (stop - 1)), xs ! (stop - 1)) = behind c (?tag xs) ! (nat n - 1)" by simp
    then show ?thesis by (metis fst_conv)
  qed
  have full: "start < stop \<and> int (stop - start) = n \<longleftrightarrow> nat n \<le> length (behind c (?tag xs))"
    using n w(4) by (auto simp: min_def)
  show ?thesis
    unfolding go tag nextPage_def full fst
    by (rule exI, rule conjI, rule refl, rule exI [of _ "nat n"]) (use n snd in auto)
qed

section \<open>The listings as instances\<close>

lemma digest_listing:
  assumes srv: "quiet_aerospike Q srv store_of base_of work_of" and plain: "\<And>token. plain_prog (get token)"
    and run: "\<And>token. \<exists>resp. prun Q (get token) s = (Inr resp, s) \<and> answer resp = digestPage found token n"
  shows "listing srv store_of s get answer [] (\<lambda>c. c) (sort_key fst found)"
proof
  fix db c
  assume db: "store_of db = s"
  obtain resp where r: "prun Q (get c) s = (Inr resp, s)" "answer resp = digestPage found c n" using run by blast
  from quiet_aerospike.quiet_plain_run [OF srv plain r(1) [folded db]] obtain db' where
    "run srv (get c) db = (Inr resp, db')" "store_of db' = store_of db" by blast
  with db r(2) digestPage_nextPage [of c found n] show "\<exists>resp db'. run srv (get (if c = [] then [] else c)) db = (Inr resp, db') \<and>
      store_of db' = s \<and> nextPage [] (\<lambda>c. c) (behind c (sort_key fst found)) (answer resp)" by auto
qed simp

lemma queues_listing:
  assumes srv: "quiet_aerospike Q srv store_of base_of work_of"
    and wf: "\<forall>rec \<in> set (queueRecords Q E qt s). queueWf E qt (binString rec ''q_name'') s" and n: "0 < n"
  shows "listing srv store_of s (ListQueues E qt n) (\<lambda>r. r) NoListToken ListToken (sort_key fst (queueEntries Q E qt s))"
proof
  fix db c
  assume db: "store_of db = s"
  let ?tok = "if c = [] then NoListToken else ListToken c"
  have plain: "plain_prog (ListQueues E qt n ?tok)"
    by (auto simp: ListQueues_def Let_def intro!: txn_intros split: sum.splits queueListToken.splits)
  obtain resp where r: "prun Q (ListQueues E qt n ?tok) s = (Inr resp, s)"
    "nextPage NoListToken ListToken (behind c (sort_key fst (queueEntries Q E qt s))) resp" using ListQueues_run [OF wf n] by blast
  from quiet_aerospike.quiet_plain_run [OF srv plain r(1) [folded db]] obtain db' where
    "run srv (ListQueues E qt n ?tok) db = (Inr resp, db')" "store_of db' = store_of db" by blast
  with db r(2) show "\<exists>resp db'. run srv (ListQueues E qt n ?tok) db = (Inr resp, db') \<and> store_of db' = s \<and>
      nextPage NoListToken ListToken (behind c (sort_key fst (queueEntries Q E qt s))) resp" by blast
qed simp

lemma plain_listings:
  "plain_prog (ListNamespaces E n token)" "plain_prog (ListClusterMetadata E n token)" "plain_prog (GetClusterMembers E now req)"
  "plain_prog (GetAllHistoryTreeBranches E n token)" "plain_prog (ListNexusEndpoints E v n token)"
proof -
  show "plain_prog (ListNamespaces E n token)"
    by (auto simp: ListNamespaces_def Let_def intro!: txn_intros split: sum.splits)
  show "plain_prog (ListClusterMetadata E n token)" "plain_prog (GetClusterMembers E now req)"
    by (auto simp: ListClusterMetadata_def GetClusterMembers_def intro!: txn_intros)
  show "plain_prog (GetAllHistoryTreeBranches E n token)"
    by (auto simp: GetAllHistoryTreeBranches_def Let_def intro!: txn_intros split: sum.splits)
  show "plain_prog (ListNexusEndpoints E v n token)"
    by (auto simp: ListNexusEndpoints_def Let_def intro!: txn_intros plain_tableVersion split: sum.splits)
qed

lemma digest_listings:
  assumes srv: "quiet_aerospike Q srv store_of base_of work_of"
  shows "listing srv store_of s (ListNamespaces E n) (\<lambda>r. r) [] (\<lambda>c. c) (sort_key fst (namespaceEntries Q E s))"
    and "listing srv store_of s (ListClusterMetadata E n) (\<lambda>r. r) [] (\<lambda>c. c) (sort_key fst (clusterEntries Q E s))"
    and "listing srv store_of s (\<lambda>token. GetClusterMembers E now (req\<lparr>gm_PageSize := n, gm_NextPageToken := token\<rparr>)) (\<lambda>r. r) [] (\<lambda>c. c)
      (sort_key fst (memberEntries Q E now req s))"
    and "listing srv store_of s (GetAllHistoryTreeBranches E n) (\<lambda>r. r) [] (\<lambda>c. c) (sort_key fst (branchEntries Q E s))"
    and "v = 0 \<or> v = tableVersionOf E s \<Longrightarrow>
      listing srv store_of s (ListNexusEndpoints E v n) (\<lambda>r. (le_Endpoints r, le_NextPageToken r)) [] (\<lambda>c. c) (sort_key fst (endpointEntries Q E s))"
  by (rule digest_listing [where n = n, OF srv plain_listings(1)], simp add: ListNamespaces_run)
    (rule digest_listing [where n = n, OF srv plain_listings(2)], simp add: ListClusterMetadata_run,
     rule digest_listing [where n = n, OF srv plain_listings(3)], simp add: GetClusterMembers_run,
     rule digest_listing [where n = n, OF srv plain_listings(4)], simp add: GetAllHistoryTreeBranches_run,
     rule digest_listing [where n = n, OF srv plain_listings(5)], erule ListNexusEndpoints_run)

text \<open>The in-memory server is such a server, so the listings are instances on it.\<close>

interpretation namespaces: listing "mem_server Q" m_store s "ListNamespaces E n" "\<lambda>r. r" "[]" "\<lambda>c. c" "sort_key fst (namespaceEntries Q E s)" for Q s E n
  by (rule digest_listings [OF mem.quiet_aerospike_axioms])

interpretation clusters: listing "mem_server Q" m_store s "ListClusterMetadata E n" "\<lambda>r. r" "[]" "\<lambda>c. c" "sort_key fst (clusterEntries Q E s)" for Q s E n
  by (rule digest_listings [OF mem.quiet_aerospike_axioms])

interpretation branches: listing "mem_server Q" m_store s "GetAllHistoryTreeBranches E n" "\<lambda>r. r" "[]" "\<lambda>c. c" "sort_key fst (branchEntries Q E s)" for Q s E n
  by (rule digest_listings [OF mem.quiet_aerospike_axioms])

section \<open>Following the tokens\<close>

text \<open>Cursors that identify the entries.\<close>

definition cursorsOk :: "(string \<times> 'a) list \<Rightarrow> bool" where
  "cursorsOk xs \<longleftrightarrow> distinct (map fst xs) \<and> [] \<notin> fst ` set xs"

definition drains :: "(cmd \<Rightarrow> 'db \<Rightarrow> resp \<times> 'db) \<Rightarrow> 'db \<Rightarrow> ('tok \<Rightarrow> 'r io) \<Rightarrow> ('r \<Rightarrow> 'a list \<times> 'tok) \<Rightarrow> 'tok \<Rightarrow> (string \<times> 'a) list \<Rightarrow> bool" where
  "drains srv db get answer noToken xs \<longleftrightarrow> (\<forall>fuel > length xs. drain srv get answer noToken fuel noToken db = Some (map snd (sort_key fst xs)))"

lemma listing_drains:
  assumes "listing srv store_of s get answer noToken resume (sort_key fst xs)" "store_of db = s" "cursorsOk xs"
  shows "drains srv db get answer noToken xs"
proof -
  have "sorted_wrt (<) (map fst (sort_key fst xs))"
    using assms(3) by (simp add: cursorsOk_def strict_sorted_iff distinct_map)
  with listing.drain_all [OF assms(1) _ _ assms(2)] assms(3) show ?thesis by (simp add: drains_def cursorsOk_def)
qed

text \<open>
  C17. The six listings that hand out page tokens are complete. On a server where nobody else writes, a client
  that starts without a token and follows the tokens it is given ends after at most one page more than there
  are entries, and the pages put together hold every entry once, in the order of the cursors: the namespaces,
  the cluster metadata, the members matching the request, the branches of all history trees, the Nexus
  endpoints (asked for without a table version or with the current one) and the queues of a type with their
  message counts. The entries are those of the records that the server's scan returns. Any page size will do,
  none or a negative one meaning a single page; \<^verbatim>\<open>ListQueues\<close> alone insists on a positive one. The cursors, which
  are digests, names or ids, must be distinct and not empty, and the buckets of the listed queues well-formed.
\<close>

theorem listings_complete:
  assumes srv: "quiet_aerospike Q srv store_of base_of work_of" and s: "store_of db = s"
  shows "(cursorsOk (namespaceEntries Q E s) \<longrightarrow> drains srv db (ListNamespaces E n) (\<lambda>r. r) [] (namespaceEntries Q E s)) \<and>
    (cursorsOk (clusterEntries Q E s) \<longrightarrow> drains srv db (ListClusterMetadata E n) (\<lambda>r. r) [] (clusterEntries Q E s)) \<and>
    (cursorsOk (memberEntries Q E now req s) \<longrightarrow>
      drains srv db (\<lambda>token. GetClusterMembers E now (req\<lparr>gm_PageSize := n, gm_NextPageToken := token\<rparr>)) (\<lambda>r. r) [] (memberEntries Q E now req s)) \<and>
    (cursorsOk (branchEntries Q E s) \<longrightarrow> drains srv db (GetAllHistoryTreeBranches E n) (\<lambda>r. r) [] (branchEntries Q E s)) \<and>
    (cursorsOk (endpointEntries Q E s) \<and> (v = 0 \<or> v = tableVersionOf E s) \<longrightarrow>
      drains srv db (ListNexusEndpoints E v n) (\<lambda>r. (le_Endpoints r, le_NextPageToken r)) [] (endpointEntries Q E s)) \<and>
    (cursorsOk (queueEntries Q E qt s) \<and> 0 < n \<and> (\<forall>rec \<in> set (queueRecords Q E qt s). queueWf E qt (binString rec ''q_name'') s) \<longrightarrow>
      drains srv db (ListQueues E qt n) (\<lambda>r. r) NoListToken (queueEntries Q E qt s))"
  using listing_drains [OF digest_listings(1) [OF srv] s] listing_drains [OF digest_listings(2) [OF srv] s]
    listing_drains [OF digest_listings(3) [OF srv] s] listing_drains [OF digest_listings(4) [OF srv] s]
    listing_drains [OF digest_listings(5) [OF srv] s] listing_drains [OF queues_listing [OF srv] s]
  by blast

section \<open>A sample listing\<close>

definition sampleScan :: "quirks" where
  "sampleScan = sampleQuirks\<lparr>q_scan := (\<lambda>s ns st. filter (\<lambda>k. s k \<noteq> None \<and> key_ns k = ns \<and> key_set k = st)
     [nexusEndpointKey sample_env ''b'', nexusEndpointKey sample_env ''a''])\<rparr>"

definition sampleEndpoints :: store where
  "sampleEndpoints = [nexusEndpointKey sample_env ''a'' \<mapsto> [''ep_id'' \<mapsto> BVal (GString ''a''), ''version'' \<mapsto> BVal (GInt 4)],
     nexusEndpointKey sample_env ''b'' \<mapsto> [''ep_id'' \<mapsto> BVal (GString ''b''), ''version'' \<mapsto> BVal (GInt 5)]]"

lemma sampleEndpoints_entries:
  "endpointEntries sampleScan sample_env sampleEndpoints =
    [(''b'', \<lparr>ne_ID = ''b'', ne_Version = 5, ne_Data = None\<rparr>), (''a'', \<lparr>ne_ID = ''a'', ne_Version = 4, ne_Data = None\<rparr>)]"
  by (simp add: endpointEntries_def scanned_def sampleScan_def sampleEndpoints_def nexusEndpointKey_def newKey_def endpointOf_def bin_int_def bin_str_def bin_blob_def physicalSet_def sampleQuirks_def)

theorem listings_complete_witness:
  "drain (mem_server sampleScan) (ListNexusEndpoints sample_env 0 1) (\<lambda>r. (le_Endpoints r, le_NextPageToken r)) [] 3 [] (mem_init sampleEndpoints) =
     Some [\<lparr>ne_ID = ''a'', ne_Version = 4, ne_Data = None\<rparr>, \<lparr>ne_ID = ''b'', ne_Version = 5, ne_Data = None\<rparr>]"
proof -
  have "m_store (mem_init sampleEndpoints) = sampleEndpoints" by (simp add: mem_init_def)
  from listings_complete [OF mem.quiet_aerospike_axioms this, of sampleScan sample_env 1 undefined undefined 0 undefined]
  show ?thesis by (simp add: cursorsOk_def drains_def sampleEndpoints_entries)
qed

end
