(* ===== verification/TaskQueueStore.thy ===== *)
theory TaskQueueStore
  imports HistoryTasks
begin

text \<open>
  \<^verbatim>\<open>task_queue_store.go\<close>: the task queues of the matching service, their tasks in buckets of 4096 ids, and the
  versioned user data with its build-id index. This theory holds the operations. \<open>fair\<close> selects the store
  that orders by pass and task id.
\<close>

section \<open>Encoding\<close>

record matchingTaskCodec =
  fair :: bool

definition mtEncode :: "matchingTaskCodec \<Rightarrow> int64 \<Rightarrow> int64 \<Rightarrow> mkey" where
  "mtEncode c pass taskID = (if \<not> fair c then KInt taskID else KBytes (PutUint64 pass @ PutUint64 taskID))"

definition mtBucket :: "matchingTaskCodec \<Rightarrow> int64 \<Rightarrow> int64" where
  "mtBucket c taskID = shr64 12 taskID"

text \<open>\<^verbatim>\<open>expiryNanos\<close> of a timestamp, nil or nanoseconds since 1970; \<^verbatim>\<open>Unix()\<close> is the floor of the seconds.\<close>

definition expiryNanos :: "int option \<Rightarrow> int64" where
  "expiryNanos ts = (case ts of None \<Rightarrow> 0 | Some t \<Rightarrow> if t div 1000000000 \<le> 0 then 0 else word_of_int t)"

definition taskValue :: "env \<Rightarrow> blob \<Rightarrow> int option \<Rightarrow> gval" where
  "taskValue E task expiryTime =
     GList [GBytes (blob_data task), GString (EncodingType_String E (blob_enc task)), GInt64 (expiryNanos expiryTime)]"

definition taskFromValue :: "env \<Rightarrow> gval \<Rightarrow> (blob \<times> int64) option" where
  "taskFromValue E v =
     (case v of
        GList (d # e # x # _) \<Rightarrow>
          (case asBytes d of
             None \<Rightarrow> None
           | Some data \<Rightarrow> Some (NewDataBlob E data (orZero (asString e) ''''), orZero (asInt64 x) 0))
      | _ \<Rightarrow> None)"

definition matchingEncodedBytes :: "matchingTaskCodec \<Rightarrow> gval \<Rightarrow> bytes" where
  "matchingEncodedBytes c raw = (if \<not> fair c then PutUint64 (orZero (asInt64 raw) 0) else orZero (asBytes raw) [])"

fun bytesCompareLoop :: "bytes \<Rightarrow> bytes \<Rightarrow> int" where
  "bytesCompareLoop (x # xs) (y # ys) = (if x \<noteq> y then (if x < y then -1 else 1) else bytesCompareLoop xs ys)"
| "bytesCompareLoop _ _ = 0"

definition bytesCompare :: "bytes \<Rightarrow> bytes \<Rightarrow> int" where
  "bytesCompare a b = (if length a < length b then -1 else if length b < length a then 1 else bytesCompareLoop a b)"

section \<open>Queue records\<close>

record task_queue_id =
  tq_NamespaceID :: string
  tq_Name :: string
  tq_Type :: int32

definition queueBins :: "env \<Rightarrow> blob option \<Rightarrow> int64 \<Rightarrow> int option \<Rightarrow> (string \<times> gval) list" where
  "queueBins E info rangeID expiryTime =
     blobBins E ''data'' ''enc'' info @ [(''range_id'', GInt64 rangeID), (''expiry'', GInt64 (expiryNanos expiryTime))]"

definition tqKey :: "env \<Rightarrow> task_queue_id \<Rightarrow> askey" where
  "tqKey E q = taskQueueKey E (tq_NamespaceID q) (tq_Name q) (tq_Type q)"

definition CreateTaskQueue :: "env \<Rightarrow> task_queue_id \<Rightarrow> int64 \<Rightarrow> blob option \<Rightarrow> int option \<Rightarrow> unit io" where
  "CreateTaskQueue E q rangeID info expiryTime =
     pbind (putBinsP (createPolicy E) (tqKey E q) (queueBins E info rangeID expiryTime)) (\<lambda>w. case w of
        Inl err \<Rightarrow>
          if isKeyExists err then Ret (Inl (ConditionFailed (tq_Name q)))
          else Ret (Inl (convertError ''CreateTaskQueue'' err))
      | Inr _ \<Rightarrow> Ret (Inr ()))"

definition GetTaskQueue :: "env \<Rightarrow> task_queue_id \<Rightarrow> (int64 \<times> blob option) io" where
  "GetTaskQueue E q =
     pbind (getP (readPolicy E) (tqKey E q) []) (\<lambda>r. case r of
        Inl err \<Rightarrow>
          if isNotFound err then Ret (Inl (NotFound (tq_Name q))) else Ret (Inl (convertError ''GetTaskQueue'' err))
      | Inr rec \<Rightarrow> Ret (Inr (binInt64 rec ''range_id'', readBlob E rec ''data'' ''enc'')))"

definition UpdateTaskQueue :: "env \<Rightarrow> task_queue_id \<Rightarrow> int64 \<Rightarrow> blob option \<Rightarrow> int option \<Rightarrow> int64 \<Rightarrow> unit io" where
  "UpdateTaskQueue E q rangeID info expiryTime prevRangeID =
     pbind (putBinsP (condWrite E (rangeIDEquals prevRangeID)) (tqKey E q) (queueBins E info rangeID expiryTime)) (\<lambda>w. case w of
        Inl err \<Rightarrow>
          if isFilteredOut err \<or> isNotFound err then Ret (Inl (ConditionFailed (tq_Name q)))
          else Ret (Inl (convertError ''UpdateTaskQueue'' err))
      | Inr _ \<Rightarrow> Ret (Inr ()))"

definition DeleteTaskQueue :: "env \<Rightarrow> task_queue_id \<Rightarrow> int64 \<Rightarrow> unit io" where
  "DeleteTaskQueue E q rangeID =
     pbind (deleteP ((deletePolicy E)\<lparr>wp_FilterExpression := Some (rangeIDEquals rangeID)\<rparr>) (tqKey E q)) (\<lambda>r. case r of
        Inl err \<Rightarrow>
          if isFilteredOut err then Ret (Inl (ConditionFailed (tq_Name q)))
          else if isNotFound err then Ret (Inr ())
          else Ret (Inl (convertError ''DeleteTaskQueue'' err))
      | Inr _ \<Rightarrow> Ret (Inr ()))"

section \<open>Creating tasks\<close>

record create_task =
  ct_TaskPass :: int64
  ct_TaskId :: int64
  ct_Subqueue :: int
  ct_Task :: blob
  ct_ExpiryTime :: "int option"

record create_tasks_req =
  cq_Queue :: task_queue_id
  cq_RangeID :: int64
  cq_TaskQueueInfo :: "blob option"
  cq_Tasks :: "create_task list"

type_synonym bucketRef = "int \<times> int64"

fun groupByRef :: "bucketRef \<Rightarrow> operation \<Rightarrow> (bucketRef \<times> operation list) list \<Rightarrow> (bucketRef \<times> operation list) list" where
  "groupByRef b x [] = [(b, [x])]"
| "groupByRef b x ((b', xs) # g) = (if b' = b then (b', xs @ [x]) # g else (b', xs) # groupByRef b x g)"

definition groupCreates :: "env \<Rightarrow> matchingTaskCodec \<Rightarrow> create_task list \<Rightarrow> (bucketRef \<times> operation list) list" where
  "groupCreates E c tasks =
     foldl (\<lambda>g task. groupByRef (ct_Subqueue task, mtBucket c (ct_TaskId task))
        (MapPutOp ''t'' (mtEncode c (ct_TaskPass task) (ct_TaskId task)) (taskValue E (ct_Task task) (ct_ExpiryTime task))) g) [] tasks"

fun writeRefs :: "env \<Rightarrow> txnScope \<Rightarrow> task_queue_id \<Rightarrow> (bucketRef \<times> operation list) list \<Rightarrow> unit io" where
  "writeRefs E t q [] = Ret (Inr ())"
| "writeRefs E t q (((subqueue, bkt), ops) # grouped) =
     pbind (operateP (ts_write t) (taskKey E (tq_NamespaceID q) (tq_Name q) (tq_Type q) subqueue bkt) ops) (\<lambda>r. case r of
        Inl err \<Rightarrow> Ret (Inl (convertError ''CreateTasks'' err))
      | Inr _ \<Rightarrow>
          pbind (operateP (ts_write t) (taskIndexKey E (tq_NamespaceID q) (tq_Name q) (tq_Type q) subqueue)
                   [MapPutOp ''b'' (KInt bkt) (GInt 1)]) (\<lambda>r. case r of
             Inl err \<Rightarrow> Ret (Inl (convertError ''CreateTasks'' err))
           | Inr _ \<Rightarrow> writeRefs E t q grouped))"

definition CreateTasks :: "env \<Rightarrow> bool \<Rightarrow> create_tasks_req \<Rightarrow> bool io" where
  "CreateTasks E isFair request =
     (let q = cq_Queue request; c = \<lparr>fair = isFair\<rparr> in
      withTxn E ''CreateTasks'' (\<lambda>t.
        pbind (getP (ts_read t) (tqKey E q) [''range_id'']) (\<lambda>r. case r of
           Inl err \<Rightarrow>
             if isNotFound err then Ret (Inl (ConditionFailed (tq_Name q)))
             else Ret (Inl (convertError ''CreateTasks'' err))
         | Inr rec \<Rightarrow>
             if binInt64 rec ''range_id'' \<noteq> cq_RangeID request then Ret (Inl (ConditionFailed (tq_Name q)))
             else tryP (writeRefs E t q (rangeMap E (groupCreates E c (cq_Tasks request)))) (\<lambda>_.
               case cq_TaskQueueInfo request of
                 None \<Rightarrow> Ret (Inr False)
               | Some info \<Rightarrow>
                   pbind (putBinsP (ts_write t) (tqKey E q)
                            (blobBins E ''data'' ''enc'' (Some info) @ [(''range_id'', GInt64 (cq_RangeID request))])) (\<lambda>w. case w of
                      Inl err \<Rightarrow> Ret (Inl (convertError ''CreateTasks'' err))
                    | Inr _ \<Rightarrow> Ret (Inr True))))))"

section \<open>Reading tasks\<close>

record get_matching_req =
  mg_Queue :: task_queue_id
  mg_Subqueue :: int
  mg_InclusiveMinPass :: int64
  mg_InclusiveMinTaskID :: int64
  mg_ExclusiveMaxTaskID :: int64
  mg_PageSize :: int
  mg_NextPageToken :: page_token

definition populatedTaskBuckets :: "env \<Rightarrow> task_queue_id \<Rightarrow> int \<Rightarrow> int64 \<Rightarrow> int64 \<Rightarrow> bool \<Rightarrow> int64 list io" where
  "populatedTaskBuckets E q subqueue firstB lastB unbounded =
     (if \<not> unbounded \<and> sint lastB < sint firstB then Ret (Inr [])
      else pbind (operateP (writePolicy E) (taskIndexKey E (tq_NamespaceID q) (tq_Name q) (tq_Type q) subqueue)
                   [MapGetByKeyRangeOp ''b'' (KInt firstB) (if unbounded then None else Some (KInt (lastB + 1))) RetKey]) (\<lambda>r. case r of
          Inl err \<Rightarrow> if isNotFound err then Ret (Inr []) else Ret (Inl (convertError ''GetTasks'' err))
        | Inr rec \<Rightarrow> Ret (Inr (List.map_filter asInt64 (orZero (asList (Bins rec ''b'')) [])))))"

fun getEntries :: "env \<Rightarrow> matchingTaskCodec \<Rightarrow> int64 \<Rightarrow> (int64 \<times> bytes) option \<Rightarrow> int \<Rightarrow> int64 \<Rightarrow> (gval \<times> gval) list \<Rightarrow>
    blob list \<times> int64 \<times> bytes \<Rightarrow> blob list \<times> page_token + blob list \<times> int64 \<times> bytes" where
  "getEntries E c now token pageSize b [] st = Inr st"
| "getEntries E c now token pageSize b ((k, v) # es) (acc, lastB, lastK) =
     (let encoded = matchingEncodedBytes c k in
      if (case token of None \<Rightarrow> False | Some (tb, tk) \<Rightarrow> b = tb \<and> bytesCompare encoded tk \<le> 0)
      then getEntries E c now token pageSize b es (acc, lastB, lastK)
      else if int (length acc) = pageSize then Inl (acc, encodeTaskPageToken lastB lastK)
      else (case taskFromValue E v of
          None \<Rightarrow> getEntries E c now token pageSize b es (acc, lastB, lastK)
        | Some (blob, expiry) \<Rightarrow>
            if 0 < sint expiry \<and> sint expiry \<le> sint now then getEntries E c now token pageSize b es (acc, lastB, lastK)
            else getEntries E c now token pageSize b es (acc @ [blob], b, encoded)))"

primrec getBuckets :: "env \<Rightarrow> matchingTaskCodec \<Rightarrow> int64 \<Rightarrow> (int64 \<times> bytes) option \<Rightarrow> int \<Rightarrow> mkey \<Rightarrow> mkey option \<Rightarrow> (int64 \<Rightarrow> askey) \<Rightarrow>
    int64 list \<Rightarrow> blob list \<times> int64 \<times> bytes \<Rightarrow> (blob list \<times> page_token) io" where
  "getBuckets E c now token pageSize minKey maxKey keyOf [] = (\<lambda>st. Ret (Inr (fst st, NoToken)))"
| "getBuckets E c now token pageSize minKey maxKey keyOf (b # buckets) = (\<lambda>st.
     pbind (operateP (writePolicy E) (keyOf b) [MapGetByKeyRangeOp ''t'' minKey maxKey RetKeyValue]) (\<lambda>r. case r of
        Inl err \<Rightarrow>
          if isNotFound err then getBuckets E c now token pageSize minKey maxKey keyOf buckets st
          else Ret (Inl (convertError ''GetTasks'' err))
      | Inr rec \<Rightarrow> (case getEntries E c now token pageSize b (recordMapPairs rec ''t'') st of
            Inl resp \<Rightarrow> Ret (Inr resp)
          | Inr st' \<Rightarrow> getBuckets E c now token pageSize minKey maxKey keyOf buckets st')))"

definition GetTasks :: "env \<Rightarrow> bool \<Rightarrow> int64 \<Rightarrow> get_matching_req \<Rightarrow> (blob list \<times> page_token) io" where
  "GetTasks E isFair now request =
     (let c = \<lparr>fair = isFair\<rparr>; q = mg_Queue request in
      case decodeTaskPageToken (mg_NextPageToken request) of
        Inl e \<Rightarrow> Ret (Inl e)
      | Inr token \<Rightarrow>
          let firstB = mtBucket c (mg_InclusiveMinTaskID request);
              firstB = (case token of None \<Rightarrow> firstB | Some (tb, _) \<Rightarrow> if sint firstB < sint tb then tb else firstB);
              unbounded = (isFair \<or> sint (mg_ExclusiveMaxTaskID request) \<le> 0);
              lastB = (if unbounded then -1
                else let l = mtBucket c (mg_ExclusiveMaxTaskID request)
                     in if and (mg_ExclusiveMaxTaskID request) (2 ^ 12 - 1) = 0 then l - 1 else l);
              pageSize = (if mg_PageSize request \<le> 0 then 1000 else mg_PageSize request);
              minKey = mtEncode c (mg_InclusiveMinPass request) (mg_InclusiveMinTaskID request);
              maxKey = (if unbounded then None else Some (mtEncode c 0 (mg_ExclusiveMaxTaskID request)))
          in tryP (populatedTaskBuckets E q (mg_Subqueue request) firstB lastB unbounded) (\<lambda>buckets.
             getBuckets E c now token pageSize minKey maxKey
               (taskKey E (tq_NamespaceID q) (tq_Name q) (tq_Type q) (mg_Subqueue request)) buckets ([], 0, [])))"

section \<open>Completing tasks\<close>

record complete_req =
  cp_Queue :: task_queue_id
  cp_Subqueue :: int
  cp_ExclusiveMaxPass :: int64
  cp_ExclusiveMaxTaskID :: int64
  cp_Limit :: int64

text \<open>The number of deleted tasks is returned beside the error, which is nil after a complete run.\<close>

primrec completeTaskBuckets :: "env \<Rightarrow> int64 \<Rightarrow> mkey \<Rightarrow> mkey \<Rightarrow> (int64 \<Rightarrow> askey) \<Rightarrow> int64 list \<Rightarrow> int64 \<Rightarrow> (int64 \<times> perr option) prog" where
  "completeTaskBuckets E limit minKey maxKey keyOf [] = (\<lambda>deleted. Ret (deleted, None))"
| "completeTaskBuckets E limit minKey maxKey keyOf (b # buckets) = (\<lambda>deleted.
     if 0 < sint limit \<and> sint limit \<le> sint deleted then Ret (deleted, None)
     else pbind (operateP (writePolicy E) (keyOf b) [MapRemoveByKeyRangeOp ''t'' minKey (Some maxKey) RetCount]) (\<lambda>r. case r of
            Inl err \<Rightarrow>
              if isNotFound err then completeTaskBuckets E limit minKey maxKey keyOf buckets deleted
              else Ret (deleted, Some (convertError ''CompleteTasksLessThan'' err))
          | Inr rec \<Rightarrow> completeTaskBuckets E limit minKey maxKey keyOf buckets
              (case lastOpResultInt rec ''t'' of Some n \<Rightarrow> deleted + n | None \<Rightarrow> deleted)))"

definition CompleteTasksLessThan :: "env \<Rightarrow> bool \<Rightarrow> complete_req \<Rightarrow> (int64 \<times> perr option) prog" where
  "CompleteTasksLessThan E isFair request =
     (let c = \<lparr>fair = isFair\<rparr>; q = cp_Queue request in
      pbind (populatedTaskBuckets E q (cp_Subqueue request) 0 (mtBucket c (cp_ExclusiveMaxTaskID request)) False) (\<lambda>r. case r of
         Inl e \<Rightarrow> Ret (0, Some e)
       | Inr buckets \<Rightarrow> completeTaskBuckets E (cp_Limit request) (mtEncode c 0 0) (mtEncode c (cp_ExclusiveMaxPass request) (cp_ExclusiveMaxTaskID request))
        (taskKey E (tq_NamespaceID q) (tq_Name q) (tq_Type q) (cp_Subqueue request)) buckets 0))"

section \<open>User data\<close>

definition GetTaskQueueUserData :: "env \<Rightarrow> string \<Rightarrow> string \<Rightarrow> (int64 \<times> blob option) io" where
  "GetTaskQueueUserData E namespaceID taskQueue =
     pbind (getP (readPolicy E) (taskQueueUserDataKey E namespaceID taskQueue) []) (\<lambda>r. case r of
        Inl err \<Rightarrow>
          if isNotFound err then Ret (Inl (NotFound taskQueue)) else Ret (Inl (convertError ''GetTaskQueueUserData'' err))
      | Inr rec \<Rightarrow> Ret (Inr (binInt64 rec ''ud_version'', readBlob E rec ''udata'' ''enc'')))"

text \<open>An update with its two flags, each absent when the caller's pointer is nil.\<close>

record user_data_update =
  ud_Version :: int64
  ud_UserData :: blob
  ud_BuildIdsAdded :: "string list"
  ud_BuildIdsRemoved :: "string list"
  ud_Applied :: "bool option"
  ud_Conflicting :: "bool option"

definition userDataBins :: "env \<Rightarrow> blob \<Rightarrow> int64 \<Rightarrow> (string \<times> gval) list" where
  "userDataBins E userData version =
     [(''udata'', GBytes (blob_data userData)), (''enc'', GString (EncodingType_String E (blob_enc userData))), (''ud_version'', GInt64 version)]"

definition setApplied :: "bool \<Rightarrow> user_data_update \<Rightarrow> user_data_update" where
  "setApplied b u = u\<lparr>ud_Applied := map_option (\<lambda>_. b) (ud_Applied u)\<rparr>"

definition markConflict :: "user_data_update \<Rightarrow> user_data_update" where
  "markConflict u = u\<lparr>ud_Conflicting := map_option (\<lambda>_. True) (ud_Conflicting u), ud_Applied := map_option (\<lambda>_. False) (ud_Applied u)\<rparr>"

primrec addBuildIDs :: "env \<Rightarrow> txnScope \<Rightarrow> string \<Rightarrow> string \<Rightarrow> string list \<Rightarrow> unit io" where
  "addBuildIDs E t namespaceID taskQueue [] = Ret (Inr ())"
| "addBuildIDs E t namespaceID taskQueue (buildID # buildIDs) =
     pbind (operateP (ts_write t) (buildIDIndexKey E namespaceID buildID) [MapPutOp ''queues'' (KStr taskQueue) (GInt 1)]) (\<lambda>r. case r of
        Inl err \<Rightarrow> Ret (Inl (convertError ''UpdateTaskQueueUserData'' err))
      | Inr _ \<Rightarrow> addBuildIDs E t namespaceID taskQueue buildIDs)"

primrec removeBuildIDs :: "env \<Rightarrow> txnScope \<Rightarrow> string \<Rightarrow> string \<Rightarrow> string list \<Rightarrow> unit io" where
  "removeBuildIDs E t namespaceID taskQueue [] = Ret (Inr ())"
| "removeBuildIDs E t namespaceID taskQueue (buildID # buildIDs) =
     pbind (operateP (ts_write t) (buildIDIndexKey E namespaceID buildID) [MapRemoveByKeyOp ''queues'' (KStr taskQueue) RetNone]) (\<lambda>r. case r of
        Inl err \<Rightarrow>
          if \<not> isNotFound err then Ret (Inl (convertError ''UpdateTaskQueueUserData'' err))
          else removeBuildIDs E t namespaceID taskQueue buildIDs
      | Inr _ \<Rightarrow> removeBuildIDs E t namespaceID taskQueue buildIDs)"

text \<open>The versioned put; a lost version check is the error \<open>ConditionFailed\<close> with the queue's name.\<close>

definition putUserData :: "env \<Rightarrow> txnScope \<Rightarrow> string \<Rightarrow> string \<Rightarrow> user_data_update \<Rightarrow> unit io" where
  "putUserData E t namespaceID taskQueue u =
     (let key = taskQueueUserDataKey E namespaceID taskQueue in
      if ud_Version u = 0 then
        pbind (putBinsP ((ts_write t)\<lparr>wp_RecordExistsAction := CREATE_ONLY\<rparr>) key (userDataBins E (ud_UserData u) 1)) (\<lambda>w. case w of
           Inl err \<Rightarrow>
             if isKeyExists err then Ret (Inl (ConditionFailed taskQueue))
             else Ret (Inl (convertError ''UpdateTaskQueueUserData'' err))
         | Inr _ \<Rightarrow> Ret (Inr ()))
      else
        pbind (putBinsP (condWriteTxn E (ExpEqInt ''ud_version'' (ud_Version u)) (ts_txn t)) key (userDataBins E (ud_UserData u) (ud_Version u + 1))) (\<lambda>w. case w of
           Inl err \<Rightarrow>
             if isFilteredOut err \<or> isNotFound err then Ret (Inl (ConditionFailed taskQueue))
             else Ret (Inl (convertError ''UpdateTaskQueueUserData'' err))
         | Inr _ \<Rightarrow> Ret (Inr ())))"

text \<open>The loop over the updates; on an error, also the queue whose version check was lost.\<close>

fun userDataLoop :: "env \<Rightarrow> txnScope \<Rightarrow> string \<Rightarrow> (string \<times> user_data_update) list \<Rightarrow> ((perr \<times> string option) + unit) prog" where
  "userDataLoop E t namespaceID [] = Ret (Inr ())"
| "userDataLoop E t namespaceID ((taskQueue, u) # updates) =
     pbind (putUserData E t namespaceID taskQueue u) (\<lambda>r. case r of
        Inl e \<Rightarrow> Ret (Inl (e, if e = ConditionFailed taskQueue then Some taskQueue else None))
      | Inr _ \<Rightarrow>
          pbind (tryP (addBuildIDs E t namespaceID taskQueue (ud_BuildIdsAdded u)) (\<lambda>_.
                 removeBuildIDs E t namespaceID taskQueue (ud_BuildIdsRemoved u))) (\<lambda>r. case r of
             Inl e \<Rightarrow> Ret (Inl (e, None))
           | Inr _ \<Rightarrow> userDataLoop E t namespaceID updates))"

definition markQueue :: "string option \<Rightarrow> (string \<times> user_data_update) list \<Rightarrow> (string \<times> user_data_update) list" where
  "markQueue conflict updates = map (\<lambda>(q, u). (q, if conflict = Some q then markConflict u else u)) updates"

text \<open>Returned: the result of the call, and the updates with their flags as the caller finds them afterwards.\<close>

definition UpdateTaskQueueUserData :: "env \<Rightarrow> string \<Rightarrow> (string \<times> user_data_update) list \<Rightarrow> ((perr + unit) \<times> (string \<times> user_data_update) list) prog" where
  "UpdateTaskQueueUserData E namespaceID updates =
     (let updates = map (\<lambda>(q, u). (q, setApplied False u)) updates in
      pbind newTxnP (\<lambda>txn. let t = beginTxn E txn in
      pbind (userDataLoop E t namespaceID updates) (\<lambda>r. case r of
         Inl (e, conflict) \<Rightarrow> pbind (finishTxn t False) (\<lambda>_. Ret (Inl e, markQueue conflict updates))
       | Inr _ \<Rightarrow> pbind (commitTxn t ''UpdateTaskQueueUserData'') (\<lambda>cr. case cr of
             Inl e \<Rightarrow> pbind (finishTxn t False) (\<lambda>_. Ret (Inl e, updates))
           | Inr _ \<Rightarrow> pbind (finishTxn t True) (\<lambda>_. Ret (Inr (), map (\<lambda>(q, u). (q, setApplied True u)) updates))))))"

definition GetTaskQueuesByBuildId :: "env \<Rightarrow> string \<Rightarrow> string \<Rightarrow> string list io" where
  "GetTaskQueuesByBuildId E namespaceID buildID =
     pbind (getP (readPolicy E) (buildIDIndexKey E namespaceID buildID) [''queues'']) (\<lambda>r. case r of
        Inl err \<Rightarrow> if isNotFound err then Ret (Inr []) else Ret (Inl (convertError ''GetTaskQueuesByBuildId'' err))
      | Inr rec \<Rightarrow> Ret (Inr (List.map_filter (asString \<circ> fst) (recordMapPairs rec ''queues''))))"

definition CountTaskQueuesByBuildId :: "env \<Rightarrow> string \<Rightarrow> string \<Rightarrow> int io" where
  "CountTaskQueuesByBuildId E namespaceID buildID =
     tryP (GetTaskQueuesByBuildId E namespaceID buildID) (\<lambda>queues. Ret (Inr (int (length queues))))"

end
