(* ===== verification/TaskQueueProps.thy ===== *)
theory TaskQueueProps
  imports TaskQueueStore BucketedQueue HistoryTasksProps Frame
begin

text \<open>
  The properties of \<open>TaskQueueStore\<close>: tasks are written only while the queue carries the range id of the
  writer, all of them at one instant; and what ordering by pass does to the buckets by task id.
\<close>

section \<open>Grouping by subqueue and bucket\<close>

definition refOf :: "matchingTaskCodec \<Rightarrow> create_task \<Rightarrow> bucketRef" where
  "refOf c task = (ct_Subqueue task, mtBucket c (ct_TaskId task))"

definition taskPut :: "env \<Rightarrow> matchingTaskCodec \<Rightarrow> create_task \<Rightarrow> mkey \<times> gval" where
  "taskPut E c task = (mtEncode c (ct_TaskPass task) (ct_TaskId task), taskValue E (ct_Task task) (ct_ExpiryTime task))"

definition refPuts :: "env \<Rightarrow> matchingTaskCodec \<Rightarrow> create_task list \<Rightarrow> bucketRef \<Rightarrow> (mkey \<times> gval) list" where
  "refPuts E c tasks ref = map (taskPut E c) (filter (\<lambda>task. refOf c task = ref) tasks)"

lemma map_of_groupByRef:
  "map_of (groupByRef b x g) b' = (if b' = b then Some ((case map_of g b of None \<Rightarrow> [] | Some xs \<Rightarrow> xs) @ [x]) else map_of g b')"
  by (induction b x g rule: groupByRef.induct) auto

lemma distinct_groupByRef: "distinct (map fst g) \<Longrightarrow> distinct (map fst (groupByRef b x g))"
proof -
  have "fst ` set (groupByRef b x g) = insert b (fst ` set g)" for g
    by (induction b x g rule: groupByRef.induct) auto
  then show "distinct (map fst g) \<Longrightarrow> ?thesis"
    by (induction b x g rule: groupByRef.induct) auto
qed

lemma groupCreates_map_of:
  "distinct (map fst (groupCreates E c tasks)) \<and>
   map_of (groupCreates E c tasks) ref = (if refPuts E c tasks ref = [] then None else Some (putOps ''t'' (refPuts E c tasks ref)))"
proof (induction tasks arbitrary: ref rule: rev_induct)
  case Nil
  then show ?case by (simp add: groupCreates_def refPuts_def)
next
  case (snoc task tasks)
  have g: "groupCreates E c (tasks @ [task]) = groupByRef (refOf c task) (case taskPut E c task of (k, x) \<Rightarrow> MapPutOp ''t'' k x) (groupCreates E c tasks)"
    by (simp add: groupCreates_def refOf_def taskPut_def)
  have "refPuts E c (tasks @ [task]) ref = refPuts E c tasks ref @ (if refOf c task = ref then [taskPut E c task] else [])"
    by (simp add: refPuts_def)
  then show ?case
    unfolding g map_of_groupByRef using snoc [of ref] snoc [of "refOf c task"] by (simp add: distinct_groupByRef)
qed

lemma groupCreates_entry:
  assumes "(ref, ops) \<in> set (groupCreates E c tasks)"
  shows "ops = putOps ''t'' (refPuts E c tasks ref)" "refPuts E c tasks ref \<noteq> []"
proof -
  have "map_of (groupCreates E c tasks) ref = Some ops" using map_of_is_SomeI [OF _ assms] groupCreates_map_of by blast
  then show "ops = putOps ''t'' (refPuts E c tasks ref)" "refPuts E c tasks ref \<noteq> []"
    using groupCreates_map_of [of E c tasks ref] by (simp_all split: if_splits)
qed

lemma groupCreates_refs: "fst ` set (groupCreates E c tasks) = refOf c ` set tasks"
proof -
  have "ref \<in> fst ` set (groupCreates E c tasks) \<longleftrightarrow> refPuts E c tasks ref \<noteq> []" for ref
    using groupCreates_map_of [of E c tasks ref] map_of_eq_None_iff [of "groupCreates E c tasks" ref] by (metis option.distinct(1))
  then have "ref \<in> fst ` set (groupCreates E c tasks) \<longleftrightarrow> ref \<in> refOf c ` set tasks" for ref
    by (auto simp: refPuts_def filter_empty_conv)
  then show ?thesis by blast
qed

section \<open>Writing the groups\<close>

abbreviation "tkey E q ref \<equiv> taskKey E (tq_NamespaceID q) (tq_Name q) (tq_Type q) (fst ref) (snd ref)"
abbreviation "ikey E q sub \<equiv> taskIndexKey E (tq_NamespaceID q) (tq_Name q) (tq_Type q) sub"

lemma tkey_inject [simp]: "tkey E q ref = tkey E q ref' \<longleftrightarrow> ref = ref'"
proof -
  let ?p = "[tq_NamespaceID q, tq_Name q, dec_int (sint (tq_Type q))]"
  have "joinColon (?p @ [dec_int a, dec_int (sint b)]) = joinColon (?p @ [dec_int a', dec_int (sint b')]) \<longleftrightarrow> a = a' \<and> b = b'" for a a' and b b' :: int64
    using joinColon_last [of "dec_int (sint b)" "dec_int (sint b')" "?p @ [dec_int a]" "?p @ [dec_int a']"]
      joinColon_last [of "dec_int a" "dec_int a'" ?p ?p] by (auto simp: sint_inject64)
  then show ?thesis by (cases ref; cases ref') (simp add: taskKey_def)
qed

lemma task_keys [simp]:
  "tkey E q ref \<noteq> ikey E q' sub" "ikey E q' sub \<noteq> tkey E q ref" "tqKey E q \<noteq> tkey E q' ref" "tkey E q' ref \<noteq> tqKey E q"
  "tqKey E q \<noteq> ikey E q' sub" "ikey E q' sub \<noteq> tqKey E q"
  by (simp_all add: taskKey_def taskIndexKey_def tqKey_def taskQueueKey_def)

lemma apply_puts_ok:
  "apply_ops (putOps b kvs) r = Inr (res, r') \<Longrightarrow> entries (r' b) = upds kvs (entries (r b)) \<and> (\<forall>b'. b' \<noteq> b \<longrightarrow> r' b' = r b')"
proof (induction kvs arbitrary: r res)
  case (Cons kv kvs)
  obtain k x where kv: "kv = (k, x)" by (cases kv)
  with Cons.prems obtain r1 res' where r1: "apply_ops [MapPutOp b k x] r = Inr (res', r1)" and rest: "\<exists>res. apply_ops (putOps b kvs) r1 = Inr (res, r')"
    by (auto split: sum.splits prod.splits)
  then have "r1 = r(b \<mapsto> BMap (omap_put k (norm x) (the_map (r b))))" unfolding apply_put_ok by blast
  moreover from this have "entries (r1 b) = (entries (r b))(k \<mapsto> norm x)" by (simp add: map_of_omap_put entries_def fun_eq_iff)
  moreover obtain res2 where "apply_ops (putOps b kvs) r1 = Inr (res2, r')" using rest by blast
  from Cons.IH [OF this] have "entries (r' b) = upds kvs (entries (r1 b))" "\<And>b'. b' \<noteq> b \<Longrightarrow> r' b' = r1 b'" by blast+
  ultimately show ?case by (simp add: kv)
qed simp

lemma upds_stored: "distinct (map fst kvs) \<Longrightarrow> (k, x) \<in> set kvs \<Longrightarrow> upds kvs f k = Some (norm x)"
proof (induction kvs arbitrary: f)
  case (Cons p kvs)
  then show ?case using upds_notin [of k kvs] by (cases p) force
qed simp

text \<open>What writing groups does to buckets and indexes.\<close>

definition refsWrote :: "env \<Rightarrow> task_queue_id \<Rightarrow> bucketRef set \<Rightarrow> (bucketRef \<Rightarrow> (mkey \<times> gval) list) \<Rightarrow> store \<Rightarrow> store \<Rightarrow> bool" where
  "refsWrote E q refs K s s' \<longleftrightarrow>
     (\<forall>ref. entries (binOf s' (tkey E q ref) ''t'') = (if ref \<in> refs then upds (K ref) else id) (entries (binOf s (tkey E q ref) ''t''))) \<and>
     (\<forall>sub mk. entries (binOf s' (ikey E q sub) ''b'') mk =
        (if \<exists>b. (sub, b) \<in> refs \<and> mk = KInt b then Some (GInt 1) else entries (binOf s (ikey E q sub) ''b'') mk)) \<and>
     (\<forall>ref b. b \<noteq> ''t'' \<longrightarrow> binOf s' (tkey E q ref) b = binOf s (tkey E q ref) b) \<and>
     (\<forall>sub b. b \<noteq> ''b'' \<longrightarrow> binOf s' (ikey E q sub) b = binOf s (ikey E q sub) b) \<and>
     (\<forall>k. k \<notin> tkey E q ` refs \<longrightarrow> k \<notin> ikey E q ` fst ` refs \<longrightarrow> s' k = s k)"

lemma refsWrote_trans:
  assumes "refsWrote E q {ref} K s s1" "refsWrote E q refs K s1 s2" "ref \<notin> refs"
  shows "refsWrote E q (insert ref refs) K s s2"
  unfolding refsWrote_def
proof (intro conjI allI impI)
  note a = assms(1) [unfolded refsWrote_def] and b = assms(2) [unfolded refsWrote_def]
  show "entries (binOf s2 (tkey E q ref') ''t'') = (if ref' \<in> insert ref refs then upds (K ref') else id) (entries (binOf s (tkey E q ref') ''t''))" for ref'
    using conjunct1 [OF a] conjunct1 [OF b] assms(3) by (cases "ref' = ref") simp_all
  have idx: "entries (binOf s1 (ikey E q sub) ''b'') mk =
      (if \<exists>b. (sub, b) \<in> {ref} \<and> mk = KInt b then Some (GInt 1) else entries (binOf s (ikey E q sub) ''b'') mk)"
    "entries (binOf s2 (ikey E q sub) ''b'') mk =
      (if \<exists>b. (sub, b) \<in> refs \<and> mk = KInt b then Some (GInt 1) else entries (binOf s1 (ikey E q sub) ''b'') mk)" for sub mk
    by (rule conjunct1 [OF conjunct2 [OF a], rule_format], rule conjunct1 [OF conjunct2 [OF b], rule_format])
  show "entries (binOf s2 (ikey E q sub) ''b'') mk =
      (if \<exists>b. (sub, b) \<in> insert ref refs \<and> mk = KInt b then Some (GInt 1) else entries (binOf s (ikey E q sub) ''b'') mk)" for sub mk
    unfolding idx by auto
  show "binOf s2 (tkey E q ref') b' = binOf s (tkey E q ref') b'" if "b' \<noteq> ''t''" for ref' b'
    using a b that by simp
  show "binOf s2 (ikey E q sub) b' = binOf s (ikey E q sub) b'" if "b' \<noteq> ''b''" for sub b'
    using a b that by simp
  show "s2 k = s k" if "k \<notin> tkey E q ` insert ref refs" "k \<notin> ikey E q ` fst ` insert ref refs" for k
    using a b that by simp
qed

lemma ikey_inject [simp]: "ikey E q a = ikey E q b \<longleftrightarrow> a = b"
  by (simp add: taskIndexKey_def joinColon_Cons)

lemma writeRefs_ok:
  "prun Q (writeRefs E (beginTxn E' t) q gs) s = (Inr (), s') \<Longrightarrow> distinct (map fst gs) \<Longrightarrow>
   \<forall>(ref, ops) \<in> set gs. ops = putOps ''t'' (K ref) \<and> K ref \<noteq> [] \<Longrightarrow> refsWrote E q (fst ` set gs) K s s'"
proof (induction gs arbitrary: s)
  case Nil
  then show ?case by (simp add: refsWrote_def)
next
  case (Cons g gs)
  obtain sub b where g: "g = ((sub, b), putOps ''t'' (K (sub, b)))" and K: "K (sub, b) \<noteq> []" using Cons.prems(3) by (cases g) auto
  let ?k = "taskKey E (tq_NamespaceID q) (tq_Name q) (tq_Type q) sub b" and ?i = "ikey E q sub"
  have cr: "list_ex op_creates (putOps ''t'' (K (sub, b)))" using K by (cases "K (sub, b)") (auto split: prod.splits)
  have ki: "?i \<noteq> ?k" using task_keys(2) [of E q sub q "(sub, b)"] by simp
  from Cons.prems(1) obtain res1 r1 res2 r2 where r1: "apply_ops (putOps ''t'' (K (sub, b))) (old_bins (s ?k)) = Inr (res1, r1)"
    and r2: "apply_ops [MapPutOp ''b'' (KInt b) (GInt 1)] (old_bins (s ?i)) = Inr (res2, r2)"
    and rest: "prun Q (writeRefs E (beginTxn E' t) q gs) (s(?k \<mapsto> r1, ?i \<mapsto> r2)) = (Inr (), s')"
    using cr ki unfolding g writeRefs.simps
    by (auto simp: prun_operate_ok split: sum.splits prod.splits simp del: apply_ops.simps)
  let ?s1 = "s(?k \<mapsto> r1, ?i \<mapsto> r2)"
  have one: "refsWrote E q {(sub, b)} K s ?s1"
  proof -
    have t: "entries (r1 ''t'') = upds (K (sub, b)) (entries (binOf s ?k ''t''))" "\<And>b'. b' \<noteq> ''t'' \<Longrightarrow> r1 b' = binOf s ?k b'"
      using apply_puts_ok [OF r1] by (simp_all add: binOf_def)
    have i: "entries (r2 ''b'') = (entries (binOf s ?i ''b''))(KInt b \<mapsto> GInt 1)" "\<And>b'. b' \<noteq> ''b'' \<Longrightarrow> r2 b' = binOf s ?i b'"
      using apply_puts_ok [of "''b''" "[(KInt b, GInt 1)]" "old_bins (s ?i)" res2 r2] r2 by (simp_all add: binOf_def)
    have k: "tkey E q ref = ?k \<longleftrightarrow> ref = (sub, b)" "tkey E q ref \<noteq> ?i" for ref using tkey_inject [of E q ref "(sub, b)"] by simp_all
    show ?thesis unfolding refsWrote_def
    proof (intro conjI allI impI)
      show "entries (binOf ?s1 (tkey E q ref) ''t'') = (if ref \<in> {(sub, b)} then upds (K ref) else id) (entries (binOf s (tkey E q ref) ''t''))" for ref
        using t(1) ki k [of ref] by (auto simp: binOf_def)
      show "entries (binOf ?s1 (ikey E q sub') ''b'') mk =
          (if \<exists>b'. (sub', b') \<in> {(sub, b)} \<and> mk = KInt b' then Some (GInt 1) else entries (binOf s (ikey E q sub') ''b'') mk)" for sub' mk
        using i(1) task_keys(2) [of E q sub' q "(sub, b)"] by (cases "sub' = sub") (auto simp: binOf_def)
      show "binOf ?s1 (tkey E q ref) b' = binOf s (tkey E q ref) b'" if "b' \<noteq> ''t''" for ref b'
        using t(2) [OF that] ki k [of ref] by (auto simp: binOf_def)
      show "binOf ?s1 (ikey E q sub') b' = binOf s (ikey E q sub') b'" if "b' \<noteq> ''b''" for sub' b'
        using i(2) [OF that] task_keys(2) [of E q sub' q "(sub, b)"] by (cases "sub' = sub") (auto simp: binOf_def)
      show "?s1 k = s k" if "k \<notin> tkey E q ` {(sub, b)}" "k \<notin> ikey E q ` fst ` {(sub, b)}" for k
        using that by simp
    qed
  qed
  have ref: "(sub, b) \<notin> fst ` set gs" using Cons.prems(2) by (auto simp: g)
  have "refsWrote E q (fst ` set gs) K ?s1 s'" by (rule Cons.IH [OF rest]) (use Cons.prems(2,3) in auto)
  then show ?case unfolding g list.set image_insert fst_conv
    by (rule refsWrote_trans [OF one _ ref, simplified])
qed

section \<open>Creating tasks\<close>

definition createTasksBody :: "env \<Rightarrow> bool \<Rightarrow> create_tasks_req \<Rightarrow> txnScope \<Rightarrow> bool io" where
  "createTasksBody E isFair request t =
     pbind (getP (ts_read t) (tqKey E (cq_Queue request)) [''range_id'']) (\<lambda>r. case r of
        Inl err \<Rightarrow>
          if isNotFound err then Ret (Inl (ConditionFailed (tq_Name (cq_Queue request))))
          else Ret (Inl (convertError ''CreateTasks'' err))
      | Inr rec \<Rightarrow>
          if binInt64 rec ''range_id'' \<noteq> cq_RangeID request then Ret (Inl (ConditionFailed (tq_Name (cq_Queue request))))
          else tryP (writeRefs E t (cq_Queue request) (rangeMap E (groupCreates E \<lparr>fair = isFair\<rparr> (cq_Tasks request)))) (\<lambda>_.
            case cq_TaskQueueInfo request of
              None \<Rightarrow> Ret (Inr False)
            | Some info \<Rightarrow>
                pbind (putBinsP (ts_write t) (tqKey E (cq_Queue request))
                         (blobBins E ''data'' ''enc'' (Some info) @ [(''range_id'', GInt64 (cq_RangeID request))])) (\<lambda>w. case w of
                   Inl err \<Rightarrow> Ret (Inl (convertError ''CreateTasks'' err))
                 | Inr _ \<Rightarrow> Ret (Inr True))))"

lemma CreateTasks_scope: "CreateTasks E isFair request = withTxn E ''CreateTasks'' (createTasksBody E isFair request)"
  by (simp add: CreateTasks_def createTasksBody_def [abs_def] Let_def)

lemma txn_body_writeRefs [txn_intros]: "txn_body t (writeRefs E (beginTxn E' t) q gs)"
proof (induction gs)
  case (Cons g gs)
  obtain sub b ops where "g = ((sub, b), ops)" by (metis surj_pair)
  with Cons show ?case by (auto intro!: txn_intros split: sum.splits)
qed simp

lemma txn_body_createTasksBody [txn_intros]: "txn_body t (createTasksBody E isFair request (beginTxn E' t))"
  by (auto simp: createTasksBody_def intro!: txn_intros split: sum.splits option.splits)

definition queueRange :: "env \<Rightarrow> task_queue_id \<Rightarrow> store \<Rightarrow> int64 option" where
  "queueRange E q s = map_option (bin_int ''range_id'') (s (tqKey E q))"

text \<open>A task in the store: its value under its key in its bucket, and the bucket in the index of its subqueue.\<close>

definition taskStored :: "env \<Rightarrow> bool \<Rightarrow> task_queue_id \<Rightarrow> create_task \<Rightarrow> store \<Rightarrow> bool" where
  "taskStored E isFair q task s \<longleftrightarrow>
     entries (binOf s (tkey E q (refOf \<lparr>fair = isFair\<rparr> task)) ''t'') (fst (taskPut E \<lparr>fair = isFair\<rparr> task)) = Some (norm (taskValue E (ct_Task task) (ct_ExpiryTime task))) \<and>
     entries (binOf s (ikey E q (ct_Subqueue task)) ''b'') (KInt (mtBucket \<lparr>fair = isFair\<rparr> (ct_TaskId task))) \<noteq> None"

definition tasksCreated :: "env \<Rightarrow> bool \<Rightarrow> create_tasks_req \<Rightarrow> store \<Rightarrow> store \<Rightarrow> bool" where
  "tasksCreated E isFair request s0 s1 \<longleftrightarrow>
     (\<forall>task \<in> set (cq_Tasks request). taskStored E isFair (cq_Queue request) task s1) \<and>
     (\<forall>ref. \<forall>mk. mk \<notin> (\<lambda>task. fst (taskPut E \<lparr>fair = isFair\<rparr> task)) ` {task \<in> set (cq_Tasks request). refOf \<lparr>fair = isFair\<rparr> task = ref} \<longrightarrow>
        entries (binOf s1 (tkey E (cq_Queue request) ref) ''t'') mk = entries (binOf s0 (tkey E (cq_Queue request) ref) ''t'') mk) \<and>
     (\<forall>sub mk. (\<forall>task \<in> set (cq_Tasks request). ct_Subqueue task = sub \<longrightarrow> KInt (mtBucket \<lparr>fair = isFair\<rparr> (ct_TaskId task)) \<noteq> mk) \<longrightarrow>
        entries (binOf s1 (ikey E (cq_Queue request) sub) ''b'') mk = entries (binOf s0 (ikey E (cq_Queue request) sub) ''b'') mk) \<and>
     (\<forall>ref b. b \<noteq> ''t'' \<longrightarrow> binOf s1 (tkey E (cq_Queue request) ref) b = binOf s0 (tkey E (cq_Queue request) ref) b) \<and>
     (\<forall>sub b. b \<noteq> ''b'' \<longrightarrow> binOf s1 (ikey E (cq_Queue request) sub) b = binOf s0 (ikey E (cq_Queue request) sub) b) \<and>
     queueRange E (cq_Queue request) s1 = Some (cq_RangeID request) \<and>
     (case cq_TaskQueueInfo request of
        None \<Rightarrow> s1 (tqKey E (cq_Queue request)) = s0 (tqKey E (cq_Queue request))
      | Some info \<Rightarrow> \<exists>r. s1 (tqKey E (cq_Queue request)) = Some r \<and> bin_blob E ''data'' ''enc'' r = Some info \<and>
          (\<forall>b. b \<notin> {''data'', ''enc'', ''range_id''} \<longrightarrow> r b = binOf s0 (tqKey E (cq_Queue request)) b)) \<and>
     (\<forall>k. k \<noteq> tqKey E (cq_Queue request) \<longrightarrow> k \<notin> (\<lambda>task. tkey E (cq_Queue request) (refOf \<lparr>fair = isFair\<rparr> task)) ` set (cq_Tasks request) \<longrightarrow>
        k \<notin> (\<lambda>task. ikey E (cq_Queue request) (ct_Subqueue task)) ` set (cq_Tasks request) \<longrightarrow> s1 k = s0 k)"

definition tasksDistinct :: "env \<Rightarrow> bool \<Rightarrow> create_task list \<Rightarrow> bool" where
  "tasksDistinct E isFair tasks \<longleftrightarrow> distinct (map (\<lambda>task. (ct_Subqueue task, fst (taskPut E \<lparr>fair = isFair\<rparr> task))) tasks)"

lemma refPuts_distinct: "tasksDistinct E isFair tasks \<Longrightarrow> distinct (map fst (refPuts E \<lparr>fair = isFair\<rparr> tasks ref))"
proof -
  assume d: "tasksDistinct E isFair tasks"
  let ?f = "\<lambda>task. (ct_Subqueue task, fst (taskPut E \<lparr>fair = isFair\<rparr> task))"
  have "distinct (map ?f (filter (\<lambda>task. refOf \<lparr>fair = isFair\<rparr> task = ref) tasks))"
    using d unfolding tasksDistinct_def by (rule distinct_map_filter)
  moreover have "map ?f (filter (\<lambda>task. refOf \<lparr>fair = isFair\<rparr> task = ref) tasks) = map (Pair (fst ref)) (map fst (refPuts E \<lparr>fair = isFair\<rparr> tasks ref))"
    by (auto simp: refPuts_def refOf_def)
  ultimately show ?thesis by (metis distinct_map)
qed

text \<open>A successful body: the range id was right, the groups were written, and then the queue data, if any.\<close>

lemma createTasksBody_run:
  assumes api: "temporal_api E" and run: "prun Q (createTasksBody E isFair req (beginTxn E' t)) s0 = (Inr x, s1)"
  obtains r sa where "s0 (tqKey E (cq_Queue req)) = Some r" "bin_int ''range_id'' r = cq_RangeID req" "sa (tqKey E (cq_Queue req)) = Some r"
    "refsWrote E (cq_Queue req) (refOf \<lparr>fair = isFair\<rparr> ` set (cq_Tasks req)) (refPuts E \<lparr>fair = isFair\<rparr> (cq_Tasks req)) s0 sa"
    "s1 = (case cq_TaskQueueInfo req of None \<Rightarrow> sa | Some info \<Rightarrow> sa(tqKey E (cq_Queue req) \<mapsto>
        put_bins (blobBins E ''data'' ''enc'' (Some info) @ [(''range_id'', GInt64 (cq_RangeID req))]) r))"
    "x \<longleftrightarrow> cq_TaskQueueInfo req \<noteq> None"
proof -
  let ?q = "cq_Queue req" and ?c = "\<lparr>fair = isFair\<rparr>" and ?K = "refPuts E \<lparr>fair = isFair\<rparr> (cq_Tasks req)"
  let ?g = "groupCreates E ?c (cq_Tasks req)"
  from run obtain r sa where r: "s0 (tqKey E ?q) = Some r" "bin_int ''range_id'' r = cq_RangeID req"
    and w: "prun Q (writeRefs E (beginTxn E' t) ?q (rangeMap E ?g)) s0 = (Inr (), sa)"
    and info: "s1 = (case cq_TaskQueueInfo req of None \<Rightarrow> sa | Some info \<Rightarrow>
        sa(tqKey E ?q \<mapsto> put_bins (blobBins E ''data'' ''enc'' (Some info) @ [(''range_id'', GInt64 (cq_RangeID req))]) (old_bins (sa (tqKey E ?q)))))"
    and x: "x \<longleftrightarrow> cq_TaskQueueInfo req \<noteq> None"
    by (auto simp: createTasksBody_def prun_get prun_put prun_tryP_ok split: option.splits if_splits)
  have "mset (map fst (rangeMap E ?g)) = mset (map fst ?g)" using temporal_api.mset_rangeMap [OF api, of ?g] by (simp add: mset_map)
  then have "distinct (map fst (rangeMap E ?g))" using groupCreates_map_of mset_eq_imp_distinct_iff by blast
  moreover have set: "set (rangeMap E ?g) = set ?g" by (rule temporal_api.set_rangeMap [OF api])
  ultimately have wr: "refsWrote E ?q (refOf ?c ` set (cq_Tasks req)) ?K s0 sa"
    using writeRefs_ok [OF w, of ?K] groupCreates_entry unfolding set groupCreates_refs by blast
  have "tqKey E ?q \<notin> tkey E ?q ` refs" "tqKey E ?q \<notin> ikey E ?q ` subs" for refs subs by (auto simp: tqKey_def taskQueueKey_def taskKey_def taskIndexKey_def)
  then have sa: "sa (tqKey E ?q) = Some r" using wr r(1) by (simp add: refsWrote_def)
  show ?thesis
    by (rule that [OF r sa wr _ x]) (simp add: info sa split: option.splits)
qed

lemma refsWrote_stored:
  assumes wr: "refsWrote E q (refOf \<lparr>fair = isFair\<rparr> ` set tasks) (refPuts E \<lparr>fair = isFair\<rparr> tasks) s s'"
    and dist: "tasksDistinct E isFair tasks"
  shows "task \<in> set tasks \<Longrightarrow> taskStored E isFair q task s'"
    "mk \<notin> (\<lambda>task. fst (taskPut E \<lparr>fair = isFair\<rparr> task)) ` {task \<in> set tasks. refOf \<lparr>fair = isFair\<rparr> task = ref} \<Longrightarrow>
     entries (binOf s' (tkey E q ref) ''t'') mk = entries (binOf s (tkey E q ref) ''t'') mk"
proof -
  let ?c = "\<lparr>fair = isFair\<rparr>" and ?K = "refPuts E \<lparr>fair = isFair\<rparr> tasks"
  have ent: "entries (binOf s' (tkey E q ref) ''t'') = upds (?K ref) (entries (binOf s (tkey E q ref) ''t''))" for ref
  proof (cases "ref \<in> refOf ?c ` set tasks")
    case False
    then have "?K ref = []" by (auto simp: refPuts_def filter_empty_conv)
    with False wr show ?thesis by (simp add: refsWrote_def)
  qed (use wr in \<open>simp add: refsWrote_def\<close>)
  show "taskStored E isFair q task s'" if task: "task \<in> set tasks"
  proof -
    have "taskPut E ?c task \<in> set (?K (refOf ?c task))" using task by (simp add: refPuts_def)
    then have "entries (binOf s' (tkey E q (refOf ?c task)) ''t'') (fst (taskPut E ?c task)) = Some (norm (snd (taskPut E ?c task)))"
      unfolding ent by (intro upds_stored refPuts_distinct [OF dist]) simp
    moreover have "(ct_Subqueue task, mtBucket ?c (ct_TaskId task)) \<in> refOf ?c ` set tasks" using task by (auto simp: refOf_def)
    then have "entries (binOf s' (ikey E q (ct_Subqueue task)) ''b'') (KInt (mtBucket ?c (ct_TaskId task))) \<noteq> None"
      using wr unfolding refsWrote_def by auto
    ultimately show ?thesis by (simp add: taskStored_def taskPut_def)
  qed
  show "entries (binOf s' (tkey E q ref) ''t'') mk = entries (binOf s (tkey E q ref) ''t'') mk"
    if "mk \<notin> (\<lambda>task. fst (taskPut E ?c task)) ` {task \<in> set tasks. refOf ?c task = ref}"
    unfolding ent using that by (intro upds_notin) (auto simp: refPuts_def)
qed

lemma createTasksBody_ok:
  assumes api: "temporal_api E" and dist: "tasksDistinct E isFair (cq_Tasks req)"
    and run: "prun Q (createTasksBody E isFair req (beginTxn E' t)) s0 = (Inr x, s1)"
  shows "queueRange E (cq_Queue req) s0 = Some (cq_RangeID req) \<and> tasksCreated E isFair req s0 s1 \<and> (x \<longleftrightarrow> cq_TaskQueueInfo req \<noteq> None)"
proof -
  let ?q = "cq_Queue req" and ?c = "\<lparr>fair = isFair\<rparr>"
  obtain r sa where r: "s0 (tqKey E ?q) = Some r" "bin_int ''range_id'' r = cq_RangeID req" and sa: "sa (tqKey E ?q) = Some r"
    and wr: "refsWrote E ?q (refOf ?c ` set (cq_Tasks req)) (refPuts E ?c (cq_Tasks req)) s0 sa"
    and info: "s1 = (case cq_TaskQueueInfo req of None \<Rightarrow> sa | Some info \<Rightarrow> sa(tqKey E ?q \<mapsto>
        put_bins (blobBins E ''data'' ''enc'' (Some info) @ [(''range_id'', GInt64 (cq_RangeID req))]) r))"
    and x: "x \<longleftrightarrow> cq_TaskQueueInfo req \<noteq> None"
    by (rule createTasksBody_run [OF api run])
  have same: "s1 k = sa k" if "k \<noteq> tqKey E ?q" for k using that info by (auto split: option.splits)
  have bin: "binOf s1 (tkey E ?q ref) = binOf sa (tkey E ?q ref)" "binOf s1 (ikey E ?q sub) = binOf sa (ikey E ?q sub)" for ref sub
    using same by (simp_all add: binOf_def fun_eq_iff)
  have "taskStored E isFair ?q task s1" if "task \<in> set (cq_Tasks req)" for task
    using refsWrote_stored(1) [OF wr dist that] by (simp add: taskStored_def bin)
  moreover note refsWrote_stored(2) [OF wr dist, folded bin]
  moreover have "entries (binOf s1 (ikey E ?q sub) ''b'') mk = entries (binOf s0 (ikey E ?q sub) ''b'') mk"
    if "\<forall>task \<in> set (cq_Tasks req). ct_Subqueue task = sub \<longrightarrow> KInt (mtBucket ?c (ct_TaskId task)) \<noteq> mk" for sub mk
    using wr that unfolding bin refsWrote_def by (auto simp: refOf_def)
  moreover have "b \<noteq> ''t'' \<Longrightarrow> binOf s1 (tkey E ?q ref) b = binOf s0 (tkey E ?q ref) b"
    "b \<noteq> ''b'' \<Longrightarrow> binOf s1 (ikey E ?q sub) b = binOf s0 (ikey E ?q sub) b" for ref sub b
    using wr unfolding bin refsWrote_def by blast+
  moreover have "case cq_TaskQueueInfo req of None \<Rightarrow> s1 (tqKey E ?q) = s0 (tqKey E ?q)
      | Some info \<Rightarrow> \<exists>r. s1 (tqKey E ?q) = Some r \<and> bin_blob E ''data'' ''enc'' r = Some info \<and>
          (\<forall>b. b \<notin> {''data'', ''enc'', ''range_id''} \<longrightarrow> r b = binOf s0 (tqKey E ?q) b)"
    using info sa r(1) by (auto simp: binOf_def bin_blob_def temporal_api.NewDataBlob_String [OF api] split: option.splits)
  moreover have "queueRange E ?q s1 = Some (cq_RangeID req)" "queueRange E ?q s0 = Some (cq_RangeID req)"
    using info sa r by (auto simp: queueRange_def blobBins_def bin_int_def split: option.splits)
  moreover have "s1 k = s0 k" if "k \<noteq> tqKey E ?q" "k \<notin> (\<lambda>task. tkey E ?q (refOf ?c task)) ` set (cq_Tasks req)"
      "k \<notin> (\<lambda>task. ikey E ?q (ct_Subqueue task)) ` set (cq_Tasks req)" for k
  proof -
    have "k \<notin> tkey E ?q ` refOf ?c ` set (cq_Tasks req)" "k \<notin> ikey E ?q ` fst ` refOf ?c ` set (cq_Tasks req)"
      using that(2,3) by (auto simp: image_image refOf_def)
    with wr same [OF that(1)] show ?thesis by (simp add: refsWrote_def)
  qed
  ultimately show ?thesis using x unfolding tasksCreated_def by blast
qed

text \<open>
  C39. \<^verbatim>\<open>CreateTasks\<close> is fenced by the range id of the queue and atomic: when it succeeds there was one instant at
  which the queue carried the range id of the request, and at that instant all tasks, of every subqueue and
  bucket, were stored under their keys and their buckets entered in the index. Nothing else changed: no other
  task of any bucket, no other entry of the index of any subqueue, no other bin of these records, no bucket or
  index record but those of the tasks, and no record outside the queue; the queue record takes the queue
  data the request brings, if any, which the answer reports, and is untouched otherwise. The tasks of the
  request are assumed to have different keys within a subqueue.
\<close>

theorem CreateTasks_refines:
  assumes srv: "aerospike Q srv store_of base_of work_of R" and api: "temporal_api E" and dist: "tasksDistinct E isFair (cq_Tasks req)"
    and run: "run srv (CreateTasks E isFair req) db = (Inr x, db')"
  shows "\<exists>s0 s1. R (store_of db) s0 \<and> R s1 (store_of db') \<and> queueRange E (cq_Queue req) s0 = Some (cq_RangeID req) \<and>
    tasksCreated E isFair req s0 s1 \<and> (x \<longleftrightarrow> cq_TaskQueueInfo req \<noteq> None)"
proof -
  from aerospike.withTxn_ok [OF srv txn_body_createTasksBody run [unfolded CreateTasks_scope]] createTasksBody_ok [OF api dist]
  show ?thesis by blast
qed

section \<open>A sample queue\<close>

abbreviation "sampleTq \<equiv> \<lparr>tq_NamespaceID = ''n'', tq_Name = ''q'', tq_Type = 1\<rparr>"
abbreviation "sampleTask \<equiv> \<lparr>ct_TaskPass = 2, ct_TaskId = 100, ct_Subqueue = 0, ct_Task = \<lparr>blob_data = [7], blob_enc = 1\<rparr>, ct_ExpiryTime = None\<rparr>"
abbreviation "sampleTasksReq \<equiv> \<lparr>cq_Queue = sampleTq, cq_RangeID = 4, cq_TaskQueueInfo = None, cq_Tasks = [sampleTask]\<rparr>"

definition sampleTaskQueue :: store where
  "sampleTaskQueue = [tqKey sample_env sampleTq \<mapsto> [''range_id'' \<mapsto> BVal (GInt 4)]]"

lemma mtBucket_small: "mtBucket c 100 = 0" "mtBucket c 5000 = 1"
  by (simp_all add: mtBucket_def shr64_def)

lemma sampleTaskQueue_create:
  "\<exists>db'. run (mem_server sampleQuirks) (CreateTasks sample_env True sampleTasksReq) (mem_init sampleTaskQueue) = (Inr False, db')"
proof -
  obtain y db' where y: "run (mem_server sampleQuirks) (CreateTasks sample_env True sampleTasksReq) (mem_init sampleTaskQueue) = (y, db')" by fastforce
  from mem.withTxn_quiet [OF txn_body_createTasksBody y [unfolded CreateTasks_scope]] obtain t s1 where
    p: "prun sampleQuirks (createTasksBody sample_env True sampleTasksReq (beginTxn sample_env t)) sampleTaskQueue = (y, s1)"
    by (auto simp: mem_init_def)
  have g: "rangeMap sample_env (groupCreates sample_env \<lparr>fair = True\<rparr> [sampleTask]) = groupCreates sample_env \<lparr>fair = True\<rparr> [sampleTask]"
    by (simp add: groupCreates_def rangeMap_def sample_env_def)
  have k: "taskKey sample_env ''n'' ''q'' 1 0 0 \<noteq> tqKey sample_env sampleTq" "taskIndexKey sample_env ''n'' ''q'' 1 0 \<noteq> tqKey sample_env sampleTq"
    "taskKey sample_env ''n'' ''q'' 1 0 0 \<noteq> taskIndexKey sample_env ''n'' ''q'' 1 0"
    by (simp_all add: taskKey_def taskIndexKey_def tqKey_def taskQueueKey_def)
  have "y = Inr False"
    using p k k [symmetric] unfolding createTasksBody_def
    by (simp add: prun_get sampleTaskQueue_def bin_int_def prun_tryP g)
      (simp add: groupCreates_def mtBucket_small prun_operate_ok map_write_def Let_def)
  with y show ?thesis by blast
qed

theorem CreateTasks_refines_witness:
  "\<exists>s1. tasksCreated sample_env True sampleTasksReq sampleTaskQueue s1 \<and> taskStored sample_env True sampleTq sampleTask s1"
proof -
  obtain db' where d: "run (mem_server sampleQuirks) (CreateTasks sample_env True sampleTasksReq) (mem_init sampleTaskQueue) = (Inr False, db')"
    using sampleTaskQueue_create by blast
  have "tasksDistinct sample_env True (cq_Tasks sampleTasksReq)" by (simp add: tasksDistinct_def)
  from CreateTasks_refines [OF mem.aerospike_axioms sample.temporal_api_axioms this d] show ?thesis
    by (auto simp: mem_init_def tasksCreated_def)
qed

section \<open>Reading by pass\<close>

definition fairQueue :: store where
  "fairQueue = [taskKey sample_env ''n'' ''q'' 1 0 0 \<mapsto> [''t'' \<mapsto> BMap [(KBytes (PutUint64 2 @ PutUint64 100),
       norm (taskValue sample_env \<lparr>blob_data = [7], blob_enc = 1\<rparr> None))]],
     taskIndexKey sample_env ''n'' ''q'' 1 0 \<mapsto> [''b'' \<mapsto> BMap [(KInt 0, GInt 1)]]]"

text \<open>
  In fair mode a read can miss tasks: tasks are ordered by pass and then id, but the buckets by id alone,
  and a read starts at the bucket of its least task id. A task of a later pass with a small id is stored,
  lies in the range of the request, and is not returned; the answer has no page token, so the reader takes
  the range for empty.
\<close>

lemma GetTasks_fair_misses_task:
  "taskStored sample_env True sampleTq sampleTask fairQueue \<and>
   mtEncode \<lparr>fair = True\<rparr> 1 5000 < mtEncode \<lparr>fair = True\<rparr> (ct_TaskPass sampleTask) (ct_TaskId sampleTask) \<and>
   (\<exists>db'. run (mem_server sampleQuirks) (GetTasks sample_env True 0 \<lparr>mg_Queue = sampleTq, mg_Subqueue = 0, mg_InclusiveMinPass = 1,
      mg_InclusiveMinTaskID = 5000, mg_ExclusiveMaxTaskID = 0, mg_PageSize = 10, mg_NextPageToken = NoToken\<rparr>) (mem_init fairQueue) = (Inr ([], NoToken), db'))"
proof (intro conjI)
  have k: "taskKey sample_env ''n'' ''q'' 1 0 0 \<noteq> taskIndexKey sample_env ''n'' ''q'' 1 0" by (simp add: taskKey_def taskIndexKey_def)
  show "taskStored sample_env True sampleTq sampleTask fairQueue"
    using k by (simp add: taskStored_def refOf_def taskPut_def mtBucket_small mtEncode_def fairQueue_def binOf_def)
  show "mtEncode \<lparr>fair = True\<rparr> 1 5000 < mtEncode \<lparr>fair = True\<rparr> (ct_TaskPass sampleTask) (ct_TaskId sampleTask)"
    by (simp add: mtEncode_def PutUint64_append_less)
  let ?req = "\<lparr>mg_Queue = sampleTq, mg_Subqueue = 0, mg_InclusiveMinPass = 1, mg_InclusiveMinTaskID = 5000, mg_ExclusiveMaxTaskID = 0,
    mg_PageSize = 10, mg_NextPageToken = NoToken\<rparr>"
  have plain: "plain_prog (getBuckets E c now token n lo hi keyOf bs st)" for E c now token n lo hi keyOf bs st
    by (induction bs arbitrary: st) (auto intro!: txn_intros split: sum.splits)
  have whole: "plain_prog (GetTasks sample_env True 0 ?req)"
    by (auto simp: GetTasks_def Let_def populatedTaskBuckets_def intro!: txn_intros plain split: sum.splits)
  have "prun sampleQuirks (GetTasks sample_env True 0 ?req) (m_store (mem_init fairQueue)) = (Inr ([], NoToken), fairQueue)"
    by (simp add: GetTasks_def Let_def populatedTaskBuckets_def prun_tryP prun_map_get mtBucket_small fairQueue_def mem_init_def
        omap_range_def in_range_def less_eq_mkey_def op_record_def policy_defs omap_ok_Cons List.map_filter_simps)
  from mem.quiet_plain_run [OF whole this]
  show "\<exists>db'. run (mem_server sampleQuirks) (GetTasks sample_env True 0 ?req) (mem_init fairQueue) = (Inr ([], NoToken), db')" by blast
qed

end
