(* ===== verification/SchemaVersion.thy ===== *)
theory SchemaVersion
  imports ShardStore
begin

text \<open>
  \<^verbatim>\<open>schema.go\<close>: the version record that keeps a build away from data of an incompatible version. The check
  runs once in every process that opens the store. The semantic-version package is a parameter: a parser and
  the order of its versions. The theorem: however many processes start at once, the record is stamped at
  most once and never overwritten, and whoever gets past the check is compatible with what is stored.
\<close>

section \<open>The check\<close>

record 'v semver =
  sv_ParseTolerant :: "string \<Rightarrow> 'v option"
  sv_LT :: "'v \<Rightarrow> 'v \<Rightarrow> bool"

definition Version :: string where
  "Version = ''1.0''"

definition MinCompatibleVersion :: string where
  "MinCompatibleVersion = ''1.0''"

datatype schema_error =
    SchemaStore perr
  | SchemaEmpty
  | SchemaUnparsable string
  | SchemaOlder string
  | SchemaBelowMinimum string

definition validateSchema :: "'v semver \<Rightarrow> as_record \<Rightarrow> schema_error + unit" where
  "validateSchema V rec =
     (let stored = binString rec ''schema_ver''; storedMinCompatible = binString rec ''min_compat'' in
      if stored = '''' then Inl SchemaEmpty
      else case sv_ParseTolerant V stored of
        None \<Rightarrow> Inl (SchemaUnparsable stored)
      | Some storedVer \<Rightarrow> (case sv_ParseTolerant V Version of
          None \<Rightarrow> Inl (SchemaUnparsable Version)
        | Some ourVer \<Rightarrow>
            if sv_LT V storedVer ourVer then Inl (SchemaOlder stored)
            else if storedMinCompatible \<noteq> '''' then (case sv_ParseTolerant V storedMinCompatible of
                None \<Rightarrow> Inl (SchemaUnparsable storedMinCompatible)
              | Some minVer \<Rightarrow> if sv_LT V ourVer minVer then Inl (SchemaBelowMinimum storedMinCompatible) else Inr ())
            else Inr ()))"

definition schemaBins :: "(string \<times> gval) list" where
  "schemaBins = [(''schema_ver'', GString Version), (''min_compat'', GString MinCompatibleVersion)]"

definition readSchema :: "env \<Rightarrow> (goerr + as_record) prog" where
  "readSchema E = getP (readPolicy E) (schemaVersionKey E) [''schema_ver'', ''min_compat'']"

definition checkSchemaVersion :: "env \<Rightarrow> 'v semver \<Rightarrow> (schema_error + unit) prog" where
  "checkSchemaVersion E V =
     pbind (readSchema E) (\<lambda>r. case r of
        Inr rec \<Rightarrow> Ret (validateSchema V rec)
      | Inl err \<Rightarrow>
          if \<not> isNotFound err then Ret (Inl (SchemaStore (convertError ''checkSchemaVersion'' err)))
          else pbind (putBinsP (createPolicy E) (schemaVersionKey E) schemaBins) (\<lambda>w. case w of
             Inr _ \<Rightarrow> Ret (Inr ())
           | Inl err \<Rightarrow>
               if \<not> isKeyExists err then Ret (Inl (SchemaStore (convertError ''checkSchemaVersion'' err)))
               else pbind (readSchema E) (\<lambda>r. case r of
                  Inl err \<Rightarrow> Ret (Inl (SchemaStore (convertError ''checkSchemaVersion'' err)))
                | Inr rec \<Rightarrow> Ret (validateSchema V rec))))"

section \<open>Compatibility\<close>

text \<open>
  What the check promises, in terms of the stored bins: there is a version, it parses, it is not older than
  this build's, and the minimum it asks for, if any, is not above this build's.
\<close>

definition schemaBin :: "string \<Rightarrow> bins \<Rightarrow> string" where
  "schemaBin b r = orZero (asString (read_bin (r b))) ''''"

definition compatible :: "'v semver \<Rightarrow> bins \<Rightarrow> bool" where
  "compatible V r \<longleftrightarrow> schemaBin ''schema_ver'' r \<noteq> '''' \<and>
     (\<exists>stored our. sv_ParseTolerant V (schemaBin ''schema_ver'' r) = Some stored \<and> sv_ParseTolerant V Version = Some our \<and>
        \<not> sv_LT V stored our \<and>
        (schemaBin ''min_compat'' r = '''' \<or>
           (\<exists>m. sv_ParseTolerant V (schemaBin ''min_compat'' r) = Some m \<and> \<not> sv_LT V our m)))"

lemma validateSchema_iff:
  "validateSchema V (read_bins Q k [''schema_ver'', ''min_compat''] r) = Inr () \<longleftrightarrow> compatible V r"
  by (auto simp: validateSchema_def compatible_def schemaBin_def binString_def read_bins_def Let_def split: option.splits)

lemma compatible_stamp:
  assumes "sv_ParseTolerant V ''1.0'' = Some our" "\<not> sv_LT V our our"
  shows "compatible V (put_bins schemaBins Map.empty)"
  using assms
  by (simp add: compatible_def schemaBin_def schemaBins_def Version_def MinCompatibleVersion_def put_bins_def)

definition schemaOk :: "env \<Rightarrow> 'v semver \<Rightarrow> store \<Rightarrow> bool" where
  "schemaOk E V s \<longleftrightarrow> (\<exists>r. s (schemaVersionKey E) = Some r \<and> compatible V r)"

text \<open>Every state of a starting process, with what it knows about the record.\<close>

inductive starting :: "env \<Rightarrow> 'v semver \<Rightarrow> (schema_error + unit) prog \<Rightarrow> store \<Rightarrow> bool" for E V where
  "starting E V (checkSchemaVersion E V) s"
| "starting E V (pbind (putBinsP (createPolicy E) (schemaVersionKey E) schemaBins) (\<lambda>w. case w of
       Inr _ \<Rightarrow> Ret (Inr ())
     | Inl err \<Rightarrow>
         if \<not> isKeyExists err then Ret (Inl (SchemaStore (convertError ''checkSchemaVersion'' err)))
         else pbind (readSchema E) (\<lambda>r. case r of
            Inl err \<Rightarrow> Ret (Inl (SchemaStore (convertError ''checkSchemaVersion'' err)))
          | Inr rec \<Rightarrow> Ret (validateSchema V rec)))) s"
| "starting E V (pbind (readSchema E) (\<lambda>r. case r of
       Inl err \<Rightarrow> Ret (Inl (SchemaStore (convertError ''checkSchemaVersion'' err)))
     | Inr rec \<Rightarrow> Ret (validateSchema V rec))) s"
| "starting E V (Ret (Inl e)) s"
| "schemaOk E V s \<Longrightarrow> starting E V (Ret (Inr ())) s"

inductive_cases startingE: "starting E V p s"

lemma starting_Ret:
  assumes "starting E V (Ret (Inr ())) s"
  shows "schemaOk E V s"
  using assms
  by (cases rule: starting.cases) (simp_all add: checkSchemaVersion_def readSchema_def getP_def putBinsP_def)

lemma starting_plain:
  assumes "starting E V (Cmd c k) s"
  shows "single c \<and> cmd_txn c = None"
  using assms
  by (cases rule: starting.cases) (auto simp: checkSchemaVersion_def readSchema_def getP_def putBinsP_def)

lemma starting_stable: "starting E V p s \<Longrightarrow> keeps (schemaVersionKey E) s s' \<Longrightarrow> starting E V p s'"
  by (erule startingE) (auto intro: starting.intros simp: schemaOk_def keeps_def)

lemma starting_validated:
  assumes "s (schemaVersionKey E) = Some r"
  shows "starting E V (Ret (validateSchema V (read_bins Q k [''schema_ver'', ''min_compat''] r))) s"
proof (cases "validateSchema V (read_bins Q k [''schema_ver'', ''min_compat''] r)")
  case (Inr u)
  with assms show ?thesis using validateSchema_iff [of V Q k r] by (auto simp: schemaOk_def intro: starting.intros)
qed (simp add: starting.intros)

lemma starting_step:
  assumes own: "sv_ParseTolerant V ''1.0'' = Some our" "\<not> sv_LT V our our" and "starting E V (Cmd c k) s"
    and out: "(r, s') = exec Q c s \<or> fault r \<and> (s' = s \<or> s' = snd (exec Q c s))"
  shows "starting E V (k r) s' \<and> keeps (schemaVersionKey E) s s'"
  using assms(3)
proof (cases rule: starting.cases)
  case 1
  then have c: "c = CGet (readPolicy E) (schemaVersionKey E) [''schema_ver'', ''min_compat'']"
    by (simp add: checkSchemaVersion_def readSchema_def getP_def)
  with out have "s' = s" by (auto simp: exec_get split: option.splits)
  with 1 c out show ?thesis
    by (auto simp: checkSchemaVersion_def readSchema_def getP_def exec_get fault_def keeps_def
        intro!: starting.intros starting_validated split: option.splits resp.splits)
next
  case 2
  then have c: "c = CPut (createPolicy E) (schemaVersionKey E) schemaBins" by (simp add: putBinsP_def)
  have "keeps (schemaVersionKey E) s s'"
    using out unfolding c exec_create by (auto simp: keeps_def split: option.splits)
  moreover have "r = ROk \<Longrightarrow> schemaOk E V s'"
    using out compatible_stamp [OF own] unfolding c exec_create by (auto simp: schemaOk_def fault_def split: option.splits)
  ultimately show ?thesis
    using 2 by (auto simp: putBinsP_def intro: starting.intros split: resp.splits)
next
  case 3
  then have c: "c = CGet (readPolicy E) (schemaVersionKey E) [''schema_ver'', ''min_compat'']"
    by (simp add: readSchema_def getP_def)
  with out have "s' = s" by (auto simp: exec_get split: option.splits)
  with 3 c out show ?thesis
    by (auto simp: readSchema_def getP_def exec_get fault_def keeps_def
        intro!: starting.intros starting_validated split: option.splits resp.splits)
qed

text \<open>
  C7. Any number of processes of this build open the store at the same time, their commands interleaved and
  failing in any way, while other builds may stamp the record but not change it. From the instant at which
  the record exists, whoever stamped it and at whatever point of the run, it stays exactly what it is: no
  process overwrites it; and every process that has got past the check found a stored version it is
  compatible with. The version package is assumed to parse this build's own version and not to order it
  below itself.
\<close>

theorem checkSchemaVersion_agreement:
  assumes srv: "aerospike Q srv store_of base_of work_of R"
    and own: "sv_ParseTolerant V ''1.0'' = Some our" "\<not> sv_LT V our our"
    and keep: "\<And>s s'. R s s' \<Longrightarrow> keeps (schemaVersionKey E) s s'"
    and reach: "(istep srv)\<^sup>*\<^sup>* (replicate n (checkSchemaVersion E V), db) (mid, db1)" "(istep srv)\<^sup>*\<^sup>* (mid, db1) (ps, db')"
  shows "keeps (schemaVersionKey E) (store_of db1) (store_of db') \<and>
    (Ret (Inr ()) \<in> set ps \<longrightarrow> schemaOk E V (store_of db'))"
proof -
  let ?k = "schemaVersionKey E"
  have "(\<forall>p \<in> set ps. starting E V p (store_of db')) \<and> keeps ?k (store_of db1) (store_of db')"
  proof (rule aerospike.rely_guarantee_from [OF srv _ _ _ _ _ _ reach, where G = "keeps ?k"])
    show "starting E V (k r) s' \<and> keeps ?k s s'"
      if "starting E V (Cmd c k) s" "(r, s') = exec Q c s \<or> fault r \<and> (s' = s \<or> s' = snd (exec Q c s))" for c k s r s'
      using starting_step [OF own that] .
  qed (use keep in \<open>auto simp: keeps_def intro: starting.intros starting_stable dest: starting_plain\<close>)
  then show ?thesis by (blast intro: starting_Ret)
qed

definition sampleSemver :: "string semver" where
  "sampleSemver = \<lparr>sv_ParseTolerant = Some, sv_LT = (<)\<rparr>"

lemma sample_boot:
  "(istep (mem_server Q))\<^sup>*\<^sup>* (replicate 1 (checkSchemaVersion sample_env sampleSemver), mem_init Map.empty)
     ([Ret (Inr ())], mem_init [schemaVersionKey sample_env \<mapsto> put_bins schemaBins Map.empty])"
proof -
  let ?put = "CPut (createPolicy sample_env) (schemaVersionKey sample_env) schemaBins"
  let ?k = "\<lambda>r. case (case r of ROk \<Rightarrow> Inr () | _ \<Rightarrow> Inl (wrongKind r)) of Inr _ \<Rightarrow> Ret (Inr ()) | Inl err \<Rightarrow>
       if \<not> isKeyExists err then Ret (Inl (SchemaStore (convertError ''checkSchemaVersion'' err)))
       else pbind (readSchema sample_env) (\<lambda>r. case r of
            Inl err \<Rightarrow> Ret (Inl (SchemaStore (convertError ''checkSchemaVersion'' err)))
          | Inr rec \<Rightarrow> Ret (validateSchema sampleSemver rec))"
  have "istep (mem_server Q) ([checkSchemaVersion sample_env sampleSemver], mem_init Map.empty) ([Cmd ?put ?k], mem_init Map.empty)"
    unfolding checkSchemaVersion_def readSchema_def getP_def pbind.simps
    by (rule istep_first [where r = "RErr (AsError [KEY_NOT_FOUND_ERROR])"]) (simp_all add: mem_init_def putBinsP_def)
  moreover have "istep (mem_server Q) ([Cmd ?put ?k], mem_init Map.empty)
      ([Ret (Inr ())], mem_init [schemaVersionKey sample_env \<mapsto> put_bins schemaBins Map.empty])"
    by (rule istep_first [where r = ROk]) (simp_all add: mem_init_def admit_create)
  ultimately show ?thesis by simp
qed

theorem checkSchemaVersion_agreement_witness:
  "keeps (schemaVersionKey sample_env) Map.empty [schemaVersionKey sample_env \<mapsto> put_bins schemaBins Map.empty] \<and>
   schemaOk sample_env sampleSemver [schemaVersionKey sample_env \<mapsto> put_bins schemaBins Map.empty]"
  using checkSchemaVersion_agreement [OF mem.aerospike_axioms _ _ _ rtranclp.rtrancl_refl sample_boot [of sampleQuirks]]
  by (simp add: mem_init_def sampleSemver_def keeps_def)

end
