(* ===== verification/StoreConfig.thy ===== *)
theory StoreConfig
  imports ShardStore
begin

text \<open>
  \<^verbatim>\<open>config.go\<close> and \<^verbatim>\<open>context.go\<close>: the typed reader of the untyped options of a deployment, and the
  translation of a caller's deadline into the timeouts of a command. The theorems say exactly which options
  are accepted, that an error names an option that is wrong, and that no command ever runs without a timeout.
\<close>

section \<open>Durations\<close>

text \<open>
  \<^verbatim>\<open>time.ParseDuration\<close> of the standard library. Its sums are unsigned 64-bit; the product of a decimal fraction
  with its unit is computed in floating point there and is the parameter \<open>fmul\<close> (fraction, unit, scale).
\<close>

definition digitChar :: "char \<Rightarrow> bool" where
  "digitChar c \<longleftrightarrow> 48 \<le> (of_char c :: nat) \<and> (of_char c :: nat) \<le> 57"

definition digitVal :: "char \<Rightarrow> nat" where
  "digitVal c = of_char c - 48"

fun leadingInt :: "nat \<Rightarrow> string \<Rightarrow> (nat \<times> string) option" where
  "leadingInt x [] = Some (x, [])"
| "leadingInt x (c # s) =
     (if \<not> digitChar c then Some (x, c # s)
      else if x > 2 ^ 63 div 10 then None
      else let x' = x * 10 + digitVal c in if x' > 2 ^ 63 then None else leadingInt x' s)"

fun leadingFraction :: "nat \<Rightarrow> nat \<Rightarrow> bool \<Rightarrow> string \<Rightarrow> nat \<times> nat \<times> string" where
  "leadingFraction x scale overflow [] = (x, scale, [])"
| "leadingFraction x scale overflow (c # s) =
     (if \<not> digitChar c then (x, scale, c # s)
      else if overflow then leadingFraction x scale overflow s
      else if x > (2 ^ 63 - 1) div 10 then leadingFraction x scale True s
      else let y = x * 10 + digitVal c in
        if y > 2 ^ 63 then leadingFraction x scale True s else leadingFraction y (scale * 10) overflow s)"

definition unitMap :: "string \<Rightarrow> nat option" where
  "unitMap u = map_of [(''ns'', 1), (''us'', 10 ^ 3), ([CHR 0xC2, CHR 0xB5, CHR ''s''], 10 ^ 3),
     ([CHR 0xCE, CHR 0xBC, CHR ''s''], 10 ^ 3), (''ms'', 10 ^ 6), (''s'', 10 ^ 9), (''m'', 60 * 10 ^ 9),
     (''h'', 3600 * 10 ^ 9)] u"

definition unitPart :: "string \<Rightarrow> string \<times> string" where
  "unitPart s = (let p = (\<lambda>c. \<not> (c = CHR ''.'' \<or> digitChar c)) in (takeWhile p s, dropWhile p s))"

definition fractionPart :: "string \<Rightarrow> nat \<times> nat \<times> string \<times> bool" where
  "fractionPart s =
     (if s \<noteq> [] \<and> hd s = CHR ''.''
      then (case leadingFraction 0 1 False (tl s) of (f, scale, r) \<Rightarrow> (f, scale, r, length r \<noteq> length (tl s)))
      else (0, 1, s, False))"

text \<open>One term of a duration: its nanoseconds and the rest of the text.\<close>

definition durationTerm :: "(nat \<Rightarrow> nat \<Rightarrow> nat \<Rightarrow> nat) \<Rightarrow> string \<Rightarrow> (nat \<times> string) option" where
  "durationTerm fmul s =
     (if s = [] \<or> \<not> (hd s = CHR ''.'' \<or> digitChar (hd s)) then None
      else case leadingInt 0 s of None \<Rightarrow> None | Some (v, s1) \<Rightarrow>
        (case fractionPart s1 of (f, scale, s2, post) \<Rightarrow>
          if length s1 = length s \<and> \<not> post then None
          else case unitPart s2 of (u, rest) \<Rightarrow>
            if u = [] then None
            else (case unitMap u of None \<Rightarrow> None | Some unit \<Rightarrow>
              if v > 2 ^ 63 div unit then None
              else let v = v * unit; v = (if f > 0 then (v + fmul f unit scale) mod 2 ^ 64 else v) in
                if f > 0 \<and> v > 2 ^ 63 then None else Some (v, rest))))"

lemma leadingInt_length: "leadingInt x s = Some (v, r) \<Longrightarrow> length r \<le> length s"
  by (induction x s rule: leadingInt.induct) (auto simp: Let_def split: if_splits)

lemma leadingFraction_length: "leadingFraction x k ov s = (v, k', r) \<Longrightarrow> length r \<le> length s"
  by (induction x k ov s rule: leadingFraction.induct) (auto simp: Let_def split: if_splits)

lemma unitPart_length: "unitPart s = (u, r) \<Longrightarrow> length s = length u + length r"
  by (auto simp: unitPart_def Let_def simp flip: length_append)

lemma fractionPart_length: "fractionPart s = (f, k, r, post) \<Longrightarrow> length r \<le> length s"
  by (auto simp: fractionPart_def dest: leadingFraction_length split: if_splits prod.splits)

lemma durationTerm_shorter:
  assumes "durationTerm fmul s = Some (v, r)"
  shows "length r < length s"
proof -
  obtain v0 s1 f k s2 post u where *: "leadingInt 0 s = Some (v0, s1)" "fractionPart s1 = (f, k, s2, post)"
      "unitPart s2 = (u, r)" "u \<noteq> []"
    using assms by (auto simp: durationTerm_def Let_def split: option.splits if_splits prod.splits)
  from *(4) show ?thesis
    using leadingInt_length [OF *(1)] fractionPart_length [OF *(2)] unitPart_length [OF *(3)] by (cases u) auto
qed

function durationLoop :: "(nat \<Rightarrow> nat \<Rightarrow> nat \<Rightarrow> nat) \<Rightarrow> nat \<Rightarrow> string \<Rightarrow> nat option" where
  "durationLoop fmul d s =
     (if s = [] then Some d
      else case durationTerm fmul s of None \<Rightarrow> None
        | Some (v, rest) \<Rightarrow> let d' = (d + v) mod 2 ^ 64 in if d' > 2 ^ 63 then None else durationLoop fmul d' rest)"
  by pat_completeness auto
termination by (relation "measure (\<lambda>(_, _, s). length s)") (auto dest: durationTerm_shorter)

declare durationLoop.simps [simp del]

definition ParseDuration :: "(nat \<Rightarrow> nat \<Rightarrow> nat \<Rightarrow> nat) \<Rightarrow> string \<Rightarrow> int option" where
  "ParseDuration fmul s =
     (let neg = (s \<noteq> [] \<and> hd s = CHR ''-'');
          s = (if s \<noteq> [] \<and> (hd s = CHR ''-'' \<or> hd s = CHR ''+'') then tl s else s)
      in if s = ''0'' then Some 0
         else if s = [] then None
         else case durationLoop fmul 0 s of None \<Rightarrow> None
           | Some d \<Rightarrow> if neg then Some (- int d) else if d > 2 ^ 63 - 1 then None else Some (int d))"

section \<open>Options\<close>

text \<open>
  An option value by its dynamic type; \<open>YFloat m e\<close> is the double \<open>m * 2 ^ e\<close>. Converting a double that no
  64-bit integer can hold is left open by the language: the parameter \<open>huge\<close>. A Go \<^verbatim>\<open>int\<close> has 64 bits.
\<close>

datatype yaml =
    YNil
  | YString string
  | YBool bool
  | YInt int64
  | YInt64 int64
  | YFloat int int
  | YStrings "string list"
  | YList "yaml list"
  | YOther

type_synonym options = "string \<rightharpoonup> yaml"

datatype config_error =
    WrongStoreName string
  | BadOption string
  | BadListItem string nat
  | NoHosts
  | NoNamespace
  | TxnTimeoutTooLong int

record runtime =
  rt_fmul :: "nat \<Rightarrow> nat \<Rightarrow> nat \<Rightarrow> nat"
  rt_huge :: "int \<Rightarrow> int \<Rightarrow> int64"

definition truncated :: "int \<Rightarrow> int \<Rightarrow> int" where
  "truncated m e = (if 0 \<le> e then m * 2 ^ nat e else sgn m * (\<bar>m\<bar> div 2 ^ nat (- e)))"

definition floatToInt :: "runtime \<Rightarrow> int \<Rightarrow> int \<Rightarrow> int64" where
  "floatToInt P m e =
     (if - (2 ^ 63) \<le> truncated m e \<and> truncated m e < 2 ^ 63 then word_of_int (truncated m e) else rt_huge P m e)"

definition present :: "options \<Rightarrow> string \<Rightarrow> yaml" where
  "present opts key = (case opts key of None \<Rightarrow> YNil | Some v \<Rightarrow> v)"

definition strOption :: "options \<Rightarrow> string \<Rightarrow> string \<Rightarrow> config_error + string" where
  "strOption opts key def = (case present opts key of YNil \<Rightarrow> Inr def | YString s \<Rightarrow> Inr s | _ \<Rightarrow> Inl (BadOption key))"

definition booleanOption :: "options \<Rightarrow> string \<Rightarrow> bool \<Rightarrow> config_error + bool" where
  "booleanOption opts key def = (case present opts key of YNil \<Rightarrow> Inr def | YBool b \<Rightarrow> Inr b | _ \<Rightarrow> Inl (BadOption key))"

definition integerOption :: "runtime \<Rightarrow> options \<Rightarrow> string \<Rightarrow> int64 \<Rightarrow> config_error + int64" where
  "integerOption P opts key def =
     (case present opts key of
        YNil \<Rightarrow> Inr def
      | YInt n \<Rightarrow> Inr n
      | YInt64 n \<Rightarrow> Inr n
      | YFloat m e \<Rightarrow> Inr (floatToInt P m e)
      | _ \<Rightarrow> Inl (BadOption key))"

definition durationOption :: "runtime \<Rightarrow> options \<Rightarrow> string \<Rightarrow> int \<Rightarrow> config_error + int" where
  "durationOption P opts key def =
     (case strOption opts key '''' of
        Inl e \<Rightarrow> Inl e
      | Inr s \<Rightarrow> if s = '''' then Inr def
          else (case ParseDuration (rt_fmul P) s of None \<Rightarrow> Inl (BadOption key) | Some d \<Rightarrow> Inr d))"

fun sliceItems :: "string \<Rightarrow> nat \<Rightarrow> yaml list \<Rightarrow> string list \<Rightarrow> config_error + string list" where
  "sliceItems key i [] out = Inr out"
| "sliceItems key i (YString s # xs) out = sliceItems key (Suc i) xs (out @ [s])"
| "sliceItems key i (_ # xs) out = Inl (BadListItem key i)"

definition stringSliceOption :: "options \<Rightarrow> string \<Rightarrow> config_error + string list" where
  "stringSliceOption opts key =
     (case present opts key of
        YNil \<Rightarrow> Inr []
      | YStrings xs \<Rightarrow> Inr xs
      | YList xs \<Rightarrow> sliceItems key 0 xs []
      | _ \<Rightarrow> Inl (BadOption key))"

record store_config =
  sc_Hosts :: "string list"
  sc_Namespace :: string
  sc_SetPrefix :: string
  sc_UseServicesAlternate :: bool
  sc_SendKey :: bool
  sc_User :: string
  sc_Password :: string
  sc_MinConnsPerNode :: int64
  sc_MaxConnsPerNode :: int64
  sc_ConnectTimeout :: int
  sc_SocketTimeout :: int
  sc_TotalTimeout :: int
  sc_TxnTimeout :: int

fun bindE :: "'e + 'a \<Rightarrow> ('a \<Rightarrow> 'e + 'b) \<Rightarrow> 'e + 'b" where
  "bindE (Inl e) f = Inl e"
| "bindE (Inr x) f = f x"

definition NewConfig :: "runtime \<Rightarrow> string \<Rightarrow> options \<Rightarrow> config_error + store_config" where
  "NewConfig P name opts =
     (if name \<noteq> '''' \<and> name \<noteq> ''aerospike'' then Inl (WrongStoreName name)
      else bindE (stringSliceOption opts ''hosts'') (\<lambda>hosts.
      if hosts = [] then Inl NoHosts
      else bindE (strOption opts ''namespace'' '''') (\<lambda>namespace.
      if namespace = '''' then Inl NoNamespace
      else bindE (strOption opts ''setPrefix'' '''') (\<lambda>setPrefix.
      bindE (booleanOption opts ''useServicesAlternate'' False) (\<lambda>useServicesAlternate.
      bindE (booleanOption opts ''sendKey'' False) (\<lambda>sendKey.
      bindE (strOption opts ''user'' '''') (\<lambda>user.
      bindE (strOption opts ''password'' '''') (\<lambda>password.
      bindE (integerOption P opts ''minConnsPerNode'' 0) (\<lambda>minConns.
      bindE (integerOption P opts ''maxConnsPerNode'' 64) (\<lambda>maxConns.
      bindE (durationOption P opts ''connectTimeout'' (10 * 10 ^ 9)) (\<lambda>connectTimeout.
      bindE (durationOption P opts ''socketTimeout'' (10 * 10 ^ 9)) (\<lambda>socketTimeout.
      bindE (durationOption P opts ''totalTimeout'' (15 * 10 ^ 9)) (\<lambda>totalTimeout.
      bindE (durationOption P opts ''txnTimeout'' (30 * 10 ^ 9)) (\<lambda>txnTimeout.
      if txnTimeout > 120 * 10 ^ 9 then Inl (TxnTimeoutTooLong txnTimeout)
      else Inr \<lparr>sc_Hosts = hosts, sc_Namespace = namespace, sc_SetPrefix = setPrefix,
        sc_UseServicesAlternate = useServicesAlternate, sc_SendKey = sendKey, sc_User = user, sc_Password = password,
        sc_MinConnsPerNode = minConns, sc_MaxConnsPerNode = maxConns, sc_ConnectTimeout = connectTimeout,
        sc_SocketTimeout = socketTimeout, sc_TotalTimeout = totalTimeout, sc_TxnTimeout = txnTimeout\<rparr>))))))))))))))"

section \<open>Which options are accepted\<close>

text \<open>The shape every option must have, as a table.\<close>

datatype shape = SString | SBool | SInt | SDuration | SStrings

definition optionShapes :: "(string \<times> shape) list" where
  "optionShapes =
     [(''hosts'', SStrings), (''namespace'', SString), (''setPrefix'', SString), (''useServicesAlternate'', SBool),
      (''sendKey'', SBool), (''user'', SString), (''password'', SString), (''minConnsPerNode'', SInt),
      (''maxConnsPerNode'', SInt), (''connectTimeout'', SDuration), (''socketTimeout'', SDuration),
      (''totalTimeout'', SDuration), (''txnTimeout'', SDuration)]"

fun fits :: "runtime \<Rightarrow> shape \<Rightarrow> yaml \<Rightarrow> bool" where
  "fits P _ YNil \<longleftrightarrow> True"
| "fits P SString (YString s) \<longleftrightarrow> True"
| "fits P SBool (YBool b) \<longleftrightarrow> True"
| "fits P SInt (YInt n) \<longleftrightarrow> True"
| "fits P SInt (YInt64 n) \<longleftrightarrow> True"
| "fits P SInt (YFloat m e) \<longleftrightarrow> True"
| "fits P SDuration (YString s) \<longleftrightarrow> s = '''' \<or> ParseDuration (rt_fmul P) s \<noteq> None"
| "fits P SStrings (YStrings xs) \<longleftrightarrow> True"
| "fits P SStrings (YList xs) \<longleftrightarrow> (\<forall>x \<in> set xs. \<exists>s. x = YString s)"
| "fits P _ _ \<longleftrightarrow> False"

definition faulty :: "runtime \<Rightarrow> options \<Rightarrow> string \<Rightarrow> bool" where
  "faulty P opts key \<longleftrightarrow> (\<exists>sh. (key, sh) \<in> set optionShapes \<and> \<not> fits P sh (present opts key))"

fun names :: "config_error \<Rightarrow> string option" where
  "names (BadOption key) = Some key"
| "names (BadListItem key i) = Some key"
| "names _ = None"

lemma bindE_Inr: "bindE m f = Inr y \<longleftrightarrow> (\<exists>x. m = Inr x \<and> f x = Inr y)"
  by (cases m) auto

lemma bindE_Inl: "bindE m f = Inl e \<longleftrightarrow> m = Inl e \<or> (\<exists>x. m = Inr x \<and> f x = Inl e)"
  by (cases m) auto

lemma sliceItems_ok: "(\<exists>ys. sliceItems key i xs out = Inr ys) \<longleftrightarrow> (\<forall>x \<in> set xs. \<exists>s. x = YString s)"
  by (induction key i xs out rule: sliceItems.induct) auto

lemma sliceItems_error: "sliceItems key i xs out = Inl e \<Longrightarrow> names e = Some key"
  by (induction key i xs out rule: sliceItems.induct) auto

text \<open>Every reader succeeds exactly on the values of its shape and otherwise names its key.\<close>

definition reads :: "runtime \<Rightarrow> options \<Rightarrow> string \<Rightarrow> shape \<Rightarrow> config_error + 'a \<Rightarrow> bool" where
  "reads P opts key sh m \<longleftrightarrow>
     (case m of Inr _ \<Rightarrow> fits P sh (present opts key) | Inl e \<Rightarrow> names e = Some key \<and> \<not> fits P sh (present opts key))"

lemma readers:
  "reads P opts key SString (strOption opts key d1)"
  "reads P opts key SBool (booleanOption opts key d2)"
  "reads P opts key SInt (integerOption P opts key d3)"
  "reads P opts key SDuration (durationOption P opts key d4)"
  "reads P opts key SStrings (stringSliceOption opts key)"
proof -
  show "reads P opts key SStrings (stringSliceOption opts key)"
  proof (cases "present opts key")
    case (YList xs)
    with sliceItems_ok [of key 0 xs "[]"] sliceItems_error [of key 0 xs "[]"] show ?thesis
      by (auto simp: reads_def stringSliceOption_def split: sum.splits)
  qed (simp_all add: reads_def stringSliceOption_def)
qed (cases "present opts key";
    auto simp: reads_def strOption_def booleanOption_def integerOption_def durationOption_def split: option.splits)+

text \<open>A computation whose errors name faulty options only.\<close>

definition blames :: "runtime \<Rightarrow> options \<Rightarrow> config_error + 'a \<Rightarrow> bool" where
  "blames P opts m \<longleftrightarrow> (\<forall>e key. m = Inl e \<longrightarrow> names e = Some key \<longrightarrow> faulty P opts key)"

lemma blames_bindE [intro]: "blames P opts m \<Longrightarrow> (\<And>x. blames P opts (f x)) \<Longrightarrow> blames P opts (bindE m f)"
  by (auto simp: blames_def bindE_Inl)

lemma blames_if [intro]: "names e = None \<Longrightarrow> blames P opts m \<Longrightarrow> blames P opts (if b then Inl e else m)"
  by (auto simp: blames_def)

lemma blames_Inr [intro]: "blames P opts (Inr x)"
  by (simp add: blames_def)

lemma blames_reads: "reads P opts key sh m \<Longrightarrow> (key, sh) \<in> set optionShapes \<Longrightarrow> blames P opts m"
  by (auto simp: blames_def reads_def faulty_def)

lemma blames_readers:
  "(key, SString) \<in> set optionShapes \<Longrightarrow> blames P opts (strOption opts key d1)"
  "(key, SBool) \<in> set optionShapes \<Longrightarrow> blames P opts (booleanOption opts key d2)"
  "(key, SInt) \<in> set optionShapes \<Longrightarrow> blames P opts (integerOption P opts key d3)"
  "(key, SDuration) \<in> set optionShapes \<Longrightarrow> blames P opts (durationOption P opts key d4)"
  "(key, SStrings) \<in> set optionShapes \<Longrightarrow> blames P opts (stringSliceOption opts key)"
  by (rule blames_reads, rule readers, assumption)+

lemma NewConfig_blames: "blames P opts (NewConfig P name opts)"
  unfolding NewConfig_def by (intro blames_if blames_bindE blames_Inr blames_readers) (simp_all add: optionShapes_def)

lemma reads_Inr: "reads P opts key sh m \<Longrightarrow> (\<exists>x. m = Inr x) \<longleftrightarrow> fits P sh (present opts key)"
  by (auto simp: reads_def split: sum.splits)

definition accepted :: "runtime \<Rightarrow> string \<Rightarrow> options \<Rightarrow> bool" where
  "accepted P name opts \<longleftrightarrow> name \<in> {'''', ''aerospike''} \<and>
     (\<forall>(key, sh) \<in> set optionShapes. fits P sh (present opts key)) \<and>
     stringSliceOption opts ''hosts'' \<noteq> Inr [] \<and> strOption opts ''namespace'' '''' \<noteq> Inr '''' \<and>
     (\<forall>d. durationOption P opts ''txnTimeout'' (30 * 10 ^ 9) = Inr d \<longrightarrow> d \<le> 120 * 10 ^ 9)"

lemma NewConfig_accepted: "(\<exists>c. NewConfig P name opts = Inr c) \<longleftrightarrow> accepted P name opts"
proof -
  note fits = reads_Inr [OF readers(1), symmetric] reads_Inr [OF readers(2), symmetric]
    reads_Inr [OF readers(3), symmetric] reads_Inr [OF readers(4), symmetric] reads_Inr [OF readers(5), symmetric]
  have f: "fits P SStrings (present opts ''hosts'') \<longleftrightarrow> (\<exists>x. stringSliceOption opts ''hosts'' = Inr x)"
    "fits P SString (present opts ''namespace'') \<longleftrightarrow> (\<exists>x. strOption opts ''namespace'' '''' = Inr x)"
    "fits P SString (present opts ''setPrefix'') \<longleftrightarrow> (\<exists>x. strOption opts ''setPrefix'' '''' = Inr x)"
    "fits P SBool (present opts ''useServicesAlternate'') \<longleftrightarrow> (\<exists>x. booleanOption opts ''useServicesAlternate'' False = Inr x)"
    "fits P SBool (present opts ''sendKey'') \<longleftrightarrow> (\<exists>x. booleanOption opts ''sendKey'' False = Inr x)"
    "fits P SString (present opts ''user'') \<longleftrightarrow> (\<exists>x. strOption opts ''user'' '''' = Inr x)"
    "fits P SString (present opts ''password'') \<longleftrightarrow> (\<exists>x. strOption opts ''password'' '''' = Inr x)"
    "fits P SInt (present opts ''minConnsPerNode'') \<longleftrightarrow> (\<exists>x. integerOption P opts ''minConnsPerNode'' 0 = Inr x)"
    "fits P SInt (present opts ''maxConnsPerNode'') \<longleftrightarrow> (\<exists>x. integerOption P opts ''maxConnsPerNode'' 64 = Inr x)"
    "fits P SDuration (present opts ''connectTimeout'') \<longleftrightarrow> (\<exists>x. durationOption P opts ''connectTimeout'' (10 * 10 ^ 9) = Inr x)"
    "fits P SDuration (present opts ''socketTimeout'') \<longleftrightarrow> (\<exists>x. durationOption P opts ''socketTimeout'' (10 * 10 ^ 9) = Inr x)"
    "fits P SDuration (present opts ''totalTimeout'') \<longleftrightarrow> (\<exists>x. durationOption P opts ''totalTimeout'' (15 * 10 ^ 9) = Inr x)"
    "fits P SDuration (present opts ''txnTimeout'') \<longleftrightarrow> (\<exists>x. durationOption P opts ''txnTimeout'' (30 * 10 ^ 9) = Inr x)"
    by (rule fits)+
  show ?thesis
  proof
    assume "\<exists>c. NewConfig P name opts = Inr c"
    then show "accepted P name opts"
      unfolding NewConfig_def by (auto simp: accepted_def optionShapes_def f bindE_Inr split: if_splits)
  next
    assume "accepted P name opts"
    then show "\<exists>c. NewConfig P name opts = Inr c"
      unfolding NewConfig_def by (auto simp: accepted_def optionShapes_def f)
  qed
qed

text \<open>
  C38. The reader of the options, in full: a configuration is accepted exactly when the store name fits, every
  option present has its shape, there is a seed host and a namespace and the transaction timeout is at most
  the 120 seconds of the server; an error about an option names one that is really faulty; and an accepted
  configuration has hosts, a namespace and that bound, with the defaults for what was left out.
\<close>

theorem NewConfig_correct:
  "((\<exists>c. NewConfig P name opts = Inr c) \<longleftrightarrow> accepted P name opts) \<and>
   (\<forall>e key. NewConfig P name opts = Inl e \<longrightarrow> names e = Some key \<longrightarrow> faulty P opts key) \<and>
   (\<forall>c. NewConfig P name opts = Inr c \<longrightarrow> sc_Hosts c \<noteq> [] \<and> sc_Namespace c \<noteq> '''' \<and> sc_TxnTimeout c \<le> 120 * 10 ^ 9 \<and>
      (present opts ''totalTimeout'' = YNil \<longrightarrow> sc_TotalTimeout c = 15 * 10 ^ 9) \<and>
      (present opts ''txnTimeout'' = YNil \<longrightarrow> sc_TxnTimeout c = 30 * 10 ^ 9) \<and>
      (present opts ''maxConnsPerNode'' = YNil \<longrightarrow> sc_MaxConnsPerNode c = 64) \<and>
      (present opts ''sendKey'' = YNil \<longrightarrow> \<not> sc_SendKey c))"
proof (intro conjI allI impI)
  show "(\<exists>c. NewConfig P name opts = Inr c) \<longleftrightarrow> accepted P name opts" by (rule NewConfig_accepted)
  show "NewConfig P name opts = Inl e \<Longrightarrow> names e = Some key \<Longrightarrow> faulty P opts key" for e key
    using NewConfig_blames [of P opts name] by (simp add: blames_def)
qed (auto simp: NewConfig_def bindE_Inr integerOption_def durationOption_def strOption_def booleanOption_def split: if_splits)

definition sampleRuntime :: runtime where
  "sampleRuntime = \<lparr>rt_fmul = (\<lambda>f unit scale. f * unit div scale), rt_huge = (\<lambda>_ _. 0)\<rparr>"

definition sampleOptions :: "yaml \<Rightarrow> options" where
  "sampleOptions t = [''hosts'' \<mapsto> YList [YString ''a:3000''], ''namespace'' \<mapsto> YString ''temporal'', ''txnTimeout'' \<mapsto> t]"

lemma sample_durations:
  "ParseDuration (rt_fmul sampleRuntime) ''1m30.5s'' = Some 90500000000"
  "ParseDuration (rt_fmul sampleRuntime) ''90'' = None"
  "ParseDuration (rt_fmul sampleRuntime) ''-2s'' = Some (- 2000000000)"
  by (simp_all add: ParseDuration_def durationLoop.simps durationTerm_def fractionPart_def unitPart_def unitMap_def
      digitChar_def digitVal_def sampleRuntime_def Let_def)

text \<open>The default is taken when the option is nil, and a number without a unit is named in the error.\<close>

theorem NewConfig_correct_witness:
  "(\<exists>c. NewConfig sampleRuntime '''' (sampleOptions YNil) = Inr c \<and> sc_TxnTimeout c = 30 * 10 ^ 9 \<and> sc_Hosts c \<noteq> []) \<and>
   faulty sampleRuntime (sampleOptions (YString ''90'')) ''txnTimeout''"
proof
  have "accepted sampleRuntime '''' (sampleOptions YNil)"
    by (simp add: accepted_def optionShapes_def sampleOptions_def present_def stringSliceOption_def strOption_def durationOption_def)
  then obtain c where c: "NewConfig sampleRuntime '''' (sampleOptions YNil) = Inr c"
    using NewConfig_correct [of sampleRuntime "''''" "sampleOptions YNil"] by blast
  moreover have "present (sampleOptions YNil) ''txnTimeout'' = YNil" by (simp add: sampleOptions_def present_def)
  ultimately show "\<exists>c. NewConfig sampleRuntime '''' (sampleOptions YNil) = Inr c \<and> sc_TxnTimeout c = 30 * 10 ^ 9 \<and> sc_Hosts c \<noteq> []"
    using NewConfig_correct [of sampleRuntime "''''" "sampleOptions YNil"] by blast
next
  have "NewConfig sampleRuntime '''' (sampleOptions (YString ''90'')) = Inl (BadOption ''txnTimeout'')"
    by (simp add: NewConfig_def sampleOptions_def present_def stringSliceOption_def strOption_def durationOption_def
        booleanOption_def integerOption_def sample_durations)
  then show "faulty sampleRuntime (sampleOptions (YString ''90'')) ''txnTimeout''"
    using NewConfig_correct [of sampleRuntime "''''" "sampleOptions (YString ''90'')"] by simp
qed

section \<open>Deadlines\<close>

text \<open>
  \<^verbatim>\<open>context.go\<close>. The client knows no contexts, only timeouts, and takes a timeout of zero for none at all. A
  context is its error, once it is done, and its deadline; times are nanoseconds, and \<^verbatim>\<open>time.Until\<close> saturates.
\<close>

record ctx =
  ctx_Err :: "string option"
  ctx_Deadline :: "int option"

definition minTimeout :: int where
  "minTimeout = 10 ^ 6"

definition timeUntil :: "int \<Rightarrow> int \<Rightarrow> int" where
  "timeUntil now t = max (- (2 ^ 63)) (min (2 ^ 63 - 1) (t - now))"

definition deadlineTimeout :: "int \<Rightarrow> ctx option \<Rightarrow> int \<Rightarrow> string + int" where
  "deadlineTimeout now c fallback =
     (case c of
        None \<Rightarrow> Inr fallback
      | Some x \<Rightarrow> (case ctx_Err x of
          Some err \<Rightarrow> Inl err
        | None \<Rightarrow> (case ctx_Deadline x of
            None \<Rightarrow> Inr fallback
          | Some deadline \<Rightarrow>
              let remaining = timeUntil now deadline in
              if remaining < minTimeout then Inl ''context deadline exceeded'' else Inr remaining)))"

definition ctxTimeout :: "int \<Rightarrow> ctx option \<Rightarrow> int \<Rightarrow> int" where
  "ctxTimeout now c fallback = (case deadlineTimeout now c fallback of Inl err \<Rightarrow> minTimeout | Inr timeout \<Rightarrow> timeout)"

definition withCtx :: "int \<Rightarrow> ctx option \<Rightarrow> rpolicy \<Rightarrow> rpolicy" where
  "withCtx now c base = base\<lparr>rp_TotalTimeout := ctxTimeout now c (rp_TotalTimeout base)\<rparr>"

definition withCtxW :: "int \<Rightarrow> ctx option \<Rightarrow> wpolicy \<Rightarrow> wpolicy" where
  "withCtxW now c base = base\<lparr>wp_TotalTimeout := ctxTimeout now c (wp_TotalTimeout base)\<rparr>"

lemma ctxTimeout_deadline:
  assumes "ctx_Deadline x = Some deadline"
  shows "minTimeout \<le> ctxTimeout now (Some x) fb \<and> ctxTimeout now (Some x) fb \<le> max minTimeout (deadline - now)"
  using assms by (cases "ctx_Err x") (auto simp: ctxTimeout_def deadlineTimeout_def timeUntil_def minTimeout_def Let_def)

text \<open>
  No command that is given a deadline runs without a timeout or past it: whatever the policy, and also
  when the context is already cancelled or its deadline over, the timeout is at least a millisecond, so
  never the zero the client reads as none, and exceeds what is left of the deadline by at most that
  millisecond. Without a deadline the command keeps the policy of the store, and with one nothing else of the
  policy changes: the write condition and the transaction of a command are those of the store.
\<close>

lemma withCtx_bounded:
  assumes "ctx_Deadline x = Some deadline"
  shows "rp_TotalTimeout (withCtx now (Some x) pol) \<in> {minTimeout .. max minTimeout (deadline - now)} \<and>
    wp_TotalTimeout (withCtxW now (Some x) wpol) \<in> {minTimeout .. max minTimeout (deadline - now)} \<and>
    withCtx now (Some x) pol = pol\<lparr>rp_TotalTimeout := rp_TotalTimeout (withCtx now (Some x) pol)\<rparr> \<and>
    withCtxW now (Some x) wpol = wpol\<lparr>wp_TotalTimeout := wp_TotalTimeout (withCtxW now (Some x) wpol)\<rparr> \<and>
    withCtx now None pol = pol \<and> withCtxW now None wpol = wpol \<and>
    withCtx now (Some (x\<lparr>ctx_Err := None, ctx_Deadline := None\<rparr>)) pol = pol"
  using ctxTimeout_deadline [OF assms, of now]
  by (simp add: withCtx_def withCtxW_def) (simp add: ctxTimeout_def deadlineTimeout_def)

lemma withCtx_bounded_witness:
  "rp_TotalTimeout (withCtx 5000 (Some \<lparr>ctx_Err = None, ctx_Deadline = Some 4000\<rparr>) (readPolicy sample_env)) \<in>
     {minTimeout .. max minTimeout (4000 - 5000)}"
  using withCtx_bounded [of "\<lparr>ctx_Err = None, ctx_Deadline = Some 4000\<rparr>" 4000 5000 "readPolicy sample_env" "writePolicy sample_env"]
  by simp

end
