(* ===== verification/NaturalOrder.thy ===== *)
theory NaturalOrder
  imports ShardStore
begin

text \<open>
  The order in which the record browser of the control plane (\<^verbatim>\<open>control/browser.go\<close>) lists records: keys compared
  with their digit runs taken as numbers, without ever parsing one. The reference is the lexicographic
  order of the token lists of the keys; the theorems identify the two and derive that the sort is
  deterministic and follows the order in which the store walks its buckets.
\<close>

section \<open>The comparison\<close>

definition isDigit :: "char \<Rightarrow> bool" where
  "isDigit c \<longleftrightarrow> CHR ''0'' \<le> c \<and> c \<le> CHR ''9''"

definition leadingDigits :: "string \<Rightarrow> string \<times> string" where
  "leadingDigits s = (takeWhile isDigit s, dropWhile isDigit s)"

definition stringsCompare :: "string \<Rightarrow> string \<Rightarrow> int" where
  "stringsCompare a b = (if a = b then 0 else if a < b then - 1 else 1)"

definition compareDigitRun :: "string \<Rightarrow> string \<Rightarrow> int" where
  "compareDigitRun a b =
     (let a = dropWhile (\<lambda>c. c = CHR ''0'') a; b = dropWhile (\<lambda>c. c = CHR ''0'') b in
      if length a \<noteq> length b then (if length a < length b then - 1 else 1) else stringsCompare a b)"

function compareNatural :: "string \<Rightarrow> string \<Rightarrow> int" where
  "compareNatural a b =
     (if a \<noteq> [] \<and> b \<noteq> [] then
        (if isDigit (hd a) \<and> isDigit (hd b) then
           (case leadingDigits a of (an, aRest) \<Rightarrow> case leadingDigits b of (bn, bRest) \<Rightarrow>
              let c = compareDigitRun an bn in if c \<noteq> 0 then c else compareNatural aRest bRest)
         else if hd a \<noteq> hd b then (if hd a < hd b then - 1 else 1)
         else compareNatural (tl a) (tl b))
      else if length a = length b then 0
      else if a = [] then - 1 else 1)"
  by pat_completeness auto
termination
proof (relation "measure (\<lambda>(a, b). length a)"; clarsimp simp: leadingDigits_def)
  fix a :: string assume "a \<noteq> []" "isDigit (hd a)"
  then show "length (dropWhile isDigit a) < length a"
    by (cases a) (auto simp: le_imp_less_Suc length_dropWhile_le)
qed

declare compareNatural.simps [simp del]

section \<open>Digit runs\<close>

lemma char_le_nat: "c \<le> d \<longleftrightarrow> (of_char c :: nat) \<le> of_char d" for c d :: char
  by (simp add: less_eq_char_def)

lemma char_less_nat: "c < d \<longleftrightarrow> (of_char c :: nat) < of_char d" for c d :: char
  by (simp add: less_char_def)

lemma isDigit_nat: "isDigit c \<longleftrightarrow> 48 \<le> (of_char c :: nat) \<and> (of_char c :: nat) \<le> 57"
  by (simp add: isDigit_def char_le_nat)

lemma undec_snoc: "undec (s @ [c]) = undec s * 10 + (of_char c - 48)"
  by (simp add: undec_def)

lemma undec_Nil [simp]: "undec [] = 0"
  by (simp add: undec_def)

lemma foldl_undec: "foldl (\<lambda>a c. a * 10 + (of_char c - 48)) x s = x * 10 ^ length s + undec s"
proof (induction s rule: rev_induct)
  case (snoc c s)
  then show ?case by (simp add: undec_snoc algebra_simps)
qed simp

lemma undec_Cons: "undec (c # s) = (of_char c - 48) * 10 ^ length s + undec s"
  using foldl_undec [of "of_char c - 48" s] by (simp add: undec_def)

lemma digit_step: "k \<le> 9 \<Longrightarrow> u < p \<Longrightarrow> k * p + u < 10 * (p::nat)"
  using mult_le_mono1 [of k 9 p] by linarith

lemma undec_bound: "list_all isDigit s \<Longrightarrow> undec s < 10 ^ length s"
proof (induction s)
  case (Cons c s)
  then have "of_char c - 48 \<le> (9::nat)" "undec s < 10 ^ length s" by (auto simp: isDigit_nat)
  then show ?case by (simp add: undec_Cons digit_step)
qed simp

lemma undec_trim: "undec (dropWhile (\<lambda>c. c = CHR ''0'') s) = undec s"
  by (induction s) (auto simp: undec_Cons)

lemma undec_less_same_length:
  assumes "length a = length b" "list_all isDigit a" "list_all isDigit b"
  shows "a < b \<longleftrightarrow> undec a < undec b"
  using assms
proof (induction a b rule: list_induct2)
  case (Cons x a y b)
  let ?p = "10 ^ length b :: nat"
  have d: "48 \<le> (of_char x :: nat)" "48 \<le> (of_char y :: nat)" using Cons.prems by (auto simp: isDigit_nat)
  have bd: "undec a < ?p" "undec b < ?p" using undec_bound Cons by force+
  have *: "u * ?p + undec a < v * ?p + undec b \<longleftrightarrow> u < v \<or> u = v \<and> undec a < undec b" for u v :: nat
  proof (cases u v rule: linorder_cases)
    case less
    then have "(u + 1) * ?p \<le> v * ?p" by (intro mult_le_mono1) simp
    with bd less show ?thesis by (simp add: algebra_simps)
  next
    case greater
    then have "(v + 1) * ?p \<le> u * ?p" by (intro mult_le_mono1) simp
    with bd greater show ?thesis by (simp add: algebra_simps)
  qed simp
  have "x < y \<longleftrightarrow> of_char x - 48 < (of_char y - 48 :: nat)" "x = y \<longleftrightarrow> of_char x - 48 = (of_char y - 48 :: nat)"
    using d by (simp add: char_less_nat diff_less_mono less_diff_iff) (metis d eq_diff_iff of_char_eq_iff)
  with * [of "of_char x - 48" "of_char y - 48"] Cons show ?case
    by (simp add: undec_Cons)
qed simp

lemma undec_lower: "list_all isDigit s \<Longrightarrow> s \<noteq> [] \<Longrightarrow> hd s \<noteq> CHR ''0'' \<Longrightarrow> 10 ^ (length s - 1) \<le> undec s"
proof (cases s)
  case (Cons c s')
  assume "list_all isDigit s" "hd s \<noteq> CHR ''0''"
  with Cons have "48 \<le> (of_char c :: nat)" "(of_char c :: nat) \<noteq> of_char (CHR ''0'')"
    by (auto simp: isDigit_nat simp del: of_char_Char)
  then have "1 \<le> of_char c - (48::nat)" by simp
  then obtain k where k: "of_char c - 48 = Suc k" by (cases "of_char c - (48::nat)") auto
  show ?thesis unfolding Cons undec_Cons k by simp
qed simp

lemma compareDigitRun_value:
  assumes "list_all isDigit a" "list_all isDigit b"
  shows "compareDigitRun a b = (if undec a = undec b then 0 else if undec a < undec b then - 1 else 1)"
proof -
  define a' b' where ab: "a' = dropWhile (\<lambda>c. c = CHR ''0'') a" "b' = dropWhile (\<lambda>c. c = CHR ''0'') b"
  have d: "list_all isDigit a'" "list_all isDigit b'"
    using assms by (auto simp: ab list_all_iff dest: set_dropWhileD)
  have v: "undec a' = undec a" "undec b' = undec b" by (simp_all add: ab undec_trim)
  have hd: "a' \<noteq> [] \<Longrightarrow> hd a' \<noteq> CHR ''0''" "b' \<noteq> [] \<Longrightarrow> hd b' \<noteq> CHR ''0''"
    unfolding ab using hd_dropWhile [of "\<lambda>c. c = CHR ''0''"] by auto
  have longer: "undec x < undec y" if "length x < length y" "list_all isDigit x" "list_all isDigit y" "y \<noteq> [] \<Longrightarrow> hd y \<noteq> CHR ''0''" for x y
  proof -
    have "(10::nat) ^ length x \<le> 10 ^ (length y - 1)" using that(1) by (intro power_increasing) auto
    moreover have "y \<noteq> []" using that(1) by auto
    ultimately show ?thesis using undec_bound [OF that(2)] undec_lower [OF that(3) _ that(4)] by linarith
  qed
  show ?thesis
  proof (cases "length a'" "length b'" rule: linorder_cases)
    case equal
    then have "a' < b' \<longleftrightarrow> undec a' < undec b'" "b' < a' \<longleftrightarrow> undec b' < undec a'"
      using undec_less_same_length d by auto
    then show ?thesis
      using equal v unfolding compareDigitRun_def Let_def ab [symmetric] stringsCompare_def by (auto simp: not_less_iff_gr_or_eq)
  next
    case less
    from longer [OF this d hd(2)] less v show ?thesis
      unfolding compareDigitRun_def Let_def ab [symmetric] by simp
  next
    case greater
    from longer [OF this d(2,1) hd(1)] greater v show ?thesis
      unfolding compareDigitRun_def Let_def ab [symmetric] by simp
  qed
qed

section \<open>The reference order\<close>

text \<open>A key as a list of tokens: a digit run with its value, any other character by itself.\<close>

function tokens :: "string \<Rightarrow> (nat \<times> nat) list" where
  "tokens s =
     (if s = [] then []
      else if isDigit (hd s) then (48, undec (takeWhile isDigit s)) # tokens (dropWhile isDigit s)
      else (of_char (hd s), 0) # tokens (tl s))"
  by pat_completeness auto
termination
proof (relation "measure length"; clarsimp)
  fix s :: string assume "s \<noteq> []" "isDigit (hd s)"
  then show "length (dropWhile isDigit s) < length s"
    by (cases s) (auto simp: le_imp_less_Suc length_dropWhile_le)
qed

declare tokens.simps [simp del]

lemma tokens_Nil [simp]: "tokens [] = []"
  by (simp add: tokens.simps)

lemma tokens_digits:
  "s \<noteq> [] \<Longrightarrow> isDigit (hd s) \<Longrightarrow> tokens s = (48, undec (takeWhile isDigit s)) # tokens (dropWhile isDigit s)"
  by (subst tokens.simps) simp

lemma tokens_char: "\<not> isDigit c \<Longrightarrow> tokens (c # s) = (of_char c, 0) # tokens s"
  by (subst tokens.simps) simp

lemma tokens_eq_Nil [simp]: "tokens s = [] \<longleftrightarrow> s = []"
  by (subst tokens.simps) simp

lemma Nil_less_tokens: "s \<noteq> [] \<Longrightarrow> [] < tokens s"
  by (cases "tokens s") simp_all

definition threeWay :: "'a::linorder \<Rightarrow> 'a \<Rightarrow> int" where
  "threeWay a b = (if a = b then 0 else if a < b then - 1 else 1)"

lemma threeWay_Cons: "threeWay (x # xs) (y # ys) = (if x = y then threeWay xs ys else threeWay x y)"
  by (auto simp: threeWay_def)

lemma compareNatural_threeWay: "compareNatural a b = threeWay (tokens a) (tokens b)"
proof (induction a b rule: compareNatural.induct)
  case (1 a b)
  consider (nil) "a = [] \<or> b = []" | (digits) "a \<noteq> []" "b \<noteq> []" "isDigit (hd a)" "isDigit (hd b)"
    | (chars) "a \<noteq> []" "b \<noteq> []" "\<not> (isDigit (hd a) \<and> isDigit (hd b))" by blast
  then show ?case
  proof cases
    case nil
    then show ?thesis by (subst compareNatural.simps) (auto simp: threeWay_def Nil_less_tokens eq_commute [of "[]"])
  next
    case digits
    have run: "list_all isDigit (takeWhile isDigit s)" for s by (auto simp: list_all_iff dest: set_takeWhileD)
    from digits show ?thesis
      using 1(1) [of "takeWhile isDigit a" "dropWhile isDigit a" "takeWhile isDigit b" "dropWhile isDigit b", OF _ _ _ _ refl]
      by (subst compareNatural.simps)
        (auto simp: leadingDigits_def Let_def compareDigitRun_value run tokens_digits threeWay_Cons threeWay_def)
  next
    case chars
    then obtain x a' y b' where ab: "a = x # a'" "b = y # b'" by (auto simp: neq_Nil_conv)
    show ?thesis
    proof (cases "x = y")
      case True
      with chars ab 1(2) show ?thesis
        by (subst compareNatural.simps) (simp add: tokens_char threeWay_Cons)
    next
      case False
      have tok: "\<exists>n r. tokens (c # s) = (if isDigit c then 48 else of_char c, n) # r" for c s
        by (subst tokens.simps) simp
      from tok [of x a'] tok [of y b'] chars False ab show ?thesis
        by (subst compareNatural.simps) (auto simp: threeWay_def isDigit_nat char_less_nat split: if_splits)
    qed
  qed
qed

text \<open>On the composite keys of the store, the natural order is the order of the numbers in them.\<close>

lemma isDigit_dec_nat: "list_all isDigit (dec_nat n)"
  using dec_nat_digits [of _ n] by (force simp: list_all_iff isDigit_nat less_Suc_eq_le)

lemma dec_nat_neq_Nil [simp]: "dec_nat n \<noteq> []"
  by (subst dec_nat.simps) simp

lemma tokens_dec_nat:
  assumes "s = [] \<or> \<not> isDigit (hd s)"
  shows "tokens (dec_nat n @ s) = (48, n) # tokens s"
proof -
  have d: "c \<in> set (dec_nat n) \<Longrightarrow> isDigit c" for c using isDigit_dec_nat [of n] by (simp add: list_all_iff)
  have "takeWhile isDigit (dec_nat n @ s) = dec_nat n" "dropWhile isDigit (dec_nat n @ s) = s"
    using d assms by (cases s; simp)+
  moreover have "isDigit (hd (dec_nat n @ s))" using d by simp
  ultimately show ?thesis by (subst tokens_digits) (simp_all add: undec_dec_nat)
qed

lemma compareNatural_composite:
  assumes "0 \<le> a" "0 \<le> b" "0 \<le> c" "0 \<le> a'" "0 \<le> b'" "0 \<le> c'"
  shows "compareNatural (joinColon [dec_int a, dec_int b, dec_int c]) (joinColon [dec_int a', dec_int b', dec_int c']) =
    threeWay (a, b, c) (a', b', c')"
proof -
  have colon: "\<not> isDigit (CHR '':'')" by (simp add: isDigit_nat)
  have "tokens (joinColon [dec_int x, dec_int y, dec_int z]) =
      [(48, nat x), (58, 0), (48, nat y), (58, 0), (48, nat z)]" if "0 \<le> x" "0 \<le> y" "0 \<le> z" for x y z
    using that tokens_dec_nat [of "[]" "nat z"]
    by (simp add: joinColon_def dec_int_def tokens_dec_nat colon tokens_char)
  moreover have "nat x = nat y \<longleftrightarrow> x = y" "nat x < nat y \<longleftrightarrow> x < y" if "0 \<le> x" "0 \<le> y" for x y :: int
    using that by auto
  ultimately show ?thesis
    using assms by (simp add: compareNatural_threeWay threeWay_def less_prod_def' del: nat_less_eq_zless)
qed

section \<open>Listing records\<close>

record bin_view =
  bv_Name :: string
  bv_Type :: string
  bv_Preview :: string
  bv_Size :: int

record record_view =
  rv_Key :: string
  rv_Digest :: string
  rv_Bins :: "bin_view list"
  rv_hasKey :: bool

definition recordLess :: "record_view \<Rightarrow> record_view \<Rightarrow> bool" where
  "recordLess a b =
     (if rv_hasKey a \<noteq> rv_hasKey b then rv_hasKey a
      else if rv_hasKey a then
        (let c = compareNatural (rv_Key a) (rv_Key b) in if c \<noteq> 0 then c < 0 else rv_Digest a < rv_Digest b)
      else rv_Digest a < rv_Digest b)"

text \<open>
  \<^verbatim>\<open>sort.Slice\<close> promises a sorted permutation and no order among equals. It is modelled by an insertion sort; the
  theorem below shows that for records with different digests every sort gives the same list.
\<close>

fun insertBy :: "('a \<Rightarrow> 'a \<Rightarrow> bool) \<Rightarrow> 'a \<Rightarrow> 'a list \<Rightarrow> 'a list" where
  "insertBy lt x [] = [x]"
| "insertBy lt x (y # ys) = (if lt y x then y # insertBy lt x ys else x # y # ys)"

definition sortSlice :: "('a \<Rightarrow> 'a \<Rightarrow> bool) \<Rightarrow> 'a list \<Rightarrow> 'a list" where
  "sortSlice lt xs = foldr (insertBy lt) xs []"

definition sortRecords :: "record_view list \<Rightarrow> record_view list" where
  "sortRecords records = sortSlice recordLess records"

lemma sortSlice_key: "sortSlice (\<lambda>a b. f a < f b) xs = sort_key f xs" for f :: "'a \<Rightarrow> 'b::linorder"
proof -
  have ins: "insertBy (\<lambda>a b. f a < f b) x ys = insort_key f x ys" for x ys by (induction ys) auto
  show ?thesis by (simp add: sortSlice_def sort_key_def ins cong: foldr_cong)
qed

text \<open>The rank of a record: keyed records first, by the tokens of the key, then by digest.\<close>

definition viewRank :: "record_view \<Rightarrow> bool \<times> (nat \<times> nat) list \<times> string" where
  "viewRank r = (\<not> rv_hasKey r, if rv_hasKey r then tokens (rv_Key r) else [], rv_Digest r)"

lemma recordLess_rank: "recordLess a b \<longleftrightarrow> viewRank a < viewRank b"
  by (auto simp: recordLess_def viewRank_def Let_def compareNatural_threeWay threeWay_def)

lemma sortRecords_key: "sortRecords records = sort_key viewRank records"
  unfolding sortRecords_def sortSlice_key [of viewRank records, symmetric] recordLess_rank [abs_def] ..

lemma inj_viewRank: "distinct (map rv_Digest records) \<Longrightarrow> inj_on viewRank (set records)"
  by (auto simp: inj_on_def viewRank_def distinct_map)

text \<open>
  The listing of records is canonical: a permutation of what the scan returned, ordered by keys with digit
  runs as numbers (keyless records last, by digest), and the same list in whatever order the scan delivered
  the records; the comparison by length and text, which never parses a number, is the lexicographic order
  of the token lists, and on the keys of the store's buckets it is the order of shard, category and bucket.
\<close>

lemma sortRecords_canonical:
  assumes "distinct (map rv_Digest records)"
  shows "mset (sortRecords records) = mset records \<and> sorted_wrt recordLess (sortRecords records) \<and>
    (\<forall>scan. mset scan = mset records \<longrightarrow> sortRecords scan = sortRecords records) \<and>
    (\<forall>a b. compareNatural a b = threeWay (tokens a) (tokens b)) \<and>
    (\<forall>a b c a' b' c'. 0 \<le> a \<and> 0 \<le> b \<and> 0 \<le> c \<and> 0 \<le> a' \<and> 0 \<le> b' \<and> 0 \<le> c' \<longrightarrow>
       compareNatural (joinColon [dec_int a, dec_int b, dec_int c]) (joinColon [dec_int a', dec_int b', dec_int c']) =
         threeWay (a, b, c) (a', b', c'))"
proof (intro conjI allI impI)
  note inj = inj_viewRank [OF assms]
  show "mset (sortRecords records) = mset records" by (simp add: sortRecords_key)
  have d: "distinct (map viewRank (sort_key viewRank records))"
    using assms inj by (simp add: distinct_map)
  have "sorted_wrt (<) (map viewRank (sort_key viewRank records))"
    using d by (simp add: strict_sorted_iff)
  then show "sorted_wrt recordLess (sortRecords records)"
    by (simp add: sortRecords_key sorted_wrt_map recordLess_rank [abs_def])
next
  fix scan assume "mset scan = mset records"
  then show "sortRecords scan = sortRecords records"
    using inj_viewRank [OF assms] unfolding sortRecords_key
    by (metis mset_eq_setD sort_key_inj_key_eq mset_sort sorted_sort_key)
qed (simp_all add: compareNatural_threeWay [symmetric] compareNatural_composite)

definition sampleView :: "string \<Rightarrow> string \<Rightarrow> record_view" where
  "sampleView key digest = \<lparr>rv_Key = key, rv_Digest = digest, rv_Bins = [], rv_hasKey = key \<noteq> ''''\<rparr>"

lemma sortRecords_canonical_witness:
  "sortRecords [sampleView ''10:2:1'' ''a'', sampleView '''' ''b'', sampleView ''3:2:0'' ''c''] =
   sortRecords [sampleView ''3:2:0'' ''c'', sampleView ''10:2:1'' ''a'', sampleView '''' ''b''] \<and>
   compareNatural ''3:2:0'' ''10:2:1'' = - 1"
proof -
  have "compareNatural (joinColon [dec_int 3, dec_int 2, dec_int 0]) (joinColon [dec_int 10, dec_int 2, dec_int 1]) = threeWay (3 :: int, 2 :: int, 0 :: int) (10, 2, 1)"
    by (rule sortRecords_canonical [of "[]", THEN conjunct2, THEN conjunct2, THEN conjunct2, THEN conjunct2, rule_format]) simp_all
  moreover have "char_of (48::nat) = CHR ''0''" "char_of (49::nat) = CHR ''1''" "char_of (50::nat) = CHR ''2''" "char_of (51::nat) = CHR ''3''"
    by code_simp+
  ultimately have "compareNatural ''3:2:0'' ''10:2:1'' = - 1"
    by (simp add: joinColon_def dec_int_def dec_nat.simps digit_def threeWay_def)
  moreover have "sortRecords [sampleView ''10:2:1'' ''a'', sampleView '''' ''b'', sampleView ''3:2:0'' ''c''] =
      sortRecords [sampleView ''3:2:0'' ''c'', sampleView ''10:2:1'' ''a'', sampleView '''' ''b'']"
    by (rule sortRecords_canonical [THEN conjunct2, THEN conjunct2, THEN conjunct1, rule_format]) (simp_all add: sampleView_def)
  ultimately show ?thesis by blast
qed

end
