(* ===== verification/RecordBrowser.thy ===== *)
theory RecordBrowser
  imports NaturalOrder TaskCodec
begin

text \<open>
  The record browser of the control plane (\<^verbatim>\<open>control/browser.go\<close>): the view of the history task queues rebuilt
  from a scan. It shares no code with the store and knows the data model only by convention, so the
  theorems relate it to the store's own key builder and codec: it parses every bucket key the store writes,
  shows once, in the order of the store, every bucket among the first 500 scanned whose user key is kept, and
  shows the tasks that are in it.
\<close>

section \<open>Numbers and keys as text\<close>

fun splitOn :: "char \<Rightarrow> string \<Rightarrow> string list" where
  "splitOn sep [] = [[]]"
| "splitOn sep (c # s) = (if c = sep then [] # splitOn sep s else (c # hd (splitOn sep s)) # tl (splitOn sep s))"

definition ParseUint :: "string \<Rightarrow> nat option" where
  "ParseUint s = (if s = [] \<or> \<not> list_all isDigit s then None else if undec s < 2 ^ 64 then Some (undec s) else None)"

text \<open>\<^verbatim>\<open>strconv.ParseInt(s, 10, 64)\<close>, and \<^verbatim>\<open>strconv.Atoi\<close> for a 64-bit \<^verbatim>\<open>int\<close>.\<close>

definition ParseInt :: "string \<Rightarrow> int option" where
  "ParseInt s =
     (if s = [] then None
      else let neg = (hd s = CHR ''-''); t = (if hd s = CHR ''+'' \<or> hd s = CHR ''-'' then tl s else s) in
        case ParseUint t of None \<Rightarrow> None
        | Some n \<Rightarrow> if \<not> neg \<and> 2 ^ 63 \<le> n then None else if neg \<and> 2 ^ 63 < n then None
                   else Some (if neg then - int n else int n))"

definition parseHistoryTaskKey :: "string \<Rightarrow> (int \<times> int \<times> int) option" where
  "parseHistoryTaskKey key =
     (case splitOn (CHR '':'') key of
        [p0, p1, p2] \<Rightarrow> (case ParseInt p0 of None \<Rightarrow> None | Some shardID \<Rightarrow>
          (case ParseInt p1 of None \<Rightarrow> None | Some categoryID \<Rightarrow>
          (case ParseInt p2 of None \<Rightarrow> None | Some bucketID \<Rightarrow> Some (shardID, categoryID, bucketID))))
      | _ \<Rightarrow> None)"

text \<open>A scanned record: its key, if the client has one (the stored user key, if any, and the digest), and its bins.\<close>

record scanned =
  sd_Key :: "(ukey option \<times> string) option"
  sd_Bins :: "string \<Rightarrow> gval"

fun renderUserKey :: "ukey \<Rightarrow> string" where
  "renderUserKey (UStr s) = s"
| "renderUserKey (UInt i) = dec_int i"
| "renderUserKey (UBytes b) = CHR ''['' # concat (map (\<lambda>x. dec_nat (unat x)) (take 1 b)) @
     concat (map (\<lambda>x. CHR '' '' # dec_nat (unat x)) (drop 1 b)) @ '']''"

definition displayKeyOf :: "ukey option \<times> string \<Rightarrow> string \<times> bool" where
  "displayKeyOf key =
     (case fst key of
        Some v \<Rightarrow> if renderUserKey v \<noteq> '''' \<and> renderUserKey v \<noteq> ''<nil>'' then (renderUserKey v, True)
                  else (CHR ''#'' # take 8 (snd key), False)
      | None \<Rightarrow> (CHR ''#'' # take 8 (snd key), False))"

definition userKeyString :: "(ukey option \<times> string) option \<Rightarrow> string" where
  "userKeyString key =
     (case key of None \<Rightarrow> '''' | Some k \<Rightarrow> (case displayKeyOf k of (s, ok) \<Rightarrow> if ok then s else ''''))"

section \<open>Entries\<close>

record task_entry =
  te_Label :: string
  te_TaskID :: int64
  te_FireTime :: "string option"
  te_Bytes :: nat

definition taskBlobSize :: "gval \<Rightarrow> nat" where
  "taskBlobSize v =
     (case v of
        GList parts \<Rightarrow> (if parts = [] then 0 else length (orZero (asBytes (hd parts)) []))
      | _ \<Rightarrow> length (orZero (asBytes v) []))"

text \<open>The rendering of an instant (RFC 3339, UTC) is a parameter.\<close>

definition renderTaskEntry :: "(int64 \<Rightarrow> string) \<Rightarrow> gval \<times> gval \<Rightarrow> bool \<Rightarrow> task_entry option" where
  "renderTaskEntry stamp pair isScheduled =
     (let size = taskBlobSize (snd pair) in
      if \<not> isScheduled then
        (case asInt64 (fst pair) of None \<Rightarrow> None
         | Some taskID \<Rightarrow> Some \<lparr>te_Label = ''task '' @ dec_int (sint taskID), te_TaskID = taskID, te_FireTime = None, te_Bytes = size\<rparr>)
      else let raw = orZero (asBytes (fst pair)) [] in
        if length raw \<noteq> 16 then None
        else let fireTime = Uint64 (take 8 raw); taskID = Uint64 (drop 8 raw) in
          Some \<lparr>te_Label = stamp fireTime @ [CHR '' '', CHR 0xC2, CHR 0xB7, CHR '' ''] @ ''task '' @ dec_int (sint taskID),
            te_TaskID = taskID, te_FireTime = Some (stamp fireTime), te_Bytes = size\<rparr>)"

abbreviation "historyTaskEntryCap \<equiv> 50 :: nat"

abbreviation "historyTaskRecordCap \<equiv> 500 :: nat"

definition renderTaskEntries :: "(int64 \<Rightarrow> string) \<Rightarrow> (gval \<times> gval) list \<Rightarrow> bool \<Rightarrow> task_entry list" where
  "renderTaskEntries stamp pairs isScheduled =
     List.map_filter (\<lambda>pair. renderTaskEntry stamp pair isScheduled) (take historyTaskEntryCap pairs)"

text \<open>The category registry of Temporal: name of a category id and whether it is scheduled.\<close>

type_synonym registry = "int \<Rightarrow> (string \<times> bool) option"

definition describeCategory :: "registry \<Rightarrow> int \<Rightarrow> (gval \<times> gval) list \<Rightarrow> string \<times> bool" where
  "describeCategory taskCategories i pairs =
     (case taskCategories i of
        Some c \<Rightarrow> c
      | None \<Rightarrow> (''category-'' @ dec_int i,
          if pairs = [] then False else length (orZero (asBytes (fst (hd pairs))) []) = 16))"

section \<open>The view\<close>

record task_bucket =
  tb_Bucket :: int
  tb_RecordKey :: string
  tb_Count :: nat
  tb_Truncated :: bool
  tb_Entries :: "task_entry list"

record category_tasks =
  cg_ID :: int
  cg_Name :: string
  cg_Scheduled :: bool
  cg_Buckets :: "task_bucket list"

record shard_tasks =
  sh_ShardID :: int
  sh_Categories :: "category_tasks list"

text \<open>The two maps are association lists from shard to category to the category's buckets so far.\<close>

type_synonym by_shard = "(int \<times> (int \<times> category_tasks) list) list"

fun addCategory :: "int \<Rightarrow> string \<times> bool \<Rightarrow> task_bucket \<Rightarrow> (int \<times> category_tasks) list \<Rightarrow> (int \<times> category_tasks) list" where
  "addCategory i d tb [] = [(i, \<lparr>cg_ID = i, cg_Name = fst d, cg_Scheduled = snd d, cg_Buckets = [tb]\<rparr>)]"
| "addCategory i d tb ((j, c) # cs) =
     (if i = j then (j, c\<lparr>cg_Buckets := cg_Buckets c @ [tb]\<rparr>) # cs else (j, c) # addCategory i d tb cs)"

fun addShard :: "int \<Rightarrow> int \<Rightarrow> string \<times> bool \<Rightarrow> task_bucket \<Rightarrow> by_shard \<Rightarrow> by_shard" where
  "addShard shardID i d tb [] = [(shardID, addCategory i d tb [])]"
| "addShard shardID i d tb ((j, cs) # m) =
     (if shardID = j then (j, addCategory i d tb cs) # m else (j, cs) # addShard shardID i d tb m)"

definition pairsOf :: "scanned \<Rightarrow> (gval \<times> gval) list" where
  "pairsOf r = (case sd_Bins r ''t'' of GPairs m \<Rightarrow> m | GMap m \<Rightarrow> m | _ \<Rightarrow> [])"

definition bucketView :: "registry \<Rightarrow> (int64 \<Rightarrow> string) \<Rightarrow> int \<times> int \<times> int \<Rightarrow> (gval \<times> gval) list \<Rightarrow> task_bucket" where
  "bucketView taskCategories stamp key pairs =
     (case key of (shardID, categoryID, bucketID) \<Rightarrow>
        \<lparr>tb_Bucket = bucketID, tb_RecordKey = joinColon [dec_int shardID, dec_int categoryID, dec_int bucketID],
         tb_Count = length pairs, tb_Truncated = historyTaskEntryCap < length pairs,
         tb_Entries = renderTaskEntries stamp pairs (snd (describeCategory taskCategories categoryID pairs))\<rparr>)"

fun collect :: "registry \<Rightarrow> (int64 \<Rightarrow> string) \<Rightarrow> nat \<Rightarrow> by_shard \<Rightarrow> (string + scanned) list \<Rightarrow> string + by_shard" where
  "collect taskCategories stamp seen byShard [] = Inr byShard"
| "collect taskCategories stamp seen byShard (Inl err # rs) = Inl err"
| "collect taskCategories stamp seen byShard (Inr rec # rs) =
     (if historyTaskRecordCap \<le> seen then Inr byShard
      else case parseHistoryTaskKey (userKeyString (sd_Key rec)) of
        None \<Rightarrow> collect taskCategories stamp (seen + 1) byShard rs
      | Some (shardID, categoryID, bucketID) \<Rightarrow>
          let pairs = pairsOf rec in
          collect taskCategories stamp (seen + 1)
            (addShard shardID categoryID (describeCategory taskCategories categoryID pairs)
               (bucketView taskCategories stamp (shardID, categoryID, bucketID) pairs) byShard) rs)"

definition shardView :: "env \<Rightarrow> int \<times> (int \<times> category_tasks) list \<Rightarrow> shard_tasks" where
  "shardView E x =
     \<lparr>sh_ShardID = fst x,
      sh_Categories = sortSlice (\<lambda>a b. cg_ID a < cg_ID b)
        (map (\<lambda>(i, c). c\<lparr>cg_Buckets := sortSlice (\<lambda>a b. tb_Bucket a < tb_Bucket b) (cg_Buckets c)\<rparr>) (rangeMap E (snd x)))\<rparr>"

definition HistoryTasks :: "env \<Rightarrow> registry \<Rightarrow> (int64 \<Rightarrow> string) \<Rightarrow> (string + scanned) list \<Rightarrow> string + shard_tasks list" where
  "HistoryTasks E taskCategories stamp results =
     (case collect taskCategories stamp 0 [] results of
        Inl err \<Rightarrow> Inl err
      | Inr byShard \<Rightarrow> Inr (sortSlice (\<lambda>a b. sh_ShardID a < sh_ShardID b) (map (shardView E) (rangeMap E byShard))))"

section \<open>Keys read back\<close>

lemma splitOn_plain: "sep \<notin> set a \<Longrightarrow> splitOn sep a = [a]"
  by (induction a) auto

lemma splitOn_append: "sep \<notin> set a \<Longrightarrow> splitOn sep (a @ sep # b) = a # splitOn sep b"
  by (induction a) auto

lemma ParseUint_dec_nat: "n < 2 ^ 64 \<Longrightarrow> ParseUint (dec_nat n) = Some n"
  by (simp add: ParseUint_def isDigit_dec_nat undec_dec_nat)

lemma hd_dec_nat_sign: "hd (dec_nat n) \<noteq> CHR ''-''" "hd (dec_nat n) \<noteq> CHR ''+''"
  using isDigit_dec_nat [of n] by (cases "dec_nat n"; auto simp: isDigit_nat)+

lemma ParseInt_dec_int:
  assumes "- (2 ^ 63) \<le> i" "i < 2 ^ 63"
  shows "ParseInt (dec_int i) = Some i"
proof (cases "i < 0")
  case True
  with assms have "nat (- i) < 2 ^ 64" "\<not> 2 ^ 63 < nat (- i)" by (auto simp: nat_less_iff)
  with True show ?thesis by (simp add: ParseInt_def dec_int_def ParseUint_dec_nat)
next
  case False
  with assms have "nat i < 2 ^ 64" "\<not> 2 ^ 63 \<le> nat i" by (auto simp: nat_less_iff)
  with False show ?thesis by (simp add: ParseInt_def dec_int_def ParseUint_dec_nat hd_dec_nat_sign Let_def)
qed

abbreviation "goInt i \<equiv> - (2 ^ 63) \<le> i \<and> i < (2 ^ 63 :: int)"

lemma parse_joined:
  assumes "goInt a" "goInt b" "goInt c"
  shows "parseHistoryTaskKey (joinColon [dec_int a, dec_int b, dec_int c]) = Some (a, b, c)"
  using assms by (simp add: parseHistoryTaskKey_def joinColon_def splitOn_append splitOn_plain ParseInt_dec_int)

lemma sint_goInt: "goInt (sint (x :: int64))"
  using sint_range64 [of x] by simp

lemma sint32_goInt: "goInt (sint (x :: int32))"
  using sint_range_size [of x] by (simp add: word_size)

lemma joinColon_long: "\<exists>x y z r. joinColon [dec_int a, dec_int b, dec_int c] = x # y # z # r \<and> x \<noteq> CHR ''<''"
proof -
  have "dec_int i \<noteq> []" "hd (dec_int i) \<noteq> CHR ''<''" for i
    using isDigit_dec_nat [of "nat i"] by (cases "dec_nat (nat i)"; auto simp: dec_int_def isDigit_nat)+
  then obtain x r y s z t where "dec_int a = x # r" "dec_int b = y # s" "dec_int c = z # t" "x \<noteq> CHR ''<''"
    by (metis list.collapse)
  then show ?thesis by (cases r; simp add: joinColon_def; cases "tl r"; simp)
qed

lemma userKeyString_store:
  "userKeyString (Some (Some (key_user (historyTaskKey E sh cat b)), dg)) =
     joinColon [dec_int (sint sh), dec_int cat, dec_int (sint b)]"
  using joinColon_long [of "sint sh" cat "sint b"]
  by (auto simp: userKeyString_def displayKeyOf_def historyTaskKey_def newKey_def)

section \<open>Grouping loses nothing\<close>

text \<open>Every bucket that has been put aside, with its shard and category, in the order of the lists.\<close>

definition flatCats :: "int \<Rightarrow> (int \<times> category_tasks) list \<Rightarrow> (int \<times> int \<times> task_bucket) list" where
  "flatCats s cs = concat (map (\<lambda>(i, c). map (\<lambda>tb. (s, i, tb)) (cg_Buckets c)) cs)"

definition flatGroups :: "by_shard \<Rightarrow> (int \<times> int \<times> task_bucket) list" where
  "flatGroups m = concat (map (\<lambda>(s, cs). flatCats s cs) m)"

definition groupsOk :: "by_shard \<Rightarrow> bool" where
  "groupsOk m \<longleftrightarrow> distinct (map fst m) \<and>
     (\<forall>(s, cs) \<in> set m. distinct (map fst cs) \<and> (\<forall>(i, c) \<in> set cs. cg_ID c = i))"

lemma mset_addCategory: "mset (flatCats s (addCategory i d tb cs)) = add_mset (s, i, tb) (mset (flatCats s cs))"
  by (induction i d tb cs rule: addCategory.induct) (auto simp: flatCats_def)

lemma flatCats_Nil [simp]: "flatCats s [] = []"
  by (simp add: flatCats_def)

lemma mset_addShard: "mset (flatGroups (addShard s i d tb m)) = add_mset (s, i, tb) (mset (flatGroups m))"
  by (induction s i d tb m rule: addShard.induct) (auto simp: flatGroups_def mset_addCategory simp del: addCategory.simps)

lemma fst_addCategory: "set (map fst (addCategory i d tb cs)) = insert i (set (map fst cs))"
  by (induction i d tb cs rule: addCategory.induct) auto

lemma fst_addShard: "set (map fst (addShard s i d tb m)) = insert s (set (map fst m))"
  by (induction s i d tb m rule: addShard.induct) auto

lemma addCategory_ok:
  "distinct (map fst cs) \<and> (\<forall>(i, c) \<in> set cs. cg_ID c = i) \<Longrightarrow>
   distinct (map fst (addCategory j d tb cs)) \<and> (\<forall>(i, c) \<in> set (addCategory j d tb cs). cg_ID c = i)"
proof (induction j d tb cs rule: addCategory.induct)
  case (2 i d tb j c cs)
  with fst_addCategory [of i d tb cs] show ?case by auto
qed simp

lemma addShard_ok: "groupsOk m \<Longrightarrow> groupsOk (addShard s i d tb m)"
proof (induction s i d tb m rule: addShard.induct)
  case (1 s i d tb)
  then show ?case by (simp add: groupsOk_def)
next
  case (2 s i d tb j cs m)
  then have m: "groupsOk m" "j \<notin> set (map fst m)"
    and cs: "distinct (map fst cs) \<and> (\<forall>(i, c) \<in> set cs. cg_ID c = i)" by (auto simp: groupsOk_def)
  show ?case
    using m cs 2(1) fst_addShard [of s i d tb m] addCategory_ok [OF cs, of i d tb]
    by (cases "s = j") (auto simp: groupsOk_def)
qed

text \<open>What the scan loop makes of one record.\<close>

definition shown :: "registry \<Rightarrow> (int64 \<Rightarrow> string) \<Rightarrow> scanned \<Rightarrow> (int \<times> int \<times> task_bucket) list" where
  "shown cats stamp r =
     (case parseHistoryTaskKey (userKeyString (sd_Key r)) of
        None \<Rightarrow> []
      | Some (s, i, b) \<Rightarrow> [(s, i, bucketView cats stamp (s, i, b) (pairsOf r))])"

lemma collect_all:
  assumes "groupsOk m"
  shows "\<exists>m'. collect cats stamp seen m (map Inr recs) = Inr m' \<and> groupsOk m' \<and>
    mset (flatGroups m') = mset (flatGroups m) + mset (concat (map (shown cats stamp) (take (historyTaskRecordCap - seen) recs)))"
  using assms
proof (induction recs arbitrary: seen m)
  case (Cons r recs)
  show ?case
  proof (cases "historyTaskRecordCap \<le> seen")
    case True
    with Cons.prems show ?thesis by simp
  next
    case cap: False
    then have take: "take (historyTaskRecordCap - seen) (r # recs) = r # take (historyTaskRecordCap - (seen + 1)) recs"
      by (simp add: take_Cons')
    show ?thesis
    proof (cases "parseHistoryTaskKey (userKeyString (sd_Key r))")
      case None
      from Cons.IH [of m "seen + 1"] Cons.prems None cap show ?thesis unfolding take by (simp add: shown_def)
    next
      case (Some k)
      obtain s i b where k: "k = (s, i, b)" by (cases k)
      let ?m = "addShard s i (describeCategory cats i (pairsOf r)) (bucketView cats stamp k (pairsOf r)) m"
      from Cons.IH [of ?m "seen + 1"] Cons.prems Some cap show ?thesis
        unfolding take by (auto simp: k shown_def addShard_ok mset_addShard)
    qed
  qed
qed simp

section \<open>Sorting keeps the groups\<close>

definition flatView :: "shard_tasks list \<Rightarrow> (int \<times> int \<times> task_bucket) list" where
  "flatView view = concat (map (\<lambda>s. concat (map (\<lambda>c. map (\<lambda>tb. (sh_ShardID s, cg_ID c, tb)) (cg_Buckets c)) (sh_Categories s))) view)"

definition position :: "int \<times> int \<times> task_bucket \<Rightarrow> int \<times> int \<times> int" where
  "position x = (case x of (s, i, tb) \<Rightarrow> (s, i, tb_Bucket tb))"

lemma mset_concat_map: "mset (concat (map f xs)) = (\<Sum>x \<in># mset xs. mset (f x))"
  by (induction xs) auto

lemma mset_concat_cong: "(\<And>x. x \<in> set xs \<Longrightarrow> mset (f x) = mset (g x)) \<Longrightarrow> mset (concat (map f xs)) = mset (concat (map g xs))"
  by (induction xs) auto

lemma mset_concat_perm: "mset xs = mset ys \<Longrightarrow> mset (concat (map f xs)) = mset (concat (map f ys))"
  by (simp add: mset_concat_map)

lemma sorted_concat_map:
  fixes key :: "'b \<Rightarrow> 'k::linorder"
  assumes "sorted_wrt (\<lambda>x y. \<forall>a \<in> set (f x). \<forall>b \<in> set (f y). key a \<le> key b) xs" "\<And>x. x \<in> set xs \<Longrightarrow> sorted (map key (f x))"
  shows "sorted (map key (concat (map f xs)))"
  using assms by (induction xs) (auto simp: sorted_append)

lemma sorted_strict: "distinct (map f xs) \<Longrightarrow> sorted_wrt (\<lambda>x y. f x < f y) (sort_key f xs)" for f :: "'a \<Rightarrow> 'b::linorder"
proof -
  assume "distinct (map f xs)"
  moreover have "mset (map f (sort_key f xs)) = mset (map f xs)" by simp
  ultimately have "distinct (map f (sort_key f xs))" using mset_eq_imp_distinct_iff by blast
  then have "sorted_wrt (<) (map f (sort_key f xs))" by (simp add: strict_sorted_iff)
  then show ?thesis by (simp add: sorted_wrt_map)
qed

definition flatShard :: "shard_tasks \<Rightarrow> (int \<times> int \<times> task_bucket) list" where
  "flatShard s = concat (map (\<lambda>c. map (\<lambda>tb. (sh_ShardID s, cg_ID c, tb)) (cg_Buckets c)) (sh_Categories s))"

lemma sortedCategory:
  "sorted (map position (map (\<lambda>tb. (s, i, tb)) (sort_key tb_Bucket bs)))"
  by (simp add: position_def comp_def sorted_map) (simp add: sorted_wrt_mono_rel [OF _ sorted_sort_key [unfolded sorted_map]])

lemma shardView_ok:
  assumes api: "temporal_api E" and "distinct (map fst cs)" "\<forall>(i, c) \<in> set cs. cg_ID c = i"
  shows "mset (flatShard (shardView E (s, cs))) = mset (flatCats s cs)" "sorted (map position (flatShard (shardView E (s, cs))))"
proof -
  let ?sortB = "\<lambda>(i :: int, c). c\<lparr>cg_Buckets := sort_key tb_Bucket (cg_Buckets c)\<rparr>"
  let ?flat = "\<lambda>c. map (\<lambda>tb. (s, cg_ID c, tb)) (cg_Buckets c)"
  have perm: "mset (rangeMap E cs) = mset cs" by (rule temporal_api.mset_rangeMap [OF api])
  have view: "shardView E (s, cs) = \<lparr>sh_ShardID = s, sh_Categories = sort_key cg_ID (map ?sortB (rangeMap E cs))\<rparr>"
    by (simp add: shardView_def sortSlice_key)
  have "mset (sort_key cg_ID (map ?sortB (rangeMap E cs))) = mset (map ?sortB cs)" by (simp add: perm)
  then have "mset (flatShard (shardView E (s, cs))) = mset (concat (map ?flat (map ?sortB cs)))"
    unfolding view flatShard_def shard_tasks.select_convs by (rule mset_concat_perm)
  also have "\<dots> = mset (flatCats s cs)"
    using assms(3) unfolding flatCats_def by (induction cs) auto
  finally show "mset (flatShard (shardView E (s, cs))) = mset (flatCats s cs)" .
  have ids: "map cg_ID (map ?sortB cs) = map fst cs" using assms(3) by auto
  have "mset (map cg_ID (map ?sortB (rangeMap E cs))) = mset (map cg_ID (map ?sortB cs))" by (simp add: perm)
  from mset_eq_imp_distinct_iff [OF this, unfolded ids] have "distinct (map cg_ID (map ?sortB (rangeMap E cs)))"
    using assms(2) by (rule iffD2)
  then have "sorted_wrt (\<lambda>a b. cg_ID a < cg_ID b) (sort_key cg_ID (map ?sortB (rangeMap E cs)))" by (rule sorted_strict)
  moreover have "sorted (map position (?flat c))" if "c \<in> set (sort_key cg_ID (map ?sortB (rangeMap E cs)))" for c
    using that sortedCategory by auto
  ultimately show "sorted (map position (flatShard (shardView E (s, cs))))"
    unfolding view flatShard_def
    by (intro sorted_concat_map) (auto simp: position_def elim!: sorted_wrt_mono_rel [rotated])
qed

lemma view_ok:
  assumes api: "temporal_api E" and ok: "groupsOk m"
    and view: "view = sortSlice (\<lambda>a b. sh_ShardID a < sh_ShardID b) (map (shardView E) (rangeMap E m))"
  shows "mset (flatView view) = mset (flatGroups m) \<and> sorted (map position (flatView view))"
proof
  have flat: "flatView v = concat (map flatShard v)" for v by (simp add: flatView_def flatShard_def [abs_def])
  have perm: "mset (rangeMap E m) = mset m" by (rule temporal_api.mset_rangeMap [OF api])
  have view': "view = sort_key sh_ShardID (map (shardView E) (rangeMap E m))" by (simp add: view sortSlice_key)
  then have mv: "mset view = mset (map (shardView E) m)" by (simp add: perm)
  have each: "distinct (map fst cs)" "\<forall>(i, c) \<in> set cs. cg_ID c = i" if "(s, cs) \<in> set m" for s cs
    using ok that by (auto simp: groupsOk_def)
  have "mset (flatView view) = mset (concat (map flatShard (map (shardView E) m)))"
    unfolding flat using mv by (rule mset_concat_perm)
  also have "\<dots> = mset (flatGroups m)"
    unfolding flatGroups_def list.map_comp using each shardView_ok(1) [OF api] by (intro mset_concat_cong) auto
  finally show "mset (flatView view) = mset (flatGroups m)" .
  have ids: "map sh_ShardID (map (shardView E) m) = map fst m" by (simp add: shardView_def)
  have "mset (map sh_ShardID (map (shardView E) (rangeMap E m))) = mset (map sh_ShardID (map (shardView E) m))" by (simp add: perm)
  from mset_eq_imp_distinct_iff [OF this, unfolded ids] have "distinct (map sh_ShardID (map (shardView E) (rangeMap E m)))"
    using ok unfolding groupsOk_def by blast
  then have "sorted_wrt (\<lambda>a b. sh_ShardID a < sh_ShardID b) view" unfolding view' by (rule sorted_strict)
  moreover have "sorted (map position (flatShard s))" if "s \<in> set view" for s
  proof -
    have "s \<in> set (map (shardView E) m)" using that mv by (metis set_mset_mset)
    then show ?thesis using each shardView_ok(2) [OF api] by auto
  qed
  ultimately show "sorted (map position (flatView view))"
    unfolding flat by (intro sorted_concat_map) (auto simp: flatShard_def position_def elim!: sorted_wrt_mono_rel [rotated])
qed

section \<open>The view of the store's own records\<close>

text \<open>
  A bucket of the store: its place, its tasks in map order with their stored values, its digest, and whether
  the server keeps the user key of the record, which it does only for writes that send it; and the record a
  scan returns for it.
\<close>

record store_bucket =
  sb_Shard :: int32
  sb_Category :: int
  sb_Bucket :: int64
  sb_Tasks :: "(task_key \<times> gval) list"
  sb_Digest :: string
  sb_KeyStored :: bool

definition scanRecord :: "env \<Rightarrow> (int \<Rightarrow> taskKeyCodec) \<Rightarrow> store_bucket \<Rightarrow> scanned" where
  "scanRecord E codec sb =
     \<lparr>sd_Key = Some (if sb_KeyStored sb then Some (key_user (historyTaskKey E (sb_Shard sb) (sb_Category sb) (sb_Bucket sb))) else None, sb_Digest sb),
      sd_Bins = (\<lambda>b. if b = ''t'' then read_bin (Some (BMap (map (\<lambda>(k, v). (encode (codec (sb_Category sb)) k, v)) (sb_Tasks sb)))) else GNil)\<rparr>"

text \<open>What a reader sees of a bucket: its place, how many tasks it has, and task id and fire time of each task shown.\<close>

definition summary :: "int \<times> int \<times> task_bucket \<Rightarrow> int \<times> int \<times> int \<times> nat \<times> (int64 \<times> string option) list" where
  "summary x = (case x of (s, i, tb) \<Rightarrow> (s, i, tb_Bucket tb, tb_Count tb, map (\<lambda>e. (te_TaskID e, te_FireTime e)) (tb_Entries tb)))"

definition taskRow :: "(int64 \<Rightarrow> string) \<Rightarrow> taskKeyCodec \<Rightarrow> task_key \<times> gval \<Rightarrow> int64 \<times> string option" where
  "taskRow stamp c t = (TaskID (fst t), if scheduled c then Some (stamp (FireTime (fst t))) else None)"

definition expected :: "(int64 \<Rightarrow> string) \<Rightarrow> (int \<Rightarrow> taskKeyCodec) \<Rightarrow> store_bucket \<Rightarrow> int \<times> int \<times> int \<times> nat \<times> (int64 \<times> string option) list" where
  "expected stamp codec sb = (sint (sb_Shard sb), sb_Category sb, sint (sb_Bucket sb), length (sb_Tasks sb),
     map (taskRow stamp (codec (sb_Category sb))) (take 50 (sb_Tasks sb)))"

lemma renderTaskEntry_encode:
  "\<exists>e. renderTaskEntry stamp (pair_key (encode c k), v) (scheduled c) = Some e \<and> (te_TaskID e, te_FireTime e) = taskRow stamp c (k, v)"
  by (cases "scheduled c") (simp_all add: renderTaskEntry_def encode_def taskRow_def Let_def)

lemma renderTaskEntries_encode:
  "map (\<lambda>e. (te_TaskID e, te_FireTime e))
     (renderTaskEntries stamp (map_pairs (map (\<lambda>(k, v). (encode c k, v)) ts)) (scheduled c)) = map (taskRow stamp c) (take 50 ts)"
proof -
  have "map (\<lambda>e. (te_TaskID e, te_FireTime e)) (List.map_filter (\<lambda>p. renderTaskEntry stamp p (scheduled c))
      (map_pairs (map (\<lambda>(k, v). (encode c k, v)) us))) = map (taskRow stamp c) us" for us
  proof (induction us)
    case (Cons t us)
    obtain k v where "t = (k, v)" by (cases t)
    with renderTaskEntry_encode [of stamp c k v] Cons show ?case by (auto simp: List.map_filter_simps map_pairs_def)
  qed (simp add: List.map_filter_simps map_pairs_def)
  from this [of "take 50 ts"] show ?thesis by (simp add: renderTaskEntries_def map_pairs_def take_map)
qed

text \<open>The browser takes a bucket of a category it does not know for scheduled iff its first key looks like one.\<close>

lemma describeCategory_scheduled:
  assumes "\<And>nm b. cats i = Some (nm, b) \<Longrightarrow> b = scheduled c"
  shows "ts = [] \<or> snd (describeCategory cats i (map_pairs (map (\<lambda>(k, v). (encode c k, v)) ts))) = scheduled c"
proof (cases ts)
  case (Cons t us)
  obtain k v where t: "t = (k, v)" by (cases t)
  have "length (orZero (asBytes (pair_key (encode c k))) []) = 16 \<longleftrightarrow> scheduled c" by (simp add: encode_def)
  with assms show ?thesis by (auto simp: Cons t describeCategory_def map_pairs_def split: option.splits)
qed simp

lemma map_concat_filter:
  assumes "\<And>x. x \<in> set xs \<Longrightarrow> map f (g (h x)) = (if P x then [e x] else [])"
  shows "map f (concat (map g (map h xs))) = map e (filter P xs)"
  using assms by (induction xs) simp_all

lemma shown_scanRecord:
  assumes "goInt (sb_Category sb)" "\<And>nm b. cats (sb_Category sb) = Some (nm, b) \<Longrightarrow> b = scheduled (codec (sb_Category sb))"
  shows "map summary (shown cats stamp (scanRecord E codec sb)) = (if sb_KeyStored sb then [expected stamp codec sb] else [])"
proof (cases "sb_KeyStored sb")
  case True
  let ?c = "codec (sb_Category sb)"
  let ?ps = "map_pairs (map (\<lambda>(k, v). (encode ?c k, v)) (sb_Tasks sb))"
  have "map (\<lambda>e. (te_TaskID e, te_FireTime e)) (renderTaskEntries stamp ?ps (snd (describeCategory cats (sb_Category sb) ?ps))) =
      map (taskRow stamp ?c) (take 50 (sb_Tasks sb))"
  proof (cases "sb_Tasks sb = []")
    case True
    then show ?thesis by (simp add: renderTaskEntries_def map_pairs_def List.map_filter_simps)
  next
    case False
    moreover have "sb_Tasks sb = [] \<or> snd (describeCategory cats (sb_Category sb) ?ps) = scheduled ?c"
      by (rule describeCategory_scheduled) (rule assms(2))
    ultimately have "snd (describeCategory cats (sb_Category sb) ?ps) = scheduled ?c" by blast
    then show ?thesis by (simp only: renderTaskEntries_encode)
  qed
  with True show ?thesis
    using assms(1) parse_joined [OF sint32_goInt assms(1) sint_goInt, of "sb_Shard sb" "sb_Bucket sb"]
    by (simp add: shown_def scanRecord_def userKeyString_store summary_def expected_def bucketView_def pairsOf_def) (simp add: map_pairs_def)
next
  case False
  then show ?thesis by (simp add: shown_def scanRecord_def userKeyString_def displayKeyOf_def parseHistoryTaskKey_def)
qed

text \<open>
  C15. The browser's view of the history task queues is the store's, as far as the scan lets it see: of the
  records a scan returns, in whatever order and however many, the view holds exactly once each bucket that is
  among the first 500 and whose user key the server keeps, and nothing else; later records and records
  without a stored user key are left out without a word. The buckets shown are ordered by shard, category and
  bucket, which is the order in which a range read visits them; each with its true number of tasks and, in
  map order, the ids and fire times of its first 50 tasks as the store's codec wrote them. The registry of
  categories must not contradict the codec; a category it does not know is recognised by its keys.
\<close>

theorem HistoryTasks_view:
  assumes api: "temporal_api E"
    and known: "\<And>sb. sb \<in> set sbs \<Longrightarrow> - (2 ^ 63) \<le> sb_Category sb \<and> sb_Category sb < 2 ^ 63 \<and>
      (\<forall>nm b. taskCategories (sb_Category sb) = Some (nm, b) \<longrightarrow> b = scheduled (codec (sb_Category sb)))"
  shows "\<exists>view. HistoryTasks E taskCategories stamp (map (\<lambda>sb. Inr (scanRecord E codec sb)) sbs) = Inr view \<and>
    mset (map summary (flatView view)) = mset (map (expected stamp codec) (filter sb_KeyStored (take 500 sbs))) \<and>
    sorted (map (\<lambda>(s, i, b, _). (s, i, b)) (map summary (flatView view)))"
proof -
  let ?recs = "map (scanRecord E codec) sbs" and ?seen = "take 500 sbs"
  have "groupsOk []" by (simp add: groupsOk_def)
  with collect_all [of "[]" taskCategories stamp 0 ?recs]
  obtain m where m: "collect taskCategories stamp 0 [] (map Inr ?recs) = Inr m" "groupsOk m"
    "mset (flatGroups m) = mset (concat (map (shown taskCategories stamp) (map (scanRecord E codec) ?seen)))"
    by (auto simp: flatGroups_def take_map)
  define view where "view = sortSlice (\<lambda>a b. sh_ShardID a < sh_ShardID b) (map (shardView E) (rangeMap E m))"
  have ok: "mset (flatView view) = mset (flatGroups m)" "sorted (map position (flatView view))"
    using view_ok [OF api m(2) view_def] by simp_all
  have "\<And>sb. sb \<in> set ?seen \<Longrightarrow> map summary (shown taskCategories stamp (scanRecord E codec sb)) = (if sb_KeyStored sb then [expected stamp codec sb] else [])"
    using known by (intro shown_scanRecord) (auto dest: in_set_takeD)
  then have "map summary (concat (map (shown taskCategories stamp) (map (scanRecord E codec) ?seen))) = map (expected stamp codec) (filter sb_KeyStored ?seen)"
    by (rule map_concat_filter)
  with ok(1) m(3) have "mset (map summary (flatView view)) = mset (map (expected stamp codec) (filter sb_KeyStored ?seen))" by (metis mset_map)
  moreover have "map (\<lambda>(s, i, b, _). (s, i, b)) (map summary (flatView view)) = map position (flatView view)"
    by (auto simp: summary_def position_def)
  moreover have "HistoryTasks E taskCategories stamp (map (\<lambda>sb. Inr (scanRecord E codec sb)) sbs) = Inr view"
    using m(1) by (simp add: HistoryTasks_def view_def comp_def)
  ultimately show ?thesis using ok(2) by metis
qed

definition sampleBuckets :: "store_bucket list" where
  "sampleBuckets =
     [\<lparr>sb_Shard = 10, sb_Category = 1, sb_Bucket = 0, sb_Tasks = [(\<lparr>FireTime = 0, TaskID = 4\<rparr>, GList [])], sb_Digest = ''a'', sb_KeyStored = True\<rparr>,
      \<lparr>sb_Shard = 4, sb_Category = 1, sb_Bucket = 0, sb_Tasks = [(\<lparr>FireTime = 0, TaskID = 5\<rparr>, GList [])], sb_Digest = ''c'', sb_KeyStored = False\<rparr>,
      \<lparr>sb_Shard = 3, sb_Category = 2, sb_Bucket = 7, sb_Tasks = [(\<lparr>FireTime = 61, TaskID = 9\<rparr>, GList [])], sb_Digest = ''b'', sb_KeyStored = True\<rparr>]"

theorem HistoryTasks_view_witness:
  "\<exists>view. HistoryTasks sample_env (\<lambda>i. if i = 1 then Some (''c'', False) else None) (\<lambda>_. ''t'')
      (map (\<lambda>sb. Inr (scanRecord sample_env (\<lambda>i. \<lparr>scheduled = (i = 2)\<rparr>) sb)) sampleBuckets) = Inr view \<and>
    mset (map summary (flatView view)) = {#(10, 1, 0, 1, [(4, None)]), (3, 2, 7, 1, [(9, Some ''t'')])#} \<and>
    sorted (map (\<lambda>(s, i, b, _). (s, i, b)) (map summary (flatView view)))"
proof -
  have e: "mset (map (expected (\<lambda>_. ''t'') (\<lambda>i. \<lparr>scheduled = (i = 2)\<rparr>)) (filter sb_KeyStored (take 500 sampleBuckets))) =
      {#(10, 1, 0, 1, [(4, None)]), (3, 2, 7, 1, [(9, Some ''t'')])#}"
    by (simp add: sampleBuckets_def expected_def taskRow_def)
  show ?thesis
    unfolding e [symmetric] by (rule HistoryTasks_view [OF sample.temporal_api_axioms]) (auto simp: sampleBuckets_def split: if_splits)
qed

end
