(* ===== verification/BrowserListing.thy ===== *)
theory BrowserListing
  imports RecordBrowser
begin

text \<open>
  The two lists of the record browser (\<^verbatim>\<open>control/browser.go\<close>): the sets of the namespace with their roles, and
  the records of one set. Neither drops anything it was given, and the second is bounded whatever limit is
  asked for. The rendering of a record as text is a parameter.
\<close>

section \<open>Sets\<close>

record set_info =
  si_Name :: string
  si_Objects :: int
  si_Description :: string

text \<open>The descriptions, in the order of the data model, and the sets of others are arguments; the counts are a map without order.\<close>

definition knownSets :: "string \<Rightarrow> (string \<times> string) list \<Rightarrow> (string \<times> int) list \<Rightarrow> set_info list" where
  "knownSets prefix descriptions counts =
     concat (map (\<lambda>(name, desc). case map_of counts (prefix @ name) of
        None \<Rightarrow> []
      | Some n \<Rightarrow> [\<lparr>si_Name = prefix @ name, si_Objects = n, si_Description = desc\<rparr>]) descriptions)"

definition annotate :: "env \<Rightarrow> string \<Rightarrow> (string \<times> string) list \<Rightarrow> (string \<Rightarrow> string) \<Rightarrow> (string \<times> int) list \<Rightarrow> set_info list" where
  "annotate E prefix descriptions foreignSets counts =
     (let out = knownSets prefix descriptions counts;
          seen = map si_Name out;
          rest = sort (filter (\<lambda>name. name \<notin> set seen) (map fst (rangeMap E counts)))
      in out @ map (\<lambda>name. \<lparr>si_Name = name, si_Objects = the (map_of counts name), si_Description = foreignSets name\<rparr>) rest)"

lemma mset_knownSets:
  assumes "distinct (map fst descriptions)" "distinct (map fst counts)"
  shows "mset (map (\<lambda>i. (si_Name i, si_Objects i)) (knownSets prefix descriptions counts)) =
    mset (filter (\<lambda>(name, n). name \<in> (\<lambda>(d, _). prefix @ d) ` set descriptions) counts)"
  using assms(1)
proof (induction descriptions)
  case Nil
  then show ?case by (simp add: knownSets_def)
next
  case (Cons d descriptions)
  obtain name desc where d: "d = (name, desc)" by (cases d)
  let ?D = "(\<lambda>(d, _). prefix @ d) ` set descriptions"
  have fresh: "prefix @ name \<notin> ?D" using Cons.prems d by force
  have "mset (filter (\<lambda>(n, _). n = prefix @ name \<or> n \<in> ?D) counts) =
      mset (filter (\<lambda>(n, _). n = prefix @ name) counts) + mset (filter (\<lambda>(n, _). n \<in> ?D) counts)"
    using fresh by (induction counts) auto
  moreover have "filter (\<lambda>(n, _). n = prefix @ name) counts = (case map_of counts (prefix @ name) of None \<Rightarrow> [] | Some c \<Rightarrow> [(prefix @ name, c)])"
    using assms(2) by (induction counts) (auto simp: filter_empty_conv rev_image_eqI split: option.splits)
  ultimately show ?case
    using Cons by (auto simp: knownSets_def d case_prod_beta image_iff split: option.splits)
qed

text \<open>No set of the namespace vanishes from the list and none is shown twice.\<close>

lemma annotate_complete:
  assumes api: "temporal_api E" and dist: "distinct (map fst descriptions)" "distinct (map fst counts)"
  shows "mset (map (\<lambda>i. (si_Name i, si_Objects i)) (annotate E prefix descriptions foreignSets counts)) = mset counts"
proof -
  let ?D = "(\<lambda>(d, _). prefix @ d) ` set descriptions"
  let ?out = "knownSets prefix descriptions counts"
  have known: "mset (map (\<lambda>i. (si_Name i, si_Objects i)) ?out) = mset (filter (\<lambda>(n, _). n \<in> ?D) counts)"
    by (rule mset_knownSets [OF dist])
  have seen: "n \<in> set (map si_Name ?out) \<longleftrightarrow> n \<in> ?D" if "n \<in> fst ` set counts" for n
  proof -
    have "set (map (\<lambda>i. (si_Name i, si_Objects i)) ?out) = set (filter (\<lambda>(n, _). n \<in> ?D) counts)"
      using known by (rule mset_eq_setD)
    then have "fst ` set (map (\<lambda>i. (si_Name i, si_Objects i)) ?out) = fst ` set (filter (\<lambda>(n, _). n \<in> ?D) counts)" by simp
    moreover have "fst ` set (filter (\<lambda>(n, _). n \<in> D) counts) = {n \<in> fst ` set counts. n \<in> D}" for D by force
    ultimately have "set (map si_Name ?out) = {n \<in> fst ` set counts. n \<in> ?D}" by (simp add: image_image)
    with that show ?thesis by blast
  qed
  have "mset (filter (\<lambda>n. n \<notin> set (map si_Name ?out)) (map fst (rangeMap E counts))) =
      mset (filter (\<lambda>n. n \<notin> set (map si_Name ?out)) (map fst counts))"
    using temporal_api.mset_rangeMap [OF api, of counts] by (simp add: mset_filter)
  also have "\<dots> = mset (map fst (filter (\<lambda>(n, _). n \<notin> ?D) counts))"
  proof -
    have "filter (\<lambda>n. n \<notin> set (map si_Name ?out)) (map fst xs) = map fst (filter (\<lambda>(n, _). n \<notin> ?D) xs)" if "set xs \<subseteq> set counts" for xs
      using that seen by (induction xs) (auto simp: rev_image_eqI)
    then show ?thesis by simp
  qed
  finally have rest: "mset (filter (\<lambda>n. n \<notin> set (map si_Name ?out)) (map fst (rangeMap E counts))) = mset (map fst (filter (\<lambda>(n, _). n \<notin> ?D) counts))" .
  have pairs: "map (\<lambda>n. (n, the (map_of counts n))) (map fst xs) = xs" if "set xs \<subseteq> set counts" for xs
    using that dist(2) by (induction xs) auto
  have "mset (map (\<lambda>i. (si_Name i, si_Objects i)) (annotate E prefix descriptions foreignSets counts)) =
      mset (filter (\<lambda>(n, _). n \<in> ?D) counts) +
      image_mset (\<lambda>n. (n, the (map_of counts n))) (mset (filter (\<lambda>n. n \<notin> set (map si_Name ?out)) (map fst (rangeMap E counts))))"
    unfolding known [symmetric] annotate_def Let_def by (simp add: image_mset.compositionality comp_def)
  also have "\<dots> = mset (filter (\<lambda>(n, _). n \<in> ?D) counts) + mset (filter (\<lambda>(n, _). n \<notin> ?D) counts)"
    unfolding rest mset_map [symmetric] by (subst pairs) auto
  also have "\<dots> = mset counts" by (induction counts) auto
  finally show ?thesis .
qed

section \<open>Records\<close>

fun takeRecords :: "(scanned \<Rightarrow> record_view) \<Rightarrow> int \<Rightarrow> record_view list \<Rightarrow> (string + scanned) list \<Rightarrow> string + record_view list" where
  "takeRecords renderRecord limit out [] = Inr out"
| "takeRecords renderRecord limit out (Inl err # rs) = Inl err"
| "takeRecords renderRecord limit out (Inr rec # rs) =
     (let out = out @ [renderRecord rec] in
      if limit \<le> int (length out) then Inr out else takeRecords renderRecord limit out rs)"

definition Records :: "(scanned \<Rightarrow> record_view) \<Rightarrow> int \<Rightarrow> (string + scanned) list \<Rightarrow> string + record_view list" where
  "Records renderRecord limit results =
     (let limit = (if limit \<le> 0 then 25 else limit);
          limit = (if 200 < limit then 200 else limit)
      in case takeRecords renderRecord limit [] results of Inl err \<Rightarrow> Inl err | Inr out \<Rightarrow> Inr (sortRecords out))"

lemma takeRecords_bound:
  "takeRecords renderRecord limit out rs = Inr out' \<Longrightarrow> int (length out) < limit \<Longrightarrow>
   int (length out') \<le> limit \<and> (\<exists>n. out' = out @ map renderRecord (take n [r. Inr r \<leftarrow> rs]))"
proof (induction renderRecord limit out rs rule: takeRecords.induct)
  case (1 renderRecord limit out)
  then show ?case by auto
next
  case (3 renderRecord limit out rec rs)
  show ?case
  proof (cases "limit \<le> int (length (out @ [renderRecord rec]))")
    case True
    with 3 show ?thesis by (auto simp: Let_def intro!: exI [of _ 1])
  next
    case False
    with 3 obtain n where "int (length out') \<le> limit" "out' = (out @ [renderRecord rec]) @ map renderRecord (take n [r. Inr r \<leftarrow> rs])"
      by (auto simp: Let_def)
    then show ?thesis by (intro conjI exI [of _ "Suc n"]) simp_all
  qed
qed simp

text \<open>Whatever limit is asked for, at most 200 records are shown, all of them from the scan, in the order of the listing.\<close>

lemma Records_bounded:
  assumes "Records renderRecord limit results = Inr out"
  shows "length out \<le> 200 \<and> (0 < limit \<longrightarrow> int (length out) \<le> limit) \<and>
    (\<exists>n. mset out = mset (map renderRecord (take n [r. Inr r \<leftarrow> results]))) \<and> sorted (map viewRank out)"
proof -
  define l where "l = (let limit = (if limit \<le> 0 then 25 else limit) in if 200 < limit then 200 else limit)"
  have l: "0 < l" "l \<le> 200" "0 < limit \<Longrightarrow> l \<le> limit" by (auto simp: l_def Let_def)
  obtain out' where out': "takeRecords renderRecord l [] results = Inr out'" "out = sortRecords out'"
    using assms by (auto simp: Records_def l_def Let_def split: sum.splits if_splits)
  from takeRecords_bound [OF out'(1)] l(1) obtain n where n: "int (length out') \<le> l" "out' = map renderRecord (take n [r. Inr r \<leftarrow> results])" by auto
  from l n out'(2) show ?thesis by (auto simp: sortRecords_key)
qed

end
