(* ===== verification/ControlPlane.thy ===== *)
theory ControlPlane
  imports StoreKeys
begin

text \<open>
  The control plane of the demo (\<^verbatim>\<open>control/backend.go\<close>, \<^verbatim>\<open>control/server.go\<close>, \<^verbatim>\<open>Truncate\<close> of
  \<^verbatim>\<open>control/browser.go\<close>): switching Temporal between its two persistence backends, and the reset that empties
  the Aerospike sets. Kubernetes, the Temporal client and the Aerospike server are the environment: an
  operation is a tree of calls to them, and every answer is possible. The theorem is that the sets are only
  ever emptied after Temporal has been seen to have left them, under every interleaving of requests, background
  retries and polls. Progress messages to the page are dropped.
\<close>

section \<open>Calls to the outside\<close>

record container =
  cn_Name :: string
  cn_Env :: "(string \<times> string \<times> bool) list"

record condition =
  cd_Type :: string
  cd_Status :: string
  cd_Reason :: string
  cd_Message :: string

record deployment =
  dp_Containers :: "container list"
  dp_SpecReplicas :: "int32 option"
  dp_ObservedGeneration :: int64
  dp_UpdatedReplicas :: int32
  dp_Replicas :: int32
  dp_AvailableReplicas :: int32
  dp_Conditions :: "condition list"

datatype call =
    GetDeployment
  | PatchBackend string string
  | ListPods
  | Tick
  | StopWorker
  | EnsureNamespace
  | StartWorker
  | RunWorkflow
  | ConnectAerospike
  | TruncateSet string

datatype answer = ADeployment deployment | AGeneration int64 | AOk | AFail goerr

datatype cp_error =
    UnknownBackend string
  | ValueFromSet string
  | NoBackendVariable
  | CallFailed goerr
  | RolloutFailed string
  | RolloutTimedOut
  | TruncateFailed "string list"

datatype ctl = Done "cp_error + unit" | Call call "answer \<Rightarrow> ctl"

primrec andThen :: "ctl \<Rightarrow> ctl \<Rightarrow> ctl" where
  "andThen (Done r) q = (case r of Inl e \<Rightarrow> Done (Inl e) | Inr _ \<Rightarrow> q)"
| "andThen (Call c k) q = Call c (\<lambda>r. andThen (k r) q)"

definition failure :: "answer \<Rightarrow> cp_error" where
  "failure r = CallFailed (case r of AFail e \<Rightarrow> e | _ \<Rightarrow> PlainError ''unexpected answer'')"

definition require :: "call \<Rightarrow> ctl" where
  "require c = Call c (\<lambda>r. case r of AOk \<Rightarrow> Done (Inr ()) | _ \<Rightarrow> Done (Inl (failure r)))"

section \<open>The backend controller\<close>

abbreviation "BackendSQLite \<equiv> ''sqlite''"

abbreviation "BackendAerospike \<equiv> ''aerospike''"

definition ParseBackend :: "string \<Rightarrow> cp_error + string" where
  "ParseBackend s =
     (if s = BackendSQLite then Inr BackendSQLite
      else if s = BackendAerospike then Inr BackendAerospike
      else Inl (UnknownBackend s))"

fun envValue :: "(string \<times> string \<times> bool) list \<Rightarrow> (string \<times> bool) option" where
  "envValue [] = None"
| "envValue ((name, v, valueFrom) # es) = (if name \<noteq> ''TEMPORAL_ENVIRONMENT'' then envValue es else Some (v, valueFrom))"

fun findBackendEnv :: "container list \<Rightarrow> cp_error + string \<times> string" where
  "findBackendEnv [] = Inl NoBackendVariable"
| "findBackendEnv (c # cs) =
     (case envValue (cn_Env c) of
        None \<Rightarrow> findBackendEnv cs
      | Some (v, valueFrom) \<Rightarrow> if valueFrom then Inl (ValueFromSet (cn_Name c)) else Inr (cn_Name c, v))"

definition rolloutComplete :: "deployment \<Rightarrow> bool" where
  "rolloutComplete dep =
     (let desired = (case dp_SpecReplicas dep of None \<Rightarrow> 1 | Some n \<Rightarrow> n) in
      dp_UpdatedReplicas dep = desired \<and> dp_Replicas dep = desired \<and> dp_AvailableReplicas dep = desired)"

definition rolloutFailure :: "deployment \<Rightarrow> string" where
  "rolloutFailure dep =
     (case find (\<lambda>c. cd_Type c = ''Progressing'' \<and> cd_Status c = ''False'' \<and> cd_Reason c = ''ProgressDeadlineExceeded'') (dp_Conditions dep) of
        None \<Rightarrow> '''' | Some c \<Rightarrow> cd_Message c)"

text \<open>
  The wait polls once a second until its deadline. \<open>n\<close> is the number of ticks before the deadline; \<^verbatim>\<open>Tick\<close>
  answered by anything but \<open>AOk\<close> is the context ending earlier.
\<close>

fun waitForRollout :: "nat \<Rightarrow> int64 \<Rightarrow> ctl" where
  "waitForRollout n generation =
     Call GetDeployment (\<lambda>r. case r of
        ADeployment dep \<Rightarrow>
          if sint generation \<le> sint (dp_ObservedGeneration dep) \<and> rolloutComplete dep then Call ListPods (\<lambda>_. Done (Inr ()))
          else if rolloutFailure dep \<noteq> '''' then Done (Inl (RolloutFailed (rolloutFailure dep)))
          else Call Tick (\<lambda>t. case t of
             AOk \<Rightarrow> (case n of 0 \<Rightarrow> Done (Inl RolloutTimedOut) | Suc m \<Rightarrow> waitForRollout m generation)
           | _ \<Rightarrow> Done (Inl RolloutTimedOut))
      | _ \<Rightarrow> Done (Inl (failure r)))"

declare waitForRollout.simps [simp del]

definition Switch :: "nat \<Rightarrow> string \<Rightarrow> ctl" where
  "Switch n target =
     Call GetDeployment (\<lambda>r. case r of
        ADeployment dep \<Rightarrow> (case findBackendEnv (dp_Containers dep) of
            Inl e \<Rightarrow> Done (Inl e)
          | Inr (container, current) \<Rightarrow>
              Call (PatchBackend container target) (\<lambda>r. case r of
                 AGeneration generation \<Rightarrow> waitForRollout n generation
               | _ \<Rightarrow> Done (Inl (failure r))))
      | _ \<Rightarrow> Done (Inl (failure r)))"

section \<open>Switch and reset\<close>

definition runSwitch :: "nat \<Rightarrow> string \<Rightarrow> ctl" where
  "runSwitch n target =
     Call StopWorker (\<lambda>_.
       andThen (Switch n target)
       (andThen (require EnsureNamespace)
       (andThen (require StartWorker)
       (Call RunWorkflow (\<lambda>_. Done (Inr ()))))))"

definition isMissingSet :: "goerr \<Rightarrow> bool" where
  "isMissingSet err = asMatches err [KEY_NOT_FOUND_ERROR, OtherCode 20]"

definition setDescriptions :: "string list" where
  "setDescriptions = [''shard'', ''exec'', ''curr'', ''htask'', ''htaskidx'', ''dlq'', ''hnode'', ''hbranch'', ''htree'',
     ''tq'', ''task'', ''taskidx'', ''tqdata'', ''buildidx'', ''ns'', ''nsid'', ''nsmeta'', ''cmeta'', ''cmember'',
     ''q2meta'', ''q2msg'', ''nexus'', ''nexusver'', ''schema'']"

fun truncateLoop :: "string list \<Rightarrow> string list \<Rightarrow> ctl" where
  "truncateLoop [] failures = (if failures \<noteq> [] then Done (Inl (TruncateFailed failures)) else Done (Inr ()))"
| "truncateLoop (s # sets) failures =
     Call (TruncateSet s) (\<lambda>r. case r of
        AFail err \<Rightarrow> if isMissingSet err then truncateLoop sets failures else truncateLoop sets (failures @ [s])
      | _ \<Rightarrow> truncateLoop sets failures)"

definition Truncate :: "env \<Rightarrow> ctl" where
  "Truncate E =
     andThen (require ConnectAerospike)
       (truncateLoop (map (\<lambda>d. kb_prefix E @ d) setDescriptions) [])"

definition runReset :: "env \<Rightarrow> nat \<Rightarrow> ctl" where
  "runReset E n = andThen (runSwitch n BackendSQLite) (Truncate E)"

text \<open>One attempt of the background loop that brings the worker up; the loop repeats it until it succeeds.\<close>

definition ensureReady :: ctl where
  "ensureReady = andThen (require EnsureNamespace) (require StartWorker)"

section \<open>The server\<close>

text \<open>
  The state of the server as far as operations go: the in-flight flag, the operations running in the
  background, the readiness loops, and every call made so far with its answer.
\<close>

record server =
  sv_switching :: bool
  sv_ops :: "ctl list"
  sv_ready :: "ctl list"
  sv_log :: "(call \<times> answer) list"

definition removeAt :: "nat \<Rightarrow> 'a list \<Rightarrow> 'a list" where
  "removeAt i xs = take i xs @ drop (Suc i) xs"

datatype request = SwitchTo string | Reset

definition operation :: "env \<Rightarrow> nat \<Rightarrow> request \<Rightarrow> (cp_error + ctl)" where
  "operation E n req =
     (case req of
        SwitchTo s \<Rightarrow> (case ParseBackend s of Inl e \<Rightarrow> Inl e | Inr target \<Rightarrow> Inr (runSwitch n target))
      | Reset \<Rightarrow> Inr (runReset E n))"

text \<open>
  \<^verbatim>\<open>begin\<close>: the flag is tested and set under the mutex. The rules are the atomic steps of the goroutines: a
  request that is admitted, refused or rejected, a call of a running operation, its end (a failed one starts a
  readiness loop before it clears the flag), a call of a readiness loop, its retry and its end, and a read of the
  deployment for \<^verbatim>\<open>/api/state\<close>.
\<close>

inductive sstep :: "env \<Rightarrow> nat \<Rightarrow> server \<Rightarrow> server \<Rightarrow> bool" for E n where
  admit: "\<not> sv_switching s \<Longrightarrow> operation E n req = Inr p \<Longrightarrow>
    sstep E n s (s\<lparr>sv_switching := True, sv_ops := sv_ops s @ [p]\<rparr>)"
| refuse: "sv_switching s \<Longrightarrow> sstep E n s s"
| reject: "operation E n req = Inl e \<Longrightarrow> sstep E n s s"
| op_call: "i < length (sv_ops s) \<Longrightarrow> sv_ops s ! i = Call c k \<Longrightarrow>
    sstep E n s (s\<lparr>sv_ops := (sv_ops s)[i := k r], sv_log := sv_log s @ [(c, r)]\<rparr>)"
| op_ok: "i < length (sv_ops s) \<Longrightarrow> sv_ops s ! i = Done (Inr ()) \<Longrightarrow>
    sstep E n s (s\<lparr>sv_ops := removeAt i (sv_ops s), sv_switching := False\<rparr>)"
| op_fail: "i < length (sv_ops s) \<Longrightarrow> sv_ops s ! i = Done (Inl e) \<Longrightarrow>
    sstep E n s (s\<lparr>sv_ops := removeAt i (sv_ops s), sv_ready := sv_ready s @ [ensureReady], sv_switching := False\<rparr>)"
| ready_call: "i < length (sv_ready s) \<Longrightarrow> sv_ready s ! i = Call c k \<Longrightarrow>
    sstep E n s (s\<lparr>sv_ready := (sv_ready s)[i := k r], sv_log := sv_log s @ [(c, r)]\<rparr>)"
| ready_retry: "i < length (sv_ready s) \<Longrightarrow> sv_ready s ! i = Done (Inl e) \<Longrightarrow>
    sstep E n s (s\<lparr>sv_ready := (sv_ready s)[i := ensureReady]\<rparr>)"
| ready_done: "i < length (sv_ready s) \<Longrightarrow> sv_ready s ! i = Done (Inr ()) \<Longrightarrow>
    sstep E n s (s\<lparr>sv_ready := removeAt i (sv_ready s)\<rparr>)"
| poll: "sstep E n s (s\<lparr>sv_log := sv_log s @ [(GetDeployment, r)]\<rparr>)"

definition started :: server where
  "started = \<lparr>sv_switching = False, sv_ops = [], sv_ready = [ensureReady], sv_log = []\<rparr>"

section \<open>What has been seen of the deployment\<close>

text \<open>
  The phase is what the calls so far say about the backend: unknown, patched to a backend in a generation, or
  seen completely rolled out in that generation.
\<close>

datatype phase = Unknown | Patched string int64 | RolledOut string

fun observe :: "phase \<Rightarrow> call \<times> answer \<Rightarrow> phase" where
  "observe ph (PatchBackend c v, r) = (case r of AGeneration g \<Rightarrow> Patched v g | _ \<Rightarrow> Unknown)"
| "observe (Patched v g) (GetDeployment, ADeployment dep) =
     (if sint g \<le> sint (dp_ObservedGeneration dep) \<and> rolloutComplete dep then RolledOut v else Patched v g)"
| "observe ph x = ph"

definition phaseOf :: "(call \<times> answer) list \<Rightarrow> phase" where
  "phaseOf log = foldl observe Unknown log"

text \<open>A program is safe from a phase when, whatever it is answered, it empties sets only after Temporal has left them, and ends in \<open>Q\<close>.\<close>

definition calm :: "call \<Rightarrow> phase \<Rightarrow> bool" where
  "calm c ph \<longleftrightarrow> (\<forall>s. c = TruncateSet s \<longrightarrow> ph = RolledOut BackendSQLite)"

primrec safe :: "ctl \<Rightarrow> (phase \<Rightarrow> bool) \<Rightarrow> phase \<Rightarrow> bool" where
  "safe (Done r) Q ph \<longleftrightarrow> (case r of Inl _ \<Rightarrow> True | Inr _ \<Rightarrow> Q ph)"
| "safe (Call c k) Q ph \<longleftrightarrow> calm c ph \<and> (\<forall>r. safe (k r) Q (observe ph (c, r)))"

primrec quiet :: "ctl \<Rightarrow> bool" where
  "quiet (Done r) \<longleftrightarrow> True"
| "quiet (Call c k) \<longleftrightarrow> c \<in> {EnsureNamespace, StartWorker} \<and> (\<forall>r. quiet (k r))"

definition progressed :: "phase \<Rightarrow> phase \<Rightarrow> bool" where
  "progressed ph ph' \<longleftrightarrow> ph' = ph \<or> (\<exists>v g. ph = Patched v g \<and> ph' = RolledOut v)"

lemma safe_andThen [simp]: "safe (andThen p q) Q ph \<longleftrightarrow> safe p (safe q Q) ph"
  by (induction p arbitrary: ph) (auto split: sum.splits)

lemma safe_weaken: "safe p Q ph \<Longrightarrow> (\<And>ph. Q ph \<Longrightarrow> Q' ph) \<Longrightarrow> safe p Q' ph"
  by (induction p arbitrary: ph) (auto split: sum.splits)

lemma observe_mono: "progressed ph ph' \<Longrightarrow> progressed (observe ph x) (observe ph' x)"
  by (cases "(ph, x)" rule: observe.cases) (auto simp: progressed_def split: answer.splits)

lemma safe_mono: "safe p (\<lambda>_. True) ph \<Longrightarrow> progressed ph ph' \<Longrightarrow> safe p (\<lambda>_. True) ph'"
proof (induction p arbitrary: ph ph')
  case (Call c k)
  have "calm c ph'" using Call.prems by (auto simp: calm_def progressed_def)
  moreover have "safe (k r) (\<lambda>_. True) (observe ph' (c, r))" for r
    using Call.IH [OF rangeI, of r "observe ph (c, r)"] Call.prems observe_mono [of ph ph'] by simp
  ultimately show ?case by simp
qed (auto split: sum.splits)

lemma observe_other: "c \<in> {GetDeployment, EnsureNamespace, StartWorker} \<Longrightarrow> progressed ph (observe ph (c, r))"
  by (cases "(ph, (c, r))" rule: observe.cases) (auto simp: progressed_def)

lemma calm_simps [simp]:
  "calm GetDeployment ph" "calm (PatchBackend c v) ph" "calm ListPods ph" "calm Tick ph" "calm StopWorker ph"
  "calm EnsureNamespace ph" "calm StartWorker ph" "calm RunWorkflow ph" "calm ConnectAerospike ph"
  "calm (TruncateSet s) (RolledOut BackendSQLite)"
  by (simp_all add: calm_def)

lemma safe_require: "calm c ph \<Longrightarrow> Q (observe ph (c, AOk)) \<Longrightarrow> safe (require c) Q ph"
  by (auto simp: require_def split: answer.splits)

lemma safe_waitForRollout: "Q (RolledOut v) \<Longrightarrow> safe (waitForRollout n g) Q (Patched v g)"
proof (induction n)
  case 0
  then show ?case by (subst waitForRollout.simps) (auto split: answer.splits)
next
  case (Suc n)
  then show ?case by (subst waitForRollout.simps) (auto split: answer.splits)
qed

lemma safe_Switch: "Q (RolledOut target) \<Longrightarrow> safe (Switch n target) Q ph"
  by (auto simp: Switch_def safe_waitForRollout split: answer.splits sum.splits)

lemma safe_runSwitch: "Q (RolledOut target) \<Longrightarrow> safe (runSwitch n target) Q ph"
  by (auto simp: runSwitch_def intro!: safe_Switch safe_require)

lemma safe_truncateLoop: "safe (truncateLoop sets failures) (\<lambda>_. True) (RolledOut BackendSQLite)"
  by (induction sets failures rule: truncateLoop.induct) (auto split: answer.splits)

lemma safe_operation: "operation E n req = Inr p \<Longrightarrow> safe p (\<lambda>_. True) ph"
  by (auto simp: operation_def runReset_def Truncate_def intro!: safe_runSwitch safe_require safe_truncateLoop split: request.splits sum.splits)

lemma quiet_ensureReady: "quiet ensureReady"
  by (auto simp: ensureReady_def require_def split: answer.splits)

section \<open>The invariant of the server\<close>

definition logOk :: "(call \<times> answer) list \<Rightarrow> bool" where
  "logOk log \<longleftrightarrow> (\<forall>i < length log. \<forall>s. fst (log ! i) = TruncateSet s \<longrightarrow> phaseOf (take i log) = RolledOut BackendSQLite)"

definition serverOk :: "server \<Rightarrow> bool" where
  "serverOk s \<longleftrightarrow> length (sv_ops s) = (if sv_switching s then 1 else 0) \<and>
     (\<forall>p \<in> set (sv_ops s). safe p (\<lambda>_. True) (phaseOf (sv_log s))) \<and> (\<forall>p \<in> set (sv_ready s). quiet p) \<and> logOk (sv_log s)"

lemma phaseOf_snoc [simp]: "phaseOf (log @ [x]) = observe (phaseOf log) x"
  by (simp add: phaseOf_def)

lemma logOk_snoc: "logOk log \<Longrightarrow> calm (fst x) (phaseOf log) \<Longrightarrow> logOk (log @ [x])"
  by (auto simp: logOk_def calm_def nth_append less_Suc_eq)

lemma quiet_set_update: "\<forall>p \<in> set ps. quiet p \<Longrightarrow> quiet q \<Longrightarrow> \<forall>p \<in> set (ps[i := q]). quiet p"
  using set_update_subset_insert [of ps i q] by auto

lemma set_removeAt: "set (removeAt i xs) \<subseteq> set xs"
  by (auto simp: removeAt_def dest: in_set_takeD in_set_dropD)

lemma serverOk_other:
  assumes "serverOk s" "c \<in> {GetDeployment, EnsureNamespace, StartWorker}" "\<forall>p \<in> set ps. quiet p"
  shows "serverOk (s\<lparr>sv_ready := ps, sv_log := sv_log s @ [(c, r)]\<rparr>)"
proof -
  have "progressed (phaseOf (sv_log s)) (observe (phaseOf (sv_log s)) (c, r))" using assms(2) by (rule observe_other)
  moreover have "calm c (phaseOf (sv_log s))" using assms(2) by auto
  ultimately show ?thesis using assms by (auto simp: serverOk_def intro: safe_mono logOk_snoc)
qed

lemma serverOk_step: "sstep E n s s' \<Longrightarrow> serverOk s \<Longrightarrow> serverOk s'"
proof (induction rule: sstep.induct)
  case (admit s req p)
  then show ?case by (auto simp: serverOk_def safe_operation)
next
  case (op_call i s c k r)
  then have "sv_ops s = [Call c k]" "i = 0" by (auto simp: serverOk_def length_Suc_conv split: if_splits)
  with op_call show ?case by (auto simp: serverOk_def intro: logOk_snoc)
next
  case (op_ok i s)
  then have "sv_ops s = [Done (Inr ())]" "i = 0" by (auto simp: serverOk_def length_Suc_conv split: if_splits)
  with op_ok show ?case by (simp add: serverOk_def removeAt_def)
next
  case (op_fail i s e)
  then have "sv_ops s = [Done (Inl e)]" "i = 0" by (auto simp: serverOk_def length_Suc_conv split: if_splits)
  with op_fail show ?case by (auto simp: serverOk_def removeAt_def quiet_ensureReady)
next
  case (ready_call i s c k r)
  then have "quiet (Call c k)" by (metis nth_mem serverOk_def)
  moreover from this have "\<forall>p \<in> set ((sv_ready s)[i := k r]). quiet p"
    using ready_call by (intro quiet_set_update) (auto simp: serverOk_def)
  ultimately show ?case using serverOk_other [OF ready_call(3), of c] by auto
next
  case (ready_retry i s e)
  then show ?case using quiet_set_update [of "sv_ready s" ensureReady i] quiet_ensureReady by (simp add: serverOk_def)
next
  case (ready_done i s)
  then show ?case using set_removeAt [of i "sv_ready s"] by (auto simp: serverOk_def)
next
  case (poll s r)
  then show ?case using serverOk_other [of s GetDeployment "sv_ready s" r] by (auto simp: serverOk_def)
qed

lemma serverOk_started: "serverOk started"
  by (simp add: serverOk_def started_def logOk_def quiet_ensureReady)

lemma serverOk_reachable: "(sstep E n)\<^sup>*\<^sup>* started s \<Longrightarrow> serverOk s"
  by (induction rule: rtranclp_induct) (auto intro: serverOk_started serverOk_step)

section \<open>What a finished reset has done\<close>

inductive trace :: "ctl \<Rightarrow> (call \<times> answer) list \<Rightarrow> cp_error + unit \<Rightarrow> bool" where
  finished: "trace (Done r) [] r"
| called: "trace (k a) tr r \<Longrightarrow> trace (Call c k) ((c, a) # tr) r"

inductive_cases trace_DoneE: "trace (Done r) tr r'"
inductive_cases trace_CallE: "trace (Call c k) tr r"

lemma trace_andThen:
  "trace (andThen p q) tr (Inr ()) \<Longrightarrow> \<exists>tr1 tr2. tr = tr1 @ tr2 \<and> trace p tr1 (Inr ()) \<and> trace q tr2 (Inr ())"
proof (induction p arbitrary: tr)
  case (Done r)
  then show ?case by (cases r) (auto elim: trace_DoneE intro: finished)
next
  case (Call c k)
  then obtain a tr' where tr: "tr = (c, a) # tr'" "trace (andThen (k a) q) tr' (Inr ())" by (auto elim: trace_CallE)
  from Call.IH [OF rangeI this(2)] tr(1) show ?case by (metis append_Cons called)
qed

text \<open>The server emptied the set, or said that there is none.\<close>

definition emptied :: "answer \<Rightarrow> bool" where
  "emptied a \<longleftrightarrow> (\<forall>e. a = AFail e \<longrightarrow> isMissingSet e)"

lemma truncateLoop_trace:
  "trace (truncateLoop sets failures) tr (Inr ()) \<Longrightarrow>
   failures = [] \<and> (\<forall>s \<in> set sets. \<exists>a. (TruncateSet s, a) \<in> set tr \<and> emptied a)"
proof (induction sets failures arbitrary: tr rule: truncateLoop.induct)
  case (1 failures)
  then show ?case by (auto elim: trace_DoneE split: if_splits)
next
  case (2 s sets failures)
  then obtain a tr' where tr: "tr = (TruncateSet s, a) # tr'"
    "trace (case a of AFail err \<Rightarrow> if isMissingSet err then truncateLoop sets failures else truncateLoop sets (failures @ [s])
      | _ \<Rightarrow> truncateLoop sets failures) tr' (Inr ())" by (auto elim: trace_CallE)
  show ?case
  proof (cases "emptied a")
    case True
    then have "trace (truncateLoop sets failures) tr' (Inr ())" using tr(2) by (auto simp: emptied_def split: answer.splits)
    with 2 True tr(1) show ?thesis by fastforce
  next
    case False
    then have "trace (truncateLoop sets (failures @ [s])) tr' (Inr ())" using tr(2) by (auto simp: emptied_def split: answer.splits if_splits)
    with 2 False show ?thesis by (fastforce simp: emptied_def)
  qed
qed

lemma setDescriptions_allSets: "set setDescriptions = set allSets"
  by code_simp

lemma runReset_trace:
  assumes "trace (runReset E n) tr (Inr ())" "s \<in> set (physicalSets E)"
  shows "\<exists>a. (TruncateSet s, a) \<in> set tr \<and> emptied a"
proof -
  obtain tr1 tr2 where tr: "tr = tr1 @ tr2" "trace (Truncate E) tr2 (Inr ())"
    using trace_andThen assms(1) unfolding runReset_def by blast
  then obtain tr3 tr4 where t: "tr2 = tr3 @ tr4" "trace (truncateLoop (map (\<lambda>d. kb_prefix E @ d) setDescriptions) []) tr4 (Inr ())"
    using trace_andThen unfolding Truncate_def by blast
  have "s \<in> set (map (\<lambda>d. kb_prefix E @ d) setDescriptions)"
    using assms(2) setDescriptions_allSets by (auto simp: physicalSets_def physicalSet_def)
  then show ?thesis using conjunct2 [OF truncateLoop_trace [OF t(2)]] tr(1) t(1) by auto
qed

section \<open>Runs\<close>

fun feed :: "ctl \<Rightarrow> answer list \<Rightarrow> ctl \<times> (call \<times> answer) list" where
  "feed (Call c k) (a # answers) = (case feed (k a) answers of (p, tr) \<Rightarrow> (p, (c, a) # tr))"
| "feed p answers = (p, [])"

lemma server_same: "sv_ops s = ps \<Longrightarrow> s\<lparr>sv_ops := ps\<rparr> = s"
  by (cases s) simp

lemma feed_steps:
  assumes "sv_ops s = [p]" "feed p answers = (p', tr)"
  shows "(sstep E n)\<^sup>*\<^sup>* s (s\<lparr>sv_ops := [p'], sv_log := sv_log s @ tr\<rparr>)"
  using assms
proof (induction p answers arbitrary: s tr rule: feed.induct)
  case (1 c k a answers)
  then obtain tr' where tr: "feed (k a) answers = (p', tr')" "tr = (c, a) # tr'" by (auto split: prod.splits)
  let ?s = "s\<lparr>sv_ops := [k a], sv_log := sv_log s @ [(c, a)]\<rparr>"
  have "sstep E n s ?s" using sstep.op_call [of 0 s c k E n a] 1(2) by simp
  moreover have "(sstep E n)\<^sup>*\<^sup>* ?s (?s\<lparr>sv_ops := [p'], sv_log := sv_log ?s @ tr'\<rparr>)" by (rule 1(1)) (simp_all add: tr)
  ultimately show ?case using tr(2) by (simp add: converse_rtranclp_into_rtranclp)
qed (auto simp: server_same)

definition rolledOut :: deployment where
  "rolledOut = \<lparr>dp_Containers = [\<lparr>cn_Name = ''t'', cn_Env = [(''TEMPORAL_ENVIRONMENT'', ''aerospike'', False)]\<rparr>],
     dp_SpecReplicas = None, dp_ObservedGeneration = 4, dp_UpdatedReplicas = 1, dp_Replicas = 1, dp_AvailableReplicas = 1, dp_Conditions = []\<rparr>"

lemma rolledOut_simps:
  "rolloutComplete rolledOut" "findBackendEnv (dp_Containers rolledOut) = Inr (''t'', ''aerospike'')" "dp_ObservedGeneration rolledOut = 4"
  by (simp_all add: rolledOut_def rolloutComplete_def)

text \<open>
  C40. The Aerospike sets are emptied only after Temporal has left them: in every run of the server, whatever
  requests come in, however the operations, the readiness loops and the polls interleave, and whatever is
  answered, at most one switch or reset is in flight, and whenever a set is emptied, the last backend
  written to the deployment is SQLite and the deployment has been seen completely rolled out in that
  generation. And a reset that reports success has emptied every set the store uses.
\<close>

theorem reset_only_after_switch:
  assumes "(sstep E n)\<^sup>*\<^sup>* started s"
  shows "length (sv_ops s) \<le> 1 \<and> (sv_ops s \<noteq> [] \<longleftrightarrow> sv_switching s) \<and>
    (\<forall>i < length (sv_log s). \<forall>x. fst (sv_log s ! i) = TruncateSet x \<longrightarrow> phaseOf (take i (sv_log s)) = RolledOut BackendSQLite) \<and>
    (\<forall>tr x. trace (runReset E n) tr (Inr ()) \<longrightarrow> x \<in> set (physicalSets E) \<longrightarrow> (\<exists>a. (TruncateSet x, a) \<in> set tr \<and> emptied a))"
  using serverOk_reachable [OF assms] runReset_trace by (auto simp: serverOk_def logOk_def)

definition resetAnswers :: "answer list" where
  "resetAnswers = [AOk, ADeployment rolledOut, AGeneration 4, ADeployment rolledOut, AOk, AOk, AOk, AOk, AOk, AOk]"

lemma sample_reset:
  "\<exists>s. (sstep E 0)\<^sup>*\<^sup>* started s \<and> length (sv_log s) = 10 \<and> fst (sv_log s ! 9) = TruncateSet (kb_prefix E @ ''shard'')"
proof -
  let ?s = "started\<lparr>sv_switching := True, sv_ops := [runReset E 0]\<rparr>"
  have "sstep E 0 started ?s" using sstep.admit [of started E 0 Reset] by (simp add: started_def operation_def)
  moreover obtain d where d: "setDescriptions = ''shard'' # d" by (simp add: setDescriptions_def)
  obtain p' tr where f: "feed (runReset E 0) resetAnswers = (p', tr)" "length tr = 10" "fst (tr ! 9) = TruncateSet (kb_prefix E @ ''shard'')"
    by (simp add: runReset_def runSwitch_def Switch_def resetAnswers_def rolledOut_simps waitForRollout.simps require_def Truncate_def d)
  moreover have "(sstep E 0)\<^sup>*\<^sup>* ?s (?s\<lparr>sv_ops := [p'], sv_log := sv_log ?s @ tr\<rparr>)" by (rule feed_steps [OF _ f(1)]) simp
  ultimately have "(sstep E 0)\<^sup>*\<^sup>* started (?s\<lparr>sv_ops := [p'], sv_log := tr\<rparr>)"
    by (simp add: converse_rtranclp_into_rtranclp started_def)
  with f show ?thesis by (intro exI [of _ "?s\<lparr>sv_ops := [p'], sv_log := tr\<rparr>"]) simp
qed

theorem reset_only_after_switch_witness:
  "\<exists>s. (sstep sample_env 0)\<^sup>*\<^sup>* started s \<and> fst (sv_log s ! 9) = TruncateSet (kb_prefix sample_env @ ''shard'') \<and>
     phaseOf (take 9 (sv_log s)) = RolledOut BackendSQLite"
proof -
  obtain s where s: "(sstep sample_env 0)\<^sup>*\<^sup>* started s" "length (sv_log s) = 10" "fst (sv_log s ! 9) = TruncateSet (kb_prefix sample_env @ ''shard'')"
    using sample_reset by blast
  with reset_only_after_switch [OF s(1)] show ?thesis by (intro exI [of _ s]) simp
qed

text \<open>
  The order within one operation is not the order of the server: a readiness loop, started at boot or by an
  earlier failed switch, can bring the worker up again between the step of a switch that stops it and the
  patch that replaces the pods it is connected to.
\<close>

lemma worker_up_during_switch:
  "\<exists>s. (sstep E 0)\<^sup>*\<^sup>* started s \<and>
     sv_log s = [(StopWorker, AOk), (EnsureNamespace, AOk), (StartWorker, AOk), (GetDeployment, ADeployment rolledOut),
       (PatchBackend ''t'' BackendAerospike, AGeneration 4)]"
proof -
  let ?op = "\<lambda>p l rd. \<lparr>sv_switching = True, sv_ops = [p], sv_ready = [rd], sv_log = l\<rparr>"
  let ?rest = "andThen (require EnsureNamespace) (andThen (require StartWorker) (Call RunWorkflow (\<lambda>_. Done (Inr ()))))"
  let ?l = "[(StopWorker, AOk)]"
  have a: "sstep E 0 started (?op (runSwitch 0 BackendAerospike) [] ensureReady)"
    using sstep.admit [of started E 0 "SwitchTo BackendAerospike"] by (simp add: started_def operation_def ParseBackend_def)
  have b: "sstep E 0 (?op (runSwitch 0 BackendAerospike) [] rd) (?op (andThen (Switch 0 BackendAerospike) ?rest) ?l rd)" for rd
    using sstep.op_call [of 0 "?op (runSwitch 0 BackendAerospike) [] rd" _ _ E 0 AOk] by (simp add: runSwitch_def)
  have c: "sstep E 0 (?op p l ensureReady) (?op p (l @ [(EnsureNamespace, AOk)]) (require StartWorker))" for p l
    using sstep.ready_call [of 0 "?op p l ensureReady" _ _ E 0 AOk] by (simp add: ensureReady_def require_def)
  have d: "sstep E 0 (?op p l (require StartWorker)) (?op p (l @ [(StartWorker, AOk)]) (Done (Inr ())))" for p l
    using sstep.ready_call [of 0 "?op p l (require StartWorker)" _ _ E 0 AOk] by (simp add: require_def)
  let ?p = "andThen (Switch 0 BackendAerospike) ?rest"
  let ?s = "?op ?p [(StopWorker, AOk), (EnsureNamespace, AOk), (StartWorker, AOk)] (Done (Inr ()))"
  note c' = c [of ?p ?l, unfolded append.simps] and d' = d [of ?p "[(StopWorker, AOk), (EnsureNamespace, AOk)]", unfolded append.simps]
  have "(sstep E 0)\<^sup>*\<^sup>* started (?op ?p ?l ensureReady)"
    by (rule rtranclp.rtrancl_into_rtrancl, rule r_into_rtranclp, rule a, rule b)
  then have "(sstep E 0)\<^sup>*\<^sup>* started (?op ?p [(StopWorker, AOk), (EnsureNamespace, AOk)] (require StartWorker))"
    using c' by (rule rtranclp.rtrancl_into_rtrancl)
  then have "(sstep E 0)\<^sup>*\<^sup>* started ?s" using d' by (rule rtranclp.rtrancl_into_rtrancl)
  moreover obtain p' where "feed (andThen (Switch 0 BackendAerospike) ?rest) [ADeployment rolledOut, AGeneration 4] =
      (p', [(GetDeployment, ADeployment rolledOut), (PatchBackend ''t'' BackendAerospike, AGeneration 4)])"
    by (simp add: Switch_def rolledOut_simps)
  then have "(sstep E 0)\<^sup>*\<^sup>* ?s (?s\<lparr>sv_ops := [p'], sv_log := sv_log ?s @
      [(GetDeployment, ADeployment rolledOut), (PatchBackend ''t'' BackendAerospike, AGeneration 4)]\<rparr>)"
    by (rule feed_steps [rotated]) simp
  ultimately have "(sstep E 0)\<^sup>*\<^sup>* started (?s\<lparr>sv_ops := [p'], sv_log := sv_log ?s @
      [(GetDeployment, ADeployment rolledOut), (PatchBackend ''t'' BackendAerospike, AGeneration 4)]\<rparr>)" by (rule rtranclp_trans)
  moreover have "sv_log (?s\<lparr>sv_ops := [p'], sv_log := sv_log ?s @
      [(GetDeployment, ADeployment rolledOut), (PatchBackend ''t'' BackendAerospike, AGeneration 4)]\<rparr>) =
    [(StopWorker, AOk), (EnsureNamespace, AOk), (StartWorker, AOk), (GetDeployment, ADeployment rolledOut),
     (PatchBackend ''t'' BackendAerospike, AGeneration 4)]" by simp
  ultimately show ?thesis by blast
qed

end
