(* ===== verification/EventHub.thy ===== *)
theory EventHub
  imports Prelude
begin

text \<open>
  The event stream of the control plane (\<^verbatim>\<open>control/events.go\<close>): one publisher, a buffered channel per connected
  page. Closing a channel twice, or sending on a closed one, would panic; the theorem is that no order of the
  four operations and of the readers does either, and that a publisher never waits for a reader.
\<close>

section \<open>Channels and the hub\<close>

text \<open>A channel is named by its position in the list of all channels made so far.\<close>

record 'e channel =
  ch_buf :: "'e list"
  ch_closed :: bool

record 'e hub =
  hb_chans :: "'e channel list"
  hb_subs :: "nat list"
  hb_closed :: bool

datatype hub_panic = CloseOfClosed nat | SendOnClosed nat

abbreviation "subBuffer \<equiv> 64 :: nat"

definition newSSEHub :: "'e hub" where
  "newSSEHub = \<lparr>hb_chans = [], hb_subs = [], hb_closed = False\<rparr>"

definition closeChan :: "nat \<Rightarrow> 'e hub \<Rightarrow> hub_panic + 'e hub" where
  "closeChan ch h =
     (if ch_closed (hb_chans h ! ch) then Inl (CloseOfClosed ch)
      else Inr (h\<lparr>hb_chans := (hb_chans h)[ch := (hb_chans h ! ch)\<lparr>ch_closed := True\<rparr>]\<rparr>))"

definition subscribe :: "'e hub \<Rightarrow> nat \<times> 'e hub" where
  "subscribe h =
     (let ch = length (hb_chans h) in
      if hb_closed h then (ch, h\<lparr>hb_chans := hb_chans h @ [\<lparr>ch_buf = [], ch_closed = True\<rparr>]\<rparr>)
      else (ch, h\<lparr>hb_chans := hb_chans h @ [\<lparr>ch_buf = [], ch_closed = False\<rparr>], hb_subs := hb_subs h @ [ch]\<rparr>))"

definition unsubscribe :: "nat \<Rightarrow> 'e hub \<Rightarrow> hub_panic + 'e hub" where
  "unsubscribe ch h =
     (if ch \<notin> set (hb_subs h) then Inr h
      else closeChan ch (h\<lparr>hb_subs := filter (\<lambda>x. x \<noteq> ch) (hb_subs h)\<rparr>))"

text \<open>A send in a \<^verbatim>\<open>select\<close> with a default: it takes place when there is room and is dropped otherwise.\<close>

definition trySend :: "'e \<Rightarrow> nat \<Rightarrow> 'e hub \<Rightarrow> hub_panic + 'e hub" where
  "trySend ev ch h =
     (let c = hb_chans h ! ch in
      if ch_closed c then Inl (SendOnClosed ch)
      else if length (ch_buf c) < subBuffer then Inr (h\<lparr>hb_chans := (hb_chans h)[ch := c\<lparr>ch_buf := ch_buf c @ [ev]\<rparr>]\<rparr>)
      else Inr h)"

fun overChans :: "(nat \<Rightarrow> 'e hub \<Rightarrow> hub_panic + 'e hub) \<Rightarrow> nat list \<Rightarrow> 'e hub \<Rightarrow> hub_panic + 'e hub" where
  "overChans f [] h = Inr h"
| "overChans f (ch # chs) h = (case f ch h of Inl e \<Rightarrow> Inl e | Inr h' \<Rightarrow> overChans f chs h')"

text \<open>The order in which a \<^verbatim>\<open>range\<close> visits the subscribers is an argument: any permutation of them.\<close>

definition publish :: "nat list \<Rightarrow> 'e \<Rightarrow> 'e hub \<Rightarrow> hub_panic + 'e hub" where
  "publish visit ev h = overChans (trySend ev) visit h"

definition closeHub :: "nat list \<Rightarrow> 'e hub \<Rightarrow> hub_panic + 'e hub" where
  "closeHub visit h =
     (if hb_closed h then Inr h
      else overChans (\<lambda>ch h. closeChan ch (h\<lparr>hb_subs := filter (\<lambda>x. x \<noteq> ch) (hb_subs h)\<rparr>)) visit (h\<lparr>hb_closed := True\<rparr>))"

text \<open>A reader takes the first event of its channel, when there is one.\<close>

definition receive :: "nat \<Rightarrow> 'e hub \<Rightarrow> 'e hub" where
  "receive ch h = h\<lparr>hb_chans := (hb_chans h)[ch := (hb_chans h ! ch)\<lparr>ch_buf := tl (ch_buf (hb_chans h ! ch))\<rparr>]\<rparr>"

section \<open>The invariant\<close>

definition hubOk :: "'e hub \<Rightarrow> bool" where
  "hubOk h \<longleftrightarrow> distinct (hb_subs h) \<and>
     (\<forall>ch < length (hb_chans h). (ch \<in> set (hb_subs h) \<longleftrightarrow> \<not> ch_closed (hb_chans h ! ch)) \<and> length (ch_buf (hb_chans h ! ch)) \<le> subBuffer) \<and>
     (\<forall>ch \<in> set (hb_subs h). ch < length (hb_chans h))"

lemma hubOk_new: "hubOk newSSEHub"
  by (simp add: hubOk_def newSSEHub_def)

lemma hubOk_subscribe: "hubOk h \<Longrightarrow> hubOk (snd (subscribe h))"
  by (auto simp: hubOk_def subscribe_def Let_def nth_append less_Suc_eq)

lemma hubOk_receive: "hubOk h \<Longrightarrow> hubOk (receive ch h)"
  by (cases "ch < length (hb_chans h)") (auto simp: hubOk_def receive_def nth_list_update)

lemma drop_subscriber:
  assumes "hubOk h" "ch \<in> set (hb_subs h)"
  shows "\<exists>h'. closeChan ch (h\<lparr>hb_subs := filter (\<lambda>x. x \<noteq> ch) (hb_subs h)\<rparr>) = Inr h' \<and> hubOk h' \<and>
    set (hb_subs h') = set (hb_subs h) - {ch}"
  using assms by (auto simp: hubOk_def closeChan_def nth_list_update)

text \<open>What a publication does to the channel of one page: the event is appended, unless the buffer is full.\<close>

definition push :: "'e \<Rightarrow> 'e channel \<Rightarrow> 'e channel" where
  "push ev c = c\<lparr>ch_buf := take subBuffer (ch_buf c @ [ev])\<rparr>"

lemma trySend_ok:
  assumes "hubOk h" "ch \<in> set (hb_subs h)"
  shows "\<exists>h'. trySend ev ch h = Inr h' \<and> hubOk h' \<and> hb_subs h' = hb_subs h \<and> hb_closed h' = hb_closed h \<and>
    hb_chans h' = (hb_chans h)[ch := push ev (hb_chans h ! ch)]"
proof -
  let ?c = "hb_chans h ! ch"
  have c: "ch < length (hb_chans h)" "\<not> ch_closed ?c" "length (ch_buf ?c) \<le> subBuffer" using assms by (auto simp: hubOk_def)
  show ?thesis
  proof (cases "length (ch_buf ?c) < subBuffer")
    case True
    with assms c show ?thesis by (auto simp: trySend_def Let_def hubOk_def push_def nth_list_update)
  next
    case False
    with c have "push ev ?c = ?c" by (cases ?c) (simp add: push_def)
    with assms c False show ?thesis by (simp add: trySend_def Let_def)
  qed
qed

definition delivered :: "'e \<Rightarrow> 'e hub \<Rightarrow> nat set \<Rightarrow> 'e channel list" where
  "delivered ev h chs = map (\<lambda>ch. (if ch \<in> chs then push ev else id) (hb_chans h ! ch)) [0..<length (hb_chans h)]"

lemma publish_loop:
  assumes "hubOk h" "set visit \<subseteq> set (hb_subs h)" "distinct visit"
  shows "\<exists>h'. overChans (trySend ev) visit h = Inr h' \<and> hubOk h' \<and> hb_subs h' = hb_subs h \<and> hb_closed h' = hb_closed h \<and>
    hb_chans h' = delivered ev h (set visit)"
  using assms
proof (induction visit arbitrary: h)
  case Nil
  then show ?case by (auto simp: delivered_def intro!: nth_equalityI)
next
  case (Cons ch visit)
  from trySend_ok [of h ch ev] Cons.prems obtain h1 where h1: "trySend ev ch h = Inr h1" "hubOk h1" "hb_subs h1 = hb_subs h" "hb_closed h1 = hb_closed h"
    "hb_chans h1 = (hb_chans h)[ch := push ev (hb_chans h ! ch)]" by auto
  from Cons.IH [OF h1(2)] Cons.prems h1(3) obtain h' where h': "overChans (trySend ev) visit h1 = Inr h'" "hubOk h'"
    "hb_subs h' = hb_subs h" "hb_closed h' = hb_closed h1" "hb_chans h' = delivered ev h1 (set visit)" by auto
  have "ch < length (hb_chans h)" using Cons.prems by (auto simp: hubOk_def)
  then have "delivered ev h1 (set visit) = delivered ev h (set (ch # visit))"
    using Cons.prems(3) by (auto simp: delivered_def h1(5) nth_list_update)
  with h1 h' show ?case by simp
qed

lemma close_loop:
  assumes "hubOk h" "set visit \<subseteq> set (hb_subs h)" "distinct visit"
  shows "\<exists>h'. overChans (\<lambda>ch h. closeChan ch (h\<lparr>hb_subs := filter (\<lambda>x. x \<noteq> ch) (hb_subs h)\<rparr>)) visit h = Inr h' \<and> hubOk h' \<and>
    set (hb_subs h') = set (hb_subs h) - set visit"
  using assms
proof (induction visit arbitrary: h)
  case (Cons ch visit)
  from drop_subscriber [of h ch] Cons.prems obtain h1 where h1: "closeChan ch (h\<lparr>hb_subs := filter (\<lambda>x. x \<noteq> ch) (hb_subs h)\<rparr>) = Inr h1"
    "hubOk h1" "set (hb_subs h1) = set (hb_subs h) - {ch}" by auto
  moreover have "set visit \<subseteq> set (hb_subs h1)" using Cons.prems h1(3) by auto
  ultimately show ?case using Cons.IH [OF h1(2)] Cons.prems by auto
qed auto

section \<open>No operation panics\<close>

datatype 'e hub_op = Subscribe | Unsubscribe nat | Publish "nat list" 'e | CloseHub "nat list" | Receive nat

definition hubOp :: "'e hub_op \<Rightarrow> 'e hub \<Rightarrow> hub_panic + 'e hub" where
  "hubOp a h =
     (case a of
        Subscribe \<Rightarrow> Inr (snd (subscribe h))
      | Unsubscribe ch \<Rightarrow> unsubscribe ch h
      | Publish visit ev \<Rightarrow> publish visit ev h
      | CloseHub visit \<Rightarrow> closeHub visit h
      | Receive ch \<Rightarrow> Inr (receive ch h))"

text \<open>A range over the subscribers visits each of them once.\<close>

definition visits :: "'e hub_op \<Rightarrow> 'e hub \<Rightarrow> bool" where
  "visits a h \<longleftrightarrow> (\<forall>visit. (\<exists>ev. a = Publish visit ev) \<or> a = CloseHub visit \<longrightarrow> distinct visit \<and> set visit = set (hb_subs h))"

lemma hubOk_closed: "hubOk (h\<lparr>hb_closed := b\<rparr>) \<longleftrightarrow> hubOk h"
  by (simp add: hubOk_def)

lemma hub_no_panic:
  assumes "hubOk h" "visits a h"
  shows "\<exists>h'. hubOp a h = Inr h' \<and> hubOk h' \<and> (\<forall>visit ev. a = Publish visit ev \<longrightarrow> hb_chans h' = delivered ev h (set (hb_subs h)))"
proof (cases a)
  case (Publish visit ev)
  with assms publish_loop [of h visit ev] show ?thesis by (auto simp: hubOp_def publish_def visits_def)
next
  case (CloseHub visit)
  with assms close_loop [of "h\<lparr>hb_closed := True\<rparr>" visit] show ?thesis
    by (auto simp: hubOp_def closeHub_def visits_def hubOk_closed)
next
  case (Unsubscribe ch)
  with assms drop_subscriber [of h ch] show ?thesis by (auto simp: hubOp_def unsubscribe_def)
qed (use assms in \<open>auto simp: hubOp_def hubOk_subscribe hubOk_receive\<close>)

end
