(* ===== verification/Spec2Isabelle.thy ===== *)
theory Spec2Isabelle
  imports TaskDeletion HistoryRead ExecutionRace ExecutionRead ExecutionFence QueueV2Props NexusProps MetadataProps
    Listings TaskQueueProps SchemaVersion StoreConfig BrowserListing ControlPlane EventHub
begin

text \<open>
  \<^bold>\<open>A persistence store for Temporal on Aerospike.\<close>

  The program under \<^verbatim>\<open>src/store/aerospike\<close> implements Temporal's persistence interfaces on an Aerospike cluster;
  \<^verbatim>\<open>src/control\<close> is a control plane for a demo of it. Temporal's services run on many nodes and call the store
  concurrently; the store keeps no state of its own, everything is in the records of the cluster. A record is a
  set of named bins, some of them key-ordered maps; a command reads or writes one record, possibly under a
  condition the server evaluates; several commands can form a transaction. What makes the store correct is
  therefore a matter of which commands it sends, in which order, under which conditions.

  \<^bold>\<open>How the program is modelled.\<close> Every exported method of a store is a definition with the name of the Go
  method. It takes an environment (\<open>env\<close>: the configuration and the functions of Temporal's packages the code
  calls) and the fields of its request, and returns a \<^emph>\<open>program\<close>: a tree of commands to the server, each
  followed by a function of the response (\<open>prog\<close> in \<^verbatim>\<open>AeroClient\<close>; \<open>pbind\<close> and \<open>tryP\<close> are Go's sequencing and
  \<^verbatim>\<open>if err != nil\<close>). Results are sums, errors on the left; a Go map the code builds is an association list that it
  ranges over in an arbitrary order (\<open>rangeMap\<close>, a permutation the environment fixes for each length); 32- and 64-bit integers are words; strings are byte strings.

  \<^bold>\<open>The server\<close> is not under \<^verbatim>\<open>src\<close> and is a parameter. \<^verbatim>\<open>AeroServer\<close> defines what one command does to a store of
  records, and states the laws of a strongly consistent cluster as locales: \<open>aerospike\<close> (a command outside a
  transaction takes effect at one instant, or fails, and then may or may not have taken effect; a transaction
  that commits takes effect at one instant, on data nobody changed since it was read; in between other clients
  may do whatever the relation \<open>R\<close> allows), \<open>quiet_aerospike\<close> (nobody interferes and nothing fails) and
  \<open>shared_aerospike\<close> (transactions are fresh, and no client touches another's). The laws are interpreted on a server in memory (\<open>mem_server\<close>), on
  which the witnesses run. \<open>temporal_api\<close> collects what the store relies on in Temporal's packages, among it that
  the name of an encoding parses back to it. A theorem names the laws it needs as hypotheses.

  \<^bold>\<open>Theories and sources.\<close>
  \<^item> \<^verbatim>\<open>Prelude\<close>: words, big-endian and decimal text, key-ordered maps. \<^verbatim>\<open>GoValues\<close>, \<^verbatim>\<open>AeroErrors\<close>, \<^verbatim>\<open>AeroClient\<close>: client values
    and readers, error translation, policies and transaction scopes (\<^verbatim>\<open>client.go\<close>, \<^verbatim>\<open>errors.go\<close>, the scope of
    \<^verbatim>\<open>execution_store.go\<close>). \<^verbatim>\<open>StoreKeys\<close>: every key and set (\<^verbatim>\<open>keys.go\<close> and the key functions of the stores), with
    injectivity. \<^verbatim>\<open>StoreProg\<close>, \<^verbatim>\<open>Interleaving\<close>, \<^verbatim>\<open>Serial\<close>, \<^verbatim>\<open>Frame\<close>, \<^verbatim>\<open>Exclusive\<close>: the generic arguments about programs: a
    run of a transaction is a run of its body at one instant, the step relation \<open>istep\<close> that interleaves any
    number of clients command by command, rely-guarantee, one-winner rules and serialization, and what a body leaves alone.
  \<^item> \<^verbatim>\<open>ShardStore\<close> (\<^verbatim>\<open>shard_store.go\<close>): the shard lease whose range id fences every other write (C1-C3). \<^verbatim>\<open>ShardFence\<close>:
    the ownership check inside a transaction.
  \<^item> \<^verbatim>\<open>TaskCodec\<close>, \<^verbatim>\<open>HistoryTasks\<close>, \<^verbatim>\<open>BucketedQueue\<close>, \<^verbatim>\<open>HistoryTasksProps\<close>, \<^verbatim>\<open>TaskDeletion\<close> (\<^verbatim>\<open>tasks.go\<close>): task keys, buckets
    and their index, reading and completing ranges, the dead-letter queue (C4-C6, C10-C14). The locale
    \<open>bucketed\<close> is the interface of a queue spread over bucket records; the history queues and the dead-letter
    queue are its instances.
  \<^item> \<^verbatim>\<open>RecordOps\<close>, \<^verbatim>\<open>MutableState\<close> (\<^verbatim>\<open>mutable_state.go\<close>): snapshots and mutations of a run as operations on one record
    (C8, C9).
  \<^item> \<^verbatim>\<open>ExecutionStore\<close> (\<^verbatim>\<open>execution_store.go\<close>), with \<^verbatim>\<open>ExecutionParts\<close>, \<^verbatim>\<open>ExecutionProps\<close>, \<^verbatim>\<open>ExecutionUpdate\<close>, \<^verbatim>\<open>ExecutionResolve\<close>,
    \<^verbatim>\<open>ExecutionRace\<close>, \<^verbatim>\<open>ExecutionRead\<close>, \<^verbatim>\<open>ExecutionFence\<close>: creating, updating, resolving and reading workflow runs (C22-C32).
  \<^item> \<^verbatim>\<open>Paging\<close> (the sort of \<^verbatim>\<open>metadata_store.go\<close> and the cursors of \<^verbatim>\<open>cluster_metadata_store.go\<close>, C16). Its locale \<open>listing\<close>
    is the contract of a paged listing; \<^verbatim>\<open>Listings\<close> proves it of \<^verbatim>\<open>ListNamespaces\<close>, \<^verbatim>\<open>ListClusterMetadata\<close>, \<^verbatim>\<open>GetClusterMembers\<close>,
    \<^verbatim>\<open>GetAllHistoryTreeBranches\<close>, \<^verbatim>\<open>ListNexusEndpoints\<close> and \<^verbatim>\<open>ListQueues\<close> (C17).
  \<^item> \<^verbatim>\<open>HistoryStore\<close>, \<^verbatim>\<open>HistoryProps\<close>, \<^verbatim>\<open>HistoryRead\<close> (\<^verbatim>\<open>history_store.go\<close>): history branches (C18-C21).
  \<^item> \<^verbatim>\<open>QueueV2Store\<close>, \<^verbatim>\<open>QueueV2Props\<close> (C33-C35); \<^verbatim>\<open>NexusStore\<close>, \<^verbatim>\<open>NexusProps\<close> (C36); \<^verbatim>\<open>MetadataStore\<close>, \<^verbatim>\<open>MetadataProps\<close> (C37);
    \<^verbatim>\<open>TaskQueueStore\<close>, \<^verbatim>\<open>TaskQueueProps\<close> (C39); \<^verbatim>\<open>ClusterMetadataStore\<close>: the remaining stores.
  \<^item> \<^verbatim>\<open>SchemaVersion\<close> (\<^verbatim>\<open>schema.go\<close>, C7), \<^verbatim>\<open>StoreConfig\<close> (\<^verbatim>\<open>config.go\<close>, \<^verbatim>\<open>context.go\<close>, C38): what runs before and around a store.
  \<^item> \<^verbatim>\<open>NaturalOrder\<close>, \<^verbatim>\<open>RecordBrowser\<close>, \<^verbatim>\<open>BrowserListing\<close> (\<^verbatim>\<open>control/browser.go\<close>, C15), \<^verbatim>\<open>ControlPlane\<close> (\<^verbatim>\<open>control/backend.go\<close>,
    \<^verbatim>\<open>control/server.go\<close>, C40), \<^verbatim>\<open>EventHub\<close> (\<^verbatim>\<open>control/events.go\<close>): the control plane.

  \<^bold>\<open>What the theorems show.\<close>
  \<^item> \<^emph>\<open>Fencing.\<close> The lease moves only from the range id its writer names, to one winner (C1, C2), and creation puts
    one whole record where there was none and never overwrites it (C3). Whoever has lost it can write nothing
    through the five operations that carry a range id: creating, updating, resolving and setting a run and adding
    tasks (C31). The other writes of the execution store (deleting runs, appending and deleting history, completing
    tasks, the dead-letter queue) carry none in the code, and C31 and C32 do not speak of them.
  \<^item> \<^emph>\<open>Atomicity and refinement.\<close> A write that reports success did what its abstract specification says, at one
    instant at which its conditions held, and nothing else: C10, C13, C18, C19, C22, C24, C30, C33, C39. The
    specifications speak of queues, branches, states and pointers, not of records and commands; their frames reach
    inside the records that are written, to the other entries of a map bin and to the other bins.
  \<^item> \<^emph>\<open>Errors.\<close> Which error a call returns is determined by the store, guard by guard (C23, C25); a fenced write
    that fails, other than with one of the four errors \<^verbatim>\<open>convertError\<close> makes of an error of the database, has changed
    nothing (C32).
  \<^item> \<^emph>\<open>Races.\<close> Under every interleaving of any number of clients at most one of those that start from the same
    version succeeds: C2, C26, C27, C36; ids are given out once (C34); pointers of others stay (C29).
  \<^item> \<^emph>\<open>Reading.\<close> Readers return what was written: C4, C8, C9, C21, C28; pages are the right stretch of the right
    order (C5, C11, C20), and following the page tokens ends with everything (C12, C17).
  \<^item> \<^emph>\<open>Deletion.\<close> Exactly the range asked for goes away, and the loops end: C13, C19, C35.
  \<^item> \<^emph>\<open>Limits of the code.\<close> A scheduled upper bound with a positive task id at the first nanosecond of a minute loses its last
    bucket: C6 has to except it, and C11, C12 and C13 state the range that is served instead (\<open>servedBound\<close>). C14 is an
    interleaving that loses a task. The
    lemmas \<open>bucketRange_misses_boundary\<close>, \<open>DeleteNamespace_misses_rename\<close>, \<open>GetTasks_fair_misses_task\<close> and
    \<open>worker_up_during_switch\<close> show on the model where the code does not do what it means to.
  \<^item> \<^emph>\<open>Around the store.\<close> Processes that start together agree on the schema version and nobody overwrites it (C7);
    exactly the well-typed configurations are accepted (C38); the browser shows the queues as the store has them, as far
    as the first 500 records of the scan and the stored user keys go (C15); the sets are emptied only after Temporal has
    left them (C40).

  \<^bold>\<open>Bounds and fuel.\<close> The programs are finite trees, so every operation ends; loops over buckets and pages recurse on a
    list or on the distance to the last bucket, with a termination proof where the recursion is not structural
    (\<open>deleteLoop\<close>, \<open>countLoop\<close>, \<open>startLoop\<close>, \<open>reverseLoop\<close>, \<open>compareNatural\<close>, \<open>durationLoop\<close>). Clients that follow page tokens
    (\<open>drain\<close>, \<open>readAll\<close>) have a bound on the pages, and one page more than there are entries is shown to be enough (C12, C17).
    The only fuel in the model of the code is the number of ticks of \<open>waitForRollout\<close>: it stands for the deadline of the wait
    (\<^verbatim>\<open>RolloutTimeout\<close> at one poll a second) and is arbitrary in C40. Integers keep their width; where a sum can wrap (\<open>maxID + 1\<close> in C35, the counter in C33) the theorem says so.

  \<^bold>\<open>Not modelled.\<close> Message texts, log lines and metrics, and the pause after a truncation. The connection set-up of \<^verbatim>\<open>client.go\<close>,
    \<^verbatim>\<open>factory.go\<close> and \<^verbatim>\<open>testcluster.go\<close> are I/O to a live cluster and wiring, \<^verbatim>\<open>unimplemented.go\<close> returns errors only. JSON page tokens are
    modelled by what they decode to. Deadlines do not appear in the operations of the stores: they shorten the
    timeout of a command (\<open>withCtx_bounded\<close>), and the laws of the server let every command fail. Of the control plane, the
    rendering of values as text, the parsing of info responses, HTTP, authentication and the workflow runner, which
    wraps the Temporal client, are left out, as are the commands and the end-to-end tests.
\<close>

end
